(* ===== verification/Prelude.thy ===== *)
theory Prelude
  imports Main "HOL-Library.Word"
begin

text \<open>
  Shared vocabulary of the development: byte and word types, the result type of fallible C++
  code (a value, a thrown exception, or a fault that leaves the C++ semantics), state-passing
  programs whose state survives an exception, and generic lemmas on lists, big-endian byte
  strings and programs that the components share.
\<close>

unbundle bit_operations_syntax

section \<open>Types\<close>

type_synonym u8 = "8 word"
type_synonym u16 = "16 word"
type_synonym u32 = "32 word"
type_synonym u64 = "64 word"
type_synonym bytes = "u8 list"

text \<open>Message of an exception: fixed text, or text around a number printed by \<open>std::to_string\<close>.\<close>

datatype what = Msg string | Msg_nat string nat string

text \<open>The standard exceptions the code throws.\<close>

datatype exn =
    Invalid_argument what
  | Runtime_error what
  | Logic_error what
  | Out_of_range what
  | Length_error what

text \<open>
  Ways a run leaves the defined behaviour: a read or a write past the end of a buffer, a
  dereferenced null or dangling object, a division by zero, and an exhausted stack bound (re-entrant calls deeper than the fuel).
\<close>

datatype fault = Overread | Overrun | Null_deref | Div_by_zero | Out_of_fuel

datatype 'a res = Ret 'a | Raise exn | Fault fault

type_synonym ('s, 'a) prog = "'s \<Rightarrow> 'a res \<times> 's"

named_theorems prog_simps \<open>unfolding rules of state-passing programs\<close>
named_theorems pres_intros \<open>programs keep an invariant\<close>
named_theorems len_simps \<open>lengths of byte strings built by the code\<close>

section \<open>Fallible values\<close>

fun rbind :: "'a res \<Rightarrow> ('a \<Rightarrow> 'b res) \<Rightarrow> 'b res" where
  "rbind (Ret a) f = f a"
| "rbind (Raise e) f = Raise e"
| "rbind (Fault x) f = Fault x"

lemma rbind_Ret_right [simp]: "rbind r Ret = r"
  by (cases r) auto

lemma rbind_eq_Ret:
  "rbind r f = Ret b \<longleftrightarrow> (\<exists>a. r = Ret a \<and> f a = Ret b)"
  by (cases r) auto

lemma rbind_assoc: "rbind (rbind r f) g = rbind r (\<lambda>a. rbind (f a) g)"
  by (cases r) auto

text \<open>Results that are a value or a thrown exception.\<close>

definition no_fault :: "'a res \<Rightarrow> bool" where
  "no_fault r \<longleftrightarrow> (case r of Fault f \<Rightarrow> False | _ \<Rightarrow> True)"

lemma no_fault_simps [simp]: "no_fault (Ret a)" "no_fault (Raise e)" "\<not> no_fault (Fault f)"
  by (simp_all add: no_fault_def)

lemma no_fault_rbind: "no_fault r \<Longrightarrow> (\<And>a. no_fault (f a)) \<Longrightarrow> no_fault (rbind r f)"
  by (cases r) simp_all

section \<open>State-passing programs\<close>

definition ret :: "'a \<Rightarrow> ('s, 'a) prog" where
  "ret a s = (Ret a, s)"

definition raise :: "exn \<Rightarrow> ('s, 'a) prog" where
  "raise e s = (Raise e, s)"

definition fault :: "fault \<Rightarrow> ('s, 'a) prog" where
  "fault x s = (Fault x, s)"

definition lift :: "'a res \<Rightarrow> ('s, 'a) prog" where
  "lift r s = (r, s)"

definition gets :: "('s \<Rightarrow> 'a) \<Rightarrow> ('s, 'a) prog" where
  "gets f s = (Ret (f s), s)"

definition modify :: "('s \<Rightarrow> 's) \<Rightarrow> ('s, unit) prog" where
  "modify f s = (Ret (), f s)"

definition bnd :: "('s, 'a) prog \<Rightarrow> ('a \<Rightarrow> ('s, 'b) prog) \<Rightarrow> ('s, 'b) prog" where
  "bnd m f s =
     (case m s of
        (Ret a, s') \<Rightarrow> f a s'
      | (Raise e, s') \<Rightarrow> (Raise e, s')
      | (Fault x, s') \<Rightarrow> (Fault x, s'))"

text \<open>\<open>try \<dots> catch (std::exception&)\<close>: the state reached by the throw is kept.\<close>

definition try_catch :: "('s, 'a) prog \<Rightarrow> (exn \<Rightarrow> ('s, 'a) prog) \<Rightarrow> ('s, 'a) prog" where
  "try_catch m h s =
     (case m s of
        (Raise e, s') \<Rightarrow> h e s'
      | (r, s') \<Rightarrow> (r, s'))"

definition when_do :: "bool \<Rightarrow> ('s, unit) prog \<Rightarrow> ('s, unit) prog" where
  "when_do b m = (if b then m else ret ())"

text \<open>Access to an object of a heap: a list of objects, a reference is an index. A handle that refers
  to nothing is a null pointer.\<close>

definition heap_get :: "('s \<Rightarrow> 'o list) \<Rightarrow> nat \<Rightarrow> ('s, 'o) prog" where
  "heap_get h r s = (if r < length (h s) then (Ret (h s ! r), s) else (Fault Null_deref, s))"

text \<open>Programs on one half of a pair of states.\<close>

definition on_fst :: "('s, 'a) prog \<Rightarrow> ('s \<times> 't, 'a) prog" where
  "on_fst m p = (case m (fst p) of (r, s) \<Rightarrow> (r, (s, snd p)))"

definition on_snd :: "('t, 'a) prog \<Rightarrow> ('s \<times> 't, 'a) prog" where
  "on_snd m p = (case m (snd p) of (r, t) \<Rightarrow> (r, (fst p, t)))"

fun for_each :: "'a list \<Rightarrow> ('a \<Rightarrow> ('s, unit) prog) \<Rightarrow> ('s, unit) prog" where
  "for_each [] f = ret ()"
| "for_each (x # xs) f = bnd (f x) (\<lambda>_. for_each xs f)"

fun map_prog :: "('a \<Rightarrow> ('s, 'b) prog) \<Rightarrow> 'a list \<Rightarrow> ('s, 'b list) prog" where
  "map_prog f [] = ret []"
| "map_prog f (x # xs) = bnd (f x) (\<lambda>y. bnd (map_prog f xs) (\<lambda>ys. ret (y # ys)))"

lemma ret_apply [simp]: "ret a s = (Ret a, s)" by (simp add: ret_def)
lemma raise_apply [simp]: "raise e s = (Raise e, s)" by (simp add: raise_def)
lemma fault_apply [simp]: "fault x s = (Fault x, s)" by (simp add: fault_def)
lemma lift_apply [simp]: "lift r s = (r, s)" by (simp add: lift_def)
lemma gets_apply [simp]: "gets f s = (Ret (f s), s)" by (simp add: gets_def)
lemma modify_apply [simp]: "modify f s = (Ret (), f s)" by (simp add: modify_def)

lemma bnd_eqs [simp]:
  "bnd (ret a) f = f a"
  "bnd (raise e) f = raise e"
  "bnd (fault x) f = fault x"
  by (auto simp: bnd_def fun_eq_iff)

lemma bnd_Ret: "m s = (Ret a, s') \<Longrightarrow> bnd m f s = f a s'"
  by (simp add: bnd_def)

lemma bnd_Raise: "m s = (Raise e, s') \<Longrightarrow> bnd m f s = (Raise e, s')"
  by (simp add: bnd_def)

lemma bnd_gets [simp]: "bnd (gets f) g s = g (f s) s"
  by (simp add: bnd_def)

lemma bnd_modify [simp]: "bnd (modify f) g s = g () (f s)"
  by (simp add: bnd_def)

lemma bnd_lift [simp]:
  "bnd (lift (Ret a)) g = g a"
  "bnd (lift (Raise e)) g = raise e"
  "bnd (lift (Fault x)) g = fault x"
  by (auto simp: bnd_def fun_eq_iff)

lemma bnd_assoc: "bnd (bnd m f) g = bnd m (\<lambda>a. bnd (f a) g)"
  by (rule ext) (auto simp: bnd_def split: res.splits prod.splits)

lemma for_each_append: "for_each (xs @ ys) f = bnd (for_each xs f) (\<lambda>_. for_each ys f)"
proof (induction xs)
  case Nil
  show ?case by (rule ext) (simp add: bnd_def)
qed (simp add: bnd_assoc)

lemma when_do_simps [simp]: "when_do True m = m" "when_do False m = ret ()"
  by (simp_all add: when_do_def)

lemma bnd_cases:
  assumes "bnd m f s = (r, t)"
  obtains (Ret) a s' where "m s = (Ret a, s')" "f a s' = (r, t)"
    | (Raise) e where "m s = (Raise e, t)" "r = Raise e"
    | (Fault) x where "m s = (Fault x, t)" "r = Fault x"
  using assms by (auto simp: bnd_def split: res.splits prod.splits)

subsection \<open>Invariants kept by a program, whatever its outcome\<close>

definition preserves :: "('s \<Rightarrow> bool) \<Rightarrow> ('s, 'a) prog \<Rightarrow> bool" where
  "preserves P m \<longleftrightarrow> (\<forall>s. P s \<longrightarrow> P (snd (m s)))"

lemma preservesI: "(\<And>s. P s \<Longrightarrow> P (snd (m s))) \<Longrightarrow> preserves P m"
  by (simp add: preserves_def)

lemma preservesD: "preserves P m \<Longrightarrow> P s \<Longrightarrow> P (snd (m s))"
  by (simp add: preserves_def)

lemma preserves_ret [pres_intros]: "preserves P (ret a)"
  by (simp add: preserves_def)

lemma preserves_raise [pres_intros]: "preserves P (raise e)"
  by (simp add: preserves_def)

lemma preserves_fault [pres_intros]: "preserves P (fault x)"
  by (simp add: preserves_def)

lemma preserves_lift [pres_intros]: "preserves P (lift r)"
  by (simp add: preserves_def)

lemma preserves_gets [pres_intros]: "preserves P (gets f)"
  by (simp add: preserves_def)

lemma preserves_modify: "(\<And>s. P s \<Longrightarrow> P (f s)) \<Longrightarrow> preserves P (modify f)"
  by (simp add: preserves_def)

lemma preserves_bnd [pres_intros]:
  assumes "preserves P m" "\<And>a. preserves P (f a)"
  shows "preserves P (bnd m f)"
proof (rule preservesI)
  fix s assume "P s"
  then have "P (snd (m s))" using assms(1) by (simp add: preserves_def)
  then show "P (snd (bnd m f s))"
    using assms(2) by (auto simp: bnd_def preserves_def split: res.splits prod.splits)
qed

lemma preserves_try_catch [pres_intros]:
  assumes "preserves P m" "\<And>e. preserves P (h e)"
  shows "preserves P (try_catch m h)"
proof (rule preservesI)
  fix s assume "P s"
  then have "P (snd (m s))" using assms(1) by (simp add: preserves_def)
  then show "P (snd (try_catch m h s))"
    using assms(2) by (auto simp: try_catch_def preserves_def split: res.splits prod.splits)
qed

lemma preserves_when_do [pres_intros]: "preserves P m \<Longrightarrow> preserves P (when_do b m)"
  by (simp add: when_do_def preserves_ret)

lemma preserves_for_each [pres_intros]:
  "(\<And>x. preserves P (f x)) \<Longrightarrow> preserves P (for_each xs f)"
  by (induction xs) (auto intro: pres_intros)

lemma preserves_if [pres_intros]:
  "preserves P m \<Longrightarrow> preserves P n \<Longrightarrow> preserves P (if b then m else n)"
  by simp

lemma preserves_option [pres_intros]:
  "preserves P m \<Longrightarrow> (\<And>a. preserves P (f a)) \<Longrightarrow> preserves P (case x of None \<Rightarrow> m | Some a \<Rightarrow> f a)"
  by (cases x) simp_all

lemma preserves_pair [pres_intros]: "(\<And>a b. preserves P (f a b)) \<Longrightarrow> preserves P (case x of (a, b) \<Rightarrow> f a b)"
  by (cases x) simp

section \<open>Big-endian byte strings\<close>

text \<open>The generic form of every shift-and-mask loop of the code; each component's own loop is
  shown equal to it.\<close>

definition be :: "nat \<Rightarrow> 'a::len word \<Rightarrow> bytes" where
  "be n v = map (\<lambda>i. ucast (drop_bit (8 * i) v)) (rev [0..<n])"

definition unbe :: "bytes \<Rightarrow> 'a::len word" where
  "unbe bs = foldl (\<lambda>a b. push_bit 8 a OR ucast b) 0 bs"

lemma length_be [simp, len_simps]: "length (be n v) = n"
  by (simp add: be_def)

lemma unbe_snoc: "unbe (bs @ [b]) = (push_bit 8 (unbe bs) OR ucast b :: 'a::len word)"
  by (simp add: unbe_def)

lemma bit_unbe:
  "bit (unbe bs :: 'a::len word) i \<longleftrightarrow>
     i < LENGTH('a) \<and> i div 8 < length bs \<and> bit (rev bs ! (i div 8)) (i mod 8)"
proof (induction bs arbitrary: i rule: rev_induct)
  case Nil
  then show ?case by (simp add: unbe_def)
next
  case (snoc b bs)
  show ?case
  proof (cases "i < 8")
    case True
    then show ?thesis
      by (auto simp: unbe_snoc bit_or_iff bit_push_bit_iff bit_ucast_iff)
  next
    case False
    then have d: "i div 8 = Suc ((i - 8) div 8)" "i mod 8 = (i - 8) mod 8"
      by (simp_all add: le_div_geq le_mod_geq)
    have nb: "\<not> bit b i"
      using False bit_imp_le_length[of b i] by auto
    show ?thesis
      using False snoc.IH[of "i - 8"] nb
      by (auto simp: unbe_snoc bit_or_iff bit_push_bit_iff bit_ucast_iff d)
  qed
qed

lemma rev_be_nth: "i < n \<Longrightarrow> rev (be n v) ! i = ucast (drop_bit (8 * i) v)"
  by (simp add: be_def rev_map)

lemma bit_be_nth:
  "i < n \<Longrightarrow> bit (rev (be n v) ! i) j \<longleftrightarrow> j < 8 \<and> bit v (8 * i + j)"
  by (auto simp: rev_be_nth bit_ucast_iff bit_drop_bit_eq)

lemma unbe_be: "(unbe (be n v) :: 'a::len word) = take_bit (8 * n) (v :: 'a word)"
proof (rule bit_word_eqI)
  fix i assume "i < LENGTH('a)"
  have "i div 8 < n \<longleftrightarrow> i < 8 * n"
    by (metis div_less_iff_less_mult mult.commute zero_less_numeral)
  moreover have "8 * (i div 8) + i mod 8 = i" by simp
  ultimately show "bit (unbe (be n v) :: 'a word) i = bit (take_bit (8 * n) v) i"
    using \<open>i < LENGTH('a)\<close> by (auto simp: bit_unbe bit_be_nth bit_take_bit_iff)
qed

lemma unbe_be_cast: "(unbe (be n v) :: 'a::len word) = ucast (take_bit (8 * n) (v :: 'b::len word))"
proof (rule bit_word_eqI)
  fix i assume "i < LENGTH('a)"
  have "i div 8 < n \<longleftrightarrow> i < 8 * n"
    by (metis div_less_iff_less_mult mult.commute zero_less_numeral)
  moreover have "8 * (i div 8) + i mod 8 = i" by simp
  ultimately show "bit (unbe (be n v) :: 'a word) i = bit (ucast (take_bit (8 * n) v) :: 'a word) i"
    using \<open>i < LENGTH('a)\<close>
    by (auto simp: bit_unbe bit_be_nth bit_take_bit_iff bit_ucast_iff)
qed

lemma uint_sint_nonneg:
  assumes "0 \<le> sint v"
  shows "uint (v :: 'a::len word) = sint v"
proof -
  have "sint v < 2 ^ (LENGTH('a) - Suc 0)" by (rule sint_less)
  also have "\<dots> \<le> 2 ^ LENGTH('a)" by (rule power_increasing) simp_all
  finally show ?thesis using assms by (simp add: uint_sint take_bit_int_eq_self)
qed

lemma sint_ucast_eq:
  assumes "LENGTH('b) \<le> LENGTH('a)"
    "- (2 ^ (LENGTH('b) - 1)) \<le> sint v" "sint v < 2 ^ (LENGTH('b) - 1)"
  shows "sint (ucast (v :: 'a::len word) :: 'b::len word) = sint v"
proof -
  have "sint (ucast v :: 'b word) = signed_take_bit (LENGTH('b) - 1) (uint v)"
    by (simp only: signed_ucast_eq) simp
  also have "\<dots> = signed_take_bit (LENGTH('b) - 1) (sint v)"
    using assms(1) by (simp only: sint_uint) (simp add: min_def)
  also have "\<dots> = sint v" using assms by (intro signed_take_bit_int_eq_self)
  finally show ?thesis .
qed

lemma scast_ucast_eq:
  assumes "LENGTH('b) \<le> LENGTH('a)"
    "- (2 ^ (LENGTH('b) - 1)) \<le> sint v" "sint v < 2 ^ (LENGTH('b) - 1)"
  shows "scast (ucast v :: 'b::len word) = (v :: 'a::len word)"
proof (rule signed_word_eqI)
  have "sint (scast (ucast v :: 'b word) :: 'a word) = signed_take_bit (LENGTH('a) - 1) (sint v)"
    by (simp only: signed_scast_eq sint_ucast_eq[OF assms]) simp
  then show "sint (scast (ucast v :: 'b word) :: 'a word) = sint v"
    using sint_greater_eq[of v] sint_less[of v] by (simp add: signed_take_bit_int_eq_self)
qed

lemma ucast_take_eq:
  assumes "uint v < 2 ^ n" "n \<le> LENGTH('b::len)"
  shows "ucast (ucast v :: 'b word) = (v :: 'a::len word)"
proof -
  have "uint v < 2 ^ LENGTH('b)"
    using assms power_increasing[of n "LENGTH('b)" "2::int"] by linarith
  then have "take_bit LENGTH('b) (uint v) = uint v" by (simp add: take_bit_int_eq_self)
  moreover have "take_bit LENGTH('a) (uint v) = uint v" by transfer simp
  ultimately have "uint (ucast (ucast v :: 'b word) :: 'a word) = uint v"
    by (subst unsigned_ucast_eq, subst unsigned_ucast_eq) (simp only:)
  then show ?thesis by (simp only: word_uint_eq_iff)
qed

lemma unbe_be_full [simp]: "LENGTH('a) \<le> 8 * n \<Longrightarrow> (unbe (be n v) :: 'a::len word) = v"
  by (simp add: unbe_be take_bit_word_eq_self)

lemma be_unbe:
  assumes "length bs = n" "8 * n \<le> LENGTH('a::len)"
  shows "be n (unbe bs :: 'a word) = bs"
proof (rule nth_equalityI)
  show "length (be n (unbe bs :: 'a word)) = length bs" using assms by simp
  fix i assume i: "i < length (be n (unbe bs :: 'a word))"
  then have i': "i < n" by simp
  have "be n (unbe bs :: 'a word) ! i = rev (be n (unbe bs :: 'a word)) ! (n - Suc i)"
    using i' by (simp add: rev_nth)
  also have "\<dots> = rev bs ! (n - Suc i)"
  proof (rule bit_word_eqI)
    fix j assume j: "j < LENGTH(8)"
    let ?k = "n - Suc i"
    have k: "?k < n" using i' by simp
    then have "8 * ?k + j < LENGTH('a)" using assms(2) j by simp
    then show "bit (rev (be n (unbe bs :: 'a word)) ! ?k) j = bit (rev bs ! ?k) j"
      using k j assms(1) by (simp add: bit_be_nth bit_unbe)
  qed
  also have "\<dots> = bs ! i" using i' assms(1) by (simp add: rev_nth)
  finally show "be n (unbe bs :: 'a word) ! i = bs ! i" .
qed

section \<open>List helpers\<close>

lemma take_append_exact [simp]: "length xs = n \<Longrightarrow> take n (xs @ ys) = xs"
  by simp

lemma drop_append_exact [simp]: "length xs = n \<Longrightarrow> drop n (xs @ ys) = ys"
  by simp

lemma u8_cases_bound: "unat (b :: u8) < 256"
  using unsigned_less [of b, where ?'a = nat] by simp

text \<open>A fact about all bytes by evaluating the 256 cases.\<close>

lemma u8_by_cases: "list_all (\<lambda>n. P (of_nat n :: u8)) [0..<256] \<Longrightarrow> P b"
proof -
  assume "list_all (\<lambda>n. P (of_nat n :: u8)) [0..<256]"
  then have "\<And>n. n < 256 \<Longrightarrow> P (of_nat n :: u8)" by (simp add: list_all_iff)
  from this[of "unat b"] show "P b" using u8_cases_bound[of b] by simp
qed

lemma and_0xFF: "x AND 0xFF = take_bit 8 (x :: 'a::len word)"
  by (simp add: take_bit_eq_mask mask_eq_exp_minus_1)

lemma u8_low_nibble: "b AND 0x0F = take_bit 4 (b :: u8)"
  by (simp add: take_bit_eq_mask mask_eq_exp_minus_1)

lemma u8_high_nibble: "drop_bit 4 (b AND 0xF0) = drop_bit 4 (b :: u8)"
  by (rule u8_by_cases) code_simp

lemma u8_high_nibble_nat: "unat (drop_bit 4 (b AND 0xF0)) = unat (b :: u8) div 16"
  unfolding u8_high_nibble by (simp add: drop_bit_eq_div unat_div)

lemma u8_low_nibble_nat: "unat (b AND 0x0F) = unat (b :: u8) mod 16"
  unfolding u8_low_nibble by (simp add: take_bit_eq_mod unat_mod)

lemma unat_of_char: "unat (of_char c :: u8) = of_char c"
proof -
  have "(of_char c :: u8) = of_nat (of_char c)" by (simp add: of_nat_of_char)
  then have "unat (of_char c :: u8) = of_char c mod 256" by (simp add: unat_of_nat)
  then show ?thesis by simp
qed

lemma of_char_inj: "of_char c = (of_char d :: u8) \<Longrightarrow> c = d"
  by (metis unat_of_char of_char_eqI)

section \<open>Refinement of one machine by another\<close>

fun run_ops :: "('op \<Rightarrow> 's \<Rightarrow> 's res) \<Rightarrow> 'op list \<Rightarrow> 's \<Rightarrow> 's res" where
  "run_ops step [] s = Ret s"
| "run_ops step (op # ops) s = rbind (step op s) (run_ops step ops)"

text \<open>
  A concrete machine with an invariant implements an abstract one: every admissible operation
  keeps the invariant and commutes with the abstraction, exceptions included.
\<close>

locale simulation =
  fixes cstep :: "'op \<Rightarrow> 'c \<Rightarrow> 'c res"
    and astep :: "'op \<Rightarrow> 'a \<Rightarrow> 'a res"
    and abs :: "'c \<Rightarrow> 'a"
    and inv :: "'c \<Rightarrow> bool"
    and ok :: "'op \<Rightarrow> bool"
  assumes sim_inv: "inv c \<Longrightarrow> ok op \<Longrightarrow> cstep op c = Ret c' \<Longrightarrow> inv c'"
    and sim_abs: "inv c \<Longrightarrow> ok op \<Longrightarrow> astep op (abs c) = map_res abs (cstep op c)"
begin

lemma run_inv: "inv c \<Longrightarrow> list_all ok ops \<Longrightarrow> run_ops cstep ops c = Ret c' \<Longrightarrow> inv c'"
  by (induction ops arbitrary: c) (auto simp: rbind_eq_Ret dest: sim_inv)

lemma run_abs:
  "inv c \<Longrightarrow> list_all ok ops \<Longrightarrow> run_ops astep ops (abs c) = map_res abs (run_ops cstep ops c)"
proof (induction ops arbitrary: c)
  case Nil
  then show ?case by simp
next
  case (Cons op ops)
  then have "astep op (abs c) = map_res abs (cstep op c)" by (simp add: sim_abs)
  then show ?case
    using Cons sim_inv[of c op] by (cases "cstep op c") auto
qed

end

end
