(* ===== verification/ByteBuf.thy ===== *)
theory ByteBuf
  imports Prelude "HOL-Library.List_Lexorder"
begin

text \<open>
  The value semantics of \<open>RNS::Bytes\<close> (include/rtreticulum/bytes.h, src/bytes.cpp): slicing,
  resizing, checked indexing, comparison, substring search and the hexadecimal codec. A
  \<open>Bytes\<close> value is the list of its bytes; a null and an empty buffer are the same value. That the
  copy-on-write sharing underneath gives exactly these values is shown in theory CowBytes.
\<close>

section \<open>Slices, resizing and indexing\<close>

definition bytes_left :: "nat \<Rightarrow> bytes \<Rightarrow> bytes" where
  "bytes_left len b = (let len = (if len > length b then length b else len) in take len b)"

definition bytes_right :: "nat \<Rightarrow> bytes \<Rightarrow> bytes" where
  "bytes_right len b =
     (let len = (if len > length b then length b else len) in take len (drop (length b - len) b))"

definition bytes_mid :: "nat \<Rightarrow> nat \<Rightarrow> bytes \<Rightarrow> bytes" where
  "bytes_mid beginpos len b =
     (if beginpos \<ge> length b then []
      else let remaining = length b - beginpos;
               len = (if len > remaining then remaining else len)
           in take len (drop beginpos b))"

definition bytes_mid_rest :: "nat \<Rightarrow> bytes \<Rightarrow> bytes" where
  "bytes_mid_rest beginpos b =
     (if beginpos \<ge> length b then [] else take (length b - beginpos) (drop beginpos b))"

definition bytes_resize :: "nat \<Rightarrow> bytes \<Rightarrow> bytes" where
  "bytes_resize newsize b =
     (if newsize = length b then b
      else if newsize < length b then take newsize b
      else b @ replicate (newsize - length b) 0)"

definition bytes_get :: "nat \<Rightarrow> bytes \<Rightarrow> u8 res" where
  "bytes_get i b =
     (if i \<ge> length b then Raise (Out_of_range (Msg ''Index out of bounds'')) else Ret (b ! i))"

definition bytes_set :: "nat \<Rightarrow> u8 \<Rightarrow> bytes \<Rightarrow> bytes res" where
  "bytes_set i x b =
     (if i \<ge> length b then Raise (Out_of_range (Msg ''Index out of bounds'')) else Ret (b[i := x]))"

lemma bytes_left_eq [simp]: "bytes_left n b = take n b"
  by (simp add: bytes_left_def)

lemma bytes_right_eq: "bytes_right n b = drop (length b - n) b"
  by (simp add: bytes_right_def)

lemma bytes_mid_eq [simp]: "bytes_mid i n b = take n (drop i b)"
  by (simp add: bytes_mid_def Let_def)

lemma bytes_mid_rest_eq [simp]: "bytes_mid_rest i b = drop i b"
  by (simp add: bytes_mid_rest_def)

lemma length_bytes_resize [simp, len_simps]: "length (bytes_resize n b) = n"
  by (simp add: bytes_resize_def)

lemma bytes_resize_shrink: "n \<le> length b \<Longrightarrow> bytes_resize n b = take n b"
  by (simp add: bytes_resize_def)

section \<open>Comparison\<close>

text \<open>\<open>std::vector\<close>'s \<open>operator<\<close>: lexicographic on unsigned bytes.\<close>

fun vec_less :: "bytes \<Rightarrow> bytes \<Rightarrow> bool" where
  "vec_less [] [] = False"
| "vec_less [] (b # bs) = True"
| "vec_less (a # as) [] = False"
| "vec_less (a # as) (b # bs) = (if a < b then True else if b < a then False else vec_less as bs)"

definition bytes_compare :: "bytes \<Rightarrow> bytes \<Rightarrow> int" where
  "bytes_compare a b =
     (if a = [] \<and> b = [] then 0
      else if a = [] then -1
      else if b = [] then 1
      else if vec_less a b then -1
      else if vec_less b a then 1
      else 0)"

text \<open>C's \<open>memcmp\<close> on the first bytes of two buffers; the standard fixes only the sign.\<close>

fun memcmp :: "bytes \<Rightarrow> bytes \<Rightarrow> nat \<Rightarrow> int" where
  "memcmp (a # as) (b # bs) (Suc n) = (if a < b then -1 else if b < a then 1 else memcmp as bs n)"
| "memcmp _ _ _ = 0"

definition bytes_compare_buf :: "bytes \<Rightarrow> bytes \<Rightarrow> int" where
  "bytes_compare_buf a buf =
     (if a = [] \<and> length buf = 0 then 0
      else if a = [] then -1
      else let cmp = memcmp a buf (if length a < length buf then length a else length buf)
           in if cmp = 0 \<and> length a < length buf then -1
              else if cmp = 0 \<and> length a > length buf then 1
              else cmp)"

lemma vec_less_iff: "vec_less a b \<longleftrightarrow> a < b"
  by (induction a b rule: vec_less.induct) auto

lemma bytes_compare_less: "bytes_compare a b < 0 \<longleftrightarrow> a < b"
  by (cases a; cases b) (auto simp: bytes_compare_def vec_less_iff)

lemma bytes_compare_greater: "bytes_compare a b > 0 \<longleftrightarrow> b < a"
  by (cases a; cases b) (auto simp: bytes_compare_def vec_less_iff)

lemma bytes_compare_zero: "bytes_compare a b = 0 \<longleftrightarrow> a = b"
proof (cases "a = [] \<or> b = []")
  case True then show ?thesis by (auto simp: bytes_compare_def)
next
  case False
  then show ?thesis by (auto simp: bytes_compare_def vec_less_iff not_less_iff_gr_or_eq)
qed

lemma memcmp_compare:
  "(let cmp = memcmp a b (min (length a) (length b))
    in if cmp = 0 \<and> length a < length b then -1
       else if cmp = 0 \<and> length a > length b then 1 else cmp) =
   (if vec_less a b then -1 else if vec_less b a then 1 else 0)"
proof (induction a b rule: vec_less.induct)
  case (4 a as b bs)
  have min: "min (length (a # as)) (length (b # bs)) = Suc (min (length as) (length bs))" by simp
  consider "a < b" | "b < a" | "a = b" by force
  then show ?case
  proof cases
    case 3
    then have n: "\<not> a < b" "\<not> b < a" by simp_all
    have lt: "length (a # as) < length (b # bs) \<longleftrightarrow> length as < length bs"
      "length (b # bs) < length (a # as) \<longleftrightarrow> length bs < length as" by simp_all
    show ?thesis
      unfolding min memcmp.simps(1) vec_less.simps(4) lt using "4.IH"[OF n] 3
      by (simp only: less_irrefl if_False)
  qed (auto simp: min)
qed (simp_all add: Let_def)

lemma bytes_compare_buf_eq: "bytes_compare_buf a b = bytes_compare a b"
proof -
  have m: "(if length a < length b then length a else length b) = min (length a) (length b)" by simp
  show ?thesis
    unfolding bytes_compare_buf_def m memcmp_compare
    by (cases a; cases b) (simp_all add: bytes_compare_def)
qed

section \<open>Substring search\<close>

definition memmem :: "bytes \<Rightarrow> bytes \<Rightarrow> nat option" where
  "memmem h n =
     (if length n = 0 then Some 0
      else if length h < length n then None
      else List.find (\<lambda>i. h ! i = n ! 0 \<and> memcmp (drop i h) n (length n) = 0)
             [0..<length h - length n + 1])"

text \<open>\<open>(int)\<close> of a pointer difference, at 32 bits.\<close>

definition to_int32 :: "nat \<Rightarrow> int" where
  "to_int32 n = signed_take_bit 31 (int n)"

definition bytes_find :: "int \<Rightarrow> bytes \<Rightarrow> bytes \<Rightarrow> int" where
  "bytes_find pos str b =
     (if b = [] \<or> pos < 0 \<or> nat pos \<ge> length b then -1
      else case memmem (drop (nat pos) b) str of
             None \<Rightarrow> -1
           | Some k \<Rightarrow> to_int32 (nat pos + k))"

definition occurs_at :: "bytes \<Rightarrow> bytes \<Rightarrow> nat \<Rightarrow> bool" where
  "occurs_at str b i \<longleftrightarrow> take (length str) (drop i b) = str"

lemma memcmp_zero:
  "n \<le> length a \<Longrightarrow> n \<le> length b \<Longrightarrow> memcmp a b n = 0 \<longleftrightarrow> take n a = take n b"
  by (induction a b n rule: memcmp.induct) auto

lemma find_upt_Some:
  "List.find P [0..<n] = Some i \<longleftrightarrow> i < n \<and> P i \<and> (\<forall>j < i. \<not> P j)"
  by (auto simp: find_Some_iff)

lemma occurs_at_memcmp:
  assumes "i \<le> length h - length n" "length n \<le> length h" "n \<noteq> []"
  shows "(h ! i = n ! 0 \<and> memcmp (drop i h) n (length n) = 0) \<longleftrightarrow> occurs_at n h i"
proof -
  have le: "length n \<le> length (drop i h)" using assms by simp
  have "h ! i = n ! 0" if "take (length n) (drop i h) = n"
  proof -
    have "n ! 0 = take (length n) (drop i h) ! 0" using that by simp
    also have "\<dots> = drop i h ! 0" using assms(3) by simp
    also have "\<dots> = h ! i" using le assms(1,3) by (subst nth_drop) auto
    finally show ?thesis by simp
  qed
  then show ?thesis using le by (auto simp: occurs_at_def memcmp_zero)
qed

lemma occurs_at_bound: "occurs_at n h i \<Longrightarrow> i \<le> length h \<Longrightarrow> length n + i \<le> length h"
  by (auto simp: occurs_at_def dest!: arg_cong[where f = length] split: if_splits)

lemma memmem_Some:
  "memmem h n = Some i \<longleftrightarrow> i \<le> length h \<and> occurs_at n h i \<and> (\<forall>j < i. \<not> occurs_at n h j)"
proof (cases "n = [] \<or> length h < length n")
  case True
  then show ?thesis
    by (auto simp: memmem_def dest: occurs_at_bound) (auto simp: occurs_at_def)
next
  case False
  then have le: "length n \<le> length h" "n \<noteq> []" by auto
  have "memmem h n = Some i \<longleftrightarrow> i < length h - length n + 1 \<and>
      (h ! i = n ! 0 \<and> memcmp (drop i h) n (length n) = 0) \<and>
      (\<forall>j < i. \<not> (h ! j = n ! 0 \<and> memcmp (drop j h) n (length n) = 0))"
    using False by (simp add: memmem_def find_upt_Some del: upt_Suc)
  also have "\<dots> \<longleftrightarrow> i \<le> length h \<and> occurs_at n h i \<and> (\<forall>j < i. \<not> occurs_at n h j)"
  proof (cases "i \<le> length h - length n")
    case True
    then have "\<And>j. j \<le> i \<Longrightarrow>
        (h ! j = n ! 0 \<and> memcmp (drop j h) n (length n) = 0) \<longleftrightarrow> occurs_at n h j"
      by (intro occurs_at_memcmp le) simp
    then show ?thesis using True le by auto
  next
    case False
    then show ?thesis using occurs_at_bound[of n h i] le by auto
  qed
  finally show ?thesis .
qed

lemma to_int32_small: "n < 2 ^ 31 \<Longrightarrow> to_int32 n = int n"
  by (simp add: to_int32_def signed_take_bit_int_eq_self)

lemma bytes_find_found:
  assumes "length b < 2 ^ 31" "0 \<le> pos" "pos < int (length b)"
    and "pos \<le> int i" "i \<le> length b" "occurs_at str b i"
  shows "bytes_find pos str b = int (LEAST i. pos \<le> int i \<and> i \<le> length b \<and> occurs_at str b i)"
proof -
  let ?Q = "\<lambda>i. pos \<le> int i \<and> i \<le> length b \<and> occurs_at str b i"
  let ?m = "LEAST i. ?Q i" and ?p = "nat pos"
  have m: "?Q ?m" by (rule LeastI[of ?Q i]) (use assms in simp)
  have le: "?m \<le> j" if "?Q j" for j using that by (rule Least_le)
  have "memmem (drop ?p b) str = Some (?m - ?p)"
    unfolding memmem_Some
  proof (intro conjI allI impI)
    show "?m - ?p \<le> length (drop ?p b)" using m by (simp add: diff_le_mono)
    have "?p \<le> ?m" using m by (simp only: nat_le_iff)
    then have "?m - ?p + ?p = ?m" by (rule le_add_diff_inverse2)
    then show "occurs_at str (drop ?p b) (?m - ?p)" using m by (simp add: occurs_at_def)
    fix j assume j: "j < ?m - ?p"
    show "\<not> occurs_at str (drop ?p b) j"
    proof
      assume "occurs_at str (drop ?p b) j"
      then have "?Q (?p + j)" using j m assms(2) by (auto simp: occurs_at_def add.commute)
      then have "?m \<le> ?p + j" by (rule le)
      with j show False by simp
    qed
  qed
  moreover have "?p \<le> ?m" using m by (simp only: nat_le_iff)
  then have "?p + (?m - ?p) = ?m" by (rule le_add_diff_inverse)
  moreover have "?m < 2 ^ 31" using m assms(1) by simp
  ultimately show ?thesis
    using assms by (auto simp: bytes_find_def to_int32_small)
qed

lemma bytes_find_absent:
  assumes "length b < 2 ^ 31" "0 \<le> pos" "pos < int (length b)"
    and "\<And>i. pos \<le> int i \<Longrightarrow> i \<le> length b \<Longrightarrow> \<not> occurs_at str b i"
  shows "bytes_find pos str b = -1"
proof -
  have "memmem (drop (nat pos) b) str = None"
  proof (rule ccontr)
    assume "memmem (drop (nat pos) b) str \<noteq> None"
    then obtain k where "memmem (drop (nat pos) b) str = Some k" by auto
    then have "k + nat pos \<le> length b" "occurs_at str b (nat pos + k)"
      using assms(2,3) by (auto simp: memmem_Some occurs_at_def add.commute)
    then show False using assms(4)[of "nat pos + k"] assms(2) by simp
  qed
  then show ?thesis using assms by (simp add: bytes_find_def)
qed

section \<open>Hexadecimal\<close>

text \<open>One hex digit, as the branch-free formula of the code; \<open>hex\<close> characters are bytes and the
  arithmetic is in \<open>int\<close>.\<close>

definition hex_nibble :: "u8 \<Rightarrow> nat" where
  "hex_nibble c = (unat c mod 32 + 9) mod 25"

fun hex_pairs :: "bytes \<Rightarrow> bytes" where
  "hex_pairs (h # l # r) = of_nat (hex_nibble h * 16 + hex_nibble l) # hex_pairs r"
| "hex_pairs _ = []"

definition assign_hex :: "bytes \<Rightarrow> bytes" where
  "assign_hex hex = hex_pairs hex"

definition append_hex :: "bytes \<Rightarrow> bytes \<Rightarrow> bytes" where
  "append_hex b hex = b @ hex_pairs hex"

definition hex_upper_chars :: string where
  "hex_upper_chars = ''0123456789ABCDEF''"

definition hex_lower_chars :: string where
  "hex_lower_chars = ''0123456789abcdef''"

definition hex_from_byte :: "u8 \<Rightarrow> bool \<Rightarrow> string" where
  "hex_from_byte byte upper =
     (let t = (if upper then hex_upper_chars else hex_lower_chars)
      in [t ! unat (drop_bit 4 (byte AND 0xF0)), t ! unat (byte AND 0x0F)])"

definition to_hex :: "bool \<Rightarrow> bytes \<Rightarrow> string" where
  "to_hex upper b =
     (let t = (if upper then hex_upper_chars else hex_lower_chars)
      in concat (map (\<lambda>byte. [t ! unat (drop_bit 4 (byte AND 0xF0)), t ! unat (byte AND 0x0F)]) b))"

text \<open>\<open>Bytes(const std::string&)\<close> and \<open>Bytes::toString\<close>.\<close>

definition str_bytes :: "string \<Rightarrow> bytes" where
  "str_bytes s = map of_char s"

definition bytes_str :: "bytes \<Rightarrow> string" where
  "bytes_str b = map (\<lambda>x. char_of (unat x)) b"

lemma str_bytes_Cons [simp]: "str_bytes (c # s) = of_char c # str_bytes s"
  and str_bytes_Nil [simp]: "str_bytes [] = []"
  by (simp_all add: str_bytes_def)

lemma str_bytes_append [simp]: "str_bytes (s @ t) = str_bytes s @ str_bytes t"
  by (simp add: str_bytes_def)

lemma length_str_bytes [simp, len_simps]: "length (str_bytes s) = length s"
  by (simp add: str_bytes_def)

lemma length_to_hex [simp, len_simps]: "length (to_hex up b) = 2 * length b"
  by (induction b) (auto simp: to_hex_def Let_def)

lemma to_hex_Cons: "to_hex up (x # b) = hex_from_byte x up @ to_hex up b"
  by (simp add: to_hex_def hex_from_byte_def Let_def)


lemma str_bytes_inj: "str_bytes s = str_bytes t \<Longrightarrow> s = t"
  unfolding str_bytes_def by (rule map_injective) (auto simp: inj_def dest: of_char_inj)

lemma hex_nibble_digit:
  assumes "n < 16"
  shows "hex_nibble (of_char ((if up then hex_upper_chars else hex_lower_chars) ! n)) = n"
proof -
  have "list_all (\<lambda>n. hex_nibble (of_char (hex_upper_chars ! n)) = n \<and>
      hex_nibble (of_char (hex_lower_chars ! n)) = n) [0..<16]" by code_simp
  then show ?thesis using assms by (simp add: list_all_iff)
qed

lemma hex_byte_back:
  "of_nat (unat (drop_bit 4 (x AND 0xF0)) * 16 + unat (x AND 0x0F)) = (x :: u8)"
proof -
  have "unat (drop_bit 4 (x AND 0xF0)) * 16 + unat (x AND 0x0F) = unat x"
    unfolding u8_high_nibble_nat u8_low_nibble_nat by simp
  then show ?thesis by simp
qed

lemma hex_pairs_to_hex: "hex_pairs (str_bytes (to_hex up b)) = b"
proof (induction b)
  case Nil
  show ?case by (simp add: to_hex_def str_bytes_def)
next
  case (Cons x b)
  have lt: "unat (drop_bit 4 (x AND 0xF0)) < 16" "unat (x AND 0x0F) < 16"
    unfolding u8_high_nibble_nat u8_low_nibble_nat
    using u8_cases_bound[of x] by simp_all
  show ?case
    using Cons hex_byte_back[of x] hex_nibble_digit[OF lt(1), of up] hex_nibble_digit[OF lt(2), of up]
    by (simp add: to_hex_Cons hex_from_byte_def str_bytes_def Let_def)
qed

lemma hex_pairs_odd: "even (length h) \<Longrightarrow> hex_pairs (h @ [c]) = hex_pairs h"
  by (induction h rule: hex_pairs.induct) auto

section \<open>Properties\<close>

text \<open>C20. Comparison is the lexicographic order on unsigned bytes, and it is a strict total order
  on values, as \<open>std::map<Bytes, \<dots>>\<close> needs of its keys; the overload that compares with a raw
  buffer agrees with it.\<close>

theorem bytes_compare_order:
  "(bytes_compare a b < 0 \<longleftrightarrow> a < b) \<and> (bytes_compare a b = 0 \<longleftrightarrow> a = b) \<and>
   (bytes_compare a b > 0 \<longleftrightarrow> b < a) \<and> bytes_compare_buf a b = bytes_compare a b"
  using bytes_compare_less bytes_compare_greater bytes_compare_zero bytes_compare_buf_eq by blast

text \<open>C21. Hexadecimal printing, in either case, is undone by the branch-free parser, and a
  trailing odd digit is ignored.\<close>

theorem hex_roundtrip:
  "assign_hex (str_bytes (to_hex upper b)) = b \<and>
   assign_hex (str_bytes (to_hex upper b @ [c])) = b"
  by (simp add: assign_hex_def hex_pairs_to_hex hex_pairs_odd)

text \<open>C22. \<open>find\<close> returns the least position at or after \<open>pos\<close> where the string occurs, or -1.\<close>

theorem bytes_find_least:
  assumes "length b < 2 ^ 31" "0 \<le> pos" "pos < int (length b)"
  shows "bytes_find pos str b =
     (if \<exists>i. pos \<le> int i \<and> i \<le> length b \<and> occurs_at str b i
      then int (LEAST i. pos \<le> int i \<and> i \<le> length b \<and> occurs_at str b i) else -1)"
  using bytes_find_found[OF assms] bytes_find_absent[OF assms] by auto

theorem bytes_find_least_witness: "bytes_find 2 [2, 3] [1, 2, 3, 2, 3] = 3"
proof -
  let ?b = "[1, 2, 3, 2, 3 :: u8]"
  let ?at = "\<lambda>i. 2 \<le> int i \<and> i \<le> length ?b \<and> occurs_at [2, 3] ?b i"
  have o: "?at 3" and n: "\<not> occurs_at [2, 3] ?b 2" by (simp_all add: occurs_at_def)
  have "(LEAST i. ?at i) = 3"
  proof (rule Least_equality)
    fix i assume "?at i"
    then show "3 \<le> i" using n by (cases "i = 2") auto
  qed (rule o)
  moreover have "bytes_find 2 [2, 3] ?b = (if \<exists>i. ?at i then int (LEAST i. ?at i) else -1)"
    by (rule bytes_find_least) (simp_all add: less_le_trans[of _ 8])
  ultimately show ?thesis using o by (simp only: if_P[OF exI[where P = ?at, OF o]] of_nat_numeral)
qed

end
