(* ===== verification/CowBytes.thy ===== *)
theory CowBytes
  imports ByteBuf
begin

text \<open>
  The copy-on-write sharing of \<open>RNS::Bytes\<close>: every object holds a pointer to a shared block and a
  flag that it is the only holder; assignment shares the block, mutation first makes the object's
  block its own. The theory shows that the sharing is invisible: every operation changes the
  value of its target only, exactly as on plain values.

  Blocks are never reclaimed in the model (\<open>shared_ptr\<close> frees a block only when no object
  holds it), and a block's capacity is left out: it does not affect any value.
\<close>

section \<open>Objects and blocks\<close>

record bobj =
  b_data :: "nat option"
  b_exclusive :: bool

record cow =
  blocks :: "bytes list"
  objs :: "nat \<Rightarrow> bobj"

definition fresh_obj :: bobj where
  "fresh_obj = \<lparr>b_data = None, b_exclusive = True\<rparr>"

definition init_cow :: cow where
  "init_cow = \<lparr>blocks = [], objs = (\<lambda>_. fresh_obj)\<rparr>"

definition cow_val :: "cow \<Rightarrow> nat \<Rightarrow> bytes" where
  "cow_val s v = (case b_data (objs s v) of None \<Rightarrow> [] | Some a \<Rightarrow> blocks s ! a)"

definition alloc :: "nat \<Rightarrow> bytes \<Rightarrow> cow \<Rightarrow> cow" where
  "alloc v c s =
     s\<lparr>blocks := blocks s @ [c],
       objs := (objs s)(v := \<lparr>b_data = Some (length (blocks s)), b_exclusive = True\<rparr>)\<rparr>"

section \<open>The operations\<close>

definition new_data :: "nat \<Rightarrow> cow \<Rightarrow> cow" where
  "new_data v s = alloc v [] s"

definition exclusive_data :: "nat \<Rightarrow> bool \<Rightarrow> cow \<Rightarrow> cow" where
  "exclusive_data v copy s =
     (case b_data (objs s v) of
        None \<Rightarrow> new_data v s
      | Some a \<Rightarrow>
          if \<not> b_exclusive (objs s v) then
            (if copy \<and> blocks s ! a \<noteq> [] then alloc v (blocks s ! a) s else new_data v s)
          else s)"

text \<open>Writes through \<open>_data\<close>, once it points to a block.\<close>

definition put_block :: "nat \<Rightarrow> (bytes \<Rightarrow> bytes) \<Rightarrow> cow \<Rightarrow> cow" where
  "put_block v f s =
     (case b_data (objs s v) of
        None \<Rightarrow> s
      | Some a \<Rightarrow> s\<lparr>blocks := (blocks s)[a := f (blocks s ! a)]\<rparr>)"









definition cow_resize :: "nat \<Rightarrow> nat \<Rightarrow> cow \<Rightarrow> cow" where
  "cow_resize v newsize s =
     (if newsize = length (cow_val s v) then s
      else put_block v (bytes_resize newsize) (exclusive_data v True s))"

text \<open>\<open>writable\<close> returns the block's address for the caller to fill.\<close>

definition cow_writable :: "nat \<Rightarrow> nat \<Rightarrow> cow \<Rightarrow> nat option \<times> cow" where
  "cow_writable v sz s =
     (if sz > 0 then
        let s = cow_resize v sz (exclusive_data v False s) in (b_data (objs s v), s)
      else if b_data (objs s v) \<noteq> None then
        let current = length (cow_val s v);
            s = cow_resize v current (exclusive_data v False s)
        in (b_data (objs s v), s)
      else (None, s))"




section \<open>The sharing invariant\<close>

text \<open>Pointers are valid, and an object that claims to be the only holder of its block is.\<close>

definition cow_inv :: "cow \<Rightarrow> bool" where
  "cow_inv s \<longleftrightarrow>
     (\<forall>v a. b_data (objs s v) = Some a \<longrightarrow> a < length (blocks s)) \<and>
     (\<forall>v w a. v \<noteq> w \<longrightarrow> b_data (objs s v) = Some a \<longrightarrow> b_data (objs s w) = Some a \<longrightarrow>
        \<not> b_exclusive (objs s v))"

definition owns :: "cow \<Rightarrow> nat \<Rightarrow> bool" where
  "owns s v \<longleftrightarrow> b_data (objs s v) \<noteq> None \<and> b_exclusive (objs s v)"

lemma cow_inv_init: "cow_inv init_cow"
  by (simp add: cow_inv_def init_cow_def fresh_obj_def)


lemma cow_inv_bound: "cow_inv s \<Longrightarrow> b_data (objs s v) = Some a \<Longrightarrow> a < length (blocks s)"
  by (auto simp: cow_inv_def)

lemma cow_inv_unique:
  "cow_inv s \<Longrightarrow> v \<noteq> w \<Longrightarrow> b_data (objs s v) = Some a \<Longrightarrow> b_data (objs s w) = Some a \<Longrightarrow>
   \<not> b_exclusive (objs s v)"
  unfolding cow_inv_def by simp

lemma alloc_inv: "cow_inv s \<Longrightarrow> cow_inv (alloc v c s)"
  unfolding cow_inv_def by (auto simp: alloc_def less_Suc_eq)

lemma alloc_val: "cow_inv s \<Longrightarrow> cow_val (alloc v c s) = (cow_val s)(v := c)"
  by (auto simp: cow_val_def alloc_def fun_eq_iff nth_append dest: cow_inv_bound split: option.split)

lemma alloc_owns: "owns (alloc v c s) v"
  by (simp add: owns_def alloc_def)

lemma exclusive_data_inv: "cow_inv s \<Longrightarrow> cow_inv (exclusive_data v copy s)"
  by (auto simp: exclusive_data_def new_data_def alloc_inv split: option.split)

lemma exclusive_data_owns: "owns (exclusive_data v copy s) v"
  by (auto simp: exclusive_data_def new_data_def alloc_owns split: option.split)
     (auto simp: owns_def)

lemma exclusive_data_val_copy: "cow_inv s \<Longrightarrow> cow_val (exclusive_data v True s) = cow_val s"
  by (auto simp: exclusive_data_def new_data_def alloc_val fun_eq_iff split: option.split)
     (auto simp: cow_val_def split: option.split)

lemma exclusive_data_val_other:
  "cow_inv s \<Longrightarrow> w \<noteq> v \<Longrightarrow> cow_val (exclusive_data v copy s) w = cow_val s w"
  by (auto simp: exclusive_data_def new_data_def alloc_val split: option.split)

lemma objs_put_block [simp]: "objs (put_block v f s) = objs s"
  by (simp add: put_block_def split: option.split)

lemma length_blocks_put_block [simp]: "length (blocks (put_block v f s)) = length (blocks s)"
  by (simp add: put_block_def split: option.split)

lemma put_block_inv: "cow_inv s \<Longrightarrow> cow_inv (put_block v f s)"
  by (simp add: cow_inv_def)

lemma put_block_owns: "owns (put_block v f s) v \<longleftrightarrow> owns s v"
  by (simp add: owns_def)

lemma owns_private:
  assumes "cow_inv s" "owns s v" "b_data (objs s v) = Some a" "w \<noteq> v"
  shows "b_data (objs s w) \<noteq> Some a"
proof -
  have "\<not> b_exclusive (objs s v)" if "b_data (objs s w) = Some a"
    using cow_inv_unique[OF assms(1) _ assms(3) that] assms(4) by simp
  then show ?thesis using assms(2) by (auto simp: owns_def)
qed

lemma put_block_val:
  assumes "cow_inv s" "owns s v"
  shows "cow_val (put_block v f s) = (cow_val s)(v := f (cow_val s v))"
proof
  fix w
  from assms(2) obtain a where a: "b_data (objs s v) = Some a" by (auto simp: owns_def)
  have lt: "a < length (blocks s)" using assms(1) a by (rule cow_inv_bound)
  have b: "blocks (put_block v f s) = (blocks s)[a := f (blocks s ! a)]"
    using a by (simp add: put_block_def)
  have v: "cow_val s v = blocks s ! a" "cow_val (put_block v f s) v = f (blocks s ! a)"
    using lt by (simp_all add: cow_val_def a b)
  show "cow_val (put_block v f s) w = ((cow_val s)(v := f (cow_val s v))) w"
  proof (cases "w = v")
    case True
    then show ?thesis by (simp add: v)
  next
    case False
    then have "b_data (objs s w) \<noteq> Some a" by (rule owns_private[OF assms a])
    then have "cow_val (put_block v f s) w = cow_val s w"
      by (cases "b_data (objs s w)") (simp_all add: cow_val_def b)
    then show ?thesis using False by simp
  qed
qed

lemma cow_resize_owns: "owns s v \<Longrightarrow> owns (cow_resize v n s) v"
  by (simp add: cow_resize_def put_block_owns exclusive_data_owns)

lemmas own_then_put = exclusive_data_inv exclusive_data_owns exclusive_data_val_copy put_block_inv put_block_val





lemma cow_resize_sim:
  "cow_inv s \<Longrightarrow> cow_inv (cow_resize v n s) \<and>
   cow_val (cow_resize v n s) = (cow_val s)(v := bytes_resize n (cow_val s v))"
  by (auto simp: cow_resize_def own_then_put fun_eq_iff bytes_resize_def)





section \<open>Properties\<close>



text \<open>C24. \<open>writable(size)\<close> hands out a block of that size which no other object reaches, and leaves
  every other value alone: filling it cannot corrupt a shared value.\<close>

theorem writable_private:
  assumes "cow_inv s" "sz > 0" "cow_writable v sz s = (d, s')"
  shows "\<exists>a. d = Some a \<and> length (blocks s' ! a) = sz \<and> cow_inv s' \<and>
     (\<forall>w. w \<noteq> v \<longrightarrow> b_data (objs s' w) \<noteq> Some a \<and> cow_val s' w = cow_val s w)"
proof -
  let ?s1 = "exclusive_data v False s"
  have s': "s' = cow_resize v sz ?s1" and d: "d = b_data (objs s' v)"
    using assms(2,3) by (auto simp: cow_writable_def Let_def)
  have i1: "cow_inv ?s1" using assms(1) by (rule exclusive_data_inv)
  then have i: "cow_inv s'" and val: "cow_val s' = (cow_val ?s1)(v := bytes_resize sz (cow_val ?s1 v))"
    by (simp_all add: s' cow_resize_sim)
  have "owns s' v" unfolding s' by (rule cow_resize_owns) (rule exclusive_data_owns)
  then obtain a where a: "b_data (objs s' v) = Some a" by (auto simp: owns_def)
  have "length (cow_val s' v) = sz" by (simp add: val)
  then have "length (blocks s' ! a) = sz" using a by (simp add: cow_val_def)
  moreover have "b_data (objs s' w) \<noteq> Some a" if "w \<noteq> v" for w
    using owns_private[OF i \<open>owns s' v\<close> a that] .
  moreover have "cow_val s' w = cow_val s w" if "w \<noteq> v" for w
    using that exclusive_data_val_other[OF assms(1) that] by (simp add: val)
  ultimately show ?thesis using a d i by blast
qed

theorem writable_private_witness:
  "\<exists>a. fst (cow_writable 0 2 init_cow) = Some a \<and>
     length (blocks (snd (cow_writable 0 2 init_cow)) ! a) = 2"
proof -
  have "\<exists>a. fst (cow_writable 0 2 init_cow) = Some a \<and>
      length (blocks (snd (cow_writable 0 2 init_cow)) ! a) = 2 \<and> cow_inv (snd (cow_writable 0 2 init_cow)) \<and>
      (\<forall>w. w \<noteq> 0 \<longrightarrow> b_data (objs (snd (cow_writable 0 2 init_cow)) w) \<noteq> Some a \<and>
         cow_val (snd (cow_writable 0 2 init_cow)) w = cow_val init_cow w)"
    by (rule writable_private[OF cow_inv_init]) simp_all
  then show ?thesis by blast
qed

end
