(* ===== verification/Crc.thy ===== *)
theory Crc
  imports ByteBuf
begin

text \<open>
  \<open>Crc::crc32\<close> (src/crc.cpp): the reflected CRC-32 with polynomial 0xedb88320, computed bit by
  bit. It is shown to chain over concatenated buffers, to equal the table-driven form, and to
  detect every error confined to four consecutive bytes.
\<close>

section \<open>The bitwise routine\<close>

definition crc_bit :: "u32 \<Rightarrow> u32" where
  "crc_bit crc = (if crc AND 1 \<noteq> 0 then drop_bit 1 crc XOR 0xedb88320 else drop_bit 1 crc)"

definition crc_byte :: "u32 \<Rightarrow> u8 \<Rightarrow> u32" where
  "crc_byte crc b = (crc_bit ^^ 8) (crc XOR ucast b)"

text \<open>\<open>buf\<close> is \<open>None\<close> for a null pointer.\<close>

definition crc32 :: "u32 \<Rightarrow> bytes option \<Rightarrow> u32" where
  "crc32 crc buf =
     (case buf of
        None \<Rightarrow> 0
      | Some bs \<Rightarrow> foldl crc_byte (crc XOR 0xffffffff) bs XOR 0xffffffff)"

definition crc32_byte :: "u32 \<Rightarrow> u8 \<Rightarrow> u32" where
  "crc32_byte crc byte = crc32 crc (Some [byte])"

definition crc32_str :: "u32 \<Rightarrow> string \<Rightarrow> u32" where
  "crc32_str crc str = crc32 crc (Some (str_bytes str))"

section \<open>One bit step\<close>

lemma crc_bit_alt: "crc_bit x = drop_bit 1 x XOR (if bit x 0 then 0xedb88320 else 0)"
  by (simp add: crc_bit_def bit_0 and_one_eq odd_iff_mod_2_eq_one)

lemma crc_bit_xor: "crc_bit (x XOR y) = crc_bit x XOR crc_bit y"
  by (rule bit_word_eqI) (auto simp: crc_bit_alt bit_simps)

lemma xor_cancel: "x XOR y = x XOR z \<Longrightarrow> y = (z :: 'a::len word)"
proof (rule bit_word_eqI)
  fix n assume "x XOR y = x XOR z"
  then have "bit (x XOR y) n = bit (x XOR z) n" by simp
  then show "bit y n = bit z n" by (auto simp: bit_xor_iff)
qed

lemma xor_cancel_right: "y XOR x = z XOR x \<Longrightarrow> y = (z :: 'a::len word)"
  by (metis xor.commute xor_cancel)

lemma crc_bit_zero:
  assumes z: "crc_bit z = 0"
  shows "z = 0"
proof -
  have p31: "bit (0xedb88320 :: u32) 31" by code_simp
  have "\<not> bit z 0"
  proof
    assume b: "bit z 0"
    have "\<not> bit (drop_bit 1 z) 31"
      using bit_imp_le_length[of z 32] by (auto simp: bit_drop_bit_eq)
    then have "bit (crc_bit z) 31" using b p31 by (simp add: crc_bit_alt bit_xor_iff)
    then show False using z by simp
  qed
  then have d: "drop_bit 1 z = 0" using z by (simp add: crc_bit_alt)
  show "z = 0"
  proof (rule bit_word_eqI)
    fix n
    show "bit z n = bit 0 n"
    proof (cases n)
      case 0 then show ?thesis using \<open>\<not> bit z 0\<close> by simp
    next
      case (Suc m)
      have "bit (drop_bit 1 z) m = bit z (Suc m)" by (simp add: bit_drop_bit_eq)
      then show ?thesis using d Suc by simp
    qed
  qed
qed

lemma crc_bit_inj: "crc_bit x = crc_bit y \<Longrightarrow> x = y"
proof -
  assume "crc_bit x = crc_bit y"
  then have "crc_bit (x XOR y) = 0" by (simp add: crc_bit_xor)
  then have "x XOR y = 0" by (rule crc_bit_zero)
  then have "x XOR y = x XOR x" by simp
  then have "y = x" by (rule xor_cancel)
  then show "x = y" by simp
qed

lemma crc_bits_xor: "(crc_bit ^^ k) (x XOR y) = (crc_bit ^^ k) x XOR (crc_bit ^^ k) y"
  by (induction k) (simp_all add: crc_bit_xor)

lemma crc_bits_inj: "(crc_bit ^^ k) x = (crc_bit ^^ k) y \<Longrightarrow> x = y"
  by (induction k) (auto dest: crc_bit_inj)

text \<open>While the low bits are zero, a step only shifts.\<close>

lemma crc_bits_shift: "(\<forall>i < k. \<not> bit x i) \<Longrightarrow> (crc_bit ^^ k) x = drop_bit k x"
proof (induction k)
  case 0 then show ?case by simp
next
  case (Suc k)
  then have "(crc_bit ^^ Suc k) x = crc_bit (drop_bit k x)" by simp
  also have "\<dots> = drop_bit 1 (drop_bit k x)" using Suc.prems by (simp add: crc_bit_alt bit_drop_bit_eq)
  finally show ?case by simp
qed

section \<open>Bytes\<close>

lemma crc_byte_step: "crc_byte s b = (crc_bit ^^ 8) s XOR (crc_bit ^^ 8) (ucast b)"
  by (simp add: crc_byte_def crc_bits_xor)

text \<open>A block of at most four bytes enters as its little-endian value, then shifts.\<close>

fun le_word :: "bytes \<Rightarrow> u32" where
  "le_word [] = 0"
| "le_word (b # bs) = ucast b XOR push_bit 8 (le_word bs)"

lemma bit_le_word:
  "bit (le_word bs) i \<longleftrightarrow> i < 32 \<and> i div 8 < length bs \<and> bit (bs ! (i div 8)) (i mod 8)"
proof (induction bs arbitrary: i)
  case Nil then show ?case by simp
next
  case (Cons b bs)
  show ?case
  proof (cases "i < 8")
    case True
    then show ?thesis by (auto simp: bit_simps)
  next
    case False
    have nb: "\<not> bit b i" using False bit_imp_le_length[of b i] by auto
    have d: "i div 8 = Suc ((i - 8) div 8)" "i mod 8 = (i - 8) mod 8"
      using False by (simp_all add: le_div_geq le_mod_geq)
    show ?thesis
      using False nb Cons.IH[of "i - 8"] by (auto simp: bit_simps d)
  qed
qed

lemma le_word_inj:
  assumes "length a = length b" "length b \<le> 4" "le_word a = le_word b"
  shows "a = b"
proof (rule nth_equalityI)
  show "length a = length b" by fact
  fix k assume k: "k < length a"
  show "a ! k = b ! k"
  proof (rule bit_word_eqI)
    fix j assume "j < LENGTH(8)"
    then have j: "j < 8" by simp
    have d: "(8 * k + j) div 8 = k" "(8 * k + j) mod 8 = j" "8 * k + j < 32"
      using j k assms(1,2) by auto
    have "bit (le_word a) (8 * k + j) = bit (le_word b) (8 * k + j)" by (simp add: assms(3))
    then show "bit (a ! k) j = bit (b ! k) j"
      using k assms(1) d(3) unfolding bit_le_word d(1,2) by simp
  qed
qed

lemma crc_fold_block:
  "length bs \<le> 4 \<Longrightarrow> foldl crc_byte s bs = (crc_bit ^^ (8 * length bs)) (s XOR le_word bs)"
proof (induction bs arbitrary: s)
  case Nil then show ?case by simp
next
  case (Cons b bs)
  let ?w = "le_word bs"
  have "drop_bit 8 (push_bit 8 ?w) = ?w"
  proof (rule bit_word_eqI)
    fix i
    show "bit (drop_bit 8 (push_bit 8 ?w)) i = bit ?w i"
      using Cons.prems by (auto simp: bit_simps bit_le_word)
  qed
  then have "(crc_bit ^^ 8) (push_bit 8 ?w) = ?w"
    by (subst crc_bits_shift) (auto simp: bit_simps)
  then have "crc_byte s b XOR ?w = (crc_bit ^^ 8) (s XOR le_word (b # bs))"
    by (simp only: crc_byte_def crc_bits_xor le_word.simps ac_simps)
  moreover have "foldl crc_byte s (b # bs) = (crc_bit ^^ (8 * length bs)) (crc_byte s b XOR ?w)"
    using Cons by simp
  moreover have "(8 * length (b # bs)) = 8 * length bs + 8" by simp
  ultimately show ?case by (simp only: funpow_add comp_apply)
qed

lemma crc_byte_inj: "crc_byte s b = crc_byte t b \<Longrightarrow> s = t"
  unfolding crc_byte_def by (drule crc_bits_inj) (rule xor_cancel_right)

lemma crc_fold_inj: "foldl crc_byte s bs = foldl crc_byte t bs \<Longrightarrow> s = t"
  by (induction bs arbitrary: s t) (auto dest: crc_byte_inj)

definition crc_table :: "u8 \<Rightarrow> u32" where
  "crc_table i = (crc_bit ^^ 8) (ucast i)"

lemma crc_byte_table: "crc_byte s b = crc_table (ucast (s XOR ucast b)) XOR drop_bit 8 s"
proof -
  let ?x = "s XOR ucast b"
  let ?lo = "ucast (ucast ?x :: u8) :: u32" and ?hi = "push_bit 8 (drop_bit 8 ?x)"
  have "?x = ?lo XOR ?hi" by (rule bit_word_eqI) (auto simp: bit_simps)
  then have "crc_byte s b = (crc_bit ^^ 8) ?lo XOR (crc_bit ^^ 8) ?hi"
    unfolding crc_byte_def by (metis crc_bits_xor)
  moreover have "(crc_bit ^^ 8) ?hi = drop_bit 8 ?hi"
    by (rule crc_bits_shift) (auto simp: bit_simps)
  moreover have "drop_bit 8 ?hi = drop_bit 8 s"
    by (rule bit_word_eqI) (auto simp: bit_simps dest: bit_imp_le_length)
  ultimately show ?thesis by (simp add: crc_table_def)
qed

lemma crc_bits_Suc: "(crc_bit ^^ numeral k) x = (crc_bit ^^ (pred_numeral k)) (crc_bit x)"
  by (simp add: numeral_eq_Suc funpow_swap1)

lemma crc32_check_value: "crc32_str 0 ''123456789'' = 0xCBF43926"
  by (simp add: crc32_str_def crc32_def crc_byte_def crc_bits_Suc crc_bit_def)

section \<open>Properties\<close>

text \<open>
  C40: C25. The bitwise checksum equals the table-driven one, so it can be continued over a stream
  in pieces of any size, and it gives the standard check value.\<close>

theorem crc32_table_driven:
  "crc32 c (Some bs) =
     foldl (\<lambda>s b. crc_table (ucast (s XOR ucast b)) XOR drop_bit 8 s) (c XOR 0xffffffff) bs XOR 0xffffffff \<and>
   crc32 (crc32 c (Some as)) (Some bs) = crc32 c (Some (as @ bs)) \<and>
   crc32_str 0 ''123456789'' = 0xCBF43926"
proof -
  have t: "crc_byte = (\<lambda>s b. crc_table (ucast (s XOR ucast b)) XOR drop_bit 8 s)"
    by (intro ext) (rule crc_byte_table)
  have v: "crc32_str 0 ''123456789'' = 0xCBF43926" by (rule crc32_check_value)
  have "crc32 (crc32 c (Some as)) (Some bs) = crc32 c (Some (as @ bs))"
    by (simp add: crc32_def xor.assoc)
  with v show ?thesis by (simp add: crc32_def flip: t)
qed

text \<open>C26. Every error confined to four consecutive bytes changes the checksum, wherever it is in
  the message.\<close>

theorem crc32_burst_detected:
  assumes "length x = length y" "length y \<le> 4" "x \<noteq> y"
  shows "crc32 c (Some (pre @ x @ post)) \<noteq> crc32 c (Some (pre @ y @ post))"
proof
  assume "crc32 c (Some (pre @ x @ post)) = crc32 c (Some (pre @ y @ post))"
  then have "foldl crc_byte (c XOR 0xffffffff) (pre @ x @ post) =
      foldl crc_byte (c XOR 0xffffffff) (pre @ y @ post)"
    unfolding crc32_def option.case by (rule xor_cancel_right)
  then have "foldl crc_byte (foldl crc_byte (c XOR 0xffffffff) pre) x =
      foldl crc_byte (foldl crc_byte (c XOR 0xffffffff) pre) y"
    by (auto dest: crc_fold_inj)
  then have "le_word x = le_word y"
    using assms(1,2) by (auto simp: crc_fold_block dest: crc_bits_inj xor_cancel)
  then show False using le_word_inj[OF assms(1,2)] assms(3) by simp
qed

theorem crc32_burst_detected_witness:
  "crc32 0 (Some ([1] @ [2, 3] @ [4])) \<noteq> crc32 0 (Some ([1] @ [2, 7] @ [4]))"
  by (rule crc32_burst_detected) simp_all

end
