(* ===== verification/Types.thy ===== *)
theory Types
  imports Prelude
begin

text \<open>
  The constants and enumerations of include/rtreticulum/type.h that the library's code uses, with
  the numeric values the wire format relies on. Constants are computed as the header computes them.
\<close>

section \<open>Sizes\<close>

definition MTU :: nat where "MTU = 500"
definition TRUNCATED_HASHLENGTH :: nat where "TRUNCATED_HASHLENGTH = 128"
definition HEADER_MINSIZE :: nat where "HEADER_MINSIZE = 2 + 1 + (TRUNCATED_HASHLENGTH div 8) * 1"
definition HEADER_MAXSIZE :: nat where "HEADER_MAXSIZE = 2 + 1 + (TRUNCATED_HASHLENGTH div 8) * 2"
definition IFAC_MIN_SIZE :: nat where "IFAC_MIN_SIZE = 1"
definition MDU :: nat where "MDU = MTU - HEADER_MAXSIZE - IFAC_MIN_SIZE"
definition DESTINATION_LENGTH :: nat where "DESTINATION_LENGTH = TRUNCATED_HASHLENGTH div 8"

definition KEYSIZE :: nat where "KEYSIZE = 256 * 2"
definition TOKEN_OVERHEAD :: nat where "TOKEN_OVERHEAD = 48"
definition AES128_BLOCKSIZE :: nat where "AES128_BLOCKSIZE = 16"
definition SIGLENGTH :: nat where "SIGLENGTH = KEYSIZE"
definition NAME_HASH_LENGTH :: nat where "NAME_HASH_LENGTH = 80"
definition RANDOM_HASH_LENGTH :: nat where "RANDOM_HASH_LENGTH = 80"
definition DERIVED_KEY_LENGTH :: nat where "DERIVED_KEY_LENGTH = 512 div 8"
definition ENCRYPTED_MDU :: nat where
  "ENCRYPTED_MDU = ((MDU - TOKEN_OVERHEAD - KEYSIZE div 16) div AES128_BLOCKSIZE) * AES128_BLOCKSIZE - 1"

definition ECPUBSIZE :: nat where "ECPUBSIZE = 32 + 32"
definition LINK_KEYSIZE :: nat where "LINK_KEYSIZE = 32"
definition LINK_MTU_SIZE :: nat where "LINK_MTU_SIZE = 3"
definition MTU_BYTEMASK :: u32 where "MTU_BYTEMASK = 0x1FFFFF"
definition MODE_BYTEMASK :: u8 where "MODE_BYTEMASK = 0xE0"
definition LINK_MDU :: nat where
  "LINK_MDU = ((MTU - IFAC_MIN_SIZE - HEADER_MINSIZE - TOKEN_OVERHEAD) div AES128_BLOCKSIZE)
     * AES128_BLOCKSIZE - 1"
definition PATHFINDER_M :: nat where "PATHFINDER_M = 128"

lemmas size_consts =
  MTU_def TRUNCATED_HASHLENGTH_def HEADER_MINSIZE_def HEADER_MAXSIZE_def IFAC_MIN_SIZE_def MDU_def
  DESTINATION_LENGTH_def KEYSIZE_def TOKEN_OVERHEAD_def AES128_BLOCKSIZE_def SIGLENGTH_def
  NAME_HASH_LENGTH_def RANDOM_HASH_LENGTH_def DERIVED_KEY_LENGTH_def ENCRYPTED_MDU_def
  ECPUBSIZE_def LINK_KEYSIZE_def LINK_MTU_SIZE_def LINK_MDU_def PATHFINDER_M_def

lemma size_values:
  "MTU = 500" "HEADER_MINSIZE = 19" "HEADER_MAXSIZE = 35" "MDU = 464" "DESTINATION_LENGTH = 16"
  "KEYSIZE div 8 = 64" "KEYSIZE div 8 div 2 = 32" "SIGLENGTH div 8 = 64" "NAME_HASH_LENGTH div 8 = 10"
  "RANDOM_HASH_LENGTH div 8 = 10" "TRUNCATED_HASHLENGTH div 8 = 16" "DERIVED_KEY_LENGTH = 64"
  "ENCRYPTED_MDU = 383" "LINK_MDU = 431" "ECPUBSIZE = 64" "LINK_KEYSIZE = 32" "LINK_MTU_SIZE = 3"
  "PATHFINDER_M = 128"
  by (simp_all add: size_consts)

section \<open>Enumerations\<close>

datatype dest_type = SINGLE | GROUP | PLAIN | LINK

fun dest_type_num :: "dest_type \<Rightarrow> u8" where
  "dest_type_num SINGLE = 0"
| "dest_type_num GROUP = 1"
| "dest_type_num PLAIN = 2"
| "dest_type_num LINK = 3"

datatype direction = IN | OUT

text \<open>The states of a link are those of the class \<open>Link\<close> (link.h), which has no stale state.\<close>

datatype link_status = PENDING | HANDSHAKE | ACTIVE | CLOSED

datatype link_mode =
    MODE_AES128_CBC | MODE_AES256_CBC | MODE_AES256_GCM | MODE_OTP_RESERVED
  | MODE_PQ_RESERVED_1 | MODE_PQ_RESERVED_2 | MODE_PQ_RESERVED_3 | MODE_PQ_RESERVED_4

fun link_mode_num :: "link_mode \<Rightarrow> u8" where
  "link_mode_num MODE_AES128_CBC = 0"
| "link_mode_num MODE_AES256_CBC = 1"
| "link_mode_num MODE_AES256_GCM = 2"
| "link_mode_num MODE_OTP_RESERVED = 3"
| "link_mode_num MODE_PQ_RESERVED_1 = 4"
| "link_mode_num MODE_PQ_RESERVED_2 = 5"
| "link_mode_num MODE_PQ_RESERVED_3 = 6"
| "link_mode_num MODE_PQ_RESERVED_4 = 7"

datatype packet_type = DATA | ANNOUNCE | LINKREQUEST | PROOF

fun packet_type_num :: "packet_type \<Rightarrow> u8" where
  "packet_type_num DATA = 0"
| "packet_type_num ANNOUNCE = 1"
| "packet_type_num LINKREQUEST = 2"
| "packet_type_num PROOF = 3"

datatype header_type = HEADER_1 | HEADER_2

fun header_type_num :: "header_type \<Rightarrow> u8" where
  "header_type_num HEADER_1 = 0"
| "header_type_num HEADER_2 = 1"

text \<open>A context is any byte: the code casts the frame's byte to the enumeration unchecked.\<close>

definition CONTEXT_NONE :: u8 where "CONTEXT_NONE = 0x00"
definition RESOURCE :: u8 where "RESOURCE = 0x01"
definition RESOURCE_ADV :: u8 where "RESOURCE_ADV = 0x02"
definition REQUEST :: u8 where "REQUEST = 0x09"
definition RESPONSE :: u8 where "RESPONSE = 0x0A"
definition KEEPALIVE :: u8 where "KEEPALIVE = 0xFA"
definition LINKCLOSE :: u8 where "LINKCLOSE = 0xFC"
definition LRRTT :: u8 where "LRRTT = 0xFE"
definition LRPROOF :: u8 where "LRPROOF = 0xFF"

datatype context_flag = FLAG_UNSET | FLAG_SET

fun context_flag_num :: "context_flag \<Rightarrow> u8" where
  "context_flag_num FLAG_SET = 1"
| "context_flag_num FLAG_UNSET = 0"

datatype transport_type = BROADCAST | TRANSPORT | RELAY | TUNNEL | TRANSPORT_NONE

fun transport_type_num :: "transport_type \<Rightarrow> u8" where
  "transport_type_num BROADCAST = 0"
| "transport_type_num TRANSPORT = 1"
| "transport_type_num RELAY = 2"
| "transport_type_num TUNNEL = 3"
| "transport_type_num TRANSPORT_NONE = 0xFF"

datatype token_mode = MODE_AES | MODE_AES_128_CBC | MODE_AES_256_CBC

fun token_mode_num :: "token_mode \<Rightarrow> nat" where
  "token_mode_num MODE_AES = 1"
| "token_mode_num MODE_AES_128_CBC = 2"
| "token_mode_num MODE_AES_256_CBC = 3"

end
