(* ===== verification/Platform.thy ===== *)
theory Platform
  imports Types ByteBuf
begin

text \<open>
  What the library calls but does not contain: the hardware abstraction layer (clock, entropy) and
  the primitives of mbedtls and monocypher. They are the record \<open>ext\<close>, an argument of every
  definition that uses them; what the code relies on is stated as the named laws below. The HAL is
  stateful: its calls are numbered, and an answer may depend on the number. The section ends with
  the helpers of src/os.cpp.
\<close>

section \<open>External primitives\<close>

datatype digest = DIGEST_NONE | DIGEST_SHA256 | DIGEST_SHA512

record ext =
  x_sha256 :: "bytes \<Rightarrow> bytes"
  x_sha512 :: "bytes \<Rightarrow> bytes"
  x_md_setup :: "digest \<Rightarrow> bool"
  x_hmac_starts :: "bytes \<Rightarrow> bool"
  x_hmac :: "digest \<Rightarrow> bytes \<Rightarrow> bytes \<Rightarrow> bytes"
  x_hkdf :: "bytes \<Rightarrow> bytes \<Rightarrow> bytes \<Rightarrow> nat \<Rightarrow> bytes option"
  x_aes_setkey :: "nat \<Rightarrow> bytes \<Rightarrow> bool"
  x_aes_enc :: "bytes \<Rightarrow> bytes \<Rightarrow> bytes \<Rightarrow> bytes option"
  x_aes_dec :: "bytes \<Rightarrow> bytes \<Rightarrow> bytes \<Rightarrow> bytes option"
  x_x25519_pub :: "bytes \<Rightarrow> bytes"
  x_x25519 :: "bytes \<Rightarrow> bytes \<Rightarrow> bytes"
  x_ed_pub :: "bytes \<Rightarrow> bytes"
  x_ed_sign :: "bytes \<Rightarrow> bytes \<Rightarrow> bytes"
  x_ed_check :: "bytes \<Rightarrow> bytes \<Rightarrow> bytes \<Rightarrow> bool"
  x_random :: "nat \<Rightarrow> nat \<Rightarrow> bytes option"
  x_unix_micros :: "nat \<Rightarrow> nat"
  x_millis :: "nat \<Rightarrow> nat"

text \<open>Documented behaviour the code relies on.\<close>

definition hash_law :: "ext \<Rightarrow> bool" where
  "hash_law X \<longleftrightarrow> (\<forall>d. length (x_sha256 X d) = 32) \<and> (\<forall>d. length (x_sha512 X d) = 64)"

definition hmac_law :: "ext \<Rightarrow> bool" where
  "hmac_law X \<longleftrightarrow> x_md_setup X DIGEST_SHA256 \<and> (\<forall>k. x_hmac_starts X k) \<and>
     (\<forall>k m. length (x_hmac X DIGEST_SHA256 k m) = 32)"

definition hkdf_law :: "ext \<Rightarrow> bool" where
  "hkdf_law X \<longleftrightarrow> (\<forall>salt ikm info n. n \<le> 255 * 32 \<longrightarrow>
     (\<exists>k. x_hkdf X salt ikm info n = Some k \<and> length k = n))"

definition aes_law :: "ext \<Rightarrow> bool" where
  "aes_law X \<longleftrightarrow> (\<forall>key. x_aes_setkey X (length key * 8) key \<longleftrightarrow> length key \<in> {16, 24, 32}) \<and>
     (\<forall>key iv pt. length key \<in> {16, 24, 32} \<longrightarrow> length iv = 16 \<longrightarrow> length pt mod 16 = 0 \<longrightarrow>
        (\<exists>ct. x_aes_enc X key iv pt = Some ct \<and> length ct = length pt \<and> x_aes_dec X key iv ct = Some pt))"

definition dh_law :: "ext \<Rightarrow> bool" where
  "dh_law X \<longleftrightarrow> (\<forall>a. length (x_x25519_pub X a) = 32) \<and> (\<forall>a p. length (x_x25519 X a p) = 32) \<and>
     (\<forall>a b. x_x25519 X a (x_x25519_pub X b) = x_x25519 X b (x_x25519_pub X a))"

definition sig_law :: "ext \<Rightarrow> bool" where
  "sig_law X \<longleftrightarrow> (\<forall>s. length (x_ed_pub X s) = 32) \<and> (\<forall>s m. length (x_ed_sign X s m) = 64) \<and>
     (\<forall>s m. x_ed_check X (x_ed_sign X s m) (x_ed_pub X s) m)"

definition rng_law :: "ext \<Rightarrow> bool" where
  "rng_law X \<longleftrightarrow> (\<forall>n len. \<exists>b. x_random X n len = Some b \<and> length b = len)"

definition crypto_laws :: "ext \<Rightarrow> bool" where
  "crypto_laws X \<longleftrightarrow> hash_law X \<and> hmac_law X \<and> hkdf_law X \<and> aes_law X \<and> dh_law X \<and> sig_law X \<and> rng_law X"

named_theorems law_simps

lemma hash_lengths [law_simps]:
  "hash_law X \<Longrightarrow> length (x_sha256 X d) = 32" "hash_law X \<Longrightarrow> length (x_sha512 X d) = 64"
  by (simp_all add: hash_law_def)

lemma hmac_lengths [law_simps]:
  "hmac_law X \<Longrightarrow> x_md_setup X DIGEST_SHA256" "hmac_law X \<Longrightarrow> x_hmac_starts X k"
  "hmac_law X \<Longrightarrow> length (x_hmac X DIGEST_SHA256 k m) = 32"
  by (simp_all add: hmac_law_def)

lemma hkdf_total: "hkdf_law X \<Longrightarrow> n \<le> 255 * 32 \<Longrightarrow> \<exists>k. x_hkdf X salt ikm info n = Some k \<and> length k = n"
  unfolding hkdf_law_def by blast

lemma aes_total:
  assumes "aes_law X" "length key \<in> {16, 24, 32}" "length iv = 16" "length pt mod 16 = 0"
  shows "\<exists>ct. x_aes_enc X key iv pt = Some ct \<and> length ct = length pt \<and> x_aes_dec X key iv ct = Some pt"
  by (rule assms(1)[unfolded aes_law_def, THEN conjunct2, rule_format]) (rule assms(2-4))+

lemma dh_lengths [law_simps]:
  "dh_law X \<Longrightarrow> length (x_x25519_pub X a) = 32" "dh_law X \<Longrightarrow> length (x_x25519 X a p) = 32"
  unfolding dh_law_def by blast+

lemma dh_agree: "dh_law X \<Longrightarrow> x_x25519 X a (x_x25519_pub X b) = x_x25519 X b (x_x25519_pub X a)"
  unfolding dh_law_def by blast

lemma sig_lengths [law_simps]:
  "sig_law X \<Longrightarrow> length (x_ed_pub X s) = 32" "sig_law X \<Longrightarrow> length (x_ed_sign X s m) = 64"
  "sig_law X \<Longrightarrow> x_ed_check X (x_ed_sign X s m) (x_ed_pub X s) m"
  by (simp_all add: sig_law_def)

lemma rng_total: "rng_law X \<Longrightarrow> \<exists>b. x_random X n len = Some b \<and> length b = len"
  unfolding rng_law_def by blast

lemma crypto_lawsD:
  "crypto_laws X \<Longrightarrow> hash_law X" "crypto_laws X \<Longrightarrow> hmac_law X" "crypto_laws X \<Longrightarrow> hkdf_law X"
  "crypto_laws X \<Longrightarrow> aes_law X" "crypto_laws X \<Longrightarrow> dh_law X" "crypto_laws X \<Longrightarrow> sig_law X"
  "crypto_laws X \<Longrightarrow> rng_law X"
  by (simp_all add: crypto_laws_def)

section \<open>An instance of the laws\<close>

text \<open>A computable stand-in that satisfies the laws, for evaluating the model on concrete inputs. It
  is not secure, and no property relies on it.\<close>

definition fit :: "nat \<Rightarrow> bytes \<Rightarrow> bytes" where
  "fit n b = take n (b @ replicate n 0)"

lemma length_fit [simp]: "length (fit n b) = n"
  by (simp add: fit_def)

lemma fit_id [simp]: "length b = n \<Longrightarrow> fit n b = b"
  by (simp add: fit_def)

definition toy :: ext where
  "toy =
    \<lparr>x_sha256 = (\<lambda>d. fit 32 (rev d)), x_sha512 = fit 64, x_md_setup = (\<lambda>d. d \<noteq> DIGEST_NONE),
     x_hmac_starts = (\<lambda>k. True), x_hmac = (\<lambda>d k m. fit 32 (rev m)),
     x_hkdf = (\<lambda>salt ikm info n. if n \<le> 255 * 32 then Some (fit n (ikm @ salt)) else None),
     x_aes_setkey = (\<lambda>bits k. length k * 8 = bits \<and> length k \<in> {16, 24, 32}),
     x_aes_enc = (\<lambda>key iv pt. Some pt), x_aes_dec = (\<lambda>key iv ct. Some ct),
     x_x25519_pub = fit 32, x_x25519 = (\<lambda>a p. map2 (XOR) (fit 32 a) (fit 32 p)),
     x_ed_pub = fit 32, x_ed_sign = (\<lambda>s m. fit 32 s @ fit 32 m),
     x_ed_check = (\<lambda>sig pub m. sig = pub @ fit 32 m),
     x_random = (\<lambda>n len. Some (replicate len (of_nat (n + 1)))),
     x_unix_micros = (\<lambda>n. 0), x_millis = (\<lambda>n. n)\<rparr>"

lemma map2_xor_comm: "map2 (XOR) xs ys = map2 (XOR) ys (xs :: 'a::len word list)"
  by (induction xs ys rule: list_induct2') (auto simp: xor.commute)

lemma toy_laws: "crypto_laws toy"
  unfolding crypto_laws_def
proof (intro conjI)
  show "hash_law toy" by (simp add: hash_law_def toy_def)
  show "hmac_law toy" by (simp add: hmac_law_def toy_def)
  show "hkdf_law toy" by (simp add: hkdf_law_def toy_def)
  show "aes_law toy" by (simp add: aes_law_def toy_def)
  show "dh_law toy" by (simp add: dh_law_def toy_def) (simp add: map2_xor_comm)
  show "sig_law toy" by (simp add: sig_law_def toy_def)
  show "rng_law toy" by (simp add: rng_law_def toy_def)
qed

section \<open>HAL state and clock\<close>

text \<open>The state of the library's context starts with the number of HAL calls made; the components
  extend this record.\<close>

record hal_state =
  hal_calls :: nat

definition hal_tick :: "('a hal_state_scheme, nat) prog" where
  "hal_tick s = (Ret (hal_calls s), s\<lparr>hal_calls := hal_calls s + 1\<rparr>)"

text \<open>A time is a \<open>double\<close> in seconds, obtained from one of two integer clocks.\<close>

datatype rtime = Unix_us nat | Uptime_ms nat

definition os_ltime :: "ext \<Rightarrow> ('a hal_state_scheme, nat) prog" where
  "os_ltime X = bnd hal_tick (\<lambda>n. ret (x_millis X n))"

definition os_time :: "ext \<Rightarrow> ('a hal_state_scheme, rtime) prog" where
  "os_time X = bnd hal_tick (\<lambda>n.
     let us = x_unix_micros X n in
     if us \<noteq> 0 then ret (Unix_us us)
     else bnd hal_tick (\<lambda>n. ret (Uptime_ms (x_millis X n))))"

lemma os_time_ok: "\<exists>t k. os_time X s = (Ret t, s\<lparr>hal_calls := k\<rparr>)"
  by (cases "x_unix_micros X (hal_calls s) = 0")
    (auto simp: os_time_def hal_tick_def bnd_def Let_def)

section \<open>Byte order\<close>

text \<open>\<open>e\<close>: whether the target is big-endian, as \<open>is_big_endian\<close> finds out at run time.\<close>

definition swap16 :: "u16 \<Rightarrow> u16" where
  "swap16 v = (push_bit 8 v OR drop_bit 8 v)"

definition swap32 :: "u32 \<Rightarrow> u32" where
  "swap32 v =
     ((push_bit 24 v AND 0xFF000000) OR (push_bit 8 v AND 0x00FF0000) OR
      (drop_bit 8 v AND 0x0000FF00) OR (drop_bit 24 v AND 0x000000FF))"

definition portable_htons :: "bool \<Rightarrow> u16 \<Rightarrow> u16" where
  "portable_htons e v = (if e then v else swap16 v)"

definition portable_htonl :: "bool \<Rightarrow> u32 \<Rightarrow> u32" where
  "portable_htonl e v = (if e then v else swap32 v)"

definition portable_ntohs :: "bool \<Rightarrow> u16 \<Rightarrow> u16" where
  "portable_ntohs e v = (if e then v else swap16 v)"

definition portable_ntohl :: "bool \<Rightarrow> u32 \<Rightarrow> u32" where
  "portable_ntohl e v = (if e then v else swap32 v)"

definition from_bytes_big_endian :: "bytes \<Rightarrow> u64" where
  "from_bytes_big_endian data = foldl (\<lambda>r b. push_bit 8 r OR ucast b) 0 data"

text \<open>The bytes of an \<open>n\<close>-byte integer as the target stores them.\<close>

definition mem_bytes :: "bool \<Rightarrow> nat \<Rightarrow> 'a::len word \<Rightarrow> bytes" where
  "mem_bytes e n v = (if e then be n v else rev (be n v))"

lemma bit_swap32: "n < 32 \<Longrightarrow> bit (swap32 v) n \<longleftrightarrow> bit v (8 * (3 - n div 8) + n mod 8)"
proof -
  have "list_all (\<lambda>n. bit (swap32 v) n \<longleftrightarrow> bit v (8 * (3 - n div 8) + n mod 8)) [0..<32]"
    by (simp add: upt_rec swap32_def bit_or_iff bit_and_iff bit_push_bit_iff bit_drop_bit_eq)
      (simp add: eval_nat_numeral)
  then show "n < 32 \<Longrightarrow> ?thesis" by (simp add: list_all_iff)
qed

lemma bit_swap16: "n < 16 \<Longrightarrow> bit (swap16 v) n \<longleftrightarrow> bit v (8 * (1 - n div 8) + n mod 8)"
proof -
  have l: "\<not> bit v k" if "k \<ge> 16" for k using that bit_imp_le_length[of v k] by auto
  have "list_all (\<lambda>n. bit (swap16 v) n \<longleftrightarrow> bit v (8 * (1 - n div 8) + n mod 8)) [0..<16]"
    by (simp add: upt_rec swap16_def bit_or_iff bit_push_bit_iff bit_drop_bit_eq l)
      (simp add: eval_nat_numeral)
  then show "n < 16 \<Longrightarrow> ?thesis" by (simp add: list_all_iff)
qed

lemma be_nth: "i < n \<Longrightarrow> be n v ! i = ucast (drop_bit (8 * (n - Suc i)) v)"
  by (simp add: be_def rev_nth)

lemma be_swap32: "be 4 (swap32 v) = rev (be 4 v)"
proof (rule nth_equalityI)
  fix i assume "i < length (be 4 (swap32 v))"
  then have i: "i < 4" by simp
  show "be 4 (swap32 v) ! i = rev (be 4 v) ! i"
  proof (rule bit_word_eqI)
    fix j assume "j < LENGTH(8)"
    then have j: "j < 8" by simp
    then have "(8 * (3 - i) + j) div 8 = 3 - i" "(8 * (3 - i) + j) mod 8 = j" "8 * (3 - i) + j < 32"
      using i by auto
    then have "bit (swap32 v) (8 * (3 - i) + j) = bit v (8 * i + j)"
      using i by (simp add: bit_swap32)
    then show "bit (be 4 (swap32 v) ! i) j = bit (rev (be 4 v) ! i) j"
      using i j by (simp add: be_nth rev_be_nth bit_ucast_iff bit_drop_bit_eq)
  qed
qed simp

lemma be_swap16: "be 2 (swap16 v) = rev (be 2 v)"
proof (rule nth_equalityI)
  fix i assume "i < length (be 2 (swap16 v))"
  then have i: "i < 2" by simp
  show "be 2 (swap16 v) ! i = rev (be 2 v) ! i"
  proof (rule bit_word_eqI)
    fix j assume "j < LENGTH(8)"
    then have j: "j < 8" by simp
    then have "(8 * (1 - i) + j) div 8 = 1 - i" "(8 * (1 - i) + j) mod 8 = j" "8 * (1 - i) + j < 16"
      using i by auto
    then have "bit (swap16 v) (8 * (1 - i) + j) = bit v (8 * i + j)"
      using i by (simp add: bit_swap16)
    then show "bit (be 2 (swap16 v) ! i) j = bit (rev (be 2 v) ! i) j"
      using i j by (simp add: be_nth rev_be_nth bit_ucast_iff bit_drop_bit_eq)
  qed
qed simp

lemma from_bytes_be: "from_bytes_big_endian (be n v) = ucast (take_bit (8 * n) v)"
  unfolding from_bytes_big_endian_def unbe_def[symmetric] by (rule unbe_be_cast)

text \<open>
  On a target of either byte order, what \<open>portable_htonl\<close> (\<open>portable_htons\<close>) leaves in memory
  are the big-endian bytes of its argument, which \<open>from_bytes_big_endian\<close> reads back; the
  \<open>ntoh\<close> functions undo the \<open>hton\<close> functions.
\<close>

theorem network_byte_order:
  "mem_bytes e 4 (portable_htonl e v) = be 4 v \<and> mem_bytes e 2 (portable_htons e w) = be 2 w \<and>
   from_bytes_big_endian (mem_bytes e 4 (portable_htonl e v)) = ucast v \<and>
   portable_ntohl e (portable_htonl e v) = v \<and> portable_ntohs e (portable_htons e w) = w"
proof -
  have "be 4 (swap32 (swap32 v)) = be 4 v" by (simp add: be_swap32)
  then have "unbe (be 4 (swap32 (swap32 v))) = (unbe (be 4 v) :: u32)" by (simp only:)
  then have "swap32 (swap32 v) = v" by simp
  moreover have "be 2 (swap16 (swap16 w)) = be 2 w" by (simp add: be_swap16)
  then have "unbe (be 2 (swap16 (swap16 w))) = (unbe (be 2 w) :: u16)" by (simp only:)
  then have "swap16 (swap16 w) = w" by simp
  moreover have m: "mem_bytes e 4 (portable_htonl e v) = be 4 v"
    by (simp add: mem_bytes_def portable_htonl_def be_swap32)
  moreover have "mem_bytes e 2 (portable_htons e w) = be 2 w"
    by (simp add: mem_bytes_def portable_htons_def be_swap16)
  moreover have "from_bytes_big_endian (be 4 v) = ucast v"
    by (simp add: from_bytes_be take_bit_word_eq_self)
  ultimately show ?thesis
    by (simp add: portable_htonl_def portable_ntohl_def portable_htons_def portable_ntohs_def)
qed

end
