(* ===== verification/Crypto.thy ===== *)
theory Crypto
  imports Platform
begin

text \<open>
  The C++ layer of src/cryptography and include/rtreticulum/cryptography: random numbers, hashes,
  HMAC, HKDF, PKCS7 padding, AES-CBC wrappers, the \<open>Token\<close> and \<open>Fernet\<close> ciphers and the X25519 and
  Ed25519 key classes, over the external primitives \<open>ext\<close>. Exceptions carry the code's messages.
\<close>

section \<open>Random numbers\<close>

definition random_bytes :: "ext \<Rightarrow> nat \<Rightarrow> ('a hal_state_scheme, bytes) prog" where
  "random_bytes X len = bnd hal_tick (\<lambda>n.
     case x_random X n len of
       None \<Rightarrow> raise (Runtime_error (Msg ''rt_hal_random_bytes failed''))
     | Some b \<Rightarrow> ret b)"

definition randomnum :: "ext \<Rightarrow> ('a hal_state_scheme, u32) prog" where
  "randomnum X = bnd hal_tick (\<lambda>n.
     case x_random X n 4 of
       None \<Rightarrow> raise (Runtime_error (Msg ''rt_hal_random_bytes failed''))
     | Some b \<Rightarrow> ret (push_bit 24 (ucast (b ! 0)) OR push_bit 16 (ucast (b ! 1)) OR
                       push_bit 8 (ucast (b ! 2)) OR ucast (b ! 3)))"

definition randomnum_max :: "ext \<Rightarrow> u32 \<Rightarrow> ('a hal_state_scheme, u32) prog" where
  "randomnum_max X bound = bnd (randomnum X) (\<lambda>r.
     if bound = 0 then fault Div_by_zero else ret (r mod bound))"

section \<open>Hashes, HMAC and HKDF\<close>

definition sha256 :: "ext \<Rightarrow> bytes \<Rightarrow> bytes" where
  "sha256 X data = x_sha256 X data"

definition sha512 :: "ext \<Rightarrow> bytes \<Rightarrow> bytes" where
  "sha512 X data = x_sha512 X data"

text \<open>An HMAC object holds the digest, the key and the message fed to it so far.\<close>

record hmac_obj =
  hm_digest :: digest
  hm_key :: bytes
  hm_msg :: bytes

definition hmac_update :: "bytes \<Rightarrow> hmac_obj \<Rightarrow> hmac_obj" where
  "hmac_update msg h = (if msg = [] then h else h\<lparr>hm_msg := hm_msg h @ msg\<rparr>)"

definition hmac_new :: "ext \<Rightarrow> bytes \<Rightarrow> bytes \<Rightarrow> digest \<Rightarrow> hmac_obj res" where
  "hmac_new X key msg d =
     (if d = DIGEST_NONE then Raise (Invalid_argument (Msg ''HMAC: unsupported digest''))
      else if \<not> x_md_setup X d then Raise (Runtime_error (Msg ''HMAC: mbedtls_md_setup failed''))
      else if \<not> x_hmac_starts X key then
        Raise (Runtime_error (Msg ''HMAC: mbedtls_md_hmac_starts failed''))
      else let h = \<lparr>hm_digest = d, hm_key = key, hm_msg = []\<rparr>
           in Ret (if msg \<noteq> [] then hmac_update msg h else h))"

definition hmac_digest :: "ext \<Rightarrow> hmac_obj \<Rightarrow> bytes" where
  "hmac_digest X h = x_hmac X (hm_digest h) (hm_key h) (hm_msg h)"

definition hmac :: "ext \<Rightarrow> bytes \<Rightarrow> bytes \<Rightarrow> digest \<Rightarrow> bytes res" where
  "hmac X key msg d = rbind (hmac_new X key msg d) (\<lambda>h. Ret (hmac_digest X h))"

definition hkdf :: "ext \<Rightarrow> nat \<Rightarrow> bytes \<Rightarrow> bytes \<Rightarrow> bytes \<Rightarrow> bytes res" where
  "hkdf X len derive_from salt ctx =
     (if len = 0 then Raise (Invalid_argument (Msg ''Invalid output key length''))
      else if derive_from = [] then
        Raise (Invalid_argument (Msg ''Cannot derive key from empty input material''))
      else case x_hkdf X salt derive_from ctx len of
             None \<Rightarrow> Raise (Runtime_error (Msg ''mbedtls_hkdf failed''))
           | Some k \<Rightarrow> Ret k)"

section \<open>PKCS7\<close>

definition pkcs7_pad :: "nat \<Rightarrow> bytes \<Rightarrow> bytes" where
  "pkcs7_pad bs data =
     (let padlen = bs - (length data mod bs) in data @ replicate padlen (of_nat padlen))"

text \<open>\<open>resize(len - padlen)\<close> subtracts in \<open>size_t\<close>: below zero it asks for more than a vector holds.\<close>

definition pkcs7_unpad :: "nat \<Rightarrow> bytes \<Rightarrow> bytes res" where
  "pkcs7_unpad bs data =
     (let len = length data in
      if len = 0 then Raise (Runtime_error (Msg ''Cannot unpad empty data''))
      else let padlen = unat (data ! (len - 1)) in
           if padlen = 0 \<or> padlen > bs then
             Raise (Runtime_error (Msg_nat ''Cannot unpad, invalid padding length of '' padlen '' bytes''))
           else if padlen > len then Raise (Length_error (Msg ''vector::reserve''))
           else Ret (bytes_resize (len - padlen) data))"

section \<open>AES in CBC mode\<close>

definition aes_cbc_check :: "ext \<Rightarrow> bytes \<Rightarrow> bytes \<Rightarrow> bytes \<Rightarrow> nat \<Rightarrow> unit res" where
  "aes_cbc_check X input key iv key_bits =
     (if length input mod 16 \<noteq> 0 then
        Raise (Invalid_argument (Msg ''AES-CBC: input not block-aligned''))
      else if length iv \<noteq> 16 then Raise (Invalid_argument (Msg ''AES-CBC: IV must be 16 bytes''))
      else if length key * 8 \<noteq> key_bits then
        Raise (Invalid_argument (Msg ''AES-CBC: key size mismatch''))
      else if \<not> x_aes_setkey X key_bits key then
        Raise (Runtime_error (Msg ''mbedtls_aes_setkey failed''))
      else Ret ())"

definition aes_cbc_encrypt :: "ext \<Rightarrow> nat \<Rightarrow> bytes \<Rightarrow> bytes \<Rightarrow> bytes \<Rightarrow> bytes res" where
  "aes_cbc_encrypt X key_bits input key iv = rbind (aes_cbc_check X input key iv key_bits) (\<lambda>_.
     case x_aes_enc X key iv input of
       None \<Rightarrow> Raise (Runtime_error (Msg ''mbedtls_aes_crypt_cbc failed''))
     | Some out \<Rightarrow> Ret out)"

definition aes_cbc_decrypt :: "ext \<Rightarrow> nat \<Rightarrow> bytes \<Rightarrow> bytes \<Rightarrow> bytes \<Rightarrow> bytes res" where
  "aes_cbc_decrypt X key_bits input key iv = rbind (aes_cbc_check X input key iv key_bits) (\<lambda>_.
     case x_aes_dec X key iv input of
       None \<Rightarrow> Raise (Runtime_error (Msg ''mbedtls_aes_crypt_cbc failed''))
     | Some out \<Rightarrow> Ret out)"

section \<open>Token\<close>

record token =
  tk_mode :: token_mode
  tk_signing_key :: bytes
  tk_encryption_key :: bytes

definition token_generate_key :: "ext \<Rightarrow> token_mode \<Rightarrow> ('a hal_state_scheme, bytes) prog" where
  "token_generate_key X mode =
     (if mode = MODE_AES_128_CBC then random_bytes X 32
      else if mode = MODE_AES_256_CBC then random_bytes X 64
      else raise (Invalid_argument (Msg_nat ''Invalid token mode: '' (token_mode_num mode) '''')))"

definition token_new :: "bytes \<Rightarrow> token_mode \<Rightarrow> token res" where
  "token_new key mode =
     (if key = [] then Raise (Invalid_argument (Msg ''Token key cannot be empty''))
      else if mode \<noteq> MODE_AES then
        Raise (Invalid_argument (Msg_nat ''Invalid token mode: '' (token_mode_num mode) ''''))
      else if length key = 32 then
        Ret \<lparr>tk_mode = MODE_AES_128_CBC, tk_signing_key = bytes_left 16 key,
             tk_encryption_key = bytes_mid_rest 16 key\<rparr>
      else if length key = 64 then
        Ret \<lparr>tk_mode = MODE_AES_256_CBC, tk_signing_key = bytes_left 32 key,
             tk_encryption_key = bytes_mid_rest 32 key\<rparr>
      else Raise (Invalid_argument
             (Msg_nat ''Token key must be 256 or 512 bits, not '' (length key * 8) '''')))"

definition verify_hmac_with :: "ext \<Rightarrow> bytes \<Rightarrow> bytes \<Rightarrow> bool res" where
  "verify_hmac_with X signing_key tok =
     (if length tok \<le> 32 then
        Raise (Invalid_argument (Msg_nat ''Cannot verify HMAC on token of only '' (length tok) '' bytes''))
      else let received = bytes_right 32 tok in
           rbind (hmac X signing_key (bytes_left (length tok - 32) tok) DIGEST_SHA256)
             (\<lambda>expected. Ret (bytes_compare received expected = 0)))"

definition token_verify_hmac :: "ext \<Rightarrow> token \<Rightarrow> bytes \<Rightarrow> bool res" where
  "token_verify_hmac X t tok = verify_hmac_with X (tk_signing_key t) tok"

definition token_encrypt :: "ext \<Rightarrow> token \<Rightarrow> bytes \<Rightarrow> ('a hal_state_scheme, bytes) prog" where
  "token_encrypt X t data = bnd (random_bytes X 16) (\<lambda>iv.
     let padded = pkcs7_pad 16 data in
     bnd (lift (case tk_mode t of
                  MODE_AES_128_CBC \<Rightarrow> aes_cbc_encrypt X 128 padded (tk_encryption_key t) iv
                | MODE_AES_256_CBC \<Rightarrow> aes_cbc_encrypt X 256 padded (tk_encryption_key t) iv
                | mode \<Rightarrow> Raise (Invalid_argument
                    (Msg_nat ''Invalid token mode '' (token_mode_num mode) '''')))) (\<lambda>ciphertext.
     let signed_parts = iv @ ciphertext in
     bnd (lift (hmac X (tk_signing_key t) signed_parts DIGEST_SHA256)) (\<lambda>mac.
     ret (signed_parts @ mac))))"

definition token_decrypt :: "ext \<Rightarrow> token \<Rightarrow> bytes \<Rightarrow> bytes res" where
  "token_decrypt X t tok =
     (if length tok < 48 then
        Raise (Invalid_argument (Msg_nat ''Cannot decrypt token of only '' (length tok) '' bytes''))
      else rbind (token_verify_hmac X t tok) (\<lambda>ok.
        if \<not> ok then Raise (Invalid_argument (Msg ''Token HMAC was invalid''))
        else let iv = bytes_left 16 tok; ciphertext = bytes_mid 16 (length tok - 48) tok in
          (case tk_mode t of
             MODE_AES_128_CBC \<Rightarrow>
               rbind (aes_cbc_decrypt X 128 ciphertext (tk_encryption_key t) iv) (pkcs7_unpad 16)
           | MODE_AES_256_CBC \<Rightarrow>
               rbind (aes_cbc_decrypt X 256 ciphertext (tk_encryption_key t) iv) (pkcs7_unpad 16)
           | mode \<Rightarrow> Raise (Invalid_argument
               (Msg_nat ''Invalid token mode '' (token_mode_num mode) '''')))))"

section \<open>Fernet\<close>

record fernet =
  fn_signing_key :: bytes
  fn_encryption_key :: bytes

definition fernet_generate_key :: "ext \<Rightarrow> ('a hal_state_scheme, bytes) prog" where
  "fernet_generate_key X = random_bytes X 32"

definition fernet_new :: "bytes \<Rightarrow> fernet res" where
  "fernet_new key =
     (if key = [] then Raise (Invalid_argument (Msg ''Fernet key cannot be empty''))
      else if length key \<noteq> 32 then
        Raise (Invalid_argument (Msg_nat ''Fernet key must be 32 bytes, not '' (length key) ''''))
      else Ret \<lparr>fn_signing_key = bytes_left 16 key, fn_encryption_key = bytes_mid_rest 16 key\<rparr>)"

definition fernet_verify_hmac :: "ext \<Rightarrow> fernet \<Rightarrow> bytes \<Rightarrow> bool res" where
  "fernet_verify_hmac X f tok = verify_hmac_with X (fn_signing_key f) tok"

definition fernet_encrypt :: "ext \<Rightarrow> fernet \<Rightarrow> bytes \<Rightarrow> ('a hal_state_scheme, bytes) prog" where
  "fernet_encrypt X f data = bnd (random_bytes X 16) (\<lambda>iv.
     bnd (lift (aes_cbc_encrypt X 128 (pkcs7_pad 16 data) (fn_encryption_key f) iv)) (\<lambda>ciphertext.
     let signed_parts = iv @ ciphertext in
     bnd (lift (hmac X (fn_signing_key f) signed_parts DIGEST_SHA256)) (\<lambda>mac.
     ret (signed_parts @ mac))))"

definition fernet_decrypt :: "ext \<Rightarrow> fernet \<Rightarrow> bytes \<Rightarrow> bytes res" where
  "fernet_decrypt X f tok =
     (if length tok < 48 then
        Raise (Invalid_argument (Msg_nat ''Cannot decrypt token of only '' (length tok) '' bytes''))
      else rbind (fernet_verify_hmac X f tok) (\<lambda>ok.
        if \<not> ok then Raise (Invalid_argument (Msg ''Fernet token HMAC was invalid''))
        else rbind (aes_cbc_decrypt X 128 (bytes_mid 16 (length tok - 48) tok) (fn_encryption_key f)
                      (bytes_left 16 tok)) (pkcs7_unpad 16)))"

section \<open>Key classes\<close>

record x25519_priv =
  xk_private :: bytes
  xk_public :: bytes

definition x25519_private_key :: "ext \<Rightarrow> bytes \<Rightarrow> ('a hal_state_scheme, x25519_priv) prog" where
  "x25519_private_key X sk =
     bnd (if sk = [] then random_bytes X 32
          else if length sk \<noteq> 32 then
            raise (Invalid_argument (Msg ''X25519 private key must be 32 bytes''))
          else ret sk) (\<lambda>priv.
     ret \<lparr>xk_private = priv, xk_public = x_x25519_pub X priv\<rparr>)"

definition x25519_generate :: "ext \<Rightarrow> ('a hal_state_scheme, x25519_priv) prog" where
  "x25519_generate X = x25519_private_key X []"

definition x25519_exchange :: "ext \<Rightarrow> x25519_priv \<Rightarrow> bytes \<Rightarrow> bytes res" where
  "x25519_exchange X k peer_public_key =
     (if length peer_public_key \<noteq> 32 then
        Raise (Invalid_argument (Msg ''X25519 peer key must be 32 bytes''))
      else Ret (x_x25519 X (xk_private k) peer_public_key))"

record ed25519_priv =
  ek_seed :: bytes
  ek_public :: bytes

definition ed25519_private_key :: "ext \<Rightarrow> bytes \<Rightarrow> ('a hal_state_scheme, ed25519_priv) prog" where
  "ed25519_private_key X seed =
     bnd (if seed = [] then random_bytes X 32
          else if length seed \<noteq> 32 then
            raise (Invalid_argument (Msg ''Ed25519 seed must be 32 bytes''))
          else ret seed) (\<lambda>s.
     ret \<lparr>ek_seed = s, ek_public = x_ed_pub X s\<rparr>)"

definition ed25519_generate :: "ext \<Rightarrow> ('a hal_state_scheme, ed25519_priv) prog" where
  "ed25519_generate X = ed25519_private_key X []"

definition ed25519_sign :: "ext \<Rightarrow> ed25519_priv \<Rightarrow> bytes \<Rightarrow> bytes" where
  "ed25519_sign X k message = x_ed_sign X (ek_seed k) message"

definition ed25519_verify :: "ext \<Rightarrow> bytes \<Rightarrow> bytes \<Rightarrow> bytes \<Rightarrow> bool" where
  "ed25519_verify X pub signature message =
     (if length signature \<noteq> 64 \<or> length pub \<noteq> 32 then False
      else x_ed_check X signature pub message)"

section \<open>Padding\<close>

lemma length_pkcs7_pad: "length (pkcs7_pad bs d) = length d + (bs - length d mod bs)"
  by (simp add: pkcs7_pad_def Let_def)

lemma pad_aligned: "0 < bs \<Longrightarrow> length (pkcs7_pad bs d) mod bs = 0"
proof -
  assume bs: "0 < bs"
  then have "length d + (bs - length d mod bs) = bs * (length d div bs + 1)"
    using mult_div_mod_eq[of bs "length d"] mod_less_divisor[OF bs, of "length d"]
    by (simp only: distrib_left mult_1_right)
  then show ?thesis by (simp add: length_pkcs7_pad)
qed

lemma length_pad16: "length (pkcs7_pad 16 d) = 16 * (length d div 16 + 1)"
  unfolding length_pkcs7_pad using mod_less_divisor[of 16 "length d"] by presburger

lemma unpad_pad:
  assumes "0 < bs" "bs < 256"
  shows "pkcs7_unpad bs (pkcs7_pad bs d) = Ret d"
proof -
  define n where "n = bs - length d mod bs"
  have n: "0 < n" "n \<le> bs" using assms(1) by (simp_all add: n_def)
  have u: "unat (of_nat n :: u8) = n" using n assms by (simp add: unat_of_nat)
  have p: "pkcs7_pad bs d = d @ replicate n (of_nat n)" by (simp add: pkcs7_pad_def n_def Let_def)
  have l: "(d @ replicate n (of_nat n :: u8)) ! (length d + n - 1) = of_nat n"
  proof -
    have "\<not> length d + n - 1 < length d" using n by linarith
    then show ?thesis using n by (simp only: nth_append if_False) simp
  qed
  show ?thesis unfolding p pkcs7_unpad_def using n u l
    by (simp add: bytes_resize_shrink)
qed

section \<open>Ciphers\<close>

text \<open>The contract of a message cipher with a 16-byte IV and a 32-byte MAC: what was encrypted
  decrypts, and the size of the result is known from the plaintext's.\<close>

locale session_cipher =
  fixes enc :: "'k \<Rightarrow> bytes \<Rightarrow> ('s, bytes) prog"
    and dec :: "'k \<Rightarrow> bytes \<Rightarrow> bytes res"
    and ok :: "'k \<Rightarrow> bool"
  assumes enc_total: "ok k \<Longrightarrow> \<exists>c s'. enc k d s = (Ret c, s')"
    and enc_dec: "ok k \<Longrightarrow> enc k d s = (Ret c, s') \<Longrightarrow> dec k c = Ret d"
    and enc_length: "ok k \<Longrightarrow> enc k d s = (Ret c, s') \<Longrightarrow> length c = 48 + 16 * (length d div 16 + 1)"
begin

lemma enc_seq:
  assumes "ok k"
  shows "\<exists>cs s'. map_prog (enc k) ds s = (Ret cs, s') \<and> map (dec k) cs = map Ret ds \<and>
    map length cs = map (\<lambda>d. 48 + 16 * (length d div 16 + 1)) ds"
proof (induction ds arbitrary: s)
  case Nil
  then show ?case by simp
next
  case (Cons d ds)
  obtain c s1 where c: "enc k d s = (Ret c, s1)" using enc_total[OF assms] by blast
  obtain cs s2 where cs: "map_prog (enc k) ds s1 = (Ret cs, s2)" "map (dec k) cs = map Ret ds"
    "map length cs = map (\<lambda>d. 48 + 16 * (length d div 16 + 1)) ds" using Cons by blast
  have "map_prog (enc k) (d # ds) s = (Ret (c # cs), s2)"
    by (simp add: bnd_def c cs(1))
  moreover have "map (dec k) (c # cs) = map Ret (d # ds)"
    using enc_dec[OF assms c] cs(2) by simp
  moreover have "map length (c # cs) = map (\<lambda>d. 48 + 16 * (length d div 16 + 1)) (d # ds)"
    using enc_length[OF assms c] cs(3) by simp
  ultimately show ?case by blast
qed

end

lemma random_ok:
  "rng_law X \<Longrightarrow> \<exists>b. random_bytes X n s = (Ret b, s\<lparr>hal_calls := hal_calls s + 1\<rparr>) \<and> length b = n"
  using rng_total[of X "hal_calls s" n] by (auto simp: random_bytes_def hal_tick_def bnd_def)

lemma hmac_ok: "hmac_law X \<Longrightarrow> hmac X k m DIGEST_SHA256 = Ret (x_hmac X DIGEST_SHA256 k m)"
  by (simp add: hmac_def hmac_new_def hmac_update_def hmac_digest_def Let_def law_simps)

lemma aes_check_ok:
  "aes_law X \<Longrightarrow> length key \<in> {16, 32} \<Longrightarrow> length iv = 16 \<Longrightarrow> length input mod 16 = 0 \<Longrightarrow>
   n = length key * 8 \<Longrightarrow> aes_cbc_check X input key iv n = Ret ()"
  by (auto simp: aes_cbc_check_def aes_law_def)

text \<open>The AES key length a token's mode calls for.\<close>

definition token_bits :: "token \<Rightarrow> nat" where
  "token_bits t = (if tk_mode t = MODE_AES_256_CBC then 256 else 128)"

definition token_ok :: "token \<Rightarrow> bool" where
  "token_ok t \<longleftrightarrow> tk_mode t \<noteq> MODE_AES \<and> length (tk_encryption_key t) * 8 = token_bits t"

lemma token_new_ok: "token_new key MODE_AES = Ret t \<Longrightarrow> token_ok t"
  by (auto simp: token_new_def token_ok_def token_bits_def split: if_splits)

lemma token_new_total: "length key = 32 \<or> length key = 64 \<Longrightarrow> \<exists>t. token_new key MODE_AES = Ret t"
  by (auto simp: token_new_def)

lemma token_encrypt_eq:
  assumes "token_ok t"
  shows "token_encrypt X t data = bnd (random_bytes X 16) (\<lambda>iv.
     bnd (lift (aes_cbc_encrypt X (token_bits t) (pkcs7_pad 16 data) (tk_encryption_key t) iv)) (\<lambda>ct.
     bnd (lift (hmac X (tk_signing_key t) (iv @ ct) DIGEST_SHA256)) (\<lambda>mac. ret (iv @ ct @ mac))))"
  using assms unfolding token_encrypt_def token_bits_def token_ok_def
  by (cases "tk_mode t") (simp_all add: Let_def)

lemma token_decrypt_eq:
  assumes "token_ok t"
  shows "token_decrypt X t tok =
    (if length tok < 48 then
        Raise (Invalid_argument (Msg_nat ''Cannot decrypt token of only '' (length tok) '' bytes''))
      else rbind (token_verify_hmac X t tok) (\<lambda>ok.
        if \<not> ok then Raise (Invalid_argument (Msg ''Token HMAC was invalid''))
        else rbind (aes_cbc_decrypt X (token_bits t) (take (length tok - 48) (drop 16 tok))
               (tk_encryption_key t) (take 16 tok)) (pkcs7_unpad 16)))"
  using assms unfolding token_decrypt_def token_bits_def token_ok_def
  by (cases "tk_mode t") (simp_all add: Let_def cong: if_cong)

lemma verify_hmac_eq:
  assumes "hmac_law X" "32 < length tok"
  shows "verify_hmac_with X k tok =
    Ret (drop (length tok - 32) tok = x_hmac X DIGEST_SHA256 k (take (length tok - 32) tok))"
  using assms by (simp add: verify_hmac_with_def hmac_ok bytes_compare_zero bytes_right_eq)

lemma token_encrypt_run:
  assumes "crypto_laws X" "token_ok t"
  shows "\<exists>iv ct. token_encrypt X t d s =
      (Ret (iv @ ct @ x_hmac X DIGEST_SHA256 (tk_signing_key t) (iv @ ct)), s\<lparr>hal_calls := hal_calls s + 1\<rparr>) \<and>
    length iv = 16 \<and> length ct = 16 * (length d div 16 + 1) \<and>
    x_aes_dec X (tk_encryption_key t) iv ct = Some (pkcs7_pad 16 d)"
proof -
  note laws = crypto_lawsD[OF assms(1)]
  let ?key = "tk_encryption_key t"
  have key: "length ?key \<in> {16, 32}" "token_bits t = length ?key * 8"
    using assms(2) by (auto simp: token_ok_def token_bits_def split: if_splits)
  obtain iv where iv: "random_bytes X 16 s = (Ret iv, s\<lparr>hal_calls := hal_calls s + 1\<rparr>)" "length iv = 16"
    using random_ok[OF laws(7)] by blast
  have pad: "length (pkcs7_pad 16 d) mod 16 = 0" by (rule pad_aligned) simp
  obtain ct where ct: "x_aes_enc X ?key iv (pkcs7_pad 16 d) = Some ct"
      "length ct = length (pkcs7_pad 16 d)" "x_aes_dec X ?key iv ct = Some (pkcs7_pad 16 d)"
    using aes_total[OF laws(4) _ iv(2) pad, of ?key] key(1) by auto
  have "aes_cbc_encrypt X (token_bits t) (pkcs7_pad 16 d) ?key iv = Ret ct"
    using aes_check_ok[OF laws(4) key(1) iv(2) pad key(2)] ct(1) by (simp add: aes_cbc_encrypt_def)
  then have "token_encrypt X t d s =
      (Ret (iv @ ct @ x_hmac X DIGEST_SHA256 (tk_signing_key t) (iv @ ct)), s\<lparr>hal_calls := hal_calls s + 1\<rparr>)"
    using iv(1) by (simp add: token_encrypt_eq[OF assms(2)] bnd_def hmac_ok[OF laws(2)])
  then show ?thesis using iv(2) ct by (auto simp: length_pad16)
qed

lemma token_decrypt_run:
  assumes "crypto_laws X" "token_ok t" "length iv = 16" "length ct mod 16 = 0"
    "x_aes_dec X (tk_encryption_key t) iv ct = Some p"
  shows "token_decrypt X t (iv @ ct @ x_hmac X DIGEST_SHA256 (tk_signing_key t) (iv @ ct)) = pkcs7_unpad 16 p"
proof -
  note laws = crypto_lawsD[OF assms(1)]
  let ?key = "tk_encryption_key t"
  have key: "length ?key \<in> {16, 32}" "token_bits t = length ?key * 8"
    using assms(2) by (auto simp: token_ok_def token_bits_def split: if_splits)
  define mac where "mac = x_hmac X DIGEST_SHA256 (tk_signing_key t) (iv @ ct)"
  have mac: "length mac = 32" by (simp add: mac_def law_simps laws)
  have v: "token_verify_hmac X t (iv @ ct @ mac) = Ret True"
    unfolding token_verify_hmac_def using mac assms(3)
    by (subst verify_hmac_eq[OF laws(2)]) (simp_all add: mac_def)
  have "aes_cbc_decrypt X (token_bits t) ct ?key iv = Ret p"
    using aes_check_ok[OF laws(4) key(1) assms(3,4) key(2)] assms(5) by (simp add: aes_cbc_decrypt_def)
  then show ?thesis
    unfolding mac_def[symmetric] using v mac assms(3) by (simp add: token_decrypt_eq[OF assms(2)])
qed

interpretation tok: session_cipher
  "\<lambda>(X, t). token_encrypt X t" "\<lambda>(X, t). token_decrypt X t" "\<lambda>(X, t). crypto_laws X \<and> token_ok t"
proof
  fix k :: "ext \<times> token" and d c :: bytes and s s' :: "'a hal_state_scheme"
  obtain X t where k: "k = (X, t)" by (cases k)
  assume ok: "case k of (X, t) \<Rightarrow> crypto_laws X \<and> token_ok t"
  then have laws: "crypto_laws X" "token_ok t" by (simp_all add: k)
  obtain iv ct where run: "token_encrypt X t d s =
      (Ret (iv @ ct @ x_hmac X DIGEST_SHA256 (tk_signing_key t) (iv @ ct)), s\<lparr>hal_calls := hal_calls s + 1\<rparr>)"
    "length iv = 16" "length ct = 16 * (length d div 16 + 1)"
    "x_aes_dec X (tk_encryption_key t) iv ct = Some (pkcs7_pad 16 d)"
    using token_encrypt_run[OF laws] by blast
  show "\<exists>c s'. (case k of (X, t) \<Rightarrow> token_encrypt X t) d s = (Ret c, s')"
    using run(1) by (simp add: k)
  assume "(case k of (X, t) \<Rightarrow> token_encrypt X t) d s = (Ret c, s')"
  then have c: "c = iv @ ct @ x_hmac X DIGEST_SHA256 (tk_signing_key t) (iv @ ct)"
    using run(1) by (simp add: k)
  show "(case k of (X, t) \<Rightarrow> token_decrypt X t) c = Ret d"
    unfolding k c prod.case
    by (subst token_decrypt_run[OF laws run(2) _ run(4)]) (simp_all add: run(3) unpad_pad)
  show "length c = 48 + 16 * (length d div 16 + 1)"
    unfolding c using run(2,3) by (simp add: law_simps crypto_lawsD[OF laws(1)])
qed


section \<open>Properties\<close>

text \<open>
  Any sequence of messages encrypted one after the other under a token key decrypts, message
  by message, to itself, and each ciphertext is 48 bytes longer than the padded message.
\<close>

theorem token_session:
  assumes "crypto_laws X" "token_new key MODE_AES = Ret t"
  shows "\<exists>cs s'. map_prog (token_encrypt X t) ds s = (Ret cs, s') \<and>
    map (token_decrypt X t) cs = map Ret ds \<and>
    map length cs = map (\<lambda>d. 48 + 16 * (length d div 16 + 1)) ds"
  using tok.enc_seq[of "(X, t)"] assms token_new_ok by simp

theorem token_session_witness:
  "\<exists>cs s'. map_prog (token_encrypt toy \<lparr>tk_mode = MODE_AES_128_CBC,
       tk_signing_key = replicate 16 7, tk_encryption_key = replicate 16 7\<rparr>)
       [[1, 2, 3], []] \<lparr>hal_calls = 0\<rparr> = (Ret cs, s') \<and>
     map (token_decrypt toy \<lparr>tk_mode = MODE_AES_128_CBC,
       tk_signing_key = replicate 16 7, tk_encryption_key = replicate 16 7\<rparr>) cs =
       map Ret [[1, 2, 3], []] \<and>
     map length cs = map (\<lambda>d :: bytes. 48 + 16 * (length d div 16 + 1)) [[1, 2, 3], []]"
  by (rule token_session[OF toy_laws, of "replicate 32 7"]) (simp add: token_new_def)

text \<open>
  C17: a token is only decrypted when its last 32 bytes are the MAC of the rest and it is a whole
  number of blocks; a token of 48 bytes or more with another MAC makes \<open>decrypt\<close> throw.
\<close>

theorem token_integrity:
  assumes "hmac_law X" "token_new key MODE_AES = Ret t"
  shows "(token_decrypt X t tok = Ret d \<longrightarrow>
      48 \<le> length tok \<and> length tok mod 16 = 0 \<and>
      drop (length tok - 32) tok = x_hmac X DIGEST_SHA256 (tk_signing_key t) (take (length tok - 32) tok)) \<and>
    (48 \<le> length tok \<longrightarrow>
      drop (length tok - 32) tok \<noteq> x_hmac X DIGEST_SHA256 (tk_signing_key t) (take (length tok - 32) tok) \<longrightarrow>
      token_decrypt X t tok = Raise (Invalid_argument (Msg ''Token HMAC was invalid'')))"
proof -
  have t: "token_ok t" using assms(2) by (rule token_new_ok)
  have v: "token_verify_hmac X t tok = Ret (drop (length tok - 32) tok =
      x_hmac X DIGEST_SHA256 (tk_signing_key t) (take (length tok - 32) tok))" if "48 \<le> length tok"
    unfolding token_verify_hmac_def using that by (intro verify_hmac_eq[OF assms(1)]) simp
  have m: "length tok mod 16 = 0" if "48 \<le> length tok"
    "aes_cbc_check X (take (length tok - 48) (drop 16 tok)) k iv n = Ret ()" for k iv n
  proof -
    have "(length tok - 48) mod 16 = 0"
      using that by (auto simp: aes_cbc_check_def split: if_splits)
    then show ?thesis using that(1) by presburger
  qed
  show ?thesis
  proof (intro conjI impI)
    assume d: "token_decrypt X t tok = Ret d"
    then show l: "48 \<le> length tok" by (auto simp: token_decrypt_eq[OF t] split: if_splits)
    show "drop (length tok - 32) tok = x_hmac X DIGEST_SHA256 (tk_signing_key t) (take (length tok - 32) tok)"
      using d l by (auto simp: token_decrypt_eq[OF t] v split: if_splits)
    show "length tok mod 16 = 0"
      using d l m[OF l] by (auto simp: token_decrypt_eq[OF t] v rbind_eq_Ret aes_cbc_decrypt_def split: if_splits)
  next
    assume "48 \<le> length tok"
      "drop (length tok - 32) tok \<noteq> x_hmac X DIGEST_SHA256 (tk_signing_key t) (take (length tok - 32) tok)"
    then show "token_decrypt X t tok = Raise (Invalid_argument (Msg ''Token HMAC was invalid''))"
      by (simp add: token_decrypt_eq[OF t] v)
  qed
qed

theorem token_integrity_witness:
  "token_decrypt toy \<lparr>tk_mode = MODE_AES_128_CBC, tk_signing_key = replicate 16 7,
       tk_encryption_key = replicate 16 7\<rparr> (replicate 32 1 @ replicate 32 2) =
     Raise (Invalid_argument (Msg ''Token HMAC was invalid''))"
proof -
  have h: "hmac_law toy" by (rule crypto_lawsD(2)[OF toy_laws])
  have k: "token_new (replicate 32 7) MODE_AES = Ret \<lparr>tk_mode = MODE_AES_128_CBC,
      tk_signing_key = replicate 16 7, tk_encryption_key = replicate 16 7\<rparr>"
    by (simp add: token_new_def)
  have n: "replicate 32 2 \<noteq> (replicate 32 1 :: bytes)" by (simp add: numeral_eq_Suc)
  show ?thesis
    by (rule token_integrity[OF h k, THEN conjunct2, THEN mp, THEN mp]) (simp_all add: toy_def n)
qed

text \<open>
  \<open>Fernet\<close> is \<open>Token\<close> restricted to 32-byte keys: it encrypts to the same bytes and decrypts
  the same tokens to the same plaintexts.
\<close>

theorem fernet_is_token:
  assumes "length key = 32"
  shows "\<exists>f t. fernet_new key = Ret f \<and> token_new key MODE_AES = Ret t \<and>
    fernet_encrypt X f data s = token_encrypt X t data s \<and>
    (fernet_decrypt X f tok = Ret d \<longleftrightarrow> token_decrypt X t tok = Ret d)"
proof -
  define k where "k = take 16 key" define e where "e = drop 16 key"
  have f: "fernet_new key = Ret \<lparr>fn_signing_key = k, fn_encryption_key = e\<rparr>"
    using assms by (auto simp: fernet_new_def k_def e_def)
  have t: "token_new key MODE_AES =
      Ret \<lparr>tk_mode = MODE_AES_128_CBC, tk_signing_key = k, tk_encryption_key = e\<rparr>" (is "_ = Ret ?t")
    using assms by (auto simp: token_new_def k_def e_def)
  have "fernet_encrypt X \<lparr>fn_signing_key = k, fn_encryption_key = e\<rparr> data s = token_encrypt X ?t data s"
    by (simp add: fernet_encrypt_def token_encrypt_def Let_def)
  moreover have "fernet_decrypt X \<lparr>fn_signing_key = k, fn_encryption_key = e\<rparr> tok = Ret d \<longleftrightarrow>
      token_decrypt X ?t tok = Ret d"
    by (auto simp: fernet_decrypt_def token_decrypt_def fernet_verify_hmac_def token_verify_hmac_def
        Let_def rbind_eq_Ret split: if_splits)
  ultimately show ?thesis using f t by blast
qed

theorem fernet_is_token_witness:
  "\<exists>f t. fernet_new (replicate 32 9) = Ret f \<and> token_new (replicate 32 9) MODE_AES = Ret t \<and>
    fernet_encrypt toy f [5] \<lparr>hal_calls = 0\<rparr> = token_encrypt toy t [5] \<lparr>hal_calls = 0\<rparr> \<and>
    (fernet_decrypt toy f [5] = Ret [] \<longleftrightarrow> token_decrypt toy t [5] = Ret [])"
  by (rule fernet_is_token) simp

end
