(* ===== verification/Identity.thy ===== *)
theory Identity
  imports Crypto
begin

text \<open>
  Identities (src/identity.cpp, include/rtreticulum/identity.h), the table of known destinations and
  the file storage they persist to (src/filesystem.cpp, src/filesystems/posix.cpp). An identity
  object is a value: the library never changes one after it has handed it on. A null identity is
  \<open>None\<close>. The state extends the HAL's by the known destinations and the registered file system.
\<close>

section \<open>State\<close>

record identity_entry =
  ie_timestamp :: rtime
  ie_packet_hash :: bytes
  ie_public_key :: bytes
  ie_app_data :: bytes

text \<open>A file system behind stdio: its files, which paths \<open>fopen\<close> may create, and how many bytes
  \<open>fwrite\<close> manages to write.\<close>

record posix_fs =
  pf_files :: "string \<Rightarrow> bytes option"
  pf_creatable :: "string \<Rightarrow> bool"
  pf_capacity :: nat

record identity_state = hal_state +
  known_destinations :: "bytes \<Rightarrow> identity_entry option"
  fs_impl :: "posix_fs option"

section \<open>Files\<close>

definition posix_file_exists :: "string \<Rightarrow> posix_fs \<Rightarrow> bool" where
  "posix_file_exists path fs = (case pf_files fs path of None \<Rightarrow> False | Some _ \<Rightarrow> True)"

definition posix_read_file :: "string \<Rightarrow> posix_fs \<Rightarrow> nat \<times> bytes" where
  "posix_read_file path fs =
     (case pf_files fs path of None \<Rightarrow> (0, []) | Some b \<Rightarrow> (length b, b))"

definition posix_write_file :: "string \<Rightarrow> bytes \<Rightarrow> posix_fs \<Rightarrow> nat \<times> posix_fs" where
  "posix_write_file path data fs =
     (if \<not> pf_creatable fs path then (0, fs)
      else let n = min (length data) (pf_capacity fs)
           in (n, fs\<lparr>pf_files := (pf_files fs)(path := Some (take n data))\<rparr>))"

definition posix_remove_file :: "string \<Rightarrow> posix_fs \<Rightarrow> bool \<times> posix_fs" where
  "posix_remove_file path fs =
     (case pf_files fs path of
        None \<Rightarrow> (False, fs)
      | Some _ \<Rightarrow> (True, fs\<lparr>pf_files := (pf_files fs)(path := None)\<rparr>))"

definition fs_set_impl :: "posix_fs option \<Rightarrow> ('a identity_state_scheme, unit) prog" where
  "fs_set_impl impl = modify (\<lambda>s. s\<lparr>fs_impl := impl\<rparr>)"

definition fs_available :: "('a identity_state_scheme, bool) prog" where
  "fs_available = gets (\<lambda>s. fs_impl s \<noteq> None)"

definition fs_file_exists :: "string \<Rightarrow> ('a identity_state_scheme, bool) prog" where
  "fs_file_exists path = gets (\<lambda>s.
     case fs_impl s of None \<Rightarrow> False | Some fs \<Rightarrow> posix_file_exists path fs)"

definition fs_read_file :: "string \<Rightarrow> ('a identity_state_scheme, nat \<times> bytes) prog" where
  "fs_read_file path = gets (\<lambda>s.
     case fs_impl s of None \<Rightarrow> (0, []) | Some fs \<Rightarrow> posix_read_file path fs)"

definition fs_write_file :: "string \<Rightarrow> bytes \<Rightarrow> ('a identity_state_scheme, nat) prog" where
  "fs_write_file path data s =
     (case fs_impl s of
        None \<Rightarrow> (Ret 0, s)
      | Some fs \<Rightarrow> (case posix_write_file path data fs of (n, fs') \<Rightarrow> (Ret n, s\<lparr>fs_impl := Some fs'\<rparr>)))"

definition fs_remove_file :: "string \<Rightarrow> ('a identity_state_scheme, bool) prog" where
  "fs_remove_file path s =
     (case fs_impl s of
        None \<Rightarrow> (Ret False, s)
      | Some fs \<Rightarrow> (case posix_remove_file path fs of (b, fs') \<Rightarrow> (Ret b, s\<lparr>fs_impl := Some fs'\<rparr>)))"

section \<open>Identity objects\<close>

record identity =
  id_prv :: "x25519_priv option"
  id_prv_bytes :: bytes
  id_sig_prv :: "ed25519_priv option"
  id_sig_prv_bytes :: bytes
  id_pub :: "bytes option"
  id_pub_bytes :: bytes
  id_sig_pub :: "bytes option"
  id_sig_pub_bytes :: bytes
  id_hash :: bytes
  id_hexhash :: string
  id_app_data :: bytes

text \<open>\<open>Identity(false)\<close>\<close>

definition empty_identity :: identity where
  "empty_identity =
    \<lparr>id_prv = None, id_prv_bytes = [], id_sig_prv = None, id_sig_prv_bytes = [], id_pub = None,
     id_pub_bytes = [], id_sig_pub = None, id_sig_pub_bytes = [], id_hash = [], id_hexhash = [],
     id_app_data = []\<rparr>"

definition full_hash :: "ext \<Rightarrow> bytes \<Rightarrow> bytes" where
  "full_hash X data = sha256 X data"

definition truncated_hash :: "ext \<Rightarrow> bytes \<Rightarrow> bytes" where
  "truncated_hash X data = bytes_left (TRUNCATED_HASHLENGTH div 8) (full_hash X data)"

definition get_random_hash :: "ext \<Rightarrow> ('a hal_state_scheme, bytes) prog" where
  "get_random_hash X =
     bnd (random_bytes X (TRUNCATED_HASHLENGTH div 8)) (\<lambda>r. ret (truncated_hash X r))"

definition get_private_key :: "identity \<Rightarrow> bytes" where
  "get_private_key i = id_prv_bytes i @ id_sig_prv_bytes i"

definition get_public_key :: "identity \<Rightarrow> bytes" where
  "get_public_key i = id_pub_bytes i @ id_sig_pub_bytes i"

definition update_hashes :: "ext \<Rightarrow> identity \<Rightarrow> identity" where
  "update_hashes X i =
     (let h = truncated_hash X (get_public_key i)
      in i\<lparr>id_hash := h, id_hexhash := to_hex False h\<rparr>)"

text \<open>The steps of key creation and loading, on an object and the state; the object keeps what the
  steps before an exception assigned.\<close>

type_synonym ('s, 'a) id_prog = "(identity \<times> 's, 'a) prog"

definition set_id :: "(identity \<Rightarrow> identity) \<Rightarrow> ('s, unit) id_prog" where
  "set_id f = modify (\<lambda>(i, s). (f i, s))"

definition derive_public :: "ext \<Rightarrow> x25519_priv \<Rightarrow> ed25519_priv \<Rightarrow> identity \<Rightarrow> identity" where
  "derive_public X k e i = update_hashes X
     (i\<lparr>id_pub := Some (xk_public k), id_pub_bytes := xk_public k,
        id_sig_pub := Some (ek_public e), id_sig_pub_bytes := ek_public e\<rparr>)"

definition create_keys_steps :: "ext \<Rightarrow> ('a hal_state_scheme, unit) id_prog" where
  "create_keys_steps X =
     bnd (on_snd (x25519_generate X)) (\<lambda>k.
     bnd (set_id (\<lambda>i. i\<lparr>id_prv := Some k, id_prv_bytes := xk_private k\<rparr>)) (\<lambda>_.
     bnd (on_snd (ed25519_generate X)) (\<lambda>e.
     bnd (set_id (\<lambda>i. i\<lparr>id_sig_prv := Some e, id_sig_prv_bytes := ek_seed e\<rparr>)) (\<lambda>_.
     set_id (derive_public X k e)))))"

text \<open>\<open>Identity(true)\<close>: an exception leaves no object.\<close>

definition create_identity :: "ext \<Rightarrow> ('a hal_state_scheme, identity) prog" where
  "create_identity X s =
     (case create_keys_steps X (empty_identity, s) of
        (Ret u, (i, s')) \<Rightarrow> (Ret i, s')
      | (Raise e, (i, s')) \<Rightarrow> (Raise e, s')
      | (Fault f, (i, s')) \<Rightarrow> (Fault f, s'))"

definition load_private_key_steps :: "ext \<Rightarrow> bytes \<Rightarrow> ('a hal_state_scheme, bool) id_prog" where
  "load_private_key_steps X prv_bytes =
     (let half = KEYSIZE div 8 div 2 in
     bnd (set_id (\<lambda>i. i\<lparr>id_prv_bytes := bytes_left half prv_bytes\<rparr>)) (\<lambda>_.
     bnd (on_snd (x25519_private_key X (bytes_left half prv_bytes))) (\<lambda>k.
     bnd (set_id (\<lambda>i. i\<lparr>id_prv := Some k, id_sig_prv_bytes := bytes_mid_rest half prv_bytes\<rparr>)) (\<lambda>_.
     bnd (on_snd (ed25519_private_key X (bytes_mid_rest half prv_bytes))) (\<lambda>e.
     bnd (set_id (\<lambda>i. derive_public X k e (i\<lparr>id_sig_prv := Some e\<rparr>))) (\<lambda>_.
     ret True))))))"

definition load_private_key ::
  "ext \<Rightarrow> bytes \<Rightarrow> identity \<Rightarrow> ('a hal_state_scheme, bool \<times> identity) prog" where
  "load_private_key X prv_bytes i s =
     (case try_catch (load_private_key_steps X prv_bytes) (\<lambda>e. ret False) (i, s) of
        (r, (i', s')) \<Rightarrow> (map_res (\<lambda>ok. (ok, i')) r, s'))"

definition load_public_key :: "ext \<Rightarrow> bytes \<Rightarrow> identity \<Rightarrow> identity" where
  "load_public_key X pub_bytes i =
     (let half = KEYSIZE div 8 div 2; p = bytes_left half pub_bytes; q = bytes_mid_rest half pub_bytes
      in update_hashes X (i\<lparr>id_pub_bytes := p, id_sig_pub_bytes := q,
           id_pub := Some p, id_sig_pub := Some q\<rparr>))"

section \<open>Persistence\<close>

definition to_file :: "identity \<Rightarrow> string \<Rightarrow> ('a identity_state_scheme, bool) prog" where
  "to_file i path = bnd fs_available (\<lambda>av.
     if \<not> av then ret False
     else bnd (fs_write_file path (get_private_key i)) (\<lambda>n.
       ret (n = length (get_private_key i))))"

definition from_file :: "ext \<Rightarrow> string \<Rightarrow> ('a identity_state_scheme, identity option) prog" where
  "from_file X path = bnd fs_available (\<lambda>av.
     if \<not> av then ret None
     else bnd (fs_read_file path) (\<lambda>(n, prv).
       if n = 0 then ret None
       else bnd (load_private_key X prv empty_identity) (\<lambda>(ok, i).
         if \<not> ok then ret None else ret (Some i))))"

section \<open>Known destinations\<close>

definition remember :: "ext \<Rightarrow> bytes \<Rightarrow> bytes \<Rightarrow> bytes \<Rightarrow> bytes \<Rightarrow> ('a identity_state_scheme, unit) prog" where
  "remember X packet_hash destination_hash public_key app_data =
     (if length public_key \<noteq> KEYSIZE div 8 then
        raise (Invalid_argument (Msg ''Identity::remember: invalid public key size''))
      else bnd (os_time X) (\<lambda>t.
        modify (\<lambda>s. s\<lparr>known_destinations := (known_destinations s)(destination_hash \<mapsto>
          \<lparr>ie_timestamp = t, ie_packet_hash = packet_hash, ie_public_key = public_key,
           ie_app_data = app_data\<rparr>)\<rparr>)))"

definition recall :: "ext \<Rightarrow> bytes \<Rightarrow> 'a identity_state_scheme \<Rightarrow> identity option" where
  "recall X destination_hash s =
     (case known_destinations s destination_hash of
        None \<Rightarrow> None
      | Some e \<Rightarrow> Some ((load_public_key X (ie_public_key e) empty_identity)
                    \<lparr>id_app_data := ie_app_data e\<rparr>))"

definition recall_app_data :: "bytes \<Rightarrow> 'a identity_state_scheme \<Rightarrow> bytes" where
  "recall_app_data destination_hash s =
     (case known_destinations s destination_hash of None \<Rightarrow> [] | Some e \<Rightarrow> ie_app_data e)"

section \<open>Encryption and signatures\<close>

definition identity_encrypt :: "ext \<Rightarrow> identity option \<Rightarrow> bytes \<Rightarrow> ('a hal_state_scheme, bytes) prog" where
  "identity_encrypt X io plaintext =
     (case io of
        None \<Rightarrow> raise (Runtime_error (Msg ''Encryption failed: no public key''))
      | Some i \<Rightarrow>
          if id_pub i = None then raise (Runtime_error (Msg ''Encryption failed: no public key''))
          else
            bnd (x25519_generate X) (\<lambda>ephemeral_key.
            bnd (lift (x25519_exchange X ephemeral_key (id_pub_bytes i))) (\<lambda>shared_key.
            bnd (lift (hkdf X DERIVED_KEY_LENGTH shared_key (id_hash i) [])) (\<lambda>derived_key.
            bnd (lift (token_new derived_key MODE_AES)) (\<lambda>t.
            bnd (token_encrypt X t plaintext) (\<lambda>c.
            ret (xk_public ephemeral_key @ c)))))))"

definition res_catch :: "'a res \<Rightarrow> 'a \<Rightarrow> 'a res" where
  "res_catch r a = (case r of Raise e \<Rightarrow> Ret a | r \<Rightarrow> r)"

definition identity_decrypt :: "ext \<Rightarrow> identity option \<Rightarrow> bytes \<Rightarrow> bytes res" where
  "identity_decrypt X io ciphertext_token =
     (case io of
        None \<Rightarrow> Raise (Runtime_error (Msg ''Decryption failed: no private key''))
      | Some i \<Rightarrow>
         (case id_prv i of
            None \<Rightarrow> Raise (Runtime_error (Msg ''Decryption failed: no private key''))
          | Some prv \<Rightarrow>
              (let half = KEYSIZE div 8 div 2 in
               if length ciphertext_token \<le> half then Ret []
               else res_catch
                 (rbind (x25519_exchange X prv (bytes_left half ciphertext_token)) (\<lambda>shared_key.
                  rbind (hkdf X DERIVED_KEY_LENGTH shared_key (id_hash i) []) (\<lambda>derived_key.
                  rbind (token_new derived_key MODE_AES) (\<lambda>t.
                  token_decrypt X t (bytes_mid_rest half ciphertext_token))))) [])))"

definition identity_sign :: "ext \<Rightarrow> identity option \<Rightarrow> bytes \<Rightarrow> bytes res" where
  "identity_sign X io message =
     (case io of
        None \<Rightarrow> Raise (Runtime_error (Msg ''Signing failed: no signing key''))
      | Some i \<Rightarrow>
         (case id_sig_prv i of
            None \<Rightarrow> Raise (Runtime_error (Msg ''Signing failed: no signing key''))
          | Some e \<Rightarrow> Ret (ed25519_sign X e message)))"

definition identity_validate :: "ext \<Rightarrow> identity option \<Rightarrow> bytes \<Rightarrow> bytes \<Rightarrow> bool" where
  "identity_validate X io signature message =
     (case io of
        None \<Rightarrow> False
      | Some i \<Rightarrow>
         (case id_sig_pub i of
            None \<Rightarrow> False
          | Some p \<Rightarrow> ed25519_verify X p signature message))"

section \<open>Loading and creating keys\<close>

lemmas id_prog_simps =
  bnd_def on_snd_def set_id_def x25519_generate_def ed25519_generate_def
  x25519_private_key_def ed25519_private_key_def

text \<open>An identity with both key pairs, made from the private keys \<open>a\<close> and \<open>e\<close>.\<close>

definition key_identity :: "ext \<Rightarrow> bytes \<Rightarrow> bytes \<Rightarrow> bytes \<Rightarrow> identity" where
  "key_identity X a e app =
    \<lparr>id_prv = Some \<lparr>xk_private = a, xk_public = x_x25519_pub X a\<rparr>, id_prv_bytes = a,
     id_sig_prv = Some \<lparr>ek_seed = e, ek_public = x_ed_pub X e\<rparr>, id_sig_prv_bytes = e,
     id_pub = Some (x_x25519_pub X a), id_pub_bytes = x_x25519_pub X a,
     id_sig_pub = Some (x_ed_pub X e), id_sig_pub_bytes = x_ed_pub X e,
     id_hash = truncated_hash X (x_x25519_pub X a @ x_ed_pub X e),
     id_hexhash = to_hex False (truncated_hash X (x_x25519_pub X a @ x_ed_pub X e)),
     id_app_data = app\<rparr>"

lemma create_identity_ok:
  assumes "rng_law X"
  shows "\<exists>a e. create_identity X s = (Ret (key_identity X a e []), s\<lparr>hal_calls := hal_calls s + 2\<rparr>) \<and>
    length a = 32 \<and> length e = 32"
proof -
  obtain a where a: "random_bytes X 32 s = (Ret a, s\<lparr>hal_calls := hal_calls s + 1\<rparr>)" "length a = 32"
    using random_ok[OF assms] by blast
  obtain e where e: "random_bytes X 32 (s\<lparr>hal_calls := hal_calls s + 1\<rparr>) =
      (Ret e, s\<lparr>hal_calls := hal_calls s + 2\<rparr>)" "length e = 32"
    using random_ok[OF assms, of 32 "s\<lparr>hal_calls := hal_calls s + 1\<rparr>"] by auto
  have "create_identity X s = (Ret (key_identity X a e []), s\<lparr>hal_calls := hal_calls s + 2\<rparr>)"
    using a(1) e(1)
    by (simp add: create_identity_def create_keys_steps_def id_prog_simps empty_identity_def
        derive_public_def update_hashes_def get_public_key_def key_identity_def Let_def)
  then show ?thesis using a(2) e(2) by blast
qed

lemma create_identityD:
  assumes "rng_law X" "create_identity X s = (Ret i, s')"
  obtains a e where "i = key_identity X a e []" "length a = 32" "length e = 32"
  using create_identity_ok[OF assms(1), of s] assms(2) by auto

lemma load_private_key_ok:
  assumes "length a = 32" "length e = 32"
  shows "load_private_key X (a @ e) i s = (Ret (True, key_identity X a e (id_app_data i)), s)"
proof -
  have ne: "a \<noteq> []" "e \<noteq> []" using assms by auto
  show ?thesis
    using assms ne
    by (simp add: load_private_key_def load_private_key_steps_def try_catch_def id_prog_simps
        derive_public_def update_hashes_def get_public_key_def key_identity_def Let_def size_values)
qed

lemma get_key_identity:
  "get_private_key (key_identity X a e app) = a @ e"
  "get_public_key (key_identity X a e app) = x_x25519_pub X a @ x_ed_pub X e"
  "id_hash (key_identity X a e app) = truncated_hash X (x_x25519_pub X a @ x_ed_pub X e)"
  by (simp_all add: get_private_key_def get_public_key_def key_identity_def)

lemma load_public_key_fields:
  assumes "length p = 32"
  shows "id_pub (load_public_key X (p @ q) i) = Some p" "id_pub_bytes (load_public_key X (p @ q) i) = p"
    "id_sig_pub (load_public_key X (p @ q) i) = Some q" "id_sig_pub_bytes (load_public_key X (p @ q) i) = q"
    "id_hash (load_public_key X (p @ q) i) = truncated_hash X (p @ q)"
  using assms
  by (simp_all add: load_public_key_def update_hashes_def get_public_key_def size_values Let_def)

lemma length_truncated_hash: "hash_law X \<Longrightarrow> length (truncated_hash X d) = 16"
  by (simp add: truncated_hash_def full_hash_def sha256_def size_values law_simps)

section \<open>The cipher of an identity\<close>

lemma derive_token:
  assumes "crypto_laws X" "length sk = 32"
  shows "\<exists>dk t. hkdf X DERIVED_KEY_LENGTH sk salt [] = Ret dk \<and> token_new dk MODE_AES = Ret t"
proof -
  have "hkdf_law X" using assms(1) by (rule crypto_lawsD)
  then obtain dk where "x_hkdf X salt sk [] 64 = Some dk" "length dk = 64"
    using hkdf_total[of X 64 salt sk "[]"] by auto
  moreover have "sk \<noteq> []" using assms(2) by auto
  moreover obtain t where "token_new dk MODE_AES = Ret t"
    using token_new_total[of dk] \<open>length dk = 64\<close> by blast
  ultimately show ?thesis by (simp add: hkdf_def size_values)
qed

lemma identity_encrypt_run:
  assumes "crypto_laws X" "id_pub i = Some p" "id_pub_bytes i = x_x25519_pub X a"
  shows "\<exists>b dk t c. identity_encrypt X (Some i) d s =
      (Ret (x_x25519_pub X b @ c), s\<lparr>hal_calls := hal_calls s + 2\<rparr>) \<and>
    hkdf X DERIVED_KEY_LENGTH (x_x25519 X a (x_x25519_pub X b)) (id_hash i) [] = Ret dk \<and>
    token_new dk MODE_AES = Ret t \<and> token_decrypt X t c = Ret d \<and>
    length c = 48 + 16 * (length d div 16 + 1)"
proof -
  note laws = crypto_lawsD[OF assms(1)]
  obtain b where b: "random_bytes X 32 s = (Ret b, s\<lparr>hal_calls := hal_calls s + 1\<rparr>)" "length b = 32"
    using random_ok[OF laws(7)] by blast
  have sh: "x_x25519 X b (x_x25519_pub X a) = x_x25519 X a (x_x25519_pub X b)"
    by (rule dh_agree[OF laws(5)])
  have "length (x_x25519 X a (x_x25519_pub X b)) = 32" by (simp add: law_simps laws)
  then obtain dk t where t: "hkdf X DERIVED_KEY_LENGTH (x_x25519 X a (x_x25519_pub X b)) (id_hash i) [] = Ret dk"
      "token_new dk MODE_AES = Ret t"
    using derive_token[OF assms(1)] by blast
  have ok: "crypto_laws X \<and> token_ok t" using assms(1) token_new_ok[OF t(2)] by blast
  obtain c where c: "token_encrypt X t d (s\<lparr>hal_calls := hal_calls s + 1\<rparr>) =
      (Ret c, s\<lparr>hal_calls := hal_calls s + 2\<rparr>)"
    using token_encrypt_run[of X t d "s\<lparr>hal_calls := hal_calls s + 1\<rparr>"] ok by auto
  have "identity_encrypt X (Some i) d s =
      (Ret (x_x25519_pub X b @ c), s\<lparr>hal_calls := hal_calls s + 2\<rparr>)"
    using b t c assms(2,3) laws
    by (simp add: identity_encrypt_def x25519_generate_def x25519_private_key_def x25519_exchange_def
        bnd_def law_simps sh)
  moreover have "token_decrypt X t c = Ret d" "length c = 48 + 16 * (length d div 16 + 1)"
    using tok.enc_dec[of "(X, t)"] tok.enc_length[of "(X, t)"] ok c by auto
  ultimately show ?thesis using t by blast
qed

lemma no_fault_catch: "no_fault r \<Longrightarrow> \<exists>b. res_catch r a = Ret b"
  by (cases r) (simp_all add: res_catch_def)

lemma no_fault_crypto:
  "no_fault (x25519_exchange X k p)" "no_fault (hkdf X n ikm salt info)" "no_fault (token_new key m)"
  "no_fault (hmac X key msg d)" "no_fault (aes_cbc_decrypt X n c key iv)" "no_fault (pkcs7_unpad bs p)"
  by (auto simp: x25519_exchange_def hkdf_def token_new_def hmac_def hmac_new_def aes_cbc_decrypt_def
      aes_cbc_check_def pkcs7_unpad_def Let_def split: option.splits intro!: no_fault_rbind)

lemma no_fault_decrypt: "no_fault (token_decrypt X t c)"
  unfolding token_decrypt_def token_verify_hmac_def verify_hmac_with_def Let_def
  by (auto split: token_mode.splits intro!: no_fault_rbind no_fault_crypto)

lemma create_toy: "create_identity toy \<lparr>hal_calls = 0\<rparr> =
    (Ret (key_identity toy (replicate 32 1) (replicate 32 2) []), \<lparr>hal_calls = 2\<rparr>)"
  by (simp add: create_identity_def create_keys_steps_def id_prog_simps empty_identity_def
      random_bytes_def hal_tick_def toy_def derive_public_def update_hashes_def get_public_key_def
      key_identity_def Let_def)

lemma channel_run:
  assumes "crypto_laws X" "create_identity X s0 = (Ret i, s1)"
  shows "\<exists>c. identity_encrypt X (Some (load_public_key X (get_public_key i) empty_identity)) d s =
      (Ret c, s\<lparr>hal_calls := hal_calls s + 2\<rparr>) \<and>
    identity_decrypt X (Some i) c = Ret d \<and> length c = 80 + 16 * (length d div 16 + 1)"
proof -
  note laws = crypto_lawsD[OF assms(1)]
  obtain a e where i: "i = key_identity X a e []" "length a = 32"
    using create_identityD[OF laws(7) assms(2)] by blast
  define j where "j = load_public_key X (get_public_key i) empty_identity"
  have j: "id_pub j = Some (x_x25519_pub X a)" "id_pub_bytes j = x_x25519_pub X a" "id_hash j = id_hash i"
    unfolding j_def i get_key_identity by (simp_all add: load_public_key_fields law_simps laws)
  obtain b dk t c where r: "identity_encrypt X (Some j) d s =
        (Ret (x_x25519_pub X b @ c), s\<lparr>hal_calls := hal_calls s + 2\<rparr>)"
      "hkdf X DERIVED_KEY_LENGTH (x_x25519 X a (x_x25519_pub X b)) (id_hash i) [] = Ret dk"
      "token_new dk MODE_AES = Ret t" "token_decrypt X t c = Ret d"
      "length c = 48 + 16 * (length d div 16 + 1)"
    using identity_encrypt_run[OF assms(1) j(1,2), of d s] unfolding j(3) by blast
  have p: "length (x_x25519_pub X b) = 32" by (simp add: law_simps laws)
  have prv: "id_prv i = Some \<lparr>xk_private = a, xk_public = x_x25519_pub X a\<rparr>"
    by (simp add: i key_identity_def)
  have "identity_decrypt X (Some i) (x_x25519_pub X b @ c) = Ret d"
    using r p prv
    by (simp add: identity_decrypt_def size_values(7) Let_def x25519_exchange_def res_catch_def)
  moreover have "length (x_x25519_pub X b @ c) = 80 + 16 * (length d div 16 + 1)" using p r(5) by simp
  ultimately show ?thesis using r(1) unfolding j_def by blast
qed

section \<open>Properties\<close>

text \<open>
  C16: whoever knows only the public key of a freshly created identity can encrypt any message to
  it; the identity decrypts the result to that message, which grew by 80 bytes and the padding.
\<close>

theorem identity_channel:
  assumes "crypto_laws X" "create_identity X s0 = (Ret i, s1)"
  shows "\<exists>c s'. identity_encrypt X (Some (load_public_key X (get_public_key i) empty_identity)) d s = (Ret c, s') \<and>
    identity_decrypt X (Some i) c = Ret d \<and> length c = 80 + 16 * (length d div 16 + 1)"
  using channel_run[OF assms, of d s] by blast

theorem identity_channel_witness:
  "\<exists>c s'. identity_encrypt toy (Some (load_public_key toy (get_public_key
      (key_identity toy (replicate 32 1) (replicate 32 2) [])) empty_identity)) [1, 2] \<lparr>hal_calls = 5\<rparr> = (Ret c, s') \<and>
    identity_decrypt toy (Some (key_identity toy (replicate 32 1) (replicate 32 2) [])) c = Ret [1, 2] \<and>
    length c = 80 + 16 * (length [1 :: u8, 2] div 16 + 1)"
  by (rule identity_channel[OF toy_laws create_toy])

text \<open>
  An identity with a private key never throws on decryption: every malformed, truncated or
  forged ciphertext yields an empty result.
\<close>

theorem identity_decrypt_total:
  assumes "id_prv i = Some prv"
  shows "\<exists>d. identity_decrypt X (Some i) c = Ret d"
proof -
  have "no_fault (rbind (x25519_exchange X prv p) (\<lambda>shared_key.
          rbind (hkdf X DERIVED_KEY_LENGTH shared_key (id_hash i) []) (\<lambda>derived_key.
          rbind (token_new derived_key MODE_AES) (\<lambda>t. token_decrypt X t q))))" for p q
    by (intro no_fault_rbind no_fault_crypto no_fault_decrypt)
  note no_fault_catch[OF this, of "take (KEYSIZE div 8 div 2) c" "drop (KEYSIZE div 8 div 2) c" "[]"]
  then show ?thesis using assms by (simp add: identity_decrypt_def Let_def)
qed

theorem identity_decrypt_total_witness:
  "\<exists>d. identity_decrypt toy (Some (key_identity toy (replicate 32 1) (replicate 32 2) [])) (replicate 100 3) = Ret d"
  by (rule identity_decrypt_total) (simp add: key_identity_def)

text \<open>
  A signature made by a freshly created identity is 64 bytes long and validates under its public
  key alone; a signature or key of the wrong length never validates.
\<close>

theorem identity_signature:
  assumes "crypto_laws X" "create_identity X s0 = (Ret i, s1)"
  shows "(\<exists>sig. identity_sign X (Some i) m = Ret sig \<and> length sig = 64 \<and>
      identity_validate X (Some (load_public_key X (get_public_key i) empty_identity)) sig m) \<and>
    (identity_validate X (Some (load_public_key X pk empty_identity)) sig' m \<longrightarrow>
      length sig' = 64 \<and> length pk = 64)"
proof -
  note laws = crypto_lawsD[OF assms(1)]
  obtain a e where i: "i = key_identity X a e []" "length a = 32"
    using create_identityD[OF laws(7) assms(2)] by blast
  have j: "id_sig_pub (load_public_key X (get_public_key i) empty_identity) = Some (x_ed_pub X e)"
    unfolding i get_key_identity by (simp add: load_public_key_fields law_simps laws)
  have "identity_sign X (Some i) m = Ret (x_ed_sign X e m)"
    by (simp add: i identity_sign_def key_identity_def ed25519_sign_def)
  moreover have "identity_validate X (Some (load_public_key X (get_public_key i) empty_identity)) (x_ed_sign X e m) m"
    using j by (simp add: identity_validate_def ed25519_verify_def law_simps laws)
  moreover have "length (x_ed_sign X e m) = 64" by (simp add: law_simps laws)
  moreover have "length sig' = 64 \<and> length pk = 64"
    if "identity_validate X (Some (load_public_key X pk empty_identity)) sig' m"
    using that by (auto simp: identity_validate_def ed25519_verify_def load_public_key_def
        update_hashes_def Let_def size_values split: if_splits)
  ultimately show ?thesis by blast
qed

theorem identity_signature_witness:
  "\<exists>sig. identity_sign toy (Some (key_identity toy (replicate 32 1) (replicate 32 2) [])) [7] = Ret sig \<and>
    length sig = 64 \<and> identity_validate toy (Some (load_public_key toy (get_public_key
      (key_identity toy (replicate 32 1) (replicate 32 2) [])) empty_identity)) sig [7]"
  using identity_signature[OF toy_laws create_toy] by blast

text \<open>
  \<open>load_private_key\<close> accepts exactly the inputs of 64, 32 and 0 bytes. 64 bytes restore the
  identity they were taken from without touching the random source.
\<close>

theorem load_private_key_lengths:
  assumes "rng_law X"
  shows "(\<exists>i' s'. load_private_key X prv i s = (Ret (length prv \<in> {0, 32, 64}, i'), s')) \<and>
    (create_identity X s0 = (Ret j, s1) \<longrightarrow>
      load_private_key X (get_private_key j) empty_identity s = (Ret (True, j), s))"
proof (rule conjI)
  have fin: "\<exists>i' s'. load_private_key X prv i s = (Ret (r, i'), s')"
    if "\<exists>i' s'. load_private_key_steps X prv (i, s) = (Ret True, (i', s'))" "r" for r
    using that by (auto simp: load_private_key_def try_catch_def)
  have bad: "\<exists>i' s'. load_private_key X prv i s = (Ret (False, i'), s')"
    if "load_private_key_steps X prv (i, s) = (Raise e, (i', s'))" for e i' s'
    using that by (auto simp: load_private_key_def try_catch_def)
  let ?s1 = "s\<lparr>hal_calls := hal_calls s + 1\<rparr>"
  obtain a b e where r: "random_bytes X 32 s = (Ret a, ?s1)" "random_bytes X 32 s = (Ret b, ?s1)"
    "\<exists>s'. random_bytes X 32 ?s1 = (Ret e, s')"
    using random_ok[OF assms] by blast
  consider "length prv < 32" "prv \<noteq> []" | "prv = []" | "length prv = 32" | "length prv = 64"
    | "length prv > 32" "length prv \<noteq> 64" by fastforce
  then show "\<exists>i' s'. load_private_key X prv i s = (Ret (length prv \<in> {0, 32, 64}, i'), s')"
  proof cases
    case 1
    then have "length prv \<in> {0, 32, 64} \<longleftrightarrow> False" by auto
    then show ?thesis using 1
      by (simp add: load_private_key_def load_private_key_steps_def id_prog_simps try_catch_def Let_def size_values)
  next
    case 2
    then show ?thesis using r
      by (auto simp: load_private_key_def load_private_key_steps_def id_prog_simps try_catch_def Let_def size_values)
  next
    case 3
    then have "prv \<noteq> []" by auto
    then show ?thesis using r 3
      by (auto simp: load_private_key_def load_private_key_steps_def id_prog_simps try_catch_def Let_def size_values)
  next
    case 4
    then have "prv \<noteq> []" by auto
    then show ?thesis using 4
      by (auto simp: load_private_key_def load_private_key_steps_def id_prog_simps try_catch_def Let_def size_values)
  next
    case 5
    then have "length prv \<in> {0, 32, 64} \<longleftrightarrow> False" "prv \<noteq> []" by auto
    then show ?thesis using 5
      by (auto simp: load_private_key_def load_private_key_steps_def id_prog_simps try_catch_def Let_def size_values)
  qed
  show "create_identity X s0 = (Ret j, s1) \<longrightarrow>
      load_private_key X (get_private_key j) empty_identity s = (Ret (True, j), s)"
  proof
    assume "create_identity X s0 = (Ret j, s1)"
    then obtain a e where "j = key_identity X a e []" "length a = 32" "length e = 32"
      using create_identityD[OF assms] by blast
    then show "load_private_key X (get_private_key j) empty_identity s = (Ret (True, j), s)"
      using load_private_key_ok[of a e X empty_identity s]
      by (simp add: get_key_identity) (simp add: empty_identity_def)
  qed
qed

theorem load_private_key_lengths_witness:
  "\<exists>i' s'. load_private_key toy (replicate 32 5) empty_identity \<lparr>hal_calls = 0\<rparr> = (Ret (True, i'), s')"
  using load_private_key_lengths[OF crypto_lawsD(7)[OF toy_laws],
      of "replicate 32 5" empty_identity "\<lparr>hal_calls = 0\<rparr>" "\<lparr>hal_calls = 0\<rparr>" empty_identity
        "\<lparr>hal_calls = 0\<rparr>"] by simp

text \<open>
  An identity written to a file with room for its 64 bytes is read back unchanged, hashes
  included.
\<close>

theorem identity_file_roundtrip:
  assumes "rng_law X" "create_identity X s0 = (Ret i, s1)"
    "fs_impl s = Some fs" "pf_creatable fs path" "64 \<le> pf_capacity fs"
  shows "\<exists>s'. to_file i path s = (Ret True, s') \<and> from_file X path s' = (Ret (Some i), s')"
proof -
  obtain a e where i: "i = key_identity X a e []" "length a = 32" "length e = 32"
    using create_identityD[OF assms(1,2)] by blast
  let ?k = "a @ e"
  have k: "get_private_key i = ?k" "length ?k = 64" using i by (simp_all add: get_key_identity)
  define s' where "s' = s\<lparr>fs_impl := Some (fs\<lparr>pf_files := (pf_files fs)(path \<mapsto> ?k)\<rparr>)\<rparr>"
  have w: "to_file i path s = (Ret True, s')"
    using assms(3-5) k
    by (simp add: to_file_def fs_available_def fs_write_file_def posix_write_file_def bnd_def s'_def)
  have "load_private_key X ?k empty_identity s' = (Ret (True, i), s')"
    using load_private_key_ok[OF i(2,3), of X empty_identity s'] by (simp add: i(1) empty_identity_def)
  then have "from_file X path s' = (Ret (Some i), s')"
    using k by (simp add: from_file_def fs_available_def fs_read_file_def posix_read_file_def bnd_def s'_def)
  then show ?thesis using w by blast
qed

theorem identity_file_roundtrip_witness:
  "\<exists>s'. to_file (key_identity toy (replicate 32 1) (replicate 32 2) []) ''id''
      \<lparr>hal_calls = 0, known_destinations = Map.empty, fs_impl = Some \<lparr>pf_files = Map.empty,
        pf_creatable = (\<lambda>p. True), pf_capacity = 100\<rparr>\<rparr> = (Ret True, s') \<and>
    from_file toy ''id'' s' = (Ret (Some (key_identity toy (replicate 32 1) (replicate 32 2) [])), s')"
  by (rule identity_file_roundtrip[OF crypto_lawsD(7)[OF toy_laws] create_toy,
      where fs = "\<lparr>pf_files = Map.empty, pf_creatable = (\<lambda>p. True), pf_capacity = 100\<rparr>"]) simp_all

text \<open>
  \<open>remember\<close> stores exactly one entry: \<open>recall\<close> of that destination then yields an identity with
  the given public key, its hash and application data, and every other destination is unaffected; a
  key that is not 64 bytes long is refused without any change.
\<close>

theorem remember_recall:
  "(length pk = 64 \<longrightarrow>
     (\<exists>s' i. remember X ph dh pk app s = (Ret (), s') \<and> recall X dh s' = Some i \<and>
        get_public_key i = pk \<and> id_hash i = truncated_hash X pk \<and> id_app_data i = app \<and>
        recall_app_data dh s' = app \<and> (\<forall>d. d \<noteq> dh \<longrightarrow> recall X d s' = recall X d s))) \<and>
   (length pk \<noteq> 64 \<longrightarrow> remember X ph dh pk app s =
     (Raise (Invalid_argument (Msg ''Identity::remember: invalid public key size'')), s))"
proof (intro conjI impI)
  assume l: "length pk = 64"
  obtain t s1 where t: "os_time X s = (Ret t, s1)" "known_destinations s1 = known_destinations s"
    using os_time_ok[of X s] by auto
  define ent where "ent = \<lparr>ie_timestamp = t, ie_packet_hash = ph, ie_public_key = pk, ie_app_data = app\<rparr>"
  define s' where "s' = s1\<lparr>known_destinations := (known_destinations s1)(dh \<mapsto> ent)\<rparr>"
  have "remember X ph dh pk app s = (Ret (), s')"
    using l t by (simp add: remember_def size_values bnd_def s'_def ent_def)
  moreover have "recall X dh s' = Some ((load_public_key X pk empty_identity)\<lparr>id_app_data := app\<rparr>)"
    by (simp add: recall_def s'_def ent_def)
  moreover have "get_public_key ((load_public_key X pk empty_identity)\<lparr>id_app_data := app\<rparr>) = pk"
    "id_hash ((load_public_key X pk empty_identity)\<lparr>id_app_data := app\<rparr>) = truncated_hash X pk"
    by (simp_all add: load_public_key_def update_hashes_def get_public_key_def Let_def)
  moreover have "recall_app_data dh s' = app" by (simp add: recall_app_data_def s'_def ent_def)
  moreover have "\<forall>d. d \<noteq> dh \<longrightarrow> recall X d s' = recall X d s"
    using t(2) by (simp add: recall_def s'_def)
  ultimately show "\<exists>s' i. remember X ph dh pk app s = (Ret (), s') \<and> recall X dh s' = Some i \<and>
        get_public_key i = pk \<and> id_hash i = truncated_hash X pk \<and> id_app_data i = app \<and>
        recall_app_data dh s' = app \<and> (\<forall>d. d \<noteq> dh \<longrightarrow> recall X d s' = recall X d s)"
    by (intro exI conjI) (assumption | simp)+
next
  assume "length pk \<noteq> 64"
  then show "remember X ph dh pk app s =
     (Raise (Invalid_argument (Msg ''Identity::remember: invalid public key size'')), s)"
    by (simp add: remember_def size_values)
qed

theorem remember_recall_witness:
  "\<exists>s' i. remember toy [1] [2] (replicate 64 3) [4]
      \<lparr>hal_calls = 0, known_destinations = Map.empty, fs_impl = None\<rparr> = (Ret (), s') \<and>
    recall toy [2] s' = Some i \<and> get_public_key i = replicate 64 3 \<and> id_app_data i = [4]"
proof -
  have "length (replicate 64 3 :: bytes) = 64" by simp
  from remember_recall[THEN conjunct1, THEN mp, OF this] show ?thesis by blast
qed

end
