(* ===== verification/Destination.thy ===== *)
theory Destination
  imports Identity
begin

text \<open>
  Destinations (src/destination.cpp, include/rtreticulum/destination.h). Handles to a destination
  share one object: the packet callback and the request handlers can be set after the destination was
  registered, so the objects live in a heap and a handle is an index into it; the null handle is
  \<open>None\<close>. Callbacks are application code, named by numbers. A null \<open>aspects\<close> pointer behaves as the
  empty string everywhere in the code and is written so.
\<close>

section \<open>State\<close>

record request_handler =
  rh_path :: bytes
  rh_path_hash :: bytes
  rh_generator :: nat

record dest =
  dst_type :: dest_type
  dst_direction :: direction
  dst_identity :: "identity option"
  dst_name :: string
  dst_hash :: bytes
  dst_name_hash :: bytes
  dst_hexhash :: string
  dst_packet_callback :: "nat option"
  dst_request_handlers :: "bytes \<Rightarrow> request_handler option"

record dest_state = identity_state +
  dest_heap :: "dest list"

definition get_dest :: "nat \<Rightarrow> ('a dest_state_scheme, dest) prog" where
  "get_dest r = heap_get dest_heap r"

definition upd_dest :: "nat \<Rightarrow> (dest \<Rightarrow> dest) \<Rightarrow> ('a dest_state_scheme, unit) prog" where
  "upd_dest r f = bnd (get_dest r) (\<lambda>d. modify (\<lambda>s. s\<lparr>dest_heap := (dest_heap s)[r := f d]\<rparr>))"

definition alloc_dest :: "dest \<Rightarrow> ('a dest_state_scheme, nat) prog" where
  "alloc_dest d s = (Ret (length (dest_heap s)), s\<lparr>dest_heap := dest_heap s @ [d]\<rparr>)"

section \<open>Names and hashes\<close>

definition expand_name :: "identity option \<Rightarrow> string \<Rightarrow> string \<Rightarrow> string res" where
  "expand_name io app_name aspects =
     (if CHR ''.'' \<in> set app_name then
        Raise (Invalid_argument (Msg ''Dots can't be used in app names''))
      else let name = app_name;
               name = (if aspects \<noteq> [] then name @ ''.'' @ aspects else name);
               name = (case io of None \<Rightarrow> name | Some i \<Rightarrow> name @ ''.'' @ id_hexhash i)
           in Ret name)"

definition name_hash :: "ext \<Rightarrow> string \<Rightarrow> string \<Rightarrow> bytes res" where
  "name_hash X app_name aspects = rbind (expand_name None app_name aspects) (\<lambda>n.
     Ret (bytes_left (NAME_HASH_LENGTH div 8) (full_hash X (str_bytes n))))"

definition destination_hash :: "ext \<Rightarrow> identity option \<Rightarrow> string \<Rightarrow> string \<Rightarrow> bytes res" where
  "destination_hash X io app_name aspects = rbind (name_hash X app_name aspects) (\<lambda>addr_material.
     Ret (truncated_hash X
       (case io of None \<Rightarrow> addr_material | Some i \<Rightarrow> addr_material @ id_hash i)))"

section \<open>Construction\<close>

definition destination_new ::
  "ext \<Rightarrow> identity option \<Rightarrow> direction \<Rightarrow> dest_type \<Rightarrow> string \<Rightarrow> string \<Rightarrow>
   ('a dest_state_scheme, nat) prog" where
  "destination_new X io dir ty app_name aspects =
     (if CHR ''.'' \<in> set app_name then
        raise (Invalid_argument (Msg ''Dots can't be used in app names''))
      else
        bnd (if io = None \<and> dir = IN \<and> ty \<noteq> PLAIN
             then bnd (create_identity X) (\<lambda>i. ret (Some i, aspects @ ''.'' @ id_hexhash i))
             else ret (io, aspects)) (\<lambda>(io, fullaspects).
        if io \<noteq> None \<and> ty = PLAIN then
          raise (Invalid_argument (Msg ''PLAIN destination cannot hold an identity''))
        else
          bnd (lift (expand_name io app_name fullaspects)) (\<lambda>name.
          bnd (lift (destination_hash X io app_name fullaspects)) (\<lambda>h.
          bnd (lift (name_hash X app_name aspects)) (\<lambda>nh.
          alloc_dest
            \<lparr>dst_type = ty, dst_direction = dir, dst_identity = io, dst_name = name, dst_hash = h,
             dst_name_hash = nh, dst_hexhash = to_hex False h, dst_packet_callback = None,
             dst_request_handlers = Map.empty\<rparr>)))))"

definition destination_new_hash ::
  "ext \<Rightarrow> identity option \<Rightarrow> direction \<Rightarrow> dest_type \<Rightarrow> bytes \<Rightarrow> ('a dest_state_scheme, nat) prog" where
  "destination_new_hash X io dir ty precomputed_hash =
     (if io \<noteq> None \<and> ty = PLAIN then
        raise (Invalid_argument (Msg ''PLAIN destination cannot hold an identity''))
      else bnd (lift (name_hash X ''unknown'' ''unknown'')) (\<lambda>nh.
        alloc_dest
          \<lparr>dst_type = ty, dst_direction = dir, dst_identity = io, dst_name = [],
           dst_hash = precomputed_hash, dst_name_hash = nh, dst_hexhash = to_hex False precomputed_hash,
           dst_packet_callback = None, dst_request_handlers = Map.empty\<rparr>))"

section \<open>Operations\<close>

definition set_packet_callback :: "nat \<Rightarrow> nat option \<Rightarrow> ('a dest_state_scheme, unit) prog" where
  "set_packet_callback r cb = upd_dest r (\<lambda>d. d\<lparr>dst_packet_callback := cb\<rparr>)"

definition register_request_handler :: "ext \<Rightarrow> nat \<Rightarrow> string \<Rightarrow> nat \<Rightarrow> ('a dest_state_scheme, unit) prog" where
  "register_request_handler X r path gen =
     (let path_bytes = str_bytes path; ph = truncated_hash X path_bytes;
          rh = \<lparr>rh_path = path_bytes, rh_path_hash = ph, rh_generator = gen\<rparr>
      in upd_dest r (\<lambda>d. d\<lparr>dst_request_handlers := (dst_request_handlers d)(ph \<mapsto> rh)\<rparr>))"

definition dest_encrypt :: "ext \<Rightarrow> nat option \<Rightarrow> bytes \<Rightarrow> ('a dest_state_scheme, bytes) prog" where
  "dest_encrypt X ro data =
     (case ro of
        None \<Rightarrow> ret []
      | Some r \<Rightarrow> bnd (get_dest r) (\<lambda>d.
          if dst_type d = PLAIN then ret data
          else if dst_type d = SINGLE \<and> dst_identity d \<noteq> None then
            identity_encrypt X (dst_identity d) data
          else ret data))"

definition dest_decrypt :: "ext \<Rightarrow> nat option \<Rightarrow> bytes \<Rightarrow> ('a dest_state_scheme, bytes) prog" where
  "dest_decrypt X ro data =
     (case ro of
        None \<Rightarrow> ret []
      | Some r \<Rightarrow> bnd (get_dest r) (\<lambda>d.
          if dst_type d = PLAIN then ret data
          else if dst_type d = SINGLE \<and> dst_identity d \<noteq> None then
            lift (identity_decrypt X (dst_identity d) data)
          else ret []))"

definition dest_sign :: "ext \<Rightarrow> nat option \<Rightarrow> bytes \<Rightarrow> ('a dest_state_scheme, bytes) prog" where
  "dest_sign X ro message =
     (case ro of
        None \<Rightarrow> ret []
      | Some r \<Rightarrow> bnd (get_dest r) (\<lambda>d.
          if dst_type d = SINGLE \<and> dst_identity d \<noteq> None then
            lift (identity_sign X (dst_identity d) message)
          else ret []))"

end
