(* ===== verification/Packet.thy ===== *)
theory Packet
  imports Destination
begin

text \<open>
  Packets (src/packet.cpp, include/rtreticulum/packet.h): construction, the flag byte, packing to a
  frame, unpacking a received frame and the part of a frame its hash covers; and the announces of
  src/destination.cpp, which are packets. A packet object is used by one owner and is a value; its
  destination is a handle. A \<open>context\<close> is any byte.
\<close>

section \<open>Packets\<close>

record packet =
  pk_header_type :: header_type
  pk_transport_type :: transport_type
  pk_destination_type :: dest_type
  pk_packet_type :: packet_type
  pk_context :: u8
  pk_context_flag :: context_flag
  pk_flags :: u8
  pk_hops :: u8
  pk_destination :: "nat option"
  pk_destination_hash :: bytes
  pk_transport_id :: bytes
  pk_data :: bytes
  pk_raw :: bytes
  pk_packet_hash :: bytes
  pk_packed :: bool
  pk_from_packed :: bool

definition packet_object :: packet where
  "packet_object =
    \<lparr>pk_header_type = HEADER_1, pk_transport_type = BROADCAST, pk_destination_type = SINGLE,
     pk_packet_type = DATA, pk_context = CONTEXT_NONE, pk_context_flag = FLAG_UNSET, pk_flags = 0,
     pk_hops = 0, pk_destination = None, pk_destination_hash = [], pk_transport_id = [], pk_data = [],
     pk_raw = [], pk_packet_hash = [], pk_packed = False, pk_from_packed = False\<rparr>"

text \<open>The shifts are on \<open>int\<close>; the result is narrowed to a byte.\<close>

definition pack_flags :: "packet \<Rightarrow> u8" where
  "pack_flags p =
     push_bit 6 (header_type_num (pk_header_type p)) OR
     push_bit 5 (context_flag_num (pk_context_flag p)) OR
     push_bit 4 (transport_type_num (pk_transport_type p)) OR
     push_bit 2 (dest_type_num (pk_destination_type p)) OR
     packet_type_num (pk_packet_type p)"

definition header_type_of :: "u8 \<Rightarrow> header_type" where
  "header_type_of n = (if n = 0 then HEADER_1 else HEADER_2)"

definition context_flag_of :: "u8 \<Rightarrow> context_flag" where
  "context_flag_of n = (if n = 0 then FLAG_UNSET else FLAG_SET)"

definition transport_type_of :: "u8 \<Rightarrow> transport_type" where
  "transport_type_of n = (if n = 0 then BROADCAST else TRANSPORT)"

definition dest_type_of :: "u8 \<Rightarrow> dest_type" where
  "dest_type_of n = (if n = 0 then SINGLE else if n = 1 then GROUP else if n = 2 then PLAIN else LINK)"

definition packet_type_of :: "u8 \<Rightarrow> packet_type" where
  "packet_type_of n =
     (if n = 0 then DATA else if n = 1 then ANNOUNCE else if n = 2 then LINKREQUEST else PROOF)"

definition unpack_flags :: "u8 \<Rightarrow> packet \<Rightarrow> packet" where
  "unpack_flags flags p = p
     \<lparr>pk_header_type := header_type_of (drop_bit 6 (flags AND 0b01000000)),
      pk_context_flag := context_flag_of (drop_bit 5 (flags AND 0b00100000)),
      pk_transport_type := transport_type_of (drop_bit 4 (flags AND 0b00010000)),
      pk_destination_type := dest_type_of (drop_bit 2 (flags AND 0b00001100)),
      pk_packet_type := packet_type_of (flags AND 0b00000011)\<rparr>"

text \<open>The constructor of an outgoing packet; \<open>destination.type()\<close> dereferences the handle.\<close>

definition packet_new ::
  "nat option \<Rightarrow> bytes \<Rightarrow> packet_type \<Rightarrow> u8 \<Rightarrow> transport_type \<Rightarrow> ('a dest_state_scheme, packet) prog" where
  "packet_new ro data packet_type context transport_type =
     (case ro of
        None \<Rightarrow> fault Null_deref
      | Some r \<Rightarrow> bnd (get_dest r) (\<lambda>d.
          let p = packet_object
                \<lparr>pk_destination := Some r, pk_packet_type := packet_type, pk_context := context,
                 pk_transport_type := transport_type, pk_data := data,
                 pk_destination_type := dst_type d\<rparr>;
              p = (if length (pk_data p) > MDU then p\<lparr>pk_data := bytes_resize MDU (pk_data p)\<rparr> else p)
          in ret (p\<lparr>pk_flags := pack_flags p\<rparr>)))"

text \<open>The constructor of a received frame.\<close>

definition packet_of_raw :: "bytes \<Rightarrow> packet" where
  "packet_of_raw raw_frame =
     packet_object\<lparr>pk_raw := raw_frame, pk_packed := True, pk_from_packed := True\<rparr>"

definition get_hashable_part :: "packet \<Rightarrow> bytes" where
  "get_hashable_part p =
     (let raw = pk_raw p in
      if length raw < 2 then []
      else let first = raw ! 0 AND 0b00001111 in
           if pk_header_type p = HEADER_2 then
             (let skip = 2 + DESTINATION_LENGTH in
              if length raw > skip then first # drop skip raw else [first])
           else first # drop 2 raw)"

definition packet_pack :: "ext \<Rightarrow> packet \<Rightarrow> ('a dest_state_scheme, packet) prog" where
  "packet_pack X p =
     (case pk_destination p of
        None \<Rightarrow> raise (Logic_error (Msg ''Packet destination is required''))
      | Some r \<Rightarrow> bnd (get_dest r) (\<lambda>d.
          let p = p\<lparr>pk_destination_hash := dst_hash d\<rparr>;
              header = [pk_flags p, pk_hops p] @ pk_destination_hash p in
          bnd (if pk_packet_type p = DATA then dest_encrypt X (pk_destination p) (pk_data p)
               else ret (pk_data p)) (\<lambda>ciphertext.
          let p = p\<lparr>pk_raw := header @ [pk_context p] @ ciphertext\<rparr>
          in ret (p\<lparr>pk_packet_hash := full_hash X (get_hashable_part p), pk_packed := True\<rparr>))))"

text \<open>\<open>unpack\<close> returns whether the frame was long enough; the fields set before it gave up stay set.\<close>

definition packet_unpack :: "ext \<Rightarrow> packet \<Rightarrow> bool \<times> packet" where
  "packet_unpack X p =
     (let raw = pk_raw p; len = length raw in
      if len < 2 + DESTINATION_LENGTH + 1 then (False, p)
      else
        let p = p\<lparr>pk_flags := raw ! 0, pk_hops := raw ! 1\<rparr>;
            p = unpack_flags (pk_flags p) p in
        if pk_header_type p = HEADER_2 \<and> len < 2 + 2 * DESTINATION_LENGTH + 1 then (False, p)
        else
          let (p, off) =
                (if pk_header_type p = HEADER_2
                 then (p\<lparr>pk_transport_id := take DESTINATION_LENGTH (drop 2 raw),
                         pk_destination_hash :=
                           take DESTINATION_LENGTH (drop (2 + DESTINATION_LENGTH) raw)\<rparr>,
                       2 + 2 * DESTINATION_LENGTH)
                 else (p\<lparr>pk_destination_hash := take DESTINATION_LENGTH (drop 2 raw)\<rparr>,
                       2 + DESTINATION_LENGTH));
              p = p\<lparr>pk_context := raw ! off, pk_data := drop (off + 1) raw\<rparr>
          in (True, p\<lparr>pk_packet_hash := full_hash X (get_hashable_part p)\<rparr>))"

section \<open>Announces\<close>

definition announce_signed_data :: "bytes \<Rightarrow> bytes \<Rightarrow> bytes \<Rightarrow> bytes \<Rightarrow> bytes \<Rightarrow> bytes" where
  "announce_signed_data dest_hash public_key nh random_hash app_data =
     dest_hash @ public_key @ nh @ random_hash @ app_data"

text \<open>\<open>bc\<close> is \<open>Transport::broadcast\<close>.\<close>

definition announce ::
  "ext \<Rightarrow> (bytes \<Rightarrow> ('a dest_state_scheme, unit) prog) \<Rightarrow> nat option \<Rightarrow> bytes \<Rightarrow> bool \<Rightarrow>
   ('a dest_state_scheme, bytes) prog" where
  "announce X bc ro app_data send =
     (case ro of
        None \<Rightarrow> raise (Invalid_argument (Msg ''Only SINGLE+IN destinations can be announced''))
      | Some r \<Rightarrow> bnd (get_dest r) (\<lambda>d.
          if dst_type d \<noteq> SINGLE \<or> dst_direction d \<noteq> IN then
            raise (Invalid_argument (Msg ''Only SINGLE+IN destinations can be announced''))
          else
            bnd (random_bytes X (RANDOM_HASH_LENGTH div 8)) (\<lambda>random_hash.
            case dst_identity d of
              None \<Rightarrow> fault Null_deref
            | Some i \<Rightarrow>
                let public_key = get_public_key i;
                    signed_data = announce_signed_data (dst_hash d) public_key (dst_name_hash d)
                                    random_hash app_data in
                bnd (lift (identity_sign X (dst_identity d) signed_data)) (\<lambda>signature.
                let announce_data = public_key @ dst_name_hash d @ random_hash @ signature @ app_data in
                bnd (packet_new (Some r) announce_data ANNOUNCE CONTEXT_NONE BROADCAST) (\<lambda>p.
                bnd (packet_pack X p) (\<lambda>p.
                bnd (when_do send (bc (pk_raw p))) (\<lambda>_.
                ret (pk_raw p))))))))"

section \<open>The flag byte\<close>

lemma unpack_flag_fields:
  "pk_header_type (unpack_flags f p) = header_type_of (drop_bit 6 (f AND 0b01000000))"
  "pk_raw (unpack_flags f p) = pk_raw p" "pk_flags (unpack_flags f p) = pk_flags p"
  "pk_hops (unpack_flags f p) = pk_hops p"
  by (simp_all add: unpack_flags_def)

text \<open>The four fields of a flag byte, for the transport types that fit its single bit.\<close>

definition wire_transport :: "transport_type \<Rightarrow> bool" where
  "wire_transport t \<longleftrightarrow> t = BROADCAST \<or> t = TRANSPORT"

lemma flags_roundtrip_all:
  "\<forall>h\<in>{HEADER_1, HEADER_2}. \<forall>c\<in>{FLAG_UNSET, FLAG_SET}. \<forall>t\<in>{BROADCAST, TRANSPORT}.
   \<forall>d\<in>{SINGLE, GROUP, PLAIN, LINK}. \<forall>y\<in>{DATA, ANNOUNCE, LINKREQUEST, PROOF}.
     (let f = push_bit 6 (header_type_num h) OR push_bit 5 (context_flag_num c) OR
              push_bit 4 (transport_type_num t) OR push_bit 2 (dest_type_num d) OR packet_type_num y
      in header_type_of (drop_bit 6 (f AND 0b01000000)) = h \<and>
         context_flag_of (drop_bit 5 (f AND 0b00100000)) = c \<and>
         transport_type_of (drop_bit 4 (f AND 0b00010000)) = t \<and>
         dest_type_of (drop_bit 2 (f AND 0b00001100)) = d \<and> packet_type_of (f AND 0b00000011) = y)"
  by code_simp

lemma flags_roundtrip:
  assumes "wire_transport t"
  shows "let f = push_bit 6 (header_type_num h) OR push_bit 5 (context_flag_num c) OR
              push_bit 4 (transport_type_num t) OR push_bit 2 (dest_type_num d) OR packet_type_num y
      in header_type_of (drop_bit 6 (f AND 0b01000000)) = h \<and>
         context_flag_of (drop_bit 5 (f AND 0b00100000)) = c \<and>
         transport_type_of (drop_bit 4 (f AND 0b00010000)) = t \<and>
         dest_type_of (drop_bit 2 (f AND 0b00001100)) = d \<and> packet_type_of (f AND 0b00000011) = y"
proof -
  have "h \<in> {HEADER_1, HEADER_2}" by (cases h) simp_all
  moreover have "c \<in> {FLAG_UNSET, FLAG_SET}" by (cases c) simp_all
  moreover have "t \<in> {BROADCAST, TRANSPORT}" using assms by (simp add: wire_transport_def)
  moreover have "d \<in> {SINGLE, GROUP, PLAIN, LINK}" by (cases d) simp_all
  moreover have "y \<in> {DATA, ANNOUNCE, LINKREQUEST, PROOF}" by (cases y) simp_all
  ultimately show ?thesis using flags_roundtrip_all by blast
qed

lemma unpack_pack_flags:
  assumes "wire_transport (pk_transport_type p)"
  shows "pk_header_type (unpack_flags (pack_flags p) q) = pk_header_type p"
    "pk_context_flag (unpack_flags (pack_flags p) q) = pk_context_flag p"
    "pk_transport_type (unpack_flags (pack_flags p) q) = pk_transport_type p"
    "pk_destination_type (unpack_flags (pack_flags p) q) = pk_destination_type p"
    "pk_packet_type (unpack_flags (pack_flags p) q) = pk_packet_type p"
  using flags_roundtrip[OF assms, of "pk_header_type p" "pk_context_flag p" "pk_destination_type p"
      "pk_packet_type p"]
  by (simp_all add: unpack_flags_def pack_flags_def Let_def)

section \<open>Frames\<close>

definition wide_header :: "u8 \<Rightarrow> bool" where
  "wide_header flags \<longleftrightarrow> flags AND 0b01000000 \<noteq> 0"

lemma header_type_wide: "header_type_of (drop_bit 6 (f AND 0b01000000)) = HEADER_2 \<longleftrightarrow> wide_header f"
proof -
  have "drop_bit 6 (f AND 0b01000000) = 0 \<longleftrightarrow> f AND 0b01000000 = (0 :: u8)"
    by (rule u8_by_cases) code_simp
  then show ?thesis by (simp add: header_type_of_def wide_header_def)
qed

lemma header_type_narrow: "header_type_of (drop_bit 6 (f AND 0b01000000)) = HEADER_1 \<longleftrightarrow> \<not> wide_header f"
  using header_type_wide[of f] by (cases "header_type_of (drop_bit 6 (f AND 0b01000000))") auto

lemmas header_type_simps = header_type_wide header_type_narrow
  header_type_wide[simplified] header_type_narrow[simplified]

text \<open>A frame: flags, hop count, a transport id when the header is wide, destination hash, context and
  data.\<close>

definition frame :: "u8 \<Rightarrow> u8 \<Rightarrow> bytes \<Rightarrow> bytes \<Rightarrow> u8 \<Rightarrow> bytes \<Rightarrow> bytes" where
  "frame flags hops tid dh ctx data = flags # hops # tid @ dh @ ctx # data"

definition frame_ok :: "u8 \<Rightarrow> bytes \<Rightarrow> bytes \<Rightarrow> bool" where
  "frame_ok flags tid dh \<longleftrightarrow> length dh = 16 \<and> length tid = (if wide_header flags then 16 else 0)"

lemma unpack_frame:
  assumes "frame_ok f tid dh" "pk_raw p = frame f h tid dh c d" "pk_transport_id p = []"
  shows "\<exists>u. packet_unpack X p = (True, u) \<and> pk_raw u = pk_raw p \<and> pk_flags u = f \<and> pk_hops u = h \<and>
    pk_transport_id u = tid \<and> pk_destination_hash u = dh \<and> pk_context u = c \<and> pk_data u = d \<and>
    pk_header_type u = header_type_of (drop_bit 6 (f AND 0b01000000)) \<and>
    pk_context_flag u = context_flag_of (drop_bit 5 (f AND 0b00100000)) \<and>
    pk_transport_type u = transport_type_of (drop_bit 4 (f AND 0b00010000)) \<and>
    pk_destination_type u = dest_type_of (drop_bit 2 (f AND 0b00001100)) \<and>
    pk_packet_type u = packet_type_of (f AND 0b00000011) \<and>
    pk_packet_hash u = full_hash X ((f AND 0b00001111) # dh @ c # d)"
proof (cases "wide_header f")
  case True
  then have "length tid = 16" "length dh = 16" using assms(1) by (simp_all add: frame_ok_def)
  then show ?thesis using True assms(2)
    by (simp add: packet_unpack_def Let_def frame_def size_values(5) unpack_flags_def
        header_type_simps get_hashable_part_def nth_append)
next
  case False
  then have "tid = []" "length dh = 16" using assms(1) by (simp_all add: frame_ok_def)
  then show ?thesis using False assms(2,3)
    by (simp add: packet_unpack_def Let_def frame_def size_values(5) unpack_flags_def
        header_type_simps get_hashable_part_def nth_append)
qed

lemma unpack_short:
  assumes "fst (packet_unpack X p)"
  shows "\<exists>f h tid dh c d. frame_ok f tid dh \<and> pk_raw p = frame f h tid dh c d"
proof -
  define raw where "raw = pk_raw p"
  have l: "19 \<le> length raw"
    using assms by (auto simp: packet_unpack_def Let_def size_values raw_def split: if_splits)
  then obtain f t where t: "raw = f # t" by (cases raw) auto
  with l obtain h rest where "t = h # rest" by (cases t) auto
  with t have r: "raw = f # h # rest" by simp
  have w: "wide_header f \<Longrightarrow> 35 \<le> length raw"
    using assms l r by (auto simp: packet_unpack_def Let_def size_values raw_def[symmetric]
        unpack_flags_def header_type_simps split: if_splits)
  define n :: nat where "n = (if wide_header f then 16 else 0)"
  have len: "n + 17 \<le> length rest" using w l r by (auto simp: n_def)
  define dh where "dh = take 16 (drop n rest)"
  obtain c d where cd: "drop (n + 16) rest = c # d"
    using len by (cases "drop (n + 16) rest") auto
  have "rest = take n rest @ dh @ c # d"
    unfolding dh_def cd[symmetric] by (metis add.commute append_take_drop_id drop_drop)
  moreover have "length (take n rest) = n" "length dh = 16" using len by (simp_all add: dh_def)
  ultimately have "frame_ok f (take n rest) dh \<and> pk_raw p = frame f h (take n rest) dh c d"
    using r unfolding frame_ok_def frame_def raw_def[symmetric] n_def by auto
  then show ?thesis by blast
qed

section \<open>Packing\<close>

lemma get_dest_run:
  "get_dest r s = (if r < length (dest_heap s) then (Ret (dest_heap s ! r), s) else (Fault Null_deref, s))"
  by (simp add: get_dest_def heap_get_def)

text \<open>The packet the constructor makes for destination \<open>d\<close> at reference \<open>r\<close>.\<close>

definition new_packet :: "nat \<Rightarrow> dest \<Rightarrow> bytes \<Rightarrow> packet_type \<Rightarrow> u8 \<Rightarrow> transport_type \<Rightarrow> packet" where
  "new_packet r d data ty ctx tt =
     (let p = packet_object
        \<lparr>pk_destination := Some r, pk_packet_type := ty, pk_context := ctx, pk_transport_type := tt,
         pk_data := take MDU data, pk_destination_type := dst_type d\<rparr>
      in p\<lparr>pk_flags := pack_flags p\<rparr>)"

lemma packet_new_run:
  assumes "r < length (dest_heap s)"
  shows "packet_new (Some r) data ty ctx tt s =
    (Ret (new_packet r (dest_heap s ! r) data ty ctx tt), s)"
  using assms
  by (simp add: packet_new_def bnd_def get_dest_run new_packet_def packet_object_def Let_def bytes_resize_shrink)

lemma new_packet_narrow:
  "wire_transport tt \<Longrightarrow> \<not> wide_header (pk_flags (new_packet r d data ty ctx tt))"
proof -
  assume t: "wire_transport tt"
  let ?p = "new_packet r d data ty ctx tt"
  have f: "pk_flags ?p = pack_flags ?p" "pk_header_type ?p = HEADER_1" "pk_transport_type ?p = tt"
    by (simp_all add: new_packet_def packet_object_def Let_def pack_flags_def)
  then have "header_type_of (drop_bit 6 (pk_flags ?p AND 0b01000000)) = HEADER_1"
    using unpack_pack_flags(1)[of ?p ?p] t unfolding f(1) unpack_flag_fields by simp
  then show "\<not> wide_header (pk_flags ?p)" unfolding header_type_narrow .
qed

text \<open>What \<open>pack\<close> makes of it once the payload is encrypted to \<open>ct\<close>.\<close>

definition packed :: "ext \<Rightarrow> packet \<Rightarrow> dest \<Rightarrow> bytes \<Rightarrow> packet" where
  "packed X p d ct =
     (let p = p\<lparr>pk_destination_hash := dst_hash d,
           pk_raw := frame (pk_flags p) (pk_hops p) [] (dst_hash d) (pk_context p) ct\<rparr>
      in p\<lparr>pk_packet_hash := full_hash X (get_hashable_part p), pk_packed := True\<rparr>)"

lemma packet_pack_run:
  assumes "r < length (dest_heap s)" "pk_destination p = Some r"
    "(if pk_packet_type p = DATA then dest_encrypt X (Some r) (pk_data p) else ret (pk_data p)) s = (Ret ct, s')"
  shows "packet_pack X p s = (Ret (packed X p (dest_heap s ! r) ct), s')"
  using assms
  by (cases "pk_packet_type p = DATA")
    (simp_all add: packet_pack_def bnd_def get_dest_run packed_def frame_def Let_def)

text \<open>A packed packet and its frame unpacked again.\<close>

lemma unpack_packed:
  assumes "wire_transport tt" "length (dst_hash d) = 16"
    "p = new_packet r d data ty ctx tt"
  shows "\<exists>u. packet_unpack X (packet_of_raw (pk_raw (packed X p d ct))) = (True, u) \<and>
    pk_header_type u = HEADER_1 \<and> pk_transport_type u = tt \<and> pk_destination_type u = dst_type d \<and>
    pk_packet_type u = ty \<and> pk_context u = ctx \<and> pk_hops u = 0 \<and> pk_destination_hash u = dst_hash d \<and>
    pk_data u = ct \<and> pk_packet_hash u = pk_packet_hash (packed X p d ct) \<and>
    pk_raw u = pk_raw (packed X p d ct) \<and> pk_flags u = pk_flags (packed X p d ct) \<and>
    pk_context_flag u = pk_context_flag (packed X p d ct) \<and> pk_context_flag u = FLAG_UNSET \<and> pk_transport_id u = []"
proof -
  let ?raw = "frame (pk_flags p) 0 [] (dst_hash d) ctx ct"
  have narrow: "\<not> wide_header (pk_flags p)" unfolding assms(3) by (rule new_packet_narrow[OF assms(1)])
  have raw: "pk_raw (packed X p d ct) = ?raw"
    by (simp add: packed_def assms(3) new_packet_def packet_object_def Let_def)
  have ok: "frame_ok (pk_flags p) [] (dst_hash d)" using narrow assms(2) by (simp add: frame_ok_def)
  have fl: "pk_flags p = pack_flags p" "pk_transport_type p = tt" "pk_header_type p = HEADER_1"
    "pk_destination_type p = dst_type d" "pk_packet_type p = ty" "pk_context_flag p = FLAG_UNSET"
    by (simp_all add: assms(3) new_packet_def packet_object_def Let_def pack_flags_def)
  have h: "pk_packet_hash (packed X p d ct) = full_hash X ((pk_flags p AND 0b00001111) # dst_hash d @ ctx # ct)"
    by (simp add: packed_def assms(3) new_packet_def packet_object_def Let_def get_hashable_part_def frame_def)
  have wt: "wire_transport (pk_transport_type p)" using assms(1) fl(2) by simp
  note again = unpack_pack_flags[OF wt, of packet_object, folded fl(1), unfolded fl(2-6)]
  have kept: "pk_flags (packed X p d ct) = pk_flags p" "pk_context_flag (packed X p d ct) = FLAG_UNSET"
    by (simp_all add: packed_def Let_def fl(6))
  show ?thesis
    using unpack_frame[OF ok, of "packet_of_raw ?raw" 0 ctx ct X] raw h again kept
    by (auto simp: packet_of_raw_def packet_object_def unpack_flags_def)
qed

section \<open>Properties\<close>

text \<open>
  C1: \<open>unpack\<close> accepts a received frame exactly when it holds the header its flags announce, and
  then the parsed fields spell the frame: nothing is lost and nothing is read beyond it.
\<close>

theorem unpack_correct:
  "(fst (packet_unpack X (packet_of_raw raw)) \<longleftrightarrow>
     (\<exists>f h tid dh c d. frame_ok f tid dh \<and> raw = frame f h tid dh c d)) \<and>
   (fst (packet_unpack X (packet_of_raw raw)) \<longrightarrow>
     (let u = snd (packet_unpack X (packet_of_raw raw)) in
      frame_ok (pk_flags u) (pk_transport_id u) (pk_destination_hash u) \<and>
      raw = frame (pk_flags u) (pk_hops u) (pk_transport_id u) (pk_destination_hash u)
              (pk_context u) (pk_data u)))"
proof -
  have pr: "pk_raw (packet_of_raw raw) = raw" "pk_transport_id (packet_of_raw raw) = []"
    by (simp_all add: packet_of_raw_def packet_object_def)
  have again: "\<exists>u. packet_unpack X (packet_of_raw raw) = (True, u) \<and> frame_ok (pk_flags u) (pk_transport_id u) (pk_destination_hash u) \<and>
      raw = frame (pk_flags u) (pk_hops u) (pk_transport_id u) (pk_destination_hash u) (pk_context u) (pk_data u)"
    if "frame_ok f tid dh" "raw = frame f h tid dh c d" for f h tid dh c d
    using unpack_frame[OF that(1), of "packet_of_raw raw" h c d X] that pr by auto
  have forth: "\<exists>f h tid dh c d. frame_ok f tid dh \<and> raw = frame f h tid dh c d"
    if "fst (packet_unpack X (packet_of_raw raw))"
    using unpack_short[OF that] by (simp add: pr)
  show ?thesis
  proof (cases "fst (packet_unpack X (packet_of_raw raw))")
    case True
    then obtain f h tid dh c d where "frame_ok f tid dh" "raw = frame f h tid dh c d"
      using forth by blast
    then show ?thesis using again by fastforce
  next
    case False
    have "\<not> (\<exists>f h tid dh c d. frame_ok f tid dh \<and> raw = frame f h tid dh c d)"
      using False again by fastforce
    with False show ?thesis by blast
  qed
qed

theorem unpack_correct_witness:
  "let u = snd (packet_unpack toy (packet_of_raw (replicate 19 0))) in
    frame_ok (pk_flags u) (pk_transport_id u) (pk_destination_hash u) \<and>
    replicate 19 0 = frame (pk_flags u) (pk_hops u) (pk_transport_id u) (pk_destination_hash u)
              (pk_context u) (pk_data u)"
  by (rule unpack_correct[THEN conjunct2, THEN mp])
    (simp add: packet_unpack_def packet_of_raw_def packet_object_def size_values unpack_flags_def
      header_type_of_def Let_def)

text \<open>
  C11: a frame built for a destination by the constructor and \<open>pack\<close> unpacks to the same flag byte, to the same
  value of each of its five fields (the context flag is always unset), no hops and no transport id, and to the same
  destination hash, context and packet hash, for every packet type, every context and the two transport types
  (broadcast, transport) that the flag byte's one bit can tell apart. A payload that is not encrypted comes again
  cut to the first 464 bytes.
\<close>

theorem pack_unpack:
  assumes "packet_new (Some r) data ty ctx tt s = (Ret p, s)" "packet_pack X p s = (Ret q, s')"
    "wire_transport tt" "length (dst_hash (dest_heap s ! r)) = 16"
  shows "\<exists>u. packet_unpack X (packet_of_raw (pk_raw q)) = (True, u) \<and> pk_packet_type u = ty \<and>
    pk_context u = ctx \<and> pk_transport_type u = tt \<and> pk_header_type u = HEADER_1 \<and> pk_hops u = 0 \<and>
    pk_destination_type u = dst_type (dest_heap s ! r) \<and>
    pk_destination_hash u = dst_hash (dest_heap s ! r) \<and> pk_packet_hash u = pk_packet_hash q \<and>
    pk_flags u = pk_flags q \<and> pk_context_flag u = pk_context_flag q \<and> pk_context_flag u = FLAG_UNSET \<and> pk_transport_id u = [] \<and>
    (ty \<noteq> DATA \<longrightarrow> pk_data u = take 464 data)"
proof -
  have r: "r < length (dest_heap s)"
    using assms(1) by (auto simp: packet_new_def bnd_def get_dest_run split: if_splits)
  let ?d = "dest_heap s ! r"
  have p: "p = new_packet r ?d data ty ctx tt" using assms(1) packet_new_run[OF r] by simp
  have pf: "pk_destination p = Some r" "pk_packet_type p = ty" "pk_data p = take MDU data"
    by (simp_all add: p new_packet_def packet_object_def Let_def)
  obtain ct where ct: "(if pk_packet_type p = DATA then dest_encrypt X (Some r) (pk_data p) else ret (pk_data p)) s = (Ret ct, s')"
    using assms(2) pf(1) r by (auto simp: packet_pack_def bnd_def get_dest_run Let_def split: res.splits prod.splits if_splits)
  have "q = packed X p ?d ct" using packet_pack_run[OF r pf(1) ct] assms(2) by simp
  moreover have "ty \<noteq> DATA \<Longrightarrow> ct = take 464 data" using ct pf by (simp add: size_values)
  ultimately show ?thesis
    using unpack_packed[OF assms(3,4) p, of X ct] by auto
qed

text \<open>
  Relaying does not change a packet's hash: the hash ignores the hop count, the upper half of the
  flag byte and the transport id a wide header carries.
\<close>

theorem relay_hash:
  assumes "frame_ok f tid dh" "frame_ok f' tid' dh" "f AND 0b00001111 = f' AND 0b00001111"
  shows "pk_packet_hash (snd (packet_unpack X (packet_of_raw (frame f h tid dh c d)))) =
    pk_packet_hash (snd (packet_unpack X (packet_of_raw (frame f' h' tid' dh c d))))"
  using unpack_frame[OF assms(1), of "packet_of_raw (frame f h tid dh c d)" h c d X]
    unpack_frame[OF assms(2), of "packet_of_raw (frame f' h' tid' dh c d)" h' c d X] assms(3)
  by (auto simp: packet_of_raw_def packet_object_def)

definition toy_id :: identity where
  "toy_id = key_identity toy (replicate 32 1) (replicate 32 2) []"

definition toy_dest :: "identity \<Rightarrow> direction \<Rightarrow> dest" where
  "toy_dest i dir =
    \<lparr>dst_type = SINGLE, dst_direction = dir, dst_identity = Some i, dst_name = ''a'',
     dst_hash = replicate 16 7, dst_name_hash = replicate 10 8, dst_hexhash = [],
     dst_packet_callback = None, dst_request_handlers = Map.empty\<rparr>"

definition toy_state :: dest_state where
  "toy_state =
    \<lparr>hal_calls = 5, known_destinations = Map.empty, fs_impl = None,
     dest_heap = [toy_dest (load_public_key toy (get_public_key toy_id) empty_identity) OUT,
                  toy_dest toy_id IN]\<rparr>"

lemma toy_heap:
  "length (dest_heap toy_state) = 2"
  "dest_heap toy_state ! 0 = toy_dest (load_public_key toy (get_public_key toy_id) empty_identity) OUT"
  "dest_heap toy_state ! 1 = toy_dest toy_id IN"
  by (simp_all add: toy_state_def)

theorem pack_unpack_witness:
  "\<exists>p q u. packet_new (Some 0) [1, 2, 3] LINKREQUEST 0 BROADCAST toy_state = (Ret p, toy_state) \<and>
    packet_pack toy p toy_state = (Ret q, toy_state) \<and>
    packet_unpack toy (packet_of_raw (pk_raw q)) = (True, u) \<and> pk_packet_type u = LINKREQUEST \<and>
    pk_data u = [1, 2, 3]"
proof -
  let ?d = "dest_heap toy_state ! 0"
  let ?p = "new_packet 0 ?d [1, 2, 3] LINKREQUEST 0 BROADCAST"
  have r: "0 < length (dest_heap toy_state)" by (simp add: toy_heap)
  note n = packet_new_run[OF r, of "[1, 2, 3]" LINKREQUEST 0 BROADCAST]
  have q: "packet_pack toy ?p toy_state = (Ret (packed toy ?p ?d [1, 2, 3]), toy_state)"
    by (rule packet_pack_run[OF r]) (simp_all add: new_packet_def packet_object_def Let_def size_values)
  show ?thesis
    using pack_unpack[OF n q] n q
    by (auto simp: wire_transport_def toy_heap toy_dest_def)
qed

theorem relay_hash_witness:
  "pk_packet_hash (snd (packet_unpack toy (packet_of_raw (frame 0x01 3 [] (replicate 16 5) 0 [1, 2])))) =
   pk_packet_hash (snd (packet_unpack toy (packet_of_raw
     (frame 0x51 4 (replicate 16 9) (replicate 16 5) 0 [1, 2]))))"
  by (rule relay_hash) (simp_all add: frame_ok_def wide_header_def)

text \<open>
  C23: a data packet of at most 464 bytes sent to the public side of an identity's destination reaches
  the owner: packing, unpacking and decrypting give the payload back. The frame takes
  \<open>99 + 16 * (n div 16 + 1)\<close> bytes, within the MTU for every payload up to \<open>ENCRYPTED_MDU\<close>, and beyond
  it from 400 bytes on, which the constructor's limit of 464 bytes lets through.
\<close>

theorem data_delivery:
  assumes "crypto_laws X" "create_identity X s0 = (Ret i, s1)"
    "r < length (dest_heap s)" "dst_type (dest_heap s ! r) = SINGLE" "length (dst_hash (dest_heap s ! r)) = 16"
    "dst_identity (dest_heap s ! r) = Some (load_public_key X (get_public_key i) empty_identity)"
    "r' < length (dest_heap s)" "dst_type (dest_heap s ! r') = SINGLE"
    "dst_identity (dest_heap s ! r') = Some i" "length data \<le> 464"
    "packet_new (Some r) data DATA ctx BROADCAST s = (Ret p, s)"
  shows "\<exists>q s' u. packet_pack X p s = (Ret q, s') \<and>
    packet_unpack X (packet_of_raw (pk_raw q)) = (True, u) \<and>
    dest_decrypt X (Some r') (pk_data u) s' = (Ret data, s') \<and>
    length (pk_raw q) = 99 + 16 * (length data div 16 + 1) \<and>
    (length data \<le> ENCRYPTED_MDU \<longrightarrow> length (pk_raw q) \<le> MTU) \<and>
    (400 \<le> length data \<longrightarrow> MTU < length (pk_raw q))"
proof -
  let ?d = "dest_heap s ! r"
  have p: "p = new_packet r ?d data DATA ctx BROADCAST"
    using assms(11) packet_new_run[OF assms(3)] by simp
  have pf: "pk_destination p = Some r" "pk_packet_type p = DATA" "pk_data p = data"
    using assms(10) by (simp_all add: p new_packet_def packet_object_def Let_def size_values)
  let ?s = "s\<lparr>hal_calls := hal_calls s + 2\<rparr>"
  obtain c where c: "identity_encrypt X (dst_identity ?d) data s = (Ret c, ?s)"
      "identity_decrypt X (Some i) c = Ret data" "length c = 80 + 16 * (length data div 16 + 1)"
    using channel_run[OF assms(1,2), of data s] assms(6) by auto
  have enc: "(if pk_packet_type p = DATA then dest_encrypt X (Some r) (pk_data p) else ret (pk_data p)) s = (Ret c, ?s)"
    using assms(3,4,6) c(1) pf by (simp add: dest_encrypt_def bnd_def get_dest_run)
  have run: "packet_pack X p s = (Ret (packed X p ?d c), ?s)"
    by (rule packet_pack_run[OF assms(3) pf(1) enc])
  obtain u where u: "packet_unpack X (packet_of_raw (pk_raw (packed X p ?d c))) = (True, u)" "pk_data u = c"
    using unpack_packed[OF _ assms(5) p, of X c] by (auto simp: wire_transport_def)
  have dec: "dest_decrypt X (Some r') (pk_data u) ?s = (Ret data, ?s)"
    using assms(7-9) c(2) u(2) by (simp add: dest_decrypt_def bnd_def get_dest_run)
  have len: "length (pk_raw (packed X p ?d c)) = 99 + 16 * (length data div 16 + 1)"
    using assms(5) c(3) by (simp add: packed_def frame_def Let_def)
  have "length data \<le> 383 \<Longrightarrow> length data div 16 \<le> 23" "400 \<le> length data \<Longrightarrow> 25 \<le> length data div 16"
    by presburger+
  then show ?thesis
    using run u(1) dec len unfolding size_values by (intro exI conjI impI) (assumption | simp)+
qed

theorem data_delivery_witness:
  "\<exists>p q s' u. packet_new (Some 0) [1, 2, 3] DATA 0 BROADCAST toy_state = (Ret p, toy_state) \<and>
    packet_pack toy p toy_state = (Ret q, s') \<and>
    packet_unpack toy (packet_of_raw (pk_raw q)) = (True, u) \<and>
    dest_decrypt toy (Some 1) (pk_data u) s' = (Ret [1, 2, 3], s') \<and> length (pk_raw q) = 115"
proof -
  have r: "0 < length (dest_heap toy_state)" by (simp add: toy_heap)
  note n = packet_new_run[OF r, of "[1, 2, 3]" DATA 0 BROADCAST]
  have "\<exists>q s' u. packet_pack toy (new_packet 0 (dest_heap toy_state ! 0) [1, 2, 3] DATA 0 BROADCAST) toy_state = (Ret q, s') \<and>
    packet_unpack toy (packet_of_raw (pk_raw q)) = (True, u) \<and>
    dest_decrypt toy (Some 1) (pk_data u) s' = (Ret [1, 2, 3], s') \<and>
    length (pk_raw q) = 99 + 16 * (length [1 :: u8, 2, 3] div 16 + 1) \<and>
    (length [1 :: u8, 2, 3] \<le> ENCRYPTED_MDU \<longrightarrow> length (pk_raw q) \<le> MTU) \<and>
    (400 \<le> length [1 :: u8, 2, 3] \<longrightarrow> MTU < length (pk_raw q))"
    by (rule data_delivery[OF toy_laws create_toy _ _ _ _ _ _ _ _ n])
      (simp_all add: toy_heap toy_dest_def toy_id_def flip: One_nat_def)
  then show ?thesis using n by auto
qed

end
