(* ===== verification/MsgPack.thy ===== *)
theory MsgPack
  imports ByteBuf
begin

text \<open>
  The minimal msgpack codec of src/msgpack.cpp: the packers, which append to a buffer, and the
  sequential \<open>Reader\<close>, a program over the reader's data and position. A \<open>double\<close> is its
  IEEE-754 bit pattern, as the \<open>memcpy\<close> of the code treats it; \<open>int64_t\<close> is a 64-bit word read
  as two's complement. \<open>W\<close> is the width of \<open>size_t\<close> (64 on the host, 32 on the ESP32).
\<close>

section \<open>Packers\<close>

definition pack_nil :: "bytes \<Rightarrow> bytes" where
  "pack_nil out = out @ [0xC0]"

definition pack_bool :: "bool \<Rightarrow> bytes \<Rightarrow> bytes" where
  "pack_bool v out = out @ [if v then 0xC3 else 0xC2]"

text \<open>\<open>(uint8_t)((v >> k) & 0xFF)\<close> on a signed and on an unsigned 64-bit value.\<close>

definition sbyte :: "u64 \<Rightarrow> nat \<Rightarrow> u8" where
  "sbyte v k = ucast (signed_drop_bit k v AND 0xFF)"

definition ubyte :: "u64 \<Rightarrow> nat \<Rightarrow> u8" where
  "ubyte v k = ucast (drop_bit k v AND 0xFF)"

definition pack_int :: "u64 \<Rightarrow> bytes \<Rightarrow> bytes" where
  "pack_int v out =
     (let s = sint v in
      if s \<ge> 0 \<and> s \<le> 127 then out @ [ucast v]
      else if s \<ge> 0 \<and> s \<le> 0xFF then out @ [0xCC, ucast v]
      else if s \<ge> 0 \<and> s \<le> 0xFFFF then out @ [0xCD, sbyte v 8, sbyte v 0]
      else if s \<ge> 0 \<and> s \<le> 0xFFFFFFFF then
        out @ [0xCE, sbyte v 24, sbyte v 16, sbyte v 8, sbyte v 0]
      else if s \<ge> -32 \<and> s < 0 then out @ [sbyte v 0]
      else if s \<ge> -128 \<and> s < 0 then out @ [0xD0, sbyte v 0]
      else out @ 0xD3 # map (\<lambda>i. sbyte v (i * 8)) (rev [0..<8]))"

definition pack_float64 :: "u64 \<Rightarrow> bytes \<Rightarrow> bytes" where
  "pack_float64 bits out = out @ 0xCB # map (\<lambda>i. ubyte bits (i * 8)) (rev [0..<8])"

definition pack_bin :: "bytes \<Rightarrow> bytes \<Rightarrow> bytes" where
  "pack_bin data out =
     (let len = length data; l = of_nat len in
      (if len \<le> 0xFF then out @ [0xC4, ucast l]
       else if len \<le> 0xFFFF then out @ [0xC5, ubyte l 8, ubyte l 0]
       else out @ [0xC6, ubyte l 24, ubyte l 16, ubyte l 8, ubyte l 0]) @ data)"

definition pack_array_header :: "nat \<Rightarrow> bytes \<Rightarrow> bytes" where
  "pack_array_header count out =
     (let c = of_nat count in
      if count \<le> 15 then out @ [0x90 OR ucast c]
      else if count \<le> 0xFFFF then out @ [0xDC, ubyte c 8, ubyte c 0]
      else out @ [0xDD, ubyte c 24, ubyte c 16, ubyte c 8, ubyte c 0])"

section \<open>The reader\<close>

record reader =
  rd_data :: bytes
  rd_pos :: nat

definition mk_reader :: "bytes \<Rightarrow> reader" where
  "mk_reader d = \<lparr>rd_data = d, rd_pos = 0\<rparr>"

definition at_end :: "reader \<Rightarrow> bool" where
  "at_end r \<longleftrightarrow> rd_pos r \<ge> length (rd_data r)"

text \<open>\<open>remaining\<close> subtracts unsigned values; every operation keeps the position within the data.\<close>

definition remaining :: "reader \<Rightarrow> nat" where
  "remaining r = length (rd_data r) - rd_pos r"

definition peek :: "reader \<Rightarrow> u8" where
  "peek r = (if rd_pos r < length (rd_data r) then rd_data r ! rd_pos r else 0)"

definition next_byte :: "(reader, u8) prog" where
  "next_byte r =
     (if rd_pos r < length (rd_data r)
      then (Ret (rd_data r ! rd_pos r), r\<lparr>rd_pos := rd_pos r + 1\<rparr>) else (Ret 0, r))"

text \<open>\<open>for (i < n) v = (v << 8) | next()\<close>.\<close>

fun read_be :: "nat \<Rightarrow> 'a::len word \<Rightarrow> (reader, 'a word) prog" where
  "read_be 0 v = ret v"
| "read_be (Suc n) v = bnd next_byte (\<lambda>b. read_be n (push_bit 8 v OR ucast b))"

definition read_nil :: "(reader, bool) prog" where
  "read_nil = bnd (gets peek) (\<lambda>p.
     if p = 0xC0 then bnd next_byte (\<lambda>_. ret True) else ret False)"

definition read_bool :: "(reader, bool) prog" where
  "read_bool = bnd next_byte (\<lambda>b. ret (b = 0xC3))"

definition read_int :: "(reader, u64) prog" where
  "read_int = bnd next_byte (\<lambda>b.
     if b \<le> 0x7F then ret (ucast b)
     else if b \<ge> 0xE0 then ret (scast b)
     else if b = 0xCC then bnd next_byte (\<lambda>x. ret (ucast x))
     else if b = 0xCD then bnd (read_be 2 (0 :: u16)) (\<lambda>v. ret (ucast v))
     else if b = 0xCE then bnd (read_be 4 (0 :: u32)) (\<lambda>v. ret (ucast v))
     else if b = 0xCF then read_be 8 0
     else if b = 0xD0 then bnd next_byte (\<lambda>x. ret (scast x))
     else if b = 0xD1 then bnd (read_be 2 (0 :: u16)) (\<lambda>v. ret (scast v))
     else if b = 0xD2 then bnd (read_be 4 (0 :: u32)) (\<lambda>v. ret (scast v))
     else if b = 0xD3 then read_be 8 0
     else ret 0)"

text \<open>
  The widening of a \<open>float\<close> to a \<open>double\<close> on bit patterns: the exponent is rebiased, a subnormal
  is normalised, an infinity or NaN keeps its payload (a NaN becomes quiet).
\<close>

fun norm_mant :: "nat \<Rightarrow> nat \<Rightarrow> nat \<Rightarrow> nat \<times> nat" where
  "norm_mant 0 e m = (e, m)"
| "norm_mant (Suc n) e m = (if m \<ge> 2 ^ 23 then (e, m) else norm_mant n (e - 1) (2 * m))"

definition f32_to_f64 :: "u32 \<Rightarrow> u64" where
  "f32_to_f64 x =
     (let s = unat (drop_bit 31 x); e = unat (drop_bit 23 x) mod 256; m = unat x mod 2 ^ 23;
          mk = (\<lambda>e m. of_nat (s * 2 ^ 63 + e * 2 ^ 52 + m * 2 ^ 29))
      in if e = 255 then mk 2047 (if m = 0 then 0 else if m < 2 ^ 22 then m + 2 ^ 22 else m)
         else if e > 0 then mk (e + 896) m
         else if m = 0 then mk 0 0
         else (case norm_mant 23 897 m of (e, m) \<Rightarrow> mk e (m - 2 ^ 23)))"

definition read_float64 :: "(reader, u64) prog" where
  "read_float64 = bnd next_byte (\<lambda>b.
     if b = 0xCA then bnd (read_be 4 (0 :: u32)) (\<lambda>bits. ret (f32_to_f64 bits))
     else read_be 8 0)"

text \<open>
  The tail of \<open>read_bin\<close>: the bounds test adds in \<open>size_t\<close>, so it wraps at \<open>2 ^ W\<close>. A length that
  passes it by wrapping is above the largest vector, so \<open>vector::reserve\<close> throws.
\<close>

definition take_bin :: "nat \<Rightarrow> nat \<Rightarrow> (reader, bytes) prog" where
  "take_bin W len r =
     (if (rd_pos r + len) mod 2 ^ W > length (rd_data r) then (Ret [], r)
      else if rd_pos r + len > length (rd_data r) then (Raise (Length_error (Msg ''vector::reserve'')), r)
      else (Ret (take len (drop (rd_pos r) (rd_data r))), r\<lparr>rd_pos := rd_pos r + len\<rparr>))"

definition read_bin :: "nat \<Rightarrow> (reader, bytes) prog" where
  "read_bin W = bnd next_byte (\<lambda>b.
     if b = 0xC4 then bnd next_byte (\<lambda>x. take_bin W (unat x))
     else if b = 0xC5 then bnd (read_be 2 (0 :: u32)) (\<lambda>len. take_bin W (unat len))
     else if b = 0xC6 then bnd (read_be 4 (0 :: u32)) (\<lambda>len. take_bin W (unat len))
     else if b AND 0xE0 = 0xA0 then take_bin W (unat (b AND 0x1F))
     else if b = 0xD9 then bnd next_byte (\<lambda>x. take_bin W (unat x))
     else if b = 0xDA then bnd (read_be 2 (0 :: u32)) (\<lambda>len. take_bin W (unat len))
     else if b = 0xDB then bnd (read_be 4 (0 :: u32)) (\<lambda>len. take_bin W (unat len))
     else ret [])"

definition read_array_header :: "(reader, nat) prog" where
  "read_array_header = bnd next_byte (\<lambda>b.
     if b AND 0xF0 = 0x90 then ret (unat (b AND 0x0F))
     else if b = 0xDC then bnd (read_be 2 (0 :: u32)) (\<lambda>n. ret (unat n))
     else if b = 0xDD then bnd (read_be 4 (0 :: u32)) (\<lambda>n. ret (unat n))
     else ret 0)"

section \<open>Skipping a value\<close>

fun repeat_prog :: "nat \<Rightarrow> ('s, unit) prog \<Rightarrow> ('s, unit) prog" where
  "repeat_prog 0 m = ret ()"
| "repeat_prog (Suc n) m = bnd m (\<lambda>_. repeat_prog n m)"

definition drop_result :: "('s, 'a) prog \<Rightarrow> ('s, unit) prog" where
  "drop_result m = bnd m (\<lambda>_. ret ())"

text \<open>One call of \<open>skip\<close>; \<open>rec\<close> is the recursive call.\<close>

definition skip_at :: "nat \<Rightarrow> (reader, unit) prog \<Rightarrow> u8 \<Rightarrow> (reader, unit) prog" where
  "skip_at W rec b =
    (if b = 0xC0 \<or> b = 0xC2 \<or> b = 0xC3 then drop_result next_byte
     else if b \<le> 0x7F \<or> b \<ge> 0xE0 then drop_result next_byte
     else if b AND 0xE0 = 0xA0 then drop_result (read_bin W)
     else if b \<ge> 0xCC \<and> b \<le> 0xD3 then drop_result read_int
     else if b = 0xCA \<or> b = 0xCB then drop_result read_float64
     else if b \<ge> 0xC4 \<and> b \<le> 0xC6 then drop_result (read_bin W)
     else if b = 0xD9 \<or> b = 0xDA \<or> b = 0xDB then drop_result (read_bin W)
     else if b AND 0xF0 = 0x90 \<or> b = 0xDC \<or> b = 0xDD then
       bnd read_array_header (\<lambda>n. repeat_prog n rec)
     else drop_result next_byte)"

definition skip_body :: "nat \<Rightarrow> (reader, unit) prog \<Rightarrow> (reader, unit) prog" where
  "skip_body W rec = bnd (gets peek) (skip_at W rec)"

text \<open>\<open>skip\<close> to a call depth: the stack of nested arrays.\<close>

fun skip_depth :: "nat \<Rightarrow> nat \<Rightarrow> (reader, unit) prog" where
  "skip_depth W 0 = fault Out_of_fuel"
| "skip_depth W (Suc n) = skip_body W (skip_depth W n)"

definition skip :: "nat \<Rightarrow> (reader, unit) prog" where
  "skip W r = skip_depth W (Suc (remaining r)) r"

section \<open>Reading back what was packed\<close>

lemma sbyte_drop: "k \<le> 56 \<Longrightarrow> sbyte v k = ucast (drop_bit k v)"
  unfolding sbyte_def and_0xFF
  by (rule bit_word_eqI)
    (auto simp: bit_take_bit_iff bit_ucast_iff bit_signed_drop_bit_iff bit_drop_bit_eq)

lemma ubyte_drop: "ubyte v k = ucast (drop_bit k v)"
  unfolding ubyte_def and_0xFF
  by (rule bit_word_eqI) (auto simp: bit_take_bit_iff bit_ucast_iff bit_drop_bit_eq)

lemma be_sbytes:
  "[sbyte v 8, sbyte v 0] = be 2 v"
  "[sbyte v 24, sbyte v 16, sbyte v 8, sbyte v 0] = be 4 v"
  "map (\<lambda>i. sbyte v (i * 8)) (rev [0..<8]) = be 8 v"
  by (simp_all add: be_def sbyte_drop upt_rec mult.commute)

lemma be_ubytes:
  "[ubyte v 8, ubyte v 0] = be 2 v"
  "[ubyte v 24, ubyte v 16, ubyte v 8, ubyte v 0] = be 4 v"
  "map (\<lambda>i. ubyte v (i * 8)) (rev [0..<8]) = be 8 v"
  by (simp_all add: be_def ubyte_drop upt_rec mult.commute)

text \<open>\<open>reads W m bs a\<close>: at any position of a buffer
  smaller than \<open>2 ^ W\<close> bytes where the data goes on with \<open>bs\<close>, the operation \<open>m\<close> returns
  \<open>a\<close> and leaves the position right after \<open>bs\<close>.\<close>

definition reads :: "nat \<Rightarrow> (reader, 'a) prog \<Rightarrow> bytes \<Rightarrow> 'a \<Rightarrow> bool" where
  "reads W m bs a \<longleftrightarrow> (\<forall>pre suf. length (pre @ bs @ suf) < 2 ^ W \<longrightarrow>
     m \<lparr>rd_data = pre @ bs @ suf, rd_pos = length pre\<rparr> =
       (Ret a, \<lparr>rd_data = pre @ bs @ suf, rd_pos = length pre + length bs\<rparr>))"

lemma reads_ret: "reads W (ret a) [] a"
  by (simp add: reads_def)

lemma reads_bnd:
  assumes "reads W m b1 a" "reads W (f a) b2 c"
  shows "reads W (bnd m f) (b1 @ b2) c"
  unfolding reads_def
proof (intro allI impI)
  fix pre suf
  assume l: "length (pre @ (b1 @ b2) @ suf) < 2 ^ W"
  have 1: "m \<lparr>rd_data = pre @ b1 @ (b2 @ suf), rd_pos = length pre\<rparr> =
       (Ret a, \<lparr>rd_data = pre @ b1 @ (b2 @ suf), rd_pos = length pre + length b1\<rparr>)"
    using assms(1) l unfolding reads_def by simp
  have "f a \<lparr>rd_data = (pre @ b1) @ b2 @ suf, rd_pos = length (pre @ b1)\<rparr> =
       (Ret c, \<lparr>rd_data = (pre @ b1) @ b2 @ suf, rd_pos = length (pre @ b1) + length b2\<rparr>)"
    using assms(2) l unfolding reads_def by (metis append.assoc)
  then show "bnd m f \<lparr>rd_data = pre @ (b1 @ b2) @ suf, rd_pos = length pre\<rparr> =
    (Ret c, \<lparr>rd_data = pre @ (b1 @ b2) @ suf, rd_pos = length pre + length (b1 @ b2)\<rparr>)"
    using 1 by (simp add: bnd_Ret add.assoc)
qed

lemma reads_drop: "reads W m bs a \<Longrightarrow> reads W (drop_result m) bs ()"
  using reads_bnd[of W m bs a "\<lambda>_. ret ()" "[]" "()"] by (simp add: drop_result_def reads_ret)

lemma reads_next: "reads W next_byte [b] b"
  by (simp add: reads_def next_byte_def nth_append)

lemma reads_next_bnd: "reads W (f b) bs c \<Longrightarrow> reads W (bnd next_byte f) (b # bs) c"
  using reads_bnd[OF reads_next, of W f b bs c] by simp

lemma reads_read_be:
  "length bs = n \<Longrightarrow> reads W (read_be n v) bs (foldl (\<lambda>a b. push_bit 8 a OR ucast b) v bs)"
proof (induction bs arbitrary: n v)
  case Nil
  then show ?case by (metis foldl_Nil list.size(3) read_be.simps(1) reads_ret)
next
  case (Cons b bs)
  then show ?case by (auto intro!: reads_next_bnd)
qed

lemma reads_unbe: "length bs = n \<Longrightarrow> reads W (read_be n 0) bs (unbe bs)"
  unfolding unbe_def by (rule reads_read_be)

lemma reads_be_bnd:
  "reads W (f (unbe (be n v))) cs c \<Longrightarrow> reads W (bnd (read_be n 0) f) (be n v @ cs) c"
  by (rule reads_bnd[OF reads_unbe]) simp_all

lemma reads_be_ret:
  "f (unbe (be n v)) = ret c \<Longrightarrow> reads W (bnd (read_be n 0) f) (be n v) c"
  using reads_be_bnd[of W f n v "[]" c] by (simp add: reads_ret)

lemma pack_int_append: "pack_int v out = out @ pack_int v []"
  by (simp add: pack_int_def Let_def)

lemma fixpos_byte:
  assumes "0 \<le> sint v" "sint v \<le> 127"
  shows "ucast v \<le> (0x7F :: u8)" "ucast (ucast (v :: u64) :: u8) = v"
proof -
  have u: "uint v < 2 ^ 7" using assms by (simp add: uint_sint_nonneg)
  have t: "take_bit 8 (uint v) = uint v" by (rule take_bit_int_eq_self) (use u in auto)
  show "ucast v \<le> (0x7F :: u8)"
    by (simp only: word_le_def unsigned_ucast_eq) (use u t in simp)
  show "ucast (ucast v :: u8) = v" using u by (rule ucast_take_eq) simp
qed

lemma neg_fix_byte: "-32 \<le> sint (w :: u8) \<longrightarrow> sint w < 0 \<longrightarrow> 0xE0 \<le> w \<and> \<not> w \<le> 0x7F"
  by (rule u8_by_cases) code_simp

lemma fixneg_byte:
  assumes "-32 \<le> sint v" "sint v < 0"
  shows "0xE0 \<le> (ucast v :: u8)" "\<not> ucast v \<le> (0x7F :: u8)" "scast (ucast (v :: u64) :: u8) = v"
proof -
  have "sint (ucast v :: u8) = sint v" using assms by (intro sint_ucast_eq) simp_all
  then show "0xE0 \<le> (ucast v :: u8)" "\<not> ucast v \<le> (0x7F :: u8)"
    using neg_fix_byte[of "ucast v"] assms by simp_all
  show "scast (ucast v :: u8) = v" using assms by (intro scast_ucast_eq) simp_all
qed

lemma read_int_fixpos: "0 \<le> sint v \<Longrightarrow> sint v \<le> 127 \<Longrightarrow> reads W read_int [ucast v] v"
  unfolding read_int_def by (intro reads_next_bnd) (simp add: reads_ret fixpos_byte)

lemma read_int_fixneg: "-32 \<le> sint v \<Longrightarrow> sint v < 0 \<Longrightarrow> reads W read_int [ucast v] v"
  unfolding read_int_def by (intro reads_next_bnd) (simp add: reads_ret fixneg_byte)

lemma read_int_u8:
  assumes "0 \<le> sint v" "sint v \<le> 0xFF" shows "reads W read_int [0xCC, ucast v] v"
proof -
  have u: "uint v < 2 ^ 8" using assms by (simp add: uint_sint_nonneg)
  have "ucast (ucast v :: u8) = v" using u by (rule ucast_take_eq) simp
  then show ?thesis unfolding read_int_def 
    by (intro reads_next_bnd) (simp, intro reads_next_bnd, simp add: reads_ret)
qed

lemma unbe_be_cast_back:
  assumes "uint (v :: u64) < 2 ^ (8 * n)" "8 * n \<le> LENGTH('b)"
  shows "ucast (unbe (be n v) :: 'b::len word) = v"
proof -
  have "uint (take_bit (8 * n) v) = uint v"
    using assms(1) by (subst unsigned_take_bit_eq) (simp add: take_bit_int_eq_self)
  then have t: "take_bit (8 * n) v = v" by (simp only: word_uint_eq_iff)
  show ?thesis unfolding unbe_be_cast t using assms by (rule ucast_take_eq)
qed

lemma read_int_be2:
  assumes "0 \<le> sint v" "sint v \<le> 0xFFFF"
  shows "reads W read_int (0xCD # be 2 v) v"
proof -
  have "uint v = sint v" using assms by (simp add: uint_sint_nonneg)
  then have "ucast (unbe (be 2 v) :: u16) = v" using assms by (intro unbe_be_cast_back) simp_all
  then show ?thesis unfolding read_int_def
    by (intro reads_next_bnd) (simp, intro reads_be_ret, simp)
qed

lemma read_int_be4:
  assumes "0 \<le> sint v" "sint v \<le> 0xFFFFFFFF"
  shows "reads W read_int (0xCE # be 4 v) v"
proof -
  have "uint v = sint v" using assms by (simp add: uint_sint_nonneg)
  then have "ucast (unbe (be 4 v) :: u32) = v" using assms by (intro unbe_be_cast_back) simp_all
  then show ?thesis unfolding read_int_def
    by (intro reads_next_bnd) (simp, intro reads_be_ret, simp)
qed

lemma read_int_s8:
  assumes "-128 \<le> sint v" "sint v < 0" shows "reads W read_int [0xD0, sbyte v 0] v"
proof -
  have e: "scast (ucast v :: u8) = v" using assms by (intro scast_ucast_eq) simp_all
  then show ?thesis unfolding read_int_def 
    by (intro reads_next_bnd) (simp add: sbyte_drop, intro reads_next_bnd, simp add: reads_ret)
qed

lemma read_int_s64: "reads W read_int (0xD3 # be 8 v) v"
  using reads_unbe[of "be 8 v" 8, where ?'a=64] unfolding read_int_def 
  by (intro reads_next_bnd) simp

lemma sbyte_0: "sbyte v 0 = ucast v"
  by (simp add: sbyte_drop)

lemma pack_int_reads: "reads W read_int (pack_int v []) v"
proof (cases "sint v \<ge> 0")
  case True
  then show ?thesis
    by (auto simp: pack_int_def Let_def be_sbytes(3) read_int_fixpos read_int_u8
        read_int_be2[folded be_sbytes] read_int_be4[folded be_sbytes] read_int_s64)
next
  case False
  then show ?thesis
    by (auto simp: pack_int_def Let_def be_sbytes(3) sbyte_0 read_int_fixneg
        read_int_s8[unfolded sbyte_0] read_int_s64)
qed

lemma pack_bin_append: "pack_bin data out = out @ pack_bin data []"
  by (simp add: pack_bin_def Let_def)

lemma pack_array_header_append: "pack_array_header n out = out @ pack_array_header n []"
  by (simp add: pack_array_header_def Let_def)

lemma pack_float64_append: "pack_float64 n out = out @ pack_float64 n []"
  by (simp add: pack_float64_def)

lemma pack_float64_reads: "reads W read_float64 (pack_float64 v []) v"
  using reads_unbe[of "be 8 v" 8, where ?'a=64] unfolding read_float64_def pack_float64_def be_ubytes
  by (simp, intro reads_next_bnd) simp


section \<open>Buffers, array headers and whole values\<close>

lemma reads_take_bin: "reads W (take_bin W (length d)) d d"
  by (simp add: reads_def take_bin_def)

lemma unat_unbe_of_nat:
  assumes "n < 2 ^ (8 * k)" "n < 2 ^ LENGTH('a)" "n < 2 ^ LENGTH('b)"
  shows "unat (unbe (be k (of_nat n :: 'b::len word)) :: 'a::len word) = n"
proof -
  have "unat (unbe (be k (of_nat n :: 'b word)) :: 'a word)
      = take_bit LENGTH('a) (take_bit (8 * k) (take_bit LENGTH('b) n))"
    unfolding unbe_be_cast by (subst unsigned_ucast_eq, subst unsigned_take_bit_eq) (simp add: unsigned_of_nat)
  then show ?thesis using assms by (simp add: take_bit_nat_eq_self)
qed

lemma pack_bin_reads:
  assumes "length d < 2 ^ 32"
  shows "reads W (read_bin W) (pack_bin d []) d"
proof -
  let ?l = "of_nat (length d) :: u64"
  consider "length d \<le> 0xFF" | "\<not> length d \<le> 0xFF" "length d \<le> 0xFFFF" | "\<not> length d \<le> 0xFFFF" by linarith
  then show ?thesis
  proof cases
    case 1
    have "unat (ucast ?l :: u8) = length d" using 1 
     by (subst unsigned_ucast_eq) (simp add: unat_of_nat take_bit_nat_eq_self)
    then show ?thesis using 1 unfolding read_bin_def
      by (simp add: pack_bin_def, intro reads_next_bnd, simp, intro reads_next_bnd) (simp add: reads_take_bin)
  next
    case 2
    have "unat (unbe (be 2 ?l) :: u32) = length d" using 2 by (intro unat_unbe_of_nat) simp_all
    then show ?thesis using 2 unfolding read_bin_def pack_bin_def Let_def be_ubytes
      by (simp, intro reads_next_bnd, simp, intro reads_be_bnd) (simp add: reads_take_bin)
  next
    case 3
    have "unat (unbe (be 4 ?l) :: u32) = length d" using assms by (intro unat_unbe_of_nat) simp_all
    then show ?thesis using 3 unfolding read_bin_def pack_bin_def Let_def be_ubytes(2)
      by (simp, intro reads_next_bnd, simp, intro reads_be_bnd) (simp add: reads_take_bin)
  qed
qed


lemma ucast_of_nat_u8: "ucast (of_nat n :: u64) = (of_nat n :: u8)"
  by (rule unsigned_word_eqI[where ?'a = nat], subst unsigned_ucast_eq)
    (simp add: unsigned_of_nat)

lemma low_nibble_header: "n \<le> 15 \<Longrightarrow> (0x90 OR of_nat n) AND 0xF0 = (0x90 :: u8) \<and> unat ((0x90 OR of_nat n) AND 0x0F :: u8) = n"
proof -
  have "list_all (\<lambda>n. (0x90 OR of_nat n) AND 0xF0 = (0x90 :: u8) \<and> unat ((0x90 OR of_nat n) AND 0x0F :: u8) = n) [0..<16]"
    by code_simp
  then show "n \<le> 15 \<Longrightarrow> ?thesis" by (simp add: list_all_iff)
qed

lemma pack_array_header_reads:
  assumes "n < 2 ^ 32"
  shows "reads W read_array_header (pack_array_header n []) n"
proof -
  let ?l = "of_nat n :: u64"
  consider "n \<le> 15" | "\<not> n \<le> 15" "n \<le> 0xFFFF" | "\<not> n \<le> 0xFFFF" by linarith
  then show ?thesis
  proof cases
    case 1
    have "ucast ?l = (of_nat n :: u8)" by (rule ucast_of_nat_u8)
    then show ?thesis using 1 low_nibble_header[OF 1] unfolding read_array_header_def
      by (simp add: pack_array_header_def Let_def del: of_nat_numeral, intro reads_next_bnd) (simp add: reads_ret)
  next
    case 2
    have "unat (unbe (be 2 ?l) :: u32) = n" using 2 by (intro unat_unbe_of_nat) simp_all
    then show ?thesis using 2 unfolding read_array_header_def pack_array_header_def Let_def be_ubytes
      by (simp, intro reads_next_bnd, simp, intro reads_be_ret) simp
  next
    case 3
    have "unat (unbe (be 4 ?l) :: u32) = n" using assms by (intro unat_unbe_of_nat) simp_all
    then show ?thesis using 3 unfolding read_array_header_def pack_array_header_def Let_def be_ubytes(2)
      by (simp, intro reads_next_bnd, simp, intro reads_be_ret) simp
  qed
qed

datatype mval = M_nil | M_bool bool | M_int u64 | M_float u64 | M_bin bytes | M_arr "mval list"

fun pack_val :: "mval \<Rightarrow> bytes \<Rightarrow> bytes" where
  "pack_val M_nil out = pack_nil out"
| "pack_val (M_bool b) out = pack_bool b out"
| "pack_val (M_int v) out = pack_int v out"
| "pack_val (M_float v) out = pack_float64 v out"
| "pack_val (M_bin d) out = pack_bin d out"
| "pack_val (M_arr vs) out = fold pack_val vs (pack_array_header (length vs) out)"

fun mval_ok :: "mval \<Rightarrow> bool" where
  "mval_ok (M_bin d) \<longleftrightarrow> length d < 2 ^ 32"
| "mval_ok (M_arr vs) \<longleftrightarrow> length vs < 2 ^ 32 \<and> list_all mval_ok vs"
| "mval_ok _ \<longleftrightarrow> True"

fun mval_depth :: "mval \<Rightarrow> nat" where
  "mval_depth (M_arr vs) = Suc (foldr (\<lambda>v n. max (mval_depth v) n) vs 0)"
| "mval_depth _ = 0"

lemma fold_pack_append:
  assumes "\<And>v out. v \<in> set vs \<Longrightarrow> pack_val v out = out @ pack_val v []"
  shows "fold pack_val vs out = out @ concat (map (\<lambda>v. pack_val v []) vs)"
  using assms
proof (induction vs arbitrary: out)
  case (Cons v vs)
  have "fold pack_val vs (pack_val v out) = pack_val v out @ concat (map (\<lambda>v. pack_val v []) vs)"
    by (rule Cons.IH) (rule Cons.prems, simp)
  moreover have "pack_val v out = out @ pack_val v []" by (rule Cons.prems) simp
  ultimately show ?case by simp
qed simp

lemma pack_val_append: "pack_val v out = out @ pack_val v []"
proof (induction v arbitrary: out)
  case (M_int x)
  then show ?case unfolding pack_val.simps by (rule pack_int_append)
next
  case (M_float x)
  then show ?case unfolding pack_val.simps by (rule pack_float64_append)
next
  case (M_bin x)
  then show ?case unfolding pack_val.simps by (rule pack_bin_append)
next
  case (M_arr vs)
  have f: "fold pack_val vs o' = o' @ concat (map (\<lambda>v. pack_val v []) vs)" for o'
    by (rule fold_pack_append) (rule M_arr)
  show ?case
    unfolding pack_val.simps f by (subst pack_array_header_append) simp
qed (simp_all add: pack_nil_def pack_bool_def)

lemma pack_val_arr:
  "pack_val (M_arr vs) [] = pack_array_header (length vs) [] @ concat (map (\<lambda>v. pack_val v []) vs)"
  unfolding pack_val.simps by (rule fold_pack_append) (rule pack_val_append)

lemma reads_peek: "reads W (f b) (b # bs) c \<Longrightarrow> reads W (bnd (gets peek) f) (b # bs) c"
  by (simp add: reads_def peek_def nth_append)

lemma reads_repeat:
  "(\<And>v. v \<in> set vs \<Longrightarrow> reads W m (pack_val v []) ()) \<Longrightarrow>
   reads W (repeat_prog (length vs) m) (concat (map (\<lambda>v. pack_val v []) vs)) ()"
proof (induction vs)
  case Nil
  then show ?case by (metis concat.simps(1) list.map(1) list.size(3) reads_ret repeat_prog.simps(1))
next
  case (Cons v vs)
  have "reads W (bnd m (\<lambda>_. repeat_prog (length vs) m))
      (pack_val v [] @ concat (map (\<lambda>v. pack_val v []) vs)) ()"
    by (rule reads_bnd[of _ _ _ "()"]) (simp_all add: Cons)
  then show ?case by simp
qed

text \<open>The branch \<open>skip\<close> takes on each format byte.\<close>

lemma skip_at_one: "b \<le> 0x7F \<or> b \<ge> 0xE0 \<Longrightarrow> skip_at W rec b = drop_result next_byte"
  by (simp add: skip_at_def)

lemma skip_at_const: "b \<in> {0xC0, 0xC2, 0xC3} \<Longrightarrow> skip_at W rec b = drop_result next_byte"
  by (simp add: skip_at_def)

lemma skip_at_int: "b \<in> {0xCC, 0xCD, 0xCE, 0xD0, 0xD3} \<Longrightarrow> skip_at W rec b = drop_result read_int"
  by (elim insertE) (simp_all add: skip_at_def)

lemma skip_at_bin: "b \<in> {0xC4, 0xC5, 0xC6} \<Longrightarrow> skip_at W rec b = drop_result (read_bin W)"
  by (elim insertE) (simp_all add: skip_at_def)

lemma skip_at_float: "skip_at W rec 0xCB = drop_result read_float64"
  by (simp add: skip_at_def)

lemma skip_at_array:
  "b \<in> {0xDC, 0xDD} \<Longrightarrow> skip_at W rec b = bnd read_array_header (\<lambda>n. repeat_prog n rec)"
  by (elim insertE) (simp_all add: skip_at_def)

lemma skip_at_fixarray:
  assumes "n \<le> 15"
  shows "skip_at W rec (0x90 OR of_nat n) = bnd read_array_header (\<lambda>n. repeat_prog n rec)"
proof -
  have "list_all (\<lambda>n. let b = 0x90 OR of_nat n :: u8 in b AND 0xF0 = 0x90 \<and> \<not> b \<le> 0x7F \<and> \<not> b \<ge> 0xE0
     \<and> b AND 0xE0 \<noteq> 0xA0 \<and> \<not> b \<ge> 0xC0 \<and> \<not> b \<ge> 0xC4 \<and> \<not> b \<ge> 0xCC) [0..<16]" by code_simp
  then have "let b = 0x90 OR of_nat n :: u8 in b AND 0xF0 = 0x90 \<and> \<not> b \<le> 0x7F \<and> \<not> b \<ge> 0xE0
     \<and> b AND 0xE0 \<noteq> 0xA0 \<and> \<not> b \<ge> 0xC0 \<and> \<not> b \<ge> 0xC4 \<and> \<not> b \<ge> 0xCC" using assms by (simp add: list_all_iff)
  then show ?thesis by (auto simp: skip_at_def Let_def)
qed

lemma skip_reads:
  "reads W (skip_at W rec b) (b # bs) () \<Longrightarrow> reads W (skip_body W rec) (b # bs) ()"
  unfolding skip_body_def by (rule reads_peek)

lemma pack_int_head:
  "(\<exists>b. pack_int v [] = [b] \<and> (b \<le> 0x7F \<or> b \<ge> 0xE0)) \<or>
   (\<exists>b bs. pack_int v [] = b # bs \<and> b \<in> {0xCC, 0xCD, 0xCE, 0xD0, 0xD3})"
proof (cases "sint v \<ge> 0")
  case True
  then show ?thesis by (simp add: pack_int_def Let_def fixpos_byte)
next
  case False
  then show ?thesis by (simp add: pack_int_def Let_def sbyte_0 fixneg_byte)
qed

lemma skip_int: "reads W (skip_body W rec) (pack_int v []) ()"
  using pack_int_head[of v]
proof (elim disjE exE conjE)
  fix b bs assume p: "pack_int v [] = b # bs" "b \<in> {0xCC, 0xCD, 0xCE, 0xD0, 0xD3}"
  show ?thesis
    using reads_drop[OF pack_int_reads, of W v] p by (simp add: skip_reads skip_at_int)
qed (simp_all add: skip_reads skip_at_one reads_drop[OF reads_next])

lemma skip_bin: 
  assumes "length d < 2 ^ 32" shows "reads W (skip_body W rec) (pack_bin d []) ()"
proof -
  have "\<exists>b bs. pack_bin d [] = b # bs \<and> b \<in> {0xC4, 0xC5, 0xC6}"
    by (simp add: pack_bin_def Let_def)
  then obtain b bs where p: "pack_bin d [] = b # bs" "b \<in> {0xC4, 0xC5, 0xC6}" by blast
  show ?thesis
    using reads_drop[OF pack_bin_reads[OF assms], of W] p by (simp add: skip_reads skip_at_bin)
qed

lemma skip_float: "reads W (skip_body W rec) (pack_float64 v []) ()"
proof -
  obtain bs where p: "pack_float64 v [] = 0xCB # bs" by (simp add: pack_float64_def)
  show ?thesis
    using reads_drop[OF pack_float64_reads, of W v] p by (simp add: skip_reads skip_at_float)
qed

lemma skip_arr:
  assumes "length vs < 2 ^ 32" "\<And>v. v \<in> set vs \<Longrightarrow> reads W rec (pack_val v []) ()"
  shows "reads W (skip_body W rec) (pack_val (M_arr vs) []) ()"
proof -
  let ?n = "length vs"
  have "\<exists>b bs. pack_array_header ?n [] = b # bs \<and> skip_at W rec b = bnd read_array_header (\<lambda>n. repeat_prog n rec)"
    by (auto simp add: pack_array_header_def Let_def skip_at_array skip_at_fixarray ucast_of_nat_u8)
  then obtain b bs where p: "pack_array_header ?n [] = b # bs" 
    "skip_at W rec b = bnd read_array_header (\<lambda>n. repeat_prog n rec)" by blast
  have "reads W (bnd read_array_header (\<lambda>n. repeat_prog n rec)) (pack_val (M_arr vs) []) ()"
    unfolding pack_val_arr
    by (rule reads_bnd[OF pack_array_header_reads[OF assms(1)]]) (rule reads_repeat, rule assms(2))
  then show ?thesis using p unfolding pack_val_arr by (simp add: skip_reads)
qed

lemma skip_const: "b \<in> {0xC0, 0xC2, 0xC3} \<Longrightarrow> reads W (skip_body W rec) [b] ()"
  using reads_drop[OF reads_next, of W b] by (intro skip_reads) (simp only: skip_at_const)

lemma reads_skip_depth:
  "mval_ok v \<Longrightarrow> mval_depth v < n \<Longrightarrow> reads W (skip_depth W n) (pack_val v []) ()"
proof (induction v arbitrary: n)
  case (M_arr vs)
  then obtain k where n: "n = Suc k" "mval_depth (M_arr vs) \<le> k" by (cases n) auto
  have "mval_depth v < k" if "v \<in> set vs" for v
  proof -
    have "mval_depth v \<le> foldr (\<lambda>v n. max (mval_depth v) n) vs 0"
      using that by (induction vs) auto
    then show ?thesis using n(2) by simp
  qed
  then have "reads W (skip_depth W k) (pack_val v []) ()" if "v \<in> set vs" for v
    using M_arr that by (auto simp: list_all_iff)
  then show ?case using M_arr.prems(1) unfolding n(1) skip_depth.simps by (intro skip_arr) simp_all
next
  case M_nil
  then show ?case by (cases n) (simp_all add: pack_nil_def skip_const)
next
  case (M_bool b)
  then show ?case by (cases n) (simp_all add: pack_bool_def skip_const)
next
  case (M_int x)
  then show ?case using skip_int by (cases n) simp_all
next
  case (M_float x)
  then show ?case using skip_float by (cases n) simp_all
next
  case (M_bin x)
  then show ?case using skip_bin by (cases n) simp_all
qed

lemma pack_array_header_nonempty: "pack_array_header n [] \<noteq> []"
  by (simp add: pack_array_header_def Let_def)

lemma mval_depth_length: "mval_depth v \<le> length (pack_val v [])"
proof (induction v)
  case (M_arr vs)
  have h: "1 \<le> length (pack_array_header (length vs) [])"
    using pack_array_header_nonempty[of "length vs"] by (simp add: Suc_le_eq)
  have "foldr (\<lambda>v n. max (mval_depth v) n) vs 0 \<le> length (concat (map (\<lambda>v. pack_val v []) vs))"
    using M_arr by (induction vs) fastforce+
  then show ?case using h unfolding pack_val_arr by simp
qed simp_all

section \<open>The reader stays inside its buffer\<close>

definition advances :: "reader \<Rightarrow> reader \<Rightarrow> bool" where
  "advances r r' \<longleftrightarrow> rd_data r' = rd_data r \<and> rd_pos r \<le> rd_pos r' \<and> rd_pos r' \<le> length (rd_data r)"

text \<open>A run ends in a value, or, where \<open>size_t\<close> has no room for a 32-bit length past the buffer's end, in the exception
  of \<open>take_bin\<close>; in every case it keeps the data and moves forward inside the buffer.\<close>

definition stops :: "nat \<Rightarrow> reader \<Rightarrow> 'a res \<Rightarrow> bool" where
  "stops W r q \<longleftrightarrow> (\<exists>a. q = Ret a) \<or>
     q = Raise (Length_error (Msg ''vector::reserve'')) \<and> 2 ^ W < length (rd_data r) + 2 ^ 32"

lemma stops_simps [simp]:
  "stops W r (Ret a)" "\<not> stops W r (Fault x)"
  "stops W r (Raise e) \<longleftrightarrow> e = Length_error (Msg ''vector::reserve'') \<and> 2 ^ W < length (rd_data r) + 2 ^ 32"
  by (auto simp: stops_def)

definition safe :: "nat \<Rightarrow> nat \<Rightarrow> (reader, 'a) prog \<Rightarrow> bool" where
  "safe W k m \<longleftrightarrow> (\<forall>r. rd_pos r \<le> length (rd_data r) \<longrightarrow> remaining r < k \<longrightarrow> advances r (snd (m r)) \<and> stops W r (fst (m r)))"

named_theorems safe_intros

lemma safeD:
  assumes "safe W k m" "rd_pos r \<le> length (rd_data r)" "remaining r < k"
  shows "advances r (snd (m r))" "stops W r (fst (m r))"
  using assms by (simp_all add: safe_def)

lemma advances_trans: "advances r r' \<Longrightarrow> advances r' r'' \<Longrightarrow> advances r r''"
  by (simp add: advances_def)

lemma safe_ret [safe_intros]: "safe W k (ret a)"
  by (simp add: safe_def advances_def)

lemma safe_then:
  assumes "advances r (snd (m r))" "stops W r (fst (m r))"
    "\<And>a r'. m r = (Ret a, r') \<Longrightarrow> advances r r' \<Longrightarrow> advances r' (snd (f a r')) \<and> stops W r' (fst (f a r'))"
  shows "advances r (snd (bnd m f r)) \<and> stops W r (fst (bnd m f r))"
proof (cases "m r")
  case (Pair q r')
  then show ?thesis using assms advances_trans[of r r']
    by (cases q) (auto simp: bnd_def stops_def, auto simp: advances_def)
qed

lemma safe_bnd [safe_intros]:
  assumes "safe W k m" "\<And>a. safe W k (f a)"
  shows "safe W k (bnd m f)"
  unfolding safe_def
proof (intro allI impI)
  fix r assume r: "rd_pos r \<le> length (rd_data r)" "remaining r < k"
  show "advances r (snd (bnd m f r)) \<and> stops W r (fst (bnd m f r))"
  proof (rule safe_then)
    show "advances r (snd (m r))" "stops W r (fst (m r))" by (rule safeD[OF assms(1) r])+
    fix a r' assume "advances r r'"
    then have "rd_pos r' \<le> length (rd_data r')" "remaining r' < k" using r by (auto simp: advances_def remaining_def)
    then show "advances r' (snd (f a r')) \<and> stops W r' (fst (f a r'))" using safeD[OF assms(2)] by blast
  qed
qed

lemma safe_if [safe_intros]: "safe W k m \<Longrightarrow> safe W k n \<Longrightarrow> safe W k (if b then m else n)"
  by simp

lemma safe_gets [safe_intros]: "safe W k (gets f)"
  by (simp add: safe_def advances_def)

lemma safe_next [safe_intros]: "safe W k next_byte"
  by (auto simp: safe_def next_byte_def advances_def)

lemma safe_read_be [safe_intros]: "safe W k (read_be n v)"
proof (induction n arbitrary: v)
  case 0
  show ?case unfolding read_be.simps by (rule safe_ret)
next
  case (Suc n)
  show ?case unfolding read_be.simps by (intro safe_intros Suc)
qed

lemma safe_take_bin [safe_intros]:
  assumes "n < 2 ^ 32"
  shows "safe W k (take_bin W n)"
proof -
  have "2 ^ W < length (rd_data r) + 2 ^ 32"
    if "rd_pos r \<le> length (rd_data r)" "\<not> length (rd_data r) < (rd_pos r + n) mod 2 ^ W" "length (rd_data r) < rd_pos r + n" for r
  proof (rule ccontr)
    assume "\<not> ?thesis"
    then have "(rd_pos r + n) mod 2 ^ W = rd_pos r + n" using that(1) assms by simp
    then show False using that(2,3) by simp
  qed
  then have "2 ^ W < length (rd_data r) + 4294967296"
    if "rd_pos r \<le> length (rd_data r)" "\<not> length (rd_data r) < (rd_pos r + n) mod 2 ^ W" "length (rd_data r) < rd_pos r + n" for r
    using that by simp
  then show ?thesis by (auto simp: safe_def take_bin_def advances_def)
qed

lemma unat_u32 [safe_intros]: "unat (n :: u32) < 2 ^ 32"
  using unsigned_less[of n, where ?'a = nat] by simp
lemma unat_u8 [safe_intros]: "unat (n :: u8) < 2 ^ 32"
  using u8_cases_bound[of n] by simp

lemma safe_drop [safe_intros]: "safe W k m \<Longrightarrow> safe W k (drop_result m)"
  unfolding drop_result_def by (intro safe_intros)

lemma safe_read_bin [safe_intros]: "safe W k (read_bin W)"
  unfolding read_bin_def by (intro safe_intros)
lemma safe_read_int [safe_intros]: "safe W k read_int"
  unfolding read_int_def by (intro safe_intros)
lemma safe_read_float64 [safe_intros]: "safe W k read_float64"
  unfolding read_float64_def by (intro safe_intros)
lemma safe_read_array_header [safe_intros]: "safe W k read_array_header"
  unfolding read_array_header_def by (intro safe_intros)
lemma safe_repeat [safe_intros]: "safe W k m \<Longrightarrow> safe W k (repeat_prog n m)"
proof (induction n)
  case 0
  show ?case unfolding repeat_prog.simps by (rule safe_ret)
next
  case (Suc n)
  then show ?case unfolding repeat_prog.simps by (intro safe_intros)
qed


text \<open>An array header takes a byte, so its elements have a shorter rest to look at.\<close>

lemma safe_array:
  assumes "safe W k m" "remaining r < Suc k" "rd_pos r < length (rd_data r)"
  shows "advances r (snd (bnd read_array_header (\<lambda>n. repeat_prog n m) r)) \<and>
    stops W r (fst (bnd read_array_header (\<lambda>n. repeat_prog n m) r))"
proof (rule safe_then)
  have pos: "rd_pos r \<le> length (rd_data r)" using assms(3) by simp
  show "advances r (snd (read_array_header r))" "stops W r (fst (read_array_header r))"
    by (rule safeD[OF safe_read_array_header pos assms(2)])+
  fix n r1 assume h: "read_array_header r = (Ret n, r1)" "advances r r1"
  let ?r = "r\<lparr>rd_pos := rd_pos r + 1\<rparr>"
  let ?f = "\<lambda>b. if b AND 0xF0 = 0x90 then ret (unat (b AND 0x0F))
     else if b = 0xDC then bnd (read_be 2 (0 :: u32)) (\<lambda>n. ret (unat n))
     else if b = 0xDD then bnd (read_be 4 (0 :: u32)) (\<lambda>n. ret (unat n))
     else ret 0"
  have f: "read_array_header r = ?f (rd_data r ! rd_pos r) ?r"
    unfolding read_array_header_def by (rule bnd_Ret) (simp add: next_byte_def assms(3))
  have "safe W (Suc k) (?f b)" for b by (intro safe_intros)
  from safeD(1)[OF this, of ?r "rd_data r ! rd_pos r"] have "advances ?r r1"
    using assms(2,3) h(1) f by (simp add: remaining_def)
  then have "rd_pos r < rd_pos r1" by (simp add: advances_def)
  then have "rd_pos r1 \<le> length (rd_data r1)" "remaining r1 < k"
    using h(2) assms by (auto simp: advances_def remaining_def)
  then show "advances r1 (snd (repeat_prog n m r1)) \<and> stops W r1 (fst (repeat_prog n m r1))"
    using safeD[OF safe_repeat[OF assms(1)]] by blast
qed

lemma safe_skip_body:
  assumes "safe W k rec"
  shows "safe W (Suc k) (skip_body W rec)"
  unfolding safe_def
proof (intro allI impI)
  fix r assume r: "rd_pos r \<le> length (rd_data r)" "remaining r < Suc k"
  define Q where "Q m \<longleftrightarrow> advances r (snd (m r)) \<and> stops W r (fst (m r))" for m :: "(reader, unit) prog"
  have leaf: "Q m" if "safe W (Suc k) m" for m
    unfolding Q_def using safeD[OF that r] by blast
  have "Q (skip_at W rec (peek r))"
  proof (cases "peek r = 0")
    case True
    then show ?thesis using leaf[of "drop_result next_byte"] by (simp add: skip_at_one safe_intros)
  next
    case False
    have arr: "Q (bnd read_array_header (\<lambda>n. repeat_prog n rec))"
      unfolding Q_def by (rule safe_array[OF assms r(2)]) (use False in \<open>auto simp: peek_def split: if_splits\<close>)
    have branch: "Q m \<Longrightarrow> Q m' \<Longrightarrow> Q (if c then m else m')" for m m' c by simp
    have leaves: "Q (drop_result next_byte)" "Q (drop_result (read_bin W))" "Q (drop_result read_int)" "Q (drop_result read_float64)"
      by (rule leaf; intro safe_intros)+
    show ?thesis unfolding skip_at_def by (intro branch leaves arr)
  qed
  then show "advances r (snd (skip_body W rec r)) \<and> stops W r (fst (skip_body W rec r))"
    by (simp add: skip_body_def Q_def)
qed

lemma safe_skip_depth: "safe W k (skip_depth W k)"
proof (induction k)
  case 0
  show ?case by (simp add: safe_def)
next
  case (Suc k)
  then show ?case unfolding skip_depth.simps by (rule safe_skip_body)
qed


section \<open>Properties\<close>

text \<open>
  Every 64-bit integer survives \<open>pack_int\<close> then \<open>read_int\<close>, at any place of a buffer, and the
  reader ends right behind it, whichever of the seven encodings the packer chose.
\<close>

theorem int_roundtrip:
  "read_int \<lparr>rd_data = pack_int v out @ suf, rd_pos = length out\<rparr> =
     (Ret v, \<lparr>rd_data = pack_int v out @ suf, rd_pos = length (pack_int v out)\<rparr>)"
proof -
  define W where "W = length (out @ pack_int v [] @ suf)"
  have "length (out @ pack_int v [] @ suf) < 2 ^ W" unfolding W_def by (rule less_exp)
  then show ?thesis
    using pack_int_reads[of W v] unfolding reads_def
    by (subst (1 2 3) pack_int_append) simp
qed

text \<open>
  A byte string shorter than \<open>2 ^ 32\<close> survives \<open>pack_bin\<close> then \<open>read_bin\<close> at any place of a
  buffer whose size \<open>size_t\<close> can hold, and the reader ends right behind it.
\<close>

theorem bin_roundtrip:
  assumes "length d < 2 ^ 32" "length (pack_bin d out @ suf) < 2 ^ W"
  shows "read_bin W \<lparr>rd_data = pack_bin d out @ suf, rd_pos = length out\<rparr> =
     (Ret d, \<lparr>rd_data = pack_bin d out @ suf, rd_pos = length (pack_bin d out)\<rparr>)"
proof -
  have "length (out @ pack_bin d [] @ suf) < 2 ^ W" using assms(2) by (subst (asm) pack_bin_append) simp
  then show ?thesis
    using pack_bin_reads[OF assms(1), of W] unfolding reads_def
    by (subst (1 2 3) pack_bin_append) simp
qed

theorem bin_roundtrip_witness:
  "read_bin 32 \<lparr>rd_data = pack_bin [1, 2] [7] @ [9], rd_pos = 1\<rparr> =
     (Ret [1, 2], \<lparr>rd_data = pack_bin [1, 2] [7] @ [9], rd_pos = length (pack_bin [1, 2] [7])\<rparr>)"
  using bin_roundtrip[of "[1, 2]" "[7]" "[9]" 32] by (simp add: pack_bin_def)

text \<open>
  \<open>skip\<close> consumes exactly one packed value, nested arrays included, wherever it stands in a
  buffer that \<open>size_t\<close> can hold; its recursion ends within the depth of the value.
\<close>

theorem skip_packed:
  assumes "mval_ok v" "length (pack_val v out @ suf) < 2 ^ W"
  shows "skip W \<lparr>rd_data = pack_val v out @ suf, rd_pos = length out\<rparr> =
    (Ret (), \<lparr>rd_data = pack_val v out @ suf, rd_pos = length (pack_val v out)\<rparr>)"
proof -
  have l: "length (out @ pack_val v [] @ suf) < 2 ^ W"
    using assms(2) by (subst (asm) pack_val_append) simp
  have "mval_depth v < Suc (length (pack_val v []) + length suf)"
    using mval_depth_length[of v] by linarith
  from reads_skip_depth[OF assms(1) this, of W] show ?thesis
    using l unfolding reads_def skip_def remaining_def
    by (subst (1 2 3 4 5) pack_val_append) simp
qed

theorem skip_packed_witness:
  "skip 32 \<lparr>rd_data = pack_val (M_arr [M_nil, M_int 300]) [5] @ [6], rd_pos = 1\<rparr> =
    (Ret (), \<lparr>rd_data = pack_val (M_arr [M_nil, M_int 300]) [5] @ [6],
      rd_pos = length (pack_val (M_arr [M_nil, M_int 300]) [5])\<rparr>)"
  using skip_packed[of "M_arr [M_nil, M_int 300]" "[5]" "[6]" 32]
  by (simp add: pack_array_header_def pack_nil_def pack_int_def Let_def)

text \<open>
  C39: on any input, malformed or truncated, and for any width of \<open>size_t\<close>, \<open>skip\<close> ends: its recursion is at most one
  deeper than the bytes left. It keeps the data, never moves back and never leaves the buffer. It returns, except that
  where \<open>size_t\<close> has no room for a 32-bit length past the buffer's end (on the ESP32) it may end with the exception
  of an oversized vector.
\<close>

theorem skip_total:
  assumes "rd_pos r \<le> length (rd_data r)"
  shows "\<exists>q r'. skip W r = (q, r') \<and> rd_data r' = rd_data r \<and> rd_pos r \<le> rd_pos r' \<and> rd_pos r' \<le> length (rd_data r) \<and>
    (q = Ret () \<or> q = Raise (Length_error (Msg ''vector::reserve'')) \<and> 2 ^ W < length (rd_data r) + 2 ^ 32)"
  using safeD[OF safe_skip_depth assms, of "Suc (remaining r)" W]
  by (cases "skip W r") (auto simp: skip_def stops_def advances_def)

theorem skip_total_witness:
  "\<exists>r'. skip 64 (mk_reader [0xDC, 0, 3, 0xC6, 0xFF]) = (Ret (), r') \<and>
    rd_data r' = [0xDC, 0, 3, 0xC6, 0xFF] \<and> rd_pos r' \<le> 5"
  using skip_total[of "mk_reader [0xDC, 0, 3, 0xC6, 0xFF]" 64] by (auto simp: mk_reader_def)

text \<open>
  Where \<open>size_t\<close> has 32 bits the bounds test of \<open>read_bin\<close> wraps: the six bytes of a bin32
  with length \<open>0xFFFFFFFF\<close> make \<open>skip\<close> throw out of the reader instead of yielding an empty value.
\<close>

theorem bin_length_wraps:
  "skip 32 (mk_reader [0xC6, 0xFF, 0xFF, 0xFF, 0xFF, 0]) =
     (Raise (Length_error (Msg ''vector::reserve'')),
      \<lparr>rd_data = [0xC6, 0xFF, 0xFF, 0xFF, 0xFF, 0], rd_pos = 5\<rparr>)"
proof -
  let ?d = "[0xC6, 0xFF, 0xFF, 0xFF, 0xFF, 0] :: bytes"
  have u: "unbe [0xFF, 0xFF, 0xFF, 0xFF] = (0xFFFFFFFF :: u32)"
    by (simp add: unbe_def)
  have r: "read_be 4 (0 :: u32) \<lparr>rd_data = ?d, rd_pos = 1\<rparr> = (Ret 0xFFFFFFFF, \<lparr>rd_data = ?d, rd_pos = 5\<rparr>)"
  proof -
    have "reads 8 (read_be 4 (0 :: u32)) [0xFF, 0xFF, 0xFF, 0xFF] 0xFFFFFFFF"
      unfolding u[symmetric] by (rule reads_unbe) simp
    then have "length ([0xC6] @ [0xFF, 0xFF, 0xFF, 0xFF] @ [0 :: u8]) < 2 ^ 8 \<longrightarrow>
      read_be 4 (0 :: u32) \<lparr>rd_data = [0xC6] @ [0xFF, 0xFF, 0xFF, 0xFF] @ [0], rd_pos = length [0xC6 :: u8]\<rparr> =
      (Ret 0xFFFFFFFF, \<lparr>rd_data = [0xC6] @ [0xFF, 0xFF, 0xFF, 0xFF] @ [0],
         rd_pos = length [0xC6 :: u8] + length [0xFF, 0xFF, 0xFF, 0xFF :: u8]\<rparr>)"
      unfolding reads_def by blast
    then show ?thesis by simp
  qed
  have t: "take_bin 32 0xFFFFFFFF \<lparr>rd_data = ?d, rd_pos = 5\<rparr> =
     (Raise (Length_error (Msg ''vector::reserve'')), \<lparr>rd_data = ?d, rd_pos = 5\<rparr>)"
    by (simp add: take_bin_def)
  have n: "next_byte \<lparr>rd_data = ?d, rd_pos = 0\<rparr> = (Ret 0xC6, \<lparr>rd_data = ?d, rd_pos = 1\<rparr>)"
    by (simp add: next_byte_def)
  have "read_bin 32 \<lparr>rd_data = ?d, rd_pos = 0\<rparr> =
      (Raise (Length_error (Msg ''vector::reserve'')), \<lparr>rd_data = ?d, rd_pos = 5\<rparr>)"
    unfolding read_bin_def by (simp add: bnd_def n r[unfolded One_nat_def] t)
  moreover have "peek \<lparr>rd_data = ?d, rd_pos = 0\<rparr> = 0xC6" by (simp add: peek_def)
  ultimately show ?thesis
    by (simp add: skip_def mk_reader_def skip_body_def skip_at_bin drop_result_def bnd_def)
qed

end
