(* ===== verification/Link.thy ===== *)
theory Link
  imports Packet MsgPack
begin

text \<open>
  Links (src/link.cpp, include/rtreticulum/link.h): signalling bytes, link ids, the three-step
  handshake, encrypted sends, dispatch of received data and request handling. Links are shared
  objects in a heap. What a link calls outside itself is an argument: \<open>bc\<close> is
  \<open>Transport::broadcast\<close>, \<open>reg\<close> is \<open>Transport::register_link\<close>, and \<open>app\<close> the application's callbacks,
  named by the numbers the objects store. \<open>W\<close> is the width of \<open>size_t\<close>.
\<close>

section \<open>State and callbacks\<close>

text \<open>A link's packet callback: the application's, or the one \<open>Resource::receive\<close> installs.\<close>

datatype link_cb = App_cb nat | Resource_cb nat

record 's app =
  app_packet :: "nat \<Rightarrow> bytes \<Rightarrow> packet \<Rightarrow> ('s, unit) prog"
  app_generator :: "nat \<Rightarrow> bytes \<Rightarrow> bytes \<Rightarrow> bytes \<Rightarrow> bytes \<Rightarrow> u64 \<Rightarrow> ('s, bytes) prog"
  app_established :: "nat \<Rightarrow> nat \<Rightarrow> ('s, unit) prog"
  app_link_packet :: "link_cb \<Rightarrow> bytes \<Rightarrow> nat \<Rightarrow> ('s, unit) prog"
  app_announce :: "nat \<Rightarrow> bytes \<Rightarrow> identity \<Rightarrow> bytes \<Rightarrow> ('s, unit) prog"
  app_link_request :: "nat \<Rightarrow> nat \<Rightarrow> bytes \<Rightarrow> packet \<Rightarrow> ('s, nat option) prog"

record link =
  lk_destination :: "nat option"
  lk_initiator :: bool
  lk_status :: link_status
  lk_eph_x25519_prv :: x25519_priv
  lk_eph_ed25519_prv :: ed25519_priv
  lk_eph_x25519_pub :: bytes
  lk_eph_ed25519_pub :: bytes
  lk_peer_x25519_pub :: bytes
  lk_shared_session_key :: bytes
  lk_hash :: bytes
  lk_local_mtu :: u32
  lk_mtu :: u32
  lk_token :: "token option"
  lk_on_established :: "nat option"
  lk_on_packet :: "link_cb option"

record link_state = dest_state +
  link_heap :: "link list"

definition get_link :: "nat \<Rightarrow> ('a link_state_scheme, link) prog" where
  "get_link r = heap_get link_heap r"

text \<open>A program on one link object of the heap, which keeps what the program did to it.\<close>

definition with_link :: "nat \<Rightarrow> (link, 'b) prog \<Rightarrow> ('a link_state_scheme, 'b) prog" where
  "with_link r m s =
     (if r < length (link_heap s)
      then case m (link_heap s ! r) of (x, l) \<Rightarrow> (x, s\<lparr>link_heap := (link_heap s)[r := l]\<rparr>)
      else (Fault Null_deref, s))"

text \<open>A program on a link object not shared yet.\<close>

definition on_local :: "link \<Rightarrow> (link, 'b) prog \<Rightarrow> ('s, 'b \<times> link) prog" where
  "on_local l m s = (case m l of (x, l') \<Rightarrow> (map_res (\<lambda>b. (b, l')) x, s))"

definition alloc_link :: "link \<Rightarrow> ('a link_state_scheme, nat) prog" where
  "alloc_link l s = (Ret (length (link_heap s)), s\<lparr>link_heap := link_heap s @ [l]\<rparr>)"

definition set_link_packet_callback :: "nat \<Rightarrow> link_cb option \<Rightarrow> ('a link_state_scheme, unit) prog" where
  "set_link_packet_callback r cb = with_link r (modify (\<lambda>l. l\<lparr>lk_on_packet := cb\<rparr>))"

section \<open>Signalling bytes and link ids\<close>

definition REQUEST_DATA_BASE :: nat where "REQUEST_DATA_BASE = 32 + 32"
definition REQUEST_DATA_MTU :: nat where "REQUEST_DATA_MTU = REQUEST_DATA_BASE + 3"
definition LRPROOF_DATA_BASE :: nat where "LRPROOF_DATA_BASE = 64 + 32"
definition LRPROOF_DATA_MTU :: nat where "LRPROOF_DATA_MTU = LRPROOF_DATA_BASE + 3"

definition encode_signalling :: "u32 \<Rightarrow> u8 \<Rightarrow> bytes" where
  "encode_signalling mtu mode =
     (let masked = mtu AND MTU_BYTEMASK; mode_bits = push_bit 5 mode AND MODE_BYTEMASK in
      [ucast (drop_bit 16 masked AND 0x1F) OR mode_bits, ucast (drop_bit 8 masked AND 0xFF),
       ucast (masked AND 0xFF)])"

definition decode_mtu :: "bytes \<Rightarrow> u32" where
  "decode_mtu p =
     (push_bit 16 (ucast (p ! 0)) OR push_bit 8 (ucast (p ! 1)) OR ucast (p ! 2)) AND MTU_BYTEMASK"

definition decode_mode :: "bytes \<Rightarrow> u8" where
  "decode_mode p = drop_bit 5 (p ! 0 AND MODE_BYTEMASK)"

definition link_id_from_lr_packet :: "ext \<Rightarrow> packet \<Rightarrow> nat \<Rightarrow> bytes" where
  "link_id_from_lr_packet X p data_len =
     (let hashable = get_hashable_part p;
          hashable =
            (if data_len > REQUEST_DATA_BASE
             then let diff = data_len - REQUEST_DATA_BASE in
                  if length hashable > diff then bytes_left (length hashable - diff) hashable
                  else hashable
             else hashable)
      in truncated_hash X hashable)"

section \<open>Handshake\<close>

text \<open>The constructor.\<close>

definition link_new :: "ext \<Rightarrow> nat option \<Rightarrow> bool \<Rightarrow> ('a hal_state_scheme, link) prog" where
  "link_new X ro initiator =
     bnd (x25519_generate X) (\<lambda>x.
     bnd (ed25519_generate X) (\<lambda>e.
     ret \<lparr>lk_destination = ro, lk_initiator = initiator, lk_status = PENDING,
          lk_eph_x25519_prv = x, lk_eph_ed25519_prv = e, lk_eph_x25519_pub = xk_public x,
          lk_eph_ed25519_pub = ek_public e, lk_peer_x25519_pub = [], lk_shared_session_key = [],
          lk_hash = [], lk_local_mtu = 0, lk_mtu = of_nat MTU, lk_token = None,
          lk_on_established = None, lk_on_packet = None\<rparr>))"

definition open_session_from_peer_pub :: "ext \<Rightarrow> bytes \<Rightarrow> (link, bool) prog" where
  "open_session_from_peer_pub X peer_x25519_pub =
     bnd (modify (\<lambda>l. l\<lparr>lk_peer_x25519_pub := peer_x25519_pub\<rparr>)) (\<lambda>_.
     bnd (gets (\<lambda>l. x25519_exchange X (lk_eph_x25519_prv l) (lk_peer_x25519_pub l))) (\<lambda>shared.
     bnd (lift shared) (\<lambda>shared.
     bnd (gets (\<lambda>l. hkdf X 64 shared (lk_hash l) [])) (\<lambda>key.
     bnd (lift key) (\<lambda>key.
     bnd (modify (\<lambda>l. l\<lparr>lk_shared_session_key := key\<rparr>)) (\<lambda>_.
     bnd (lift (token_new key MODE_AES)) (\<lambda>t.
     bnd (modify (\<lambda>l. l\<lparr>lk_token := Some t\<rparr>)) (\<lambda>_.
     ret True))))))))"

definition link_request ::
  "ext \<Rightarrow> (nat \<Rightarrow> ('a link_state_scheme, unit) prog) \<Rightarrow> (bytes \<Rightarrow> ('a link_state_scheme, unit) prog) \<Rightarrow>
   nat option \<Rightarrow> nat option \<Rightarrow> link_cb option \<Rightarrow> u32 \<Rightarrow> ('a link_state_scheme, nat) prog" where
  "link_request X reg bc ro on_established on_packet advertised_mtu =
     bnd (link_new X ro True) (\<lambda>l.
     let l = l\<lparr>lk_on_established := on_established, lk_on_packet := on_packet,
               lk_status := HANDSHAKE, lk_local_mtu := advertised_mtu,
               lk_mtu := (if advertised_mtu \<noteq> 0 then advertised_mtu else of_nat MTU)\<rparr>;
         request_data = lk_eph_x25519_pub l @ lk_eph_ed25519_pub l @
           (if advertised_mtu \<noteq> 0
            then encode_signalling advertised_mtu (link_mode_num MODE_AES256_CBC) else []) in
     bnd (packet_new ro request_data LINKREQUEST CONTEXT_NONE BROADCAST) (\<lambda>pkt.
     bnd (packet_pack X pkt) (\<lambda>pkt.
     bnd (alloc_link (l\<lparr>lk_hash := link_id_from_lr_packet X pkt (length request_data)\<rparr>)) (\<lambda>r.
     bnd (reg r) (\<lambda>_.
     bnd (bc (pk_raw pkt)) (\<lambda>_.
     ret r))))))"

text \<open>\<open>destination.identity()\<close> where it is then used without a test: a null handle or a null identity
  is a dereferenced null pointer.\<close>

definition dest_identity :: "nat option \<Rightarrow> ('a dest_state_scheme, identity) prog" where
  "dest_identity ro =
     (case ro of
        None \<Rightarrow> fault Null_deref
      | Some r \<Rightarrow> bnd (get_dest r) (\<lambda>d.
          case dst_identity d of None \<Rightarrow> fault Null_deref | Some i \<Rightarrow> ret i))"

text \<open>Flags of a frame addressed to a link: \<open>HEADER_1\<close>, \<open>BROADCAST\<close>, \<open>LINK\<close> and the packet type.\<close>

definition link_flags :: "packet_type \<Rightarrow> u8" where
  "link_flags ty =
     push_bit 6 (header_type_num HEADER_1) OR push_bit 4 (transport_type_num BROADCAST) OR
     push_bit 2 (dest_type_num LINK) OR packet_type_num ty"

definition link_validate_request ::
  "ext \<Rightarrow> (nat \<Rightarrow> ('a link_state_scheme, unit) prog) \<Rightarrow> (bytes \<Rightarrow> ('a link_state_scheme, unit) prog) \<Rightarrow>
   nat option \<Rightarrow> bytes \<Rightarrow> packet \<Rightarrow> ('a link_state_scheme, nat option) prog" where
  "link_validate_request X reg bc owner request_data request_packet =
     (if length request_data \<noteq> REQUEST_DATA_BASE \<and> length request_data \<noteq> REQUEST_DATA_MTU then ret None
      else
        let has_mtu = (length request_data = REQUEST_DATA_MTU) in
        bnd (link_new X owner False) (\<lambda>l.
        let peer_x25519_pub = bytes_left 32 request_data;
            l = (if has_mtu
                 then l\<lparr>lk_mtu := decode_mtu (drop REQUEST_DATA_BASE request_data)\<rparr> else l);
            l = l\<lparr>lk_hash := link_id_from_lr_packet X request_packet (length request_data)\<rparr> in
        bnd (on_local l (open_session_from_peer_pub X peer_x25519_pub)) (\<lambda>(opened, l).
        if \<not> opened then ret None
        else
          let l = l\<lparr>lk_status := ACTIVE\<rparr>;
              signalling = (if has_mtu
                then encode_signalling (lk_mtu l) (link_mode_num MODE_AES256_CBC) else []) in
          bnd (dest_identity owner) (\<lambda>i.
          let signed_material = lk_hash l @ lk_eph_x25519_pub l @ id_sig_pub_bytes i @ signalling in
          bnd (lift (identity_sign X (Some i) signed_material)) (\<lambda>signature.
          let proof_data = signature @ lk_eph_x25519_pub l @ signalling in
          bnd (alloc_link l) (\<lambda>r.
          bnd (reg r) (\<lambda>_.
          bnd (bc ([link_flags PROOF, 0] @ lk_hash l @ [LRPROOF] @ proof_data)) (\<lambda>_.
          ret (Some r)))))))))"

definition link_on_proof ::
  "ext \<Rightarrow> 'a link_state_scheme app \<Rightarrow> nat \<Rightarrow> packet \<Rightarrow> ('a link_state_scheme, unit) prog" where
  "link_on_proof X app r proof_packet =
     bnd (get_link r) (\<lambda>l.
     if lk_status l \<noteq> HANDSHAKE \<or> \<not> lk_initiator l then ret ()
     else
       let d = pk_data proof_packet in
       if length d \<noteq> LRPROOF_DATA_BASE \<and> length d \<noteq> LRPROOF_DATA_MTU then ret ()
       else
         let has_mtu = (length d = LRPROOF_DATA_MTU);
             signature = bytes_left 64 d;
             peer_x25519_pub = bytes_mid 64 32 d;
             signalling = (if has_mtu then bytes_mid LRPROOF_DATA_BASE 3 d else []) in
         bnd (when_do has_mtu
           (with_link r (modify (\<lambda>l. l\<lparr>lk_mtu := decode_mtu (drop LRPROOF_DATA_BASE d)\<rparr>)))) (\<lambda>_.
         bnd (with_link r (open_session_from_peer_pub X peer_x25519_pub)) (\<lambda>opened.
         if \<not> opened then ret ()
         else
           bnd (dest_identity (lk_destination l)) (\<lambda>i.
           let signed_material = lk_hash l @ peer_x25519_pub @ id_sig_pub_bytes i @ signalling in
           if \<not> identity_validate X (Some i) signature signed_material then
             with_link r (modify (\<lambda>l. l\<lparr>lk_status := CLOSED\<rparr>))
           else
             bnd (with_link r (modify (\<lambda>l. l\<lparr>lk_status := ACTIVE\<rparr>))) (\<lambda>_.
             case lk_on_established l of None \<Rightarrow> ret () | Some cb \<Rightarrow> app_established app cb r)))))"

section \<open>Data\<close>

definition link_send_with_context ::
  "ext \<Rightarrow> (bytes \<Rightarrow> ('a link_state_scheme, unit) prog) \<Rightarrow> nat \<Rightarrow> bytes \<Rightarrow> u8 \<Rightarrow>
   ('a link_state_scheme, unit) prog" where
  "link_send_with_context X bc r plaintext context =
     bnd (get_link r) (\<lambda>l.
     if lk_status l \<noteq> ACTIVE then ret ()
     else case lk_token l of
        None \<Rightarrow> ret ()
      | Some t \<Rightarrow>
          bnd (token_encrypt X t plaintext) (\<lambda>ciphertext.
          bc ([link_flags DATA, 0] @ lk_hash l @ [context] @ ciphertext)))"

definition link_send ::
  "ext \<Rightarrow> (bytes \<Rightarrow> ('a link_state_scheme, unit) prog) \<Rightarrow> nat \<Rightarrow> bytes \<Rightarrow>
   ('a link_state_scheme, unit) prog" where
  "link_send X bc r plaintext = link_send_with_context X bc r plaintext CONTEXT_NONE"

text \<open>The reader's part of \<open>handle_request\<close>: time, path hash and data, or nothing for a short array.\<close>

definition parse_request :: "nat \<Rightarrow> (reader, (u64 \<times> bytes \<times> bytes) option) prog" where
  "parse_request W =
     bnd read_array_header (\<lambda>arr.
     if arr < 3 then ret None
     else
       bnd read_float64 (\<lambda>requested_at.
       bnd (read_bin W) (\<lambda>path_hash.
       bnd read_nil (\<lambda>nil.
       bnd (if \<not> nil then read_bin W else ret []) (\<lambda>request_data.
       ret (Some (requested_at, path_hash, request_data)))))))"

definition link_handle_request ::
  "ext \<Rightarrow> nat \<Rightarrow> 'a link_state_scheme app \<Rightarrow> (bytes \<Rightarrow> ('a link_state_scheme, unit) prog) \<Rightarrow> nat \<Rightarrow>
   bytes \<Rightarrow> packet \<Rightarrow> ('a link_state_scheme, unit) prog" where
  "link_handle_request X W app bc r plaintext p =
     bnd (get_link r) (\<lambda>l.
     let request_id = truncated_hash X (get_hashable_part p) in
     bnd (lift (fst (parse_request W (mk_reader plaintext)))) (\<lambda>parsed.
     case parsed of
       None \<Rightarrow> ret ()
     | Some (requested_at, path_hash, request_data) \<Rightarrow>
        (case lk_destination l of
           None \<Rightarrow> fault Null_deref
         | Some dr \<Rightarrow>
             bnd (get_dest dr) (\<lambda>d.
             case dst_request_handlers d path_hash of
               None \<Rightarrow> ret ()
             | Some h \<Rightarrow>
                 bnd (app_generator app (rh_generator h) (rh_path h) request_data request_id
                        (lk_hash l) requested_at) (\<lambda>response.
                 if response = [] then ret ()
                 else link_send_with_context X bc r
                        (pack_bin response (pack_bin request_id (pack_array_header 2 []))) RESPONSE)))))"

definition link_on_inbound ::
  "ext \<Rightarrow> nat \<Rightarrow> 'a link_state_scheme app \<Rightarrow> (bytes \<Rightarrow> ('a link_state_scheme, unit) prog) \<Rightarrow> nat \<Rightarrow>
   packet \<Rightarrow> ('a link_state_scheme, unit) prog" where
  "link_on_inbound X W app bc r p =
     bnd (get_link r) (\<lambda>l.
     if lk_status l \<noteq> ACTIVE then ret ()
     else case lk_token l of
        None \<Rightarrow> ret ()
      | Some t \<Rightarrow>
          if pk_packet_type p \<noteq> DATA then ret ()
          else
            bnd (lift (token_decrypt X t (pk_data p))) (\<lambda>plaintext.
            if plaintext = [] then ret ()
            else if pk_context p = REQUEST then link_handle_request X W app bc r plaintext p
            else case lk_on_packet l of
                   None \<Rightarrow> ret ()
                 | Some cb \<Rightarrow> app_link_packet app cb plaintext r))"

text \<open>\<open>Destination::receive\<close>.\<close>

definition dest_receive ::
  "'a link_state_scheme app \<Rightarrow> nat option \<Rightarrow> bytes \<Rightarrow> packet \<Rightarrow> ('a link_state_scheme, unit) prog" where
  "dest_receive app ro plaintext p =
     (case ro of
        None \<Rightarrow> ret ()
      | Some r \<Rightarrow> bnd (get_dest r) (\<lambda>d.
          case dst_packet_callback d of None \<Rightarrow> ret () | Some cb \<Rightarrow> app_packet app cb plaintext p))"

section \<open>Signalling\<close>

lemma signalling_masks:
  "MTU_BYTEMASK = mask 21" "MODE_BYTEMASK = push_bit 5 (mask 3)" "(0x1F :: u32) = mask 5"
  "(0xFF :: u32) = mask 8"
  by (simp_all add: MTU_BYTEMASK_def MODE_BYTEMASK_def mask_eq_exp_minus_1)

lemmas bit_iffs = bit_or_iff bit_and_iff bit_push_bit_iff bit_drop_bit_eq bit_mask_iff bit_ucast_iff
  bit_take_bit_iff

lemma length_encode_signalling [simp, len_simps]: "length (encode_signalling m mode) = 3"
  by (simp add: encode_signalling_def Let_def)

lemma decode_encode_mtu: "decode_mtu (encode_signalling m mode) = take_bit 21 m"
proof (rule bit_word_eqI)
  fix i assume "i < LENGTH(32)"
  then have "i < 32" by simp
  consider "i < 8" | "8 \<le> i" "i < 16" | "16 \<le> i" "i < 21" | "21 \<le> i" by linarith
  then show "bit (decode_mtu (encode_signalling m mode)) i = bit (take_bit 21 m) i"
    unfolding decode_mtu_def encode_signalling_def signalling_masks Let_def
    using \<open>i < 32\<close> bit_imp_le_length[of mode "i - 16"] 
    by cases (auto simp: bit_iffs)
qed

lemma decode_encode_mode: "decode_mode (encode_signalling m mode) = take_bit 3 mode"
proof (rule bit_word_eqI)
  fix i assume "i < LENGTH(8)"
  then show "bit (decode_mode (encode_signalling m mode)) i = bit (take_bit 3 mode) i"
    unfolding decode_mode_def encode_signalling_def signalling_masks Let_def
    by (auto simp: bit_iffs)
qed

lemma link_mode_num_small: "take_bit 3 (link_mode_num m) = link_mode_num m"
  by (cases m) simp_all
section \<open>Runs of the handshake\<close>

definition fresh_link :: "ext \<Rightarrow> nat option \<Rightarrow> bool \<Rightarrow> bytes \<Rightarrow> bytes \<Rightarrow> link" where
  "fresh_link X ro ini x e =
    \<lparr>lk_destination = ro, lk_initiator = ini, lk_status = PENDING,
     lk_eph_x25519_prv = \<lparr>xk_private = x, xk_public = x_x25519_pub X x\<rparr>,
     lk_eph_ed25519_prv = \<lparr>ek_seed = e, ek_public = x_ed_pub X e\<rparr>,
     lk_eph_x25519_pub = x_x25519_pub X x, lk_eph_ed25519_pub = x_ed_pub X e,
     lk_peer_x25519_pub = [], lk_shared_session_key = [], lk_hash = [], lk_local_mtu = 0,
     lk_mtu = of_nat MTU, lk_token = None, lk_on_established = None, lk_on_packet = None\<rparr>"

lemma link_new_run:
  assumes "rng_law X"
  shows "\<exists>x e. link_new X ro ini s = (Ret (fresh_link X ro ini x e), s\<lparr>hal_calls := hal_calls s + 2\<rparr>) \<and>
    length x = 32 \<and> length e = 32"
proof -
  obtain a where a: "random_bytes X 32 s = (Ret a, s\<lparr>hal_calls := hal_calls s + 1\<rparr>)" "length a = 32"
    using random_ok[OF assms] by blast
  obtain e where e: "random_bytes X 32 (s\<lparr>hal_calls := hal_calls s + 1\<rparr>) =
      (Ret e, s\<lparr>hal_calls := hal_calls s + 2\<rparr>)" "length e = 32"
    using random_ok[OF assms, of 32 "s\<lparr>hal_calls := hal_calls s + 1\<rparr>"] by auto
  have "link_new X ro ini s = (Ret (fresh_link X ro ini a e), s\<lparr>hal_calls := hal_calls s + 2\<rparr>)"
    using a(1) e(1) by (simp add: link_new_def id_prog_simps fresh_link_def)
  then show ?thesis using a(2) e(2) by blast
qed

definition request_data :: "ext \<Rightarrow> bytes \<Rightarrow> bytes \<Rightarrow> u32 \<Rightarrow> bytes" where
  "request_data X x e m = x_x25519_pub X x @ x_ed_pub X e @
     (if m \<noteq> 0 then encode_signalling m (link_mode_num MODE_AES256_CBC) else [])"

lemma length_request_data:
  "dh_law X \<Longrightarrow> sig_law X \<Longrightarrow> length (request_data X x e m) = (if m \<noteq> 0 then 67 else 64)"
  by (simp add: request_data_def law_simps)

text \<open>The link id of a request frame with flags \<open>f\<close>, addressed to \<open>dh\<close>.\<close>

definition link_id :: "ext \<Rightarrow> u8 \<Rightarrow> bytes \<Rightarrow> u8 \<Rightarrow> bytes \<Rightarrow> bytes" where
  "link_id X f dh c d = truncated_hash X ((f AND 0b00001111) # dh @ c # take 64 d)"

lemma link_id_from_frame:
  assumes "get_hashable_part p = (f AND 0b00001111) # dh @ c # d" "64 \<le> length d"
  shows "link_id_from_lr_packet X p (length d) = link_id X f dh c d"
proof -
  have "take (length ((f AND 0b00001111) # dh @ c # d) - (length d - 64)) ((f AND 0b00001111) # dh @ c # d)
      = (f AND 0b00001111) # dh @ c # take 64 d"
  proof -
    have "length ((f AND 0b00001111) # dh @ c # d) - (length d - 64) = Suc (length dh + Suc 64)"
      using assms(2) by simp
    then show ?thesis by (simp only: take_Suc_Cons take_append) simp
  qed
  then show ?thesis
    using assms by (auto simp: link_id_from_lr_packet_def link_id_def REQUEST_DATA_BASE_def Let_def)
qed

definition request_link :: "ext \<Rightarrow> nat \<Rightarrow> nat option \<Rightarrow> link_cb option \<Rightarrow> u32 \<Rightarrow> bytes \<Rightarrow> bytes \<Rightarrow> bytes \<Rightarrow> link" where
  "request_link X r est cb m x e h =
     (fresh_link X (Some r) True x e)
       \<lparr>lk_on_established := est, lk_on_packet := cb, lk_status := HANDSHAKE, lk_local_mtu := m,
        lk_mtu := (if m \<noteq> 0 then m else of_nat MTU), lk_hash := h\<rparr>"

definition request_flags :: "dest \<Rightarrow> u8" where
  "request_flags d = pack_flags (packet_object\<lparr>pk_packet_type := LINKREQUEST, pk_destination_type := dst_type d\<rparr>)"

lemma request_packet:
  assumes "length rd \<le> 464" "p = packed X (new_packet r d rd LINKREQUEST CONTEXT_NONE BROADCAST) d rd"
  shows "pk_raw p = frame (request_flags d) 0 [] (dst_hash d) CONTEXT_NONE rd"
    "get_hashable_part p = (request_flags d AND 0b00001111) # dst_hash d @ CONTEXT_NONE # rd"
  using assms(1)
  by (simp_all add: assms(2) packed_def new_packet_def packet_object_def request_flags_def pack_flags_def
      frame_def get_hashable_part_def Let_def size_values)

lemma request_run:
  assumes "crypto_laws X" "r < length (dest_heap s)"
  shows "\<exists>x e h. length x = 32 \<and> length e = 32 \<and>
    h = link_id X (request_flags (dest_heap s ! r)) (dst_hash (dest_heap s ! r)) CONTEXT_NONE
          (request_data X x e m) \<and>
    link_request X reg bc (Some r) est cb m s =
      bnd (reg (length (link_heap s))) (\<lambda>_.
        bnd (bc (frame (request_flags (dest_heap s ! r)) 0 [] (dst_hash (dest_heap s ! r)) CONTEXT_NONE
                  (request_data X x e m))) (\<lambda>_. ret (length (link_heap s))))
        (s\<lparr>hal_calls := hal_calls s + 2, link_heap := link_heap s @ [request_link X r est cb m x e h]\<rparr>)"
proof -
  note laws = crypto_lawsD[OF assms(1)]
  let ?d = "dest_heap s ! r"
  let ?s = "s\<lparr>hal_calls := hal_calls s + 2\<rparr>"
  obtain x e where n: "link_new X (Some r) True s = (Ret (fresh_link X (Some r) True x e), ?s)"
    and len: "length x = 32" "length e = 32"
    using link_new_run[OF laws(7)] by blast
  define rd where "rd = request_data X x e m"
  have l: "length rd = (if m \<noteq> 0 then 67 else 64)"
    unfolding rd_def by (rule length_request_data) (use laws in auto)
  have ll: "length rd \<le> 464" "64 \<le> length rd" by (simp_all add: l)
  define h where "h = link_id X (request_flags ?d) (dst_hash ?d) CONTEXT_NONE rd"
  define p where "p = new_packet r ?d rd LINKREQUEST CONTEXT_NONE BROADCAST"
  have pn: "packet_new (Some r) rd LINKREQUEST CONTEXT_NONE BROADCAST ?s = (Ret p, ?s)"
    using packet_new_run[of r ?s] assms(2) by (simp add: p_def)
  have pf: "pk_destination p = Some r" "pk_packet_type p = LINKREQUEST" "pk_data p = rd"
    using ll by (simp_all add: p_def new_packet_def packet_object_def Let_def size_values)
  have pp: "packet_pack X p ?s = (Ret (packed X p ?d rd), ?s)"
    using packet_pack_run[of r ?s p X rd ?s] assms(2) pf by simp
  have fr: "pk_raw (packed X p ?d rd) = frame (request_flags ?d) 0 [] (dst_hash ?d) CONTEXT_NONE rd"
    "link_id_from_lr_packet X (packed X p ?d rd) (length rd) = h"
    unfolding p_def h_def using request_packet[OF ll(1) refl, of X r ?d] link_id_from_frame[OF _ ll(2)] by auto
  have fr2: "link_id_from_lr_packet X (packed X p ?d rd) (if m \<noteq> 0 then 67 else 64) = h"
    using fr(2) l by simp
  have lens: "length (x_x25519_pub X x) = 32" "length (x_ed_pub X e) = 32"
    by (simp_all add: law_simps laws)
  have rd': "x_x25519_pub X x @ x_ed_pub X e @
      (if m \<noteq> 0 then encode_signalling m (link_mode_num MODE_AES256_CBC) else []) = rd"
    by (simp add: rd_def request_data_def)
  have "link_request X reg bc (Some r) est cb m s =
      bnd (reg (length (link_heap s))) (\<lambda>_.
        bnd (bc (frame (request_flags ?d) 0 [] (dst_hash ?d) CONTEXT_NONE rd)) (\<lambda>_. ret (length (link_heap s))))
        (s\<lparr>hal_calls := hal_calls s + 2, link_heap := link_heap s @ [request_link X r est cb m x e h]\<rparr>)"
    using n pn pp fr(1) fr2 rd' lens
    by (cases "m = 0") (simp_all add: link_request_def bnd_def fresh_link_def alloc_link_def
        request_link_def cong del: res.case_cong_weak)
  then show ?thesis using len unfolding rd_def h_def by blast
qed

definition session_keys :: "ext \<Rightarrow> bytes \<Rightarrow> bytes \<Rightarrow> bytes \<Rightarrow> bytes \<Rightarrow> token \<Rightarrow> bool" where
  "session_keys X prv peer h k t \<longleftrightarrow>
     hkdf X 64 (x_x25519 X prv peer) h [] = Ret k \<and> token_new k MODE_AES = Ret t"

definition opened_link :: "bytes \<Rightarrow> bytes \<Rightarrow> token \<Rightarrow> link \<Rightarrow> link" where
  "opened_link peer k t l =
     l\<lparr>lk_peer_x25519_pub := peer, lk_shared_session_key := k, lk_token := Some t\<rparr>"

lemma session_keys_exist:
  assumes "crypto_laws X"
  shows "\<exists>k t. session_keys X prv peer h k t"
proof -
  have "length (x_x25519 X prv peer) = 32" using crypto_lawsD(5)[OF assms] by (simp add: law_simps)
  then show ?thesis
    using derive_token[OF assms, of "x_x25519 X prv peer" h] by (auto simp: session_keys_def size_values)
qed

lemma session_keys_unique:
  "session_keys X prv peer h k t \<Longrightarrow> session_keys X prv peer h k' t' \<Longrightarrow> k = k' \<and> t = t'"
  by (auto simp: session_keys_def)

lemma session_keys_swap:
  "dh_law X \<Longrightarrow> session_keys X a (x_x25519_pub X b) h k t \<longleftrightarrow> session_keys X b (x_x25519_pub X a) h k t"
  by (simp add: session_keys_def dh_agree[of X a b])

lemma open_session_run:
  assumes "length peer = 32" "session_keys X (xk_private (lk_eph_x25519_prv l)) peer (lk_hash l) k t"
  shows "open_session_from_peer_pub X peer l = (Ret True, opened_link peer k t l)"
  using assms
  by (simp add: open_session_from_peer_pub_def bnd_def x25519_exchange_def session_keys_def opened_link_def)

definition offered_mtu :: "bytes \<Rightarrow> u32" where
  "offered_mtu d = (if length d = 67 then decode_mtu (drop 64 d) else of_nat MTU)"

definition signalling_of :: "bytes \<Rightarrow> bytes" where
  "signalling_of d = (if length d = 67 then encode_signalling (offered_mtu d) (link_mode_num MODE_AES256_CBC) else [])"

definition responder_link :: "ext \<Rightarrow> nat \<Rightarrow> bytes \<Rightarrow> bytes \<Rightarrow> bytes \<Rightarrow> bytes \<Rightarrow> bytes \<Rightarrow> token \<Rightarrow> link" where
  "responder_link X r d h y ye k t =
     (opened_link (take 32 d) k t ((fresh_link X (Some r) False y ye)\<lparr>lk_mtu := offered_mtu d, lk_hash := h\<rparr>))
       \<lparr>lk_status := ACTIVE\<rparr>"

lemma validate_run:
  assumes "crypto_laws X" "r < length (dest_heap s)"
    "dst_identity (dest_heap s ! r) = Some (key_identity X a e app)"
    "length d = 64 \<or> length d = 67" "get_hashable_part p = (f AND 0b00001111) # dh @ c # d"
  shows "\<exists>y ye k t. session_keys X y (take 32 d) (link_id X f dh c d) k t \<and>
    link_validate_request X reg bc (Some r) d p s =
      bnd (reg (length (link_heap s))) (\<lambda>_.
        bnd (bc (frame (link_flags PROOF) 0 [] (link_id X f dh c d) LRPROOF
              (x_ed_sign X e (link_id X f dh c d @ x_x25519_pub X y @ x_ed_pub X e @ signalling_of d) @
               x_x25519_pub X y @ signalling_of d)))
          (\<lambda>_. ret (Some (length (link_heap s)))))
        (s\<lparr>hal_calls := hal_calls s + 2,
           link_heap := link_heap s @ [responder_link X r d (link_id X f dh c d) y ye k t]\<rparr>)"
proof -
  note laws = crypto_lawsD[OF assms(1)]
  let ?s = "s\<lparr>hal_calls := hal_calls s + 2\<rparr>"
  define h where "h = link_id X f dh c d"
  obtain y ye where n: "link_new X (Some r) False s = (Ret (fresh_link X (Some r) False y ye), ?s)"
    using link_new_run[OF laws(7)] by blast
  obtain k t where kt: "session_keys X y (take 32 d) h k t"
    using session_keys_exist[OF assms(1)] by blast
  have lid: "link_id_from_lr_packet X p (length d) = h"
    unfolding h_def using assms(4) by (intro link_id_from_frame[OF assms(5)]) auto
  define l where "l = (fresh_link X (Some r) False y ye)\<lparr>lk_mtu := offered_mtu d, lk_hash := h\<rparr>"
  have op: "open_session_from_peer_pub X (take 32 d) l = (Ret True, opened_link (take 32 d) k t l)"
    by (rule open_session_run) (use kt assms(4) in \<open>auto simp: l_def fresh_link_def\<close>)
  have di: "dest_identity (Some r) (s\<lparr>hal_calls := n\<rparr>) = (Ret (key_identity X a e app), s\<lparr>hal_calls := n\<rparr>)" for n
    using assms(2,3) by (simp add: dest_identity_def bnd_def get_dest_run)
  have sg: "identity_sign X (Some (key_identity X a e app)) m = Ret (x_ed_sign X e m)" for m
    by (simp add: identity_sign_def key_identity_def ed25519_sign_def)
  have pb: "id_sig_pub_bytes (key_identity X a e app) = x_ed_pub X e" by (simp add: key_identity_def)
  have "(if length d = REQUEST_DATA_MTU
         then (fresh_link X (Some r) False y ye)\<lparr>lk_mtu := decode_mtu (drop REQUEST_DATA_BASE d)\<rparr>
         else fresh_link X (Some r) False y ye)\<lparr>lk_hash := link_id_from_lr_packet X p (length d)\<rparr> = l"
    unfolding lid l_def by (simp add: offered_mtu_def REQUEST_DATA_MTU_def REQUEST_DATA_BASE_def fresh_link_def)
  note l1 = this
  have fin: "(opened_link (take 32 d) k t l)\<lparr>lk_status := ACTIVE\<rparr> = responder_link X r d h y ye k t"
    by (simp add: l_def responder_link_def)
  have fields: "lk_hash (opened_link (take 32 d) k t l) = h"
    "lk_eph_x25519_pub (opened_link (take 32 d) k t l) = x_x25519_pub X y"
    "lk_mtu (opened_link (take 32 d) k t l) = offered_mtu d"
    by (simp_all add: l_def opened_link_def fresh_link_def)
  have g: "\<not> (length d \<noteq> REQUEST_DATA_BASE \<and> length d \<noteq> REQUEST_DATA_MTU)"
    using assms(4) by (auto simp: REQUEST_DATA_MTU_def REQUEST_DATA_BASE_def)
  have sgn: "(if length d = REQUEST_DATA_MTU then encode_signalling (offered_mtu d) (link_mode_num MODE_AES256_CBC) else []) = signalling_of d"
    by (simp add: signalling_of_def REQUEST_DATA_MTU_def REQUEST_DATA_BASE_def)
  have "link_validate_request X reg bc (Some r) d p s =
      bnd (reg (length (link_heap s))) (\<lambda>_.
        bnd (bc (frame (link_flags PROOF) 0 [] h LRPROOF
              (x_ed_sign X e (h @ x_x25519_pub X y @ x_ed_pub X e @ signalling_of d) @
               x_x25519_pub X y @ signalling_of d)))
          (\<lambda>_. ret (Some (length (link_heap s)))))
        (s\<lparr>hal_calls := hal_calls s + 2, link_heap := link_heap s @ [responder_link X r d h y ye k t]\<rparr>)"
    unfolding link_validate_request_def if_not_P[OF g] Let_def
    by (subst bnd_Ret[where m = "link_new X (Some r) False", OF n], subst l1)
      (use assms(4) in \<open>elim disjE; simp add: on_local_def bnd_def op fin fields sgn
         di sg pb alloc_link_def frame_def REQUEST_DATA_MTU_def REQUEST_DATA_BASE_def signalling_of_def
         cong del: res.case_cong_weak\<close>)
  then show ?thesis using kt unfolding h_def by blast
qed

lemma with_link_run:
  assumes "n < length (link_heap s)" "m (link_heap s ! n) = (x, l)"
  shows "with_link n m s = (x, s\<lparr>link_heap := (link_heap s)[n := l]\<rparr>)"
  using assms by (simp add: with_link_def)

text \<open>The state in which link \<open>n\<close> is \<open>l\<close>.\<close>

definition put_link :: "nat \<Rightarrow> link \<Rightarrow> 'a link_state_scheme \<Rightarrow> 'a link_state_scheme" where
  "put_link n l s = s\<lparr>link_heap := (link_heap s)[n := l]\<rparr>"

lemma put_link_simps [simp]:
  "length (link_heap (put_link n l s)) = length (link_heap s)"
  "n < length (link_heap s) \<Longrightarrow> link_heap (put_link n l s) ! n = l"
  "put_link n l' (put_link n l s) = put_link n l' s"
  "dest_heap (put_link n l s) = dest_heap s" "hal_calls (put_link n l s) = hal_calls s"
  by (simp_all add: put_link_def)

lemma with_link_put:
  "n < length (link_heap s) \<Longrightarrow> with_link n m s = (case m (link_heap s ! n) of (x, l) \<Rightarrow> (x, put_link n l s))"
  by (simp add: with_link_def put_link_def)

text \<open>The initiator's link after the signalling bytes and the peer's key of a proof.\<close>

definition proof_link :: "bytes \<Rightarrow> bytes \<Rightarrow> bytes \<Rightarrow> token \<Rightarrow> link \<Rightarrow> link" where
  "proof_link sg peer k t l =
     opened_link peer k t (if sg \<noteq> [] then l\<lparr>lk_mtu := decode_mtu sg\<rparr> else l)"

lemma proof_run:
  assumes "n < length (link_heap s)" "l = link_heap s ! n" "lk_status l = HANDSHAKE" "lk_initiator l"
    "lk_destination l = Some r" "r < length (dest_heap s)" "dst_identity (dest_heap s ! r) = Some j"
    "pk_data p = sig @ peer @ sg" "length sig = 64" "length peer = 32" "length sg = 0 \<or> length sg = 3"
    "session_keys X (xk_private (lk_eph_x25519_prv l)) peer (lk_hash l) k t"
  shows "link_on_proof X app n p s =
    (if identity_validate X (Some j) sig (lk_hash l @ peer @ id_sig_pub_bytes j @ sg)
     then (case lk_on_established l of None \<Rightarrow> ret () | Some cb \<Rightarrow> app_established app cb n)
            (put_link n ((proof_link sg peer k t l)\<lparr>lk_status := ACTIVE\<rparr>) s)
     else (Ret (), put_link n ((proof_link sg peer k t l)\<lparr>lk_status := CLOSED\<rparr>) s))"
proof -
  define l1 where "l1 = (if sg \<noteq> [] then l\<lparr>lk_mtu := decode_mtu sg\<rparr> else l)"
  define s1 where "s1 = (if sg \<noteq> [] then put_link n l1 s else s)"
  have len: "length (pk_data p) = 96 + length sg" using assms(8-10) by simp
  have parts: "take 64 (pk_data p) = sig" "take 32 (drop 64 (pk_data p)) = peer"
    "drop 96 (pk_data p) = sg" "take 3 sg = sg"
    using assms(8-11) by auto
  have mtu: "when_do (sg \<noteq> []) (with_link n (modify (\<lambda>l. l\<lparr>lk_mtu := decode_mtu sg\<rparr>))) s = (Ret (), s1)"
    using assms(1,2) by (simp add: with_link_put s1_def l1_def)
  have s1: "length (link_heap s1) = length (link_heap s)" "link_heap s1 ! n = l1" "dest_heap s1 = dest_heap s"
    "put_link n l' s1 = put_link n l' s" for l'
    using assms(1,2) by (simp_all add: s1_def l1_def)
  have "open_session_from_peer_pub X peer l1 = (Ret True, opened_link peer k t l1)"
    by (rule open_session_run[OF assms(10)]) (use assms(12) in \<open>simp add: l1_def\<close>)
  then have op: "with_link n (open_session_from_peer_pub X peer) s1 = (Ret True, put_link n (proof_link sg peer k t l) s)"
    using assms(1) s1 by (simp add: with_link_put proof_link_def l1_def)
  have di: "dest_identity (Some r) (put_link n l' s) = (Ret j, put_link n l' s)" for l'
    using assms(6,7) by (simp add: dest_identity_def bnd_def get_dest_run)
  have g: "get_link n s = (Ret l, s)" using assms(1,2) by (simp add: get_link_def heap_get_def)
  have c: "LRPROOF_DATA_BASE = 96" "LRPROOF_DATA_MTU = 99" by (simp_all add: LRPROOF_DATA_BASE_def LRPROOF_DATA_MTU_def)
  have hm: "(length (pk_data p) = 99) = (sg \<noteq> [])" "(length (pk_data p) \<noteq> 96 \<and> sg = []) = False"
    using len assms(11) by auto
  have sgn: "(if sg \<noteq> [] then sg else []) = sg" by simp
  show ?thesis
    unfolding link_on_proof_def c
    by (subst bnd_Ret[where m = "get_link n", OF g],
        simp only: assms(3,4) hm Let_def bytes_left_eq bytes_mid_eq parts sgn simp_thms if_False,
        subst bnd_Ret[where m = "when_do (sg \<noteq> []) (with_link n (modify (\<lambda>l. l\<lparr>lk_mtu := decode_mtu sg\<rparr>)))", OF mtu], subst bnd_Ret[where m = "with_link n (open_session_from_peer_pub X peer)", OF op])
      (simp add: with_link_put assms(1,5) bnd_def di split: option.split)
qed

end
