(* ===== verification/LinkSession.thy ===== *)
theory LinkSession
  imports Link
begin

text \<open>
  What links guarantee: the handshake of two nodes agrees on one session, data sent over it arrives, a
  proof decides the state of a pending link, forged data, and the life of a link as a step relation over
  the operations of a node with its invariant.
\<close>

section \<open>The handshake between two nodes\<close>

text \<open>A node whose transport is a log of the frames it sent.\<close>

record wire = link_state +
  wire_sent :: "bytes list"

definition transmit :: "bytes \<Rightarrow> (wire, unit) prog" where
  "transmit f = modify (\<lambda>s. s\<lparr>wire_sent := wire_sent s @ [f]\<rparr>)"

definition no_reg :: "nat \<Rightarrow> (wire, unit) prog" where
  "no_reg r = ret ()"

lemma transmit_apply [simp]: "transmit f s = (Ret (), s\<lparr>wire_sent := wire_sent s @ [f]\<rparr>)"
  by (simp add: transmit_def)

lemma no_reg_apply [simp]: "no_reg r s = (Ret (), s)"
  by (simp add: no_reg_def)

lemma link_flags_values: "link_flags DATA = 0x0C" "link_flags PROOF = 0x0F"
  by (simp_all add: link_flags_def)

lemma narrow_flags:
  "\<not> wide_header (request_flags d)" "\<not> wide_header 0x0C" "\<not> wide_header 0x0F"
  by (cases "dst_type d"; simp add: wide_header_def request_flags_def pack_flags_def packet_object_def)+

text \<open>Unpacking a frame with one address.\<close>

lemma unpack_narrow:
  assumes "\<not> wide_header f" "length dh = 16"
  shows "\<exists>u. packet_unpack X (packet_of_raw (frame f h [] dh c d)) = (True, u) \<and> pk_raw u = frame f h [] dh c d \<and>
    pk_destination_hash u = dh \<and> pk_context u = c \<and> pk_data u = d \<and>
    pk_packet_type u = packet_type_of (f AND 0b00000011) \<and>
    pk_destination_type u = dest_type_of (drop_bit 2 (f AND 0b00001100)) \<and>
    get_hashable_part u = (f AND 0b00001111) # dh @ c # d"
proof -
  have ok: "frame_ok f [] dh" using assms by (simp add: frame_ok_def)
  obtain u where u: "packet_unpack X (packet_of_raw (frame f h [] dh c d)) = (True, u)"
    "pk_raw u = frame f h [] dh c d" "pk_destination_hash u = dh" "pk_context u = c" "pk_data u = d"
    "pk_packet_type u = packet_type_of (f AND 0b00000011)"
    "pk_header_type u = header_type_of (drop_bit 6 (f AND 0b01000000))"
    "pk_destination_type u = dest_type_of (drop_bit 2 (f AND 0b00001100))"
    using unpack_frame[OF ok, of "packet_of_raw (frame f h [] dh c d)" h c d X]
    by (auto simp: packet_of_raw_def packet_object_def)
  have "pk_header_type u = HEADER_1" using assms(1) u(7) by (simp add: wide_header_def header_type_simps header_type_of_def)
  then have "get_hashable_part u = (f AND 0b00001111) # dh @ c # d"
    using u(2) by (simp add: get_hashable_part_def frame_def Let_def)
  then show ?thesis using u by blast
qed

lemma signalling_nonempty: "encode_signalling m mode \<noteq> []"
  using length_encode_signalling[of m mode] by (metis list.size(3) zero_neq_numeral)

lemma offered_request_data:
  assumes "dh_law X" "sig_law X"
  shows "offered_mtu (request_data X x e m) = (if m = 0 then of_nat MTU else take_bit 21 m)"
    "signalling_of (request_data X x e m) =
       (if m = 0 then [] else encode_signalling (take_bit 21 m) (link_mode_num MODE_AES256_CBC))"
  using assms length_request_data[OF assms, of x e m]
  by (auto simp: offered_mtu_def signalling_of_def request_data_def law_simps decode_encode_mtu)

lemma decode_signalling_of:
  "length (signalling_of d) = 0 \<or> length (signalling_of d) = 3"
  "signalling_of d \<noteq> [] \<Longrightarrow> decode_mtu (signalling_of d) = take_bit 21 (offered_mtu d)"
  by (auto simp: signalling_of_def decode_encode_mtu)

text \<open>The session both ends of a link hold: the same id, token, key and MTU.\<close>

definition same_session :: "link \<Rightarrow> link \<Rightarrow> bool" where
  "same_session l l' \<longleftrightarrow>
     lk_status l = ACTIVE \<and> lk_status l' = ACTIVE \<and> lk_hash l = lk_hash l' \<and> length (lk_hash l) = 16 \<and>
     lk_mtu l = lk_mtu l' \<and> lk_shared_session_key l = lk_shared_session_key l' \<and>
     (\<exists>t. lk_token l = Some t \<and> lk_token l' = Some t \<and> token_ok t)"

text \<open>The node state after a step that drew two keys, added a link and sent a frame.\<close>

definition linked :: "link \<Rightarrow> bytes \<Rightarrow> wire \<Rightarrow> wire" where
  "linked l f s = s\<lparr>hal_calls := hal_calls s + 2, link_heap := link_heap s @ [l], wire_sent := wire_sent s @ [f]\<rparr>"

lemma linked_simps [simp]:
  "link_heap (linked l f s) ! length (link_heap s) = l" "length (link_heap s) < length (link_heap (linked l f s))"
  "wire_sent (linked l f s) = wire_sent s @ [f]" "dest_heap (linked l f s) = dest_heap s"
  by (simp_all add: linked_def)

lemma request_wire:
  assumes "crypto_laws X" "r < length (dest_heap a)" "d = dest_heap a ! r" "length (dst_hash d) = 16"
  shows "\<exists>x e h p.
    link_request X no_reg transmit (Some r) None cb m a =
      (Ret (length (link_heap a)), linked (request_link X r None cb m x e h)
        (frame (request_flags d) 0 [] (dst_hash d) CONTEXT_NONE (request_data X x e m)) a) \<and>
    h = link_id X (request_flags d) (dst_hash d) CONTEXT_NONE (request_data X x e m) \<and> length h = 16 \<and>
    packet_unpack X (packet_of_raw (frame (request_flags d) 0 [] (dst_hash d) CONTEXT_NONE (request_data X x e m))) = (True, p) \<and>
    pk_destination_hash p = dst_hash d \<and> pk_packet_type p = LINKREQUEST \<and> pk_data p = request_data X x e m \<and>
    get_hashable_part p = (request_flags d AND 0b00001111) # dst_hash d @ CONTEXT_NONE # request_data X x e m"
proof -
  note laws = crypto_lawsD[OF assms(1)]
  obtain x e h where h: "h = link_id X (request_flags d) (dst_hash d) CONTEXT_NONE (request_data X x e m)"
    and req: "link_request X no_reg transmit (Some r) None cb m a =
      bnd (no_reg (length (link_heap a))) (\<lambda>_. bnd (transmit (frame (request_flags d) 0 [] (dst_hash d) CONTEXT_NONE (request_data X x e m)))
        (\<lambda>_. ret (length (link_heap a))))
        (a\<lparr>hal_calls := hal_calls a + 2, link_heap := link_heap a @ [request_link X r None cb m x e h]\<rparr>)"
    using request_run[OF assms(1,2), where reg = no_reg and bc = transmit and m = m and est = None and cb = cb]
    unfolding assms(3) by blast
  obtain p where p: "packet_unpack X (packet_of_raw (frame (request_flags d) 0 [] (dst_hash d) CONTEXT_NONE (request_data X x e m))) = (True, p)"
    "pk_destination_hash p = dst_hash d" "pk_data p = request_data X x e m"
    "pk_packet_type p = packet_type_of (request_flags d AND 0b00000011)"
    "get_hashable_part p = (request_flags d AND 0b00001111) # dst_hash d @ CONTEXT_NONE # request_data X x e m"
    using unpack_narrow[OF narrow_flags(1) assms(4), where X = X and h = 0 and c = CONTEXT_NONE] by blast
  have "pk_packet_type p = LINKREQUEST"
    unfolding p(4) by (cases "dst_type d") (simp_all add: request_flags_def pack_flags_def packet_object_def packet_type_of_def)
  moreover have "length h = 16" unfolding h link_id_def by (rule length_truncated_hash[OF laws(1)])
  ultimately show ?thesis using p h req
    by (intro exI[of _ x] exI[of _ e] exI[of _ h] exI[of _ p]) (simp add: bnd_def linked_def)
qed

text \<open>The data of a proof: signature, the responder's key, signalling.\<close>

definition proof_data :: "ext \<Rightarrow> bytes \<Rightarrow> bytes \<Rightarrow> bytes \<Rightarrow> bytes \<Rightarrow> bytes" where
  "proof_data X ie h y d =
     x_ed_sign X ie (h @ x_x25519_pub X y @ x_ed_pub X ie @ signalling_of d) @ x_x25519_pub X y @ signalling_of d"

lemma respond_wire:
  assumes "crypto_laws X" "ro < length (dest_heap b)"
    "dst_identity (dest_heap b ! ro) = Some (key_identity X ia ie app)"
    "length (pk_data p) = 64 \<or> length (pk_data p) = 67"
    "get_hashable_part p = (f AND 0b00001111) # dh @ c # pk_data p" "h = link_id X f dh c (pk_data p)"
  shows "\<exists>y ye k t u. session_keys X y (take 32 (pk_data p)) h k t \<and>
    link_validate_request X no_reg transmit (Some ro) (pk_data p) p b =
      (Ret (Some (length (link_heap b))), linked (responder_link X ro (pk_data p) h y ye k t)
        (frame (link_flags PROOF) 0 [] h LRPROOF (proof_data X ie h y (pk_data p))) b) \<and>
    packet_unpack X (packet_of_raw (frame (link_flags PROOF) 0 [] h LRPROOF (proof_data X ie h y (pk_data p)))) = (True, u) \<and>
    pk_destination_hash u = h \<and> pk_context u = LRPROOF \<and> pk_packet_type u = PROOF \<and>
    pk_data u = proof_data X ie h y (pk_data p)"
proof -
  obtain y ye k t where kt: "session_keys X y (take 32 (pk_data p)) h k t"
    and val: "link_validate_request X no_reg transmit (Some ro) (pk_data p) p b =
      bnd (no_reg (length (link_heap b))) (\<lambda>_. bnd (transmit (frame (link_flags PROOF) 0 [] h LRPROOF
            (proof_data X ie h y (pk_data p)))) (\<lambda>_. ret (Some (length (link_heap b)))))
        (b\<lparr>hal_calls := hal_calls b + 2, link_heap := link_heap b @ [responder_link X ro (pk_data p) h y ye k t]\<rparr>)"
    using validate_run[OF assms(1-5), where reg = no_reg and bc = transmit] unfolding assms(6)[symmetric] proof_data_def
    by blast
  have hl: "length h = 16"
    unfolding assms(6) link_id_def by (rule length_truncated_hash[OF crypto_lawsD(1)[OF assms(1)]])
  obtain u where u: "packet_unpack X (packet_of_raw (frame (link_flags PROOF) 0 [] h LRPROOF (proof_data X ie h y (pk_data p)))) = (True, u)"
    "pk_destination_hash u = h" "pk_context u = LRPROOF" "pk_data u = proof_data X ie h y (pk_data p)"
    "pk_packet_type u = packet_type_of (link_flags PROOF AND 0b00000011)"
    using unpack_narrow[OF _ hl, where X = X and h = 0 and c = LRPROOF] narrow_flags unfolding link_flags_values by blast
  have "pk_packet_type u = PROOF" unfolding u(5) by (simp add: link_flags_values packet_type_of_def)
  then show ?thesis using kt val u
    by (intro exI[of _ y] exI[of _ ye] exI[of _ k] exI[of _ t] exI[of _ u]) (simp add: bnd_def linked_def)
qed

text \<open>The initiator accepts the owner's proof.\<close>

lemma active_proof:
  assumes "crypto_laws X" "r < length (dest_heap s)"
    "dst_identity (dest_heap s ! r) = Some (load_public_key X (get_public_key (key_identity X ia ie app')) empty_identity)"
    "n < length (link_heap s)" "link_heap s ! n = request_link X r None cb m x e h"
    "pk_data u = proof_data X ie h y d" "session_keys X x (x_x25519_pub X y) h k t"
  shows "link_on_proof X app n u s =
    (Ret (), put_link n ((proof_link (signalling_of d) (x_x25519_pub X y) k t (request_link X r None cb m x e h))\<lparr>lk_status := ACTIVE\<rparr>) s)"
proof -
  note laws = crypto_lawsD[OF assms(1)]
  let ?j = "load_public_key X (get_public_key (key_identity X ia ie app')) empty_identity"
  let ?sig = "x_ed_sign X ie (h @ x_x25519_pub X y @ x_ed_pub X ie @ signalling_of d)"
  have j: "id_sig_pub ?j = Some (x_ed_pub X ie)" "id_sig_pub_bytes ?j = x_ed_pub X ie"
    unfolding get_key_identity using load_public_key_fields laws by (simp_all add: law_simps)
  have "length ?sig = 64" "length (x_x25519_pub X y) = 32" by (simp_all add: law_simps laws)
  moreover have "identity_validate X (Some ?j) ?sig (h @ x_x25519_pub X y @ x_ed_pub X ie @ signalling_of d)"
    using j(1) laws by (simp add: identity_validate_def ed25519_verify_def law_simps)
  ultimately show ?thesis
    using proof_run[OF assms(4) assms(5)[symmetric], where r = r and j = ?j and p = u and sig = ?sig
        and peer = "x_x25519_pub X y" and sg = "signalling_of d" and X = X and k = k and t = t and app = app]
      assms(2,3,6,7) decode_signalling_of(1)[of d] j(2)
    by (simp add: request_link_def fresh_link_def proof_data_def)
qed

lemma session_agreed:
  assumes "crypto_laws X" "length h = 16" "token_ok t" 
  shows "same_session
      ((proof_link (signalling_of (request_data X x e m)) peer k t (request_link X r est cb m x e h))\<lparr>lk_status := ACTIVE\<rparr>)
      (responder_link X ro (request_data X x e m) h y ye k t) \<and>
    lk_mtu ((proof_link (signalling_of (request_data X x e m)) peer k t (request_link X r est cb m x e h))\<lparr>lk_status := ACTIVE\<rparr>)
      = (if m = 0 then 500 else m AND MTU_BYTEMASK)"
proof -
  note om = offered_request_data[OF crypto_lawsD(5,6)[OF assms(1)], of x e m]
  have "lk_mtu (proof_link (signalling_of (request_data X x e m)) peer k t (request_link X r est cb m x e h)) =
      offered_mtu (request_data X x e m)"
    using om signalling_nonempty by (cases "m = 0")
      (simp_all add: proof_link_def opened_link_def request_link_def decode_encode_mtu)
  then show ?thesis using assms om
    by (simp add: same_session_def responder_link_def opened_link_def proof_link_def request_link_def
        fresh_link_def size_values signalling_masks take_bit_eq_mask)
qed

text \<open>
  C4: the handshake establishes one session. Whatever keys the two nodes draw, the request frame of an
  initiator that knows only the destination's public key unpacks to a request for that destination;
  the owner's answer unpacks to a proof addressed to the initiator's link; and after it both ends
  are active with the same link id, session key, token and MTU: the one the initiator offered, cut
  to 21 bits, or 500 when it offered none.
\<close>

theorem link_handshake:
  assumes "crypto_laws X" "create_identity X s0 = (Ret i, s1)"
    "r < length (dest_heap a)" "length (dst_hash (dest_heap a ! r)) = 16"
    "dst_identity (dest_heap a ! r) = Some (load_public_key X (get_public_key i) empty_identity)"
    "ro < length (dest_heap b)" "dst_identity (dest_heap b ! ro) = Some i"
  shows "\<exists>n a1 request p k b1 answer u a2.
    link_request X no_reg transmit (Some r) None cb m a = (Ret n, a1) \<and>
    wire_sent a1 = wire_sent a @ [request] \<and> lk_status (link_heap a1 ! n) = HANDSHAKE \<and>
    packet_unpack X (packet_of_raw request) = (True, p) \<and> pk_packet_type p = LINKREQUEST \<and>
    pk_destination_hash p = dst_hash (dest_heap a ! r) \<and>
    link_validate_request X no_reg transmit (Some ro) (pk_data p) p b = (Ret (Some k), b1) \<and>
    wire_sent b1 = wire_sent b @ [answer] \<and>
    packet_unpack X (packet_of_raw answer) = (True, u) \<and> pk_packet_type u = PROOF \<and>
    pk_context u = LRPROOF \<and> pk_destination_hash u = lk_hash (link_heap a1 ! n) \<and>
    link_on_proof X app n u a1 = (Ret (), a2) \<and>
    same_session (link_heap a2 ! n) (link_heap b1 ! k) \<and>
    lk_mtu (link_heap a2 ! n) = (if m = 0 then 500 else m AND MTU_BYTEMASK)"
proof -
  note laws = crypto_lawsD[OF assms(1)]
  obtain ia ie where i: "i = key_identity X ia ie []"
    using create_identityD[OF laws(7) assms(2)] by blast
  obtain x e h p where req: "link_request X no_reg transmit (Some r) None cb m a =
      (Ret (length (link_heap a)), linked (request_link X r None cb m x e h)
        (frame (request_flags (dest_heap a ! r)) 0 [] (dst_hash (dest_heap a ! r)) CONTEXT_NONE (request_data X x e m)) a)"
    and h: "length h = 16" "h = link_id X (request_flags (dest_heap a ! r)) (dst_hash (dest_heap a ! r)) CONTEXT_NONE (request_data X x e m)"
    and p: "packet_unpack X (packet_of_raw (frame (request_flags (dest_heap a ! r)) 0 [] (dst_hash (dest_heap a ! r)) CONTEXT_NONE (request_data X x e m))) = (True, p)"
      "pk_destination_hash p = dst_hash (dest_heap a ! r)" "pk_packet_type p = LINKREQUEST" "pk_data p = request_data X x e m"
      "get_hashable_part p = (request_flags (dest_heap a ! r) AND 0b00001111) # dst_hash (dest_heap a ! r) @ CONTEXT_NONE # pk_data p"
    using request_wire[OF assms(1,3) refl assms(4), where cb = cb and m = m] by auto
  define la where "la = request_link X r None cb m x e h"
  define a1 where "a1 = linked la (frame (request_flags (dest_heap a ! r)) 0 [] (dst_hash (dest_heap a ! r)) CONTEXT_NONE (request_data X x e m)) a"
  let ?n = "length (link_heap a)"
  have io: "dst_identity (dest_heap b ! ro) = Some (key_identity X ia ie [])" using assms(7) i by simp
  have rdl: "length (pk_data p) = 64 \<or> length (pk_data p) = 67"
    using length_request_data[OF laws(5,6)] by (simp add: p(4))
  obtain y ye k t u where kt: "session_keys X y (take 32 (pk_data p)) h k t"
    and val: "link_validate_request X no_reg transmit (Some ro) (pk_data p) p b =
      (Ret (Some (length (link_heap b))), linked (responder_link X ro (pk_data p) h y ye k t)
        (frame (link_flags PROOF) 0 [] h LRPROOF (proof_data X ie h y (pk_data p))) b)"
    and u: "packet_unpack X (packet_of_raw (frame (link_flags PROOF) 0 [] h LRPROOF (proof_data X ie h y (pk_data p)))) = (True, u)"
      "pk_destination_hash u = h" "pk_context u = LRPROOF" "pk_packet_type u = PROOF" "pk_data u = proof_data X ie h y (pk_data p)"
    using respond_wire[OF assms(1) assms(6) io rdl p(5)] h(2) p(4) by metis
  define lb where "lb = responder_link X ro (pk_data p) h y ye k t"
  define b1 where "b1 = linked lb (frame (link_flags PROOF) 0 [] h LRPROOF (proof_data X ie h y (pk_data p))) b"
  have kt': "session_keys X x (x_x25519_pub X y) h k t"
    using kt session_keys_swap[OF laws(5)] by (simp add: p(4) request_data_def law_simps laws)
  define la' where "la' = (proof_link (signalling_of (pk_data p)) (x_x25519_pub X y) k t la)\<lparr>lk_status := ACTIVE\<rparr>"
  have C: "link_on_proof X app ?n u a1 = (Ret (), put_link ?n la' a1)"
    using assms(3,5) u(5) kt' h(1) unfolding i a1_def la_def la'_def
    by (intro active_proof laws) (simp_all add: assms(1))
  have "same_session la' lb \<and> lk_mtu la' = (if m = 0 then 500 else m AND MTU_BYTEMASK)"
    unfolding la'_def lb_def la_def p(4) by (rule session_agreed[OF assms(1) h(1)]) (use kt' in \<open>auto simp: session_keys_def intro: token_new_ok\<close>)
  moreover have "link_heap (put_link ?n la' a1) ! ?n = la'" "link_heap b1 ! length (link_heap b) = lb"
    "link_heap a1 ! ?n = la" "wire_sent b1 = wire_sent b @ [frame (link_flags PROOF) 0 [] h LRPROOF (proof_data X ie h y (pk_data p))]"
    "wire_sent a1 = wire_sent a @ [frame (request_flags (dest_heap a ! r)) 0 [] (dst_hash (dest_heap a ! r)) CONTEXT_NONE (request_data X x e m)]"
    by (simp_all add: a1_def b1_def)
  moreover have "lk_status la = HANDSHAKE" "lk_hash la = h" by (simp_all add: la_def request_link_def)
  ultimately show ?thesis
    using req p u val C unfolding la_def[symmetric] lb_def[symmetric] a1_def[symmetric] b1_def[symmetric] by metis
qed
section \<open>Data on an established link\<close>

lemma token_sealed:
  assumes "crypto_laws X" "token_ok t"
  shows "\<exists>c. token_encrypt X t d s = (Ret c, s\<lparr>hal_calls := hal_calls s + 1\<rparr>) \<and> token_decrypt X t c = Ret d \<and>
    length c = 48 + 16 * (length d div 16 + 1)"
proof -
  obtain iv ct where c: "token_encrypt X t d s =
      (Ret (iv @ ct @ x_hmac X DIGEST_SHA256 (tk_signing_key t) (iv @ ct)), s\<lparr>hal_calls := hal_calls s + 1\<rparr>)"
    "length iv = 16" "length ct = 16 * (length d div 16 + 1)"
    "x_aes_dec X (tk_encryption_key t) iv ct = Some (pkcs7_pad 16 d)"
    using token_encrypt_run[OF assms] by blast
  have "token_decrypt X t (iv @ ct @ x_hmac X DIGEST_SHA256 (tk_signing_key t) (iv @ ct)) = Ret d"
    by (subst token_decrypt_run[OF assms c(2) _ c(4)]) (simp_all add: c(3) unpad_pad)
  moreover have "length (iv @ ct @ x_hmac X DIGEST_SHA256 (tk_signing_key t) (iv @ ct)) = 48 + 16 * (length d div 16 + 1)"
    using c(2,3) by (simp add: law_simps crypto_lawsD[OF assms(1)])
  ultimately show ?thesis using c(1) by blast
qed

lemma get_link_run: "n < length (link_heap s) \<Longrightarrow> get_link n s = (Ret (link_heap s ! n), s)"
  by (simp add: get_link_def heap_get_def)

lemma send_run:
  assumes "n < length (link_heap s)" "lk_status (link_heap s ! n) = ACTIVE" "lk_token (link_heap s ! n) = Some t"
    "token_encrypt X t d s = (Ret c, s\<lparr>hal_calls := hal_calls s + 1\<rparr>)"
  shows "link_send_with_context X bc n d ctx s =
    bc (frame 0x0C 0 [] (lk_hash (link_heap s ! n)) ctx c) (s\<lparr>hal_calls := hal_calls s + 1\<rparr>)"
  using assms by (simp add: link_send_with_context_def bnd_def get_link_run link_flags_values frame_def)

lemma inbound_run:
  assumes "n < length (link_heap s)" "lk_status (link_heap s ! n) = ACTIVE" "lk_token (link_heap s ! n) = Some t"
    "pk_packet_type p = DATA"
  shows "link_on_inbound X W app bc n p s =
    (case token_decrypt X t (pk_data p) of
       Ret d \<Rightarrow> (if d = [] then ret ()
         else if pk_context p = REQUEST then link_handle_request X W app bc n d p
         else case lk_on_packet (link_heap s ! n) of None \<Rightarrow> ret () | Some cb \<Rightarrow> app_link_packet app cb d n) s
     | Raise e \<Rightarrow> (Raise e, s) | Fault x \<Rightarrow> (Fault x, s))"
  using assms by (simp add: link_on_inbound_def bnd_def get_link_run split: res.split)

text \<open>A frame sent by one end, received by the other in any state that still has the link.\<close>

lemma delivered:
  fixes b :: "'b link_state_scheme"
  assumes "crypto_laws X" "n < length (link_heap a)" "k < length (link_heap b)"
    "same_session (link_heap a ! n) (link_heap b ! k)"
  shows "\<exists>a' f u. link_send_with_context X transmit n d ctx a = (Ret (), a') \<and>
    wire_sent a' = wire_sent a @ [f] \<and> link_heap a' = link_heap a \<and>
    packet_unpack X (packet_of_raw f) = (True, u) \<and> pk_destination_hash u = lk_hash (link_heap b ! k) \<and>
    pk_destination_type u = LINK \<and> (length f \<le> MTU \<longleftrightarrow> length d \<le> LINK_MDU) \<and>
    (\<forall>W app bc (b' :: 'b link_state_scheme). link_heap b' = link_heap b \<longrightarrow> link_on_inbound X W app bc k u b' =
      (if d = [] then ret () else if ctx = REQUEST then link_handle_request X W app bc k d u
       else case lk_on_packet (link_heap b ! k) of None \<Rightarrow> ret () | Some cb \<Rightarrow> app_link_packet app cb d k) b')"
proof -
  from assms(4) obtain t where t: "lk_token (link_heap a ! n) = Some t" "lk_token (link_heap b ! k) = Some t" "token_ok t"
    and st: "lk_status (link_heap a ! n) = ACTIVE" "lk_status (link_heap b ! k) = ACTIVE"
      "lk_hash (link_heap a ! n) = lk_hash (link_heap b ! k)" "length (lk_hash (link_heap b ! k)) = 16"
    by (auto simp: same_session_def)
  obtain c where c: "token_encrypt X t d a = (Ret c, a\<lparr>hal_calls := hal_calls a + 1\<rparr>)"
    "token_decrypt X t c = Ret d" "length c = 48 + 16 * (length d div 16 + 1)"
    using token_sealed[OF assms(1) t(3)] by blast
  let ?h = "lk_hash (link_heap b ! k)" and ?f = "frame 0x0C 0 [] (lk_hash (link_heap b ! k)) ctx c"
  obtain u where u: "packet_unpack X (packet_of_raw ?f) = (True, u)" "pk_destination_hash u = ?h"
    "pk_context u = ctx" "pk_data u = c" "pk_packet_type u = packet_type_of (0x0C AND 0b00000011)"
    "pk_destination_type u = dest_type_of (drop_bit 2 (0x0C AND 0b00001100))"
    using unpack_narrow[OF narrow_flags(2) st(4), where X = X and h = 0 and c = ctx and d = c] by blast
  have ty: "pk_packet_type u = DATA" "pk_destination_type u = LINK"
    unfolding u by (simp_all add: packet_type_of_def dest_type_of_def drop_bit_eq_div)
  have "length ?f \<le> MTU \<longleftrightarrow> length d \<le> LINK_MDU"
    using c(3) st(4) by (simp add: frame_def size_values) presburger
  moreover have "link_on_inbound X W app bc k u b' =
      (if d = [] then ret () else if ctx = REQUEST then link_handle_request X W app bc k d u
       else case lk_on_packet (link_heap b ! k) of None \<Rightarrow> ret () | Some cb \<Rightarrow> app_link_packet app cb d k) b'"
    if "link_heap b' = link_heap b" for W app bc and b' :: "'b link_state_scheme"
    using inbound_run[of k b' t u X W app bc] that assms(3) st(2) t(2) ty(1) u c(2) by simp
  ultimately show ?thesis
    using send_run[OF assms(2) st(1) t(1) c(1), of transmit ctx] u ty(2) st(3)
    by (intro exI[of _ "a\<lparr>hal_calls := hal_calls a + 1, wire_sent := wire_sent a @ [?f]\<rparr>"] exI[of _ ?f] exI[of _ u]) simp
qed

text \<open>
  C15: over an established session data sent by one end arrives at the other as it was sent: the frame is
  addressed to the link, and the receiver's packet callback gets exactly the plaintext, unless that is empty, which the
  receiver drops like a failed decryption, or it was sent as a request, which goes to the request handlers instead.
  The frame fits the MTU exactly for the payloads up to the link MDU of 431 bytes.
\<close>

theorem link_data:
  assumes "crypto_laws X" "n < length (link_heap a)" "k < length (link_heap b)"
    "same_session (link_heap a ! n) (link_heap b ! k)" "lk_on_packet (link_heap b ! k) = Some cb"
  shows "\<exists>a' f u. link_send_with_context X transmit n d ctx a = (Ret (), a') \<and>
    wire_sent a' = wire_sent a @ [f] \<and> link_heap a' = link_heap a \<and>
    packet_unpack X (packet_of_raw f) = (True, u) \<and> pk_destination_hash u = lk_hash (link_heap b ! k) \<and>
    pk_destination_type u = LINK \<and>
    link_on_inbound X W app bc k u b =
      (if d = [] then (Ret (), b)
       else if ctx = REQUEST then link_handle_request X W app bc k d u b else app_link_packet app cb d k b) \<and>
    (length f \<le> MTU \<longleftrightarrow> length d \<le> LINK_MDU)"
proof -
  show ?thesis using delivered[OF assms(1-4), of d ctx] assms(5) by fastforce
qed

text \<open>
  C21: a proof decides the state of a pending link. Only a link that waits for one looks at it, and only
  a proof of one of the two sizes is looked at; such a link becomes active exactly when the
  signature over its id, the proof's key, the destination's signing key and the signalling bytes
  verifies, and is closed otherwise. So any 96 bytes that do not verify close a
  pending link when they are sent to its id.
\<close>

theorem link_proof_decides:
  assumes "crypto_laws X" "n < length (link_heap s)" "lk_destination (link_heap s ! n) = Some r"
    "r < length (dest_heap s)" "dst_identity (dest_heap s ! r) = Some j"
    "lk_on_established (link_heap s ! n) = None"
  shows "let l = link_heap s ! n; d = pk_data p; s' = snd (link_on_proof X app n p s) in
    fst (link_on_proof X app n p s) = Ret () \<and>
    (if lk_status l = HANDSHAKE \<and> lk_initiator l \<and> length d \<in> {96, 99}
     then (\<exists>l'. s' = s\<lparr>link_heap := (link_heap s)[n := l']\<rparr> \<and> lk_hash l' = lk_hash l \<and>
       lk_status l' = (if identity_validate X (Some j) (take 64 d)
           (lk_hash l @ take 32 (drop 64 d) @ id_sig_pub_bytes j @ drop 96 d) then ACTIVE else CLOSED))
     else s' = s)"
proof -
  define l where "l = link_heap s ! n"
  define d where "d = pk_data p"
  show ?thesis
  proof (cases "lk_status l = HANDSHAKE \<and> lk_initiator l \<and> length d \<in> {96, 99}")
    case False
    then show ?thesis unfolding Let_def l_def[symmetric] d_def[symmetric]
      using assms(2) by (auto simp: link_on_proof_def bnd_def get_link_run l_def d_def LRPROOF_DATA_BASE_def
          LRPROOF_DATA_MTU_def Let_def)
  next
    case True
    let ?peer = "take 32 (drop 64 d)"
    have split: "pk_data p = take 64 d @ ?peer @ drop 96 d"
      using append_take_drop_id[of 64 d] append_take_drop_id[of 32 "drop 64 d"] by (simp add: d_def)
    have len: "length (take 64 d) = 64" "length ?peer = 32" "length (drop 96 d) = 0 \<or> length (drop 96 d) = 3"
      using True by auto
    obtain k t where kt: "session_keys X (xk_private (lk_eph_x25519_prv l)) ?peer (lk_hash l) k t"
      using session_keys_exist[OF assms(1)] by blast
    note run = proof_run[OF assms(2) l_def _ _ _ assms(4,5) split len kt, of app]
    show ?thesis
      unfolding Let_def l_def[symmetric] d_def[symmetric]
      using True assms(3,6) run
      by (auto simp: l_def[symmetric] put_link_def proof_link_def opened_link_def)
  qed
qed

lemma forged_token:
  assumes "hmac_law X" "token_ok t"
    "length d < 48 \<or> drop (length d - 32) d \<noteq> x_hmac X DIGEST_SHA256 (tk_signing_key t) (take (length d - 32) d)"
  shows "\<exists>w. token_decrypt X t d = Raise (Invalid_argument w)"
proof (cases "length d < 48")
  case False
  have "token_verify_hmac X t d = Ret (drop (length d - 32) d = x_hmac X DIGEST_SHA256 (tk_signing_key t) (take (length d - 32) d))"
    unfolding token_verify_hmac_def using False by (intro verify_hmac_eq[OF assms(1)]) simp
  then show ?thesis using False assms(3) by (simp add: token_decrypt_def)
qed (simp add: token_decrypt_def)

text \<open>
  C22: data that was not encrypted under the session, such as 19 bytes without payload or 48 bytes with a
  wrong authentication code, makes \<open>on_inbound\<close> of an active link throw instead of being dropped,
  and the state stays as it was.
\<close>

theorem link_forged_data:
  assumes "hmac_law X" "n < length (link_heap s)" "lk_status (link_heap s ! n) = ACTIVE"
    "lk_token (link_heap s ! n) = Some t" "token_new key MODE_AES = Ret t" "pk_packet_type p = DATA"
    "length (pk_data p) < 48 \<or>
     drop (length (pk_data p) - 32) (pk_data p) \<noteq>
       x_hmac X DIGEST_SHA256 (tk_signing_key t) (take (length (pk_data p) - 32) (pk_data p))"
  shows "\<exists>w. link_on_inbound X W app bc n p s = (Raise (Invalid_argument w), s)"
  using forged_token[OF assms(1) token_new_ok[OF assms(5)] assms(7)] inbound_run[OF assms(2-4,6)] by auto

section \<open>The life of a link\<close>

text \<open>Programs, application callbacks among them, that leave the link objects alone. Sending on a link is
  one of them.\<close>

definition keeps_links :: "('a link_state_scheme, 'b) prog \<Rightarrow> bool" where
  "keeps_links m \<longleftrightarrow> (\<forall>H. preserves (\<lambda>s. link_heap s = H) m)"

lemma keeps_linksI: "(\<And>s. link_heap (snd (m s)) = link_heap s) \<Longrightarrow> keeps_links m"
  by (simp add: keeps_links_def preserves_def)

lemma keeps_linksD: "keeps_links m \<Longrightarrow> link_heap (snd (m s)) = link_heap s"
  by (simp add: keeps_links_def preserves_def)

lemma keeps_basic [pres_intros]:
  "keeps_links (ret a)" "keeps_links (raise e)" "keeps_links (fault x)" "keeps_links (lift r)"
  "keeps_links (gets f)" "keeps_links (get_link n)" "keeps_links (get_dest n)" "keeps_links (transmit fr)"
  "keeps_links (no_reg n)" "keeps_links hal_tick"
  by (auto intro!: keeps_linksI simp: get_link_def get_dest_def heap_get_def hal_tick_def)

lemma keeps_bnd [pres_intros]: "keeps_links m \<Longrightarrow> (\<And>a. keeps_links (f a)) \<Longrightarrow> keeps_links (bnd m f)"
  unfolding keeps_links_def by (blast intro: preserves_bnd)

lemma keeps_if [pres_intros]: "keeps_links m \<Longrightarrow> keeps_links m' \<Longrightarrow> keeps_links (if b then m else m')"
  by simp

lemma keeps_option [pres_intros]:
  "keeps_links m \<Longrightarrow> (\<And>a. keeps_links (f a)) \<Longrightarrow> keeps_links (case x of None \<Rightarrow> m | Some a \<Rightarrow> f a)"
  by (cases x) simp_all

lemma keeps_crypto [pres_intros]:
  "keeps_links (random_bytes X k)" "keeps_links (token_encrypt X t d)" "keeps_links (link_new X ro ini)"
  "keeps_links (packet_new ro d ty c tt)" "keeps_links (dest_identity ro)"
  unfolding random_bytes_def token_encrypt_def link_new_def x25519_generate_def ed25519_generate_def Let_def
    x25519_private_key_def ed25519_private_key_def packet_new_def dest_identity_def
  by (intro pres_intros)+

lemma keeps_pack [pres_intros]: "keeps_links (packet_pack X p)"
  unfolding packet_pack_def dest_encrypt_def identity_encrypt_def x25519_generate_def x25519_private_key_def Let_def
  by (intro pres_intros)+

lemma keeps_send [pres_intros]:
  "(\<And>f. keeps_links (bc f)) \<Longrightarrow> keeps_links (link_send_with_context X bc n d c)"
  unfolding link_send_with_context_def by (intro pres_intros) auto

definition quiet :: "wire app \<Rightarrow> bool" where
  "quiet app \<longleftrightarrow> (\<forall>c n. keeps_links (app_established app c n)) \<and>
     (\<forall>c d n. keeps_links (app_link_packet app c d n)) \<and>
     (\<forall>g p d i h t. keeps_links (app_generator app g p d i h t))"

lemma keeps_inbound [pres_intros]:
  assumes "quiet app"
  shows "keeps_links (link_on_inbound X W app transmit n p)"
proof -
  have "keeps_links (link_handle_request X W app transmit n d p)" for d
    unfolding link_handle_request_def Let_def using assms
    by (auto simp: quiet_def intro!: pres_intros split: prod.split)
  then show ?thesis
    unfolding link_on_inbound_def using assms by (auto simp: quiet_def intro!: pres_intros)
qed

text \<open>What can happen to a link: only an initiator's link that waits for a proof changes its state, and
  only to active or closed; an active link has a session; ids and ends never change.\<close>

definition link_ok :: "link \<Rightarrow> bool" where
  "link_ok l \<longleftrightarrow> (if lk_initiator l then lk_status l \<noteq> PENDING else lk_status l = ACTIVE) \<and>
     (lk_status l = ACTIVE \<longrightarrow> lk_token l \<noteq> None)"

definition waiting :: "link \<Rightarrow> bool" where
  "waiting l \<longleftrightarrow> lk_initiator l \<and> lk_status l = HANDSHAKE"

definition evolves :: "link \<Rightarrow> link \<Rightarrow> bool" where
  "evolves l l' \<longleftrightarrow>
     lk_hash l' = lk_hash l \<and> lk_destination l' = lk_destination l \<and> lk_initiator l' = lk_initiator l \<and>
     (\<not> waiting l \<longrightarrow> lk_status l' = lk_status l \<and> lk_token l' = lk_token l \<and> lk_mtu l' = lk_mtu l \<and>
        lk_shared_session_key l' = lk_shared_session_key l) \<and>
     (link_ok l \<longrightarrow> link_ok l')"

lemma evolves_refl [simp]: "evolves l l"
  by (simp add: evolves_def)

lemma evolves_trans: "evolves l l' \<Longrightarrow> evolves l' l'' \<Longrightarrow> evolves l l''"
  by (auto simp: evolves_def waiting_def)

definition grown :: "'a link_state_scheme \<Rightarrow> 'a link_state_scheme \<Rightarrow> bool" where
  "grown s s' \<longleftrightarrow> length (link_heap s) \<le> length (link_heap s') \<and>
     (\<forall>n < length (link_heap s). evolves (link_heap s ! n) (link_heap s' ! n)) \<and>
     (\<forall>n < length (link_heap s'). length (link_heap s) \<le> n \<longrightarrow> link_ok (link_heap s' ! n))"

lemma grown_refl: "grown s s"
  by (simp add: grown_def)

lemma grown_trans:
  assumes "grown s s'" "grown s' s''"
  shows "grown s s''"
proof -
  have "evolves (link_heap s ! n) (link_heap s'' ! n)" if "n < length (link_heap s)" for n
    using assms that by (auto simp: grown_def intro: evolves_trans)
  moreover have "link_ok (link_heap s'' ! n)" if "n < length (link_heap s'')" "length (link_heap s) \<le> n" for n
    using assms that by (cases "n < length (link_heap s')") (auto simp: grown_def evolves_def)
  ultimately show ?thesis using assms by (simp add: grown_def)
qed

lemma grown_put:
  assumes "grown s0 s" "n < length (link_heap s)" "evolves (link_heap s ! n) l" "link_heap s' = (link_heap s)[n := l]"
  shows "grown s0 s'"
proof (rule grown_trans[OF assms(1)])
  show "grown s s'" using assms(2-4) by (auto simp: grown_def nth_list_update)
qed

lemma keeps_grown: "keeps_links m \<Longrightarrow> preserves (grown s0) m"
  by (rule preservesI) (simp add: grown_def keeps_linksD)

lemma grown_alloc: "link_ok l \<Longrightarrow> preserves (grown s0) (alloc_link l)"
  by (auto intro!: preservesI simp: grown_def alloc_link_def nth_append less_Suc_eq)
lemma open_session_effect:
  assumes "open_session_from_peer_pub X p l = (x, l')"
  shows "lk_hash l' = lk_hash l \<and> lk_destination l' = lk_destination l \<and> lk_initiator l' = lk_initiator l \<and>
    lk_status l' = lk_status l \<and> (\<forall>b. x = Ret b \<longrightarrow> b \<and> lk_token l' \<noteq> None)"
  using assms unfolding open_session_from_peer_pub_def bnd_def by (auto split: res.splits)

lemma grown_proof:
  assumes "quiet app" "grown s0 s"
  shows "grown s0 (snd (link_on_proof X app n p s))"
proof (cases "n < length (link_heap s) \<and> waiting (link_heap s ! n) \<and>
    (length (pk_data p) = LRPROOF_DATA_BASE \<or> length (pk_data p) = LRPROOF_DATA_MTU)")
  case False
  then have "snd (link_on_proof X app n p s) = s"
    by (auto simp: link_on_proof_def bnd_def get_link_def heap_get_def waiting_def Let_def)
  then show ?thesis using assms(2) by simp
next
  case True
  then have n: "n < length (link_heap s)" and w: "waiting (link_heap s ! n)" by simp_all
  define l where "l = link_heap s ! n"
  define l1 where "l1 = (if length (pk_data p) = LRPROOF_DATA_MTU
    then l\<lparr>lk_mtu := decode_mtu (drop LRPROOF_DATA_BASE (pk_data p))\<rparr> else l)"
  define s1 where "s1 = (if length (pk_data p) = LRPROOF_DATA_MTU then put_link n l1 s else s)"
  have mtu: "when_do (length (pk_data p) = LRPROOF_DATA_MTU)
      (with_link n (modify (\<lambda>l. l\<lparr>lk_mtu := decode_mtu (drop LRPROOF_DATA_BASE (pk_data p))\<rparr>))) s = (Ret (), s1)"
    using n by (simp add: with_link_put s1_def l1_def l_def when_do_def)
  have s1: "n < length (link_heap s1)" "link_heap s1 ! n = l1" "put_link n l' s1 = put_link n l' s" for l'
    using n by (simp_all add: s1_def l1_def l_def)
  obtain x l2 where op: "open_session_from_peer_pub X (take 32 (drop 64 (pk_data p))) l1 = (x, l2)" by fastforce
  note l2 = open_session_effect[OF op]
  have l1: "lk_hash l1 = lk_hash l" "lk_destination l1 = lk_destination l" "lk_initiator l1" "lk_status l1 = HANDSHAKE"
    using w by (simp_all add: l1_def l_def waiting_def)
  have ev: "grown s0 (put_link n l' s)"
    if "l' = l2 \<or> l' = l2\<lparr>lk_status := CLOSED\<rparr> \<or> lk_token l2 \<noteq> None \<and> l' = l2\<lparr>lk_status := ACTIVE\<rparr>" for l'
    by (rule grown_put[OF assms(2) n]) (use w that l1 l2 in \<open>auto simp: evolves_def link_ok_def waiting_def
        l_def[symmetric] put_link_def\<close>)
  have op': "with_link n (open_session_from_peer_pub X (take 32 (drop 64 (pk_data p)))) s1 = (x, put_link n l2 s)"
    using s1 op by (simp add: with_link_put)
  show ?thesis
  proof (cases x)
    case (Ret b)
    then have b: "b" "lk_token l2 \<noteq> None" using l2 by auto
    note k = keeps_linksD[of "dest_identity (lk_destination l)", OF keeps_crypto(5)]
    obtain y s2 where di: "dest_identity (lk_destination l) (put_link n l2 s) = (y, s2)" by fastforce
    have s2: "link_heap s2 = link_heap (put_link n l2 s)" using k[of "put_link n l2 s"] di by simp
    have g: "grown s0 s2" "grown s0 (put_link n (l2\<lparr>lk_status := CLOSED\<rparr>) s2)"
        "grown s0 (put_link n (l2\<lparr>lk_status := ACTIVE\<rparr>) s2)"
      using ev[of l2] ev[of "l2\<lparr>lk_status := CLOSED\<rparr>"] ev[of "l2\<lparr>lk_status := ACTIVE\<rparr>"] b s2
      by (simp_all add: grown_def put_link_def)
    have cb: "grown s0 (snd (app_established app cb n z))" if "grown s0 z" for z cb
      using preservesD[OF keeps_grown that, of "app_established app cb n"] assms(1) by (simp add: quiet_def)
    have h2: "n < length (link_heap s2)" "link_heap s2 ! n = l2" using n s2 by simp_all
    show ?thesis
      unfolding link_on_proof_def using True w
      by (simp add: bnd_def get_link_run l_def[symmetric] waiting_def mtu Ret op' b di with_link_put h2 Let_def
          cong del: res.case_cong_weak)
        (use g cb in \<open>auto simp: with_link_put h2 bnd_def split: res.split option.split\<close>)
  qed (use True w ev[of l2] in \<open>auto simp: link_on_proof_def bnd_def get_link_run l_def[symmetric] waiting_def mtu op' Let_def
          cong del: res.case_cong_weak\<close>)
qed

text \<open>One operation on a node, whatever its outcome.\<close>

inductive link_step :: "ext \<Rightarrow> nat \<Rightarrow> wire app \<Rightarrow> wire \<Rightarrow> wire \<Rightarrow> bool" for X W app where
  request: "link_step X W app s (snd (link_request X no_reg transmit ro est cb m s))"
| respond: "link_step X W app s (snd (link_validate_request X no_reg transmit ro d p s))"
| proved: "link_step X W app s (snd (link_on_proof X app n p s))"
| send: "link_step X W app s (snd (link_send_with_context X transmit n d c s))"
| inbound: "link_step X W app s (snd (link_on_inbound X W app transmit n p s))"
| set_callback: "link_step X W app s (snd (set_link_packet_callback n cb s))"

lemma keeps_generate [pres_intros]: "keeps_links (x25519_generate X)" "keeps_links (ed25519_generate X)"
  unfolding x25519_generate_def ed25519_generate_def x25519_private_key_def ed25519_private_key_def
  by (intro pres_intros)+

lemma grown_request: "preserves (grown s0) (link_request X no_reg transmit ro est cb m)"
  unfolding link_request_def link_new_def bnd_assoc bnd_eqs Let_def
  by (intro pres_intros keeps_grown grown_alloc) (simp_all add: link_ok_def)

lemma grown_validate: "preserves (grown s0) (link_validate_request X no_reg transmit ro d p)"
proof -
  have "preserves (grown s0) (bnd (on_local l (open_session_from_peer_pub X q)) f)"
    if "\<And>b l'. lk_initiator l' = lk_initiator l \<Longrightarrow> lk_token l' \<noteq> None \<Longrightarrow> preserves (grown s0) (f (b, l'))"
    for l q and f :: "bool \<times> link \<Rightarrow> (wire, nat option) prog"
  proof (rule preservesI)
    fix s assume "grown s0 s"
    obtain x l2 where op: "open_session_from_peer_pub X q l = (x, l2)" by fastforce
    from open_session_effect[OF op] that \<open>grown s0 s\<close>
    show "grown s0 (snd (bnd (on_local l (open_session_from_peer_pub X q)) f s))"
      by (cases x) (auto simp: bnd_def on_local_def op preserves_def)
  qed
  note opened = this
  show ?thesis
    unfolding link_validate_request_def link_new_def bnd_assoc bnd_eqs Let_def
    by (intro preserves_if preserves_ret preserves_bnd[OF keeps_grown[OF keeps_generate(1)]]
        preserves_bnd[OF keeps_grown[OF keeps_generate(2)]] opened)
      (simp only: prod.case, intro pres_intros keeps_grown grown_alloc, simp add: link_ok_def)
qed

lemma grown_step:
  assumes "quiet app" "link_step X W app s s'"
  shows "grown s s'"
  using assms(2)
proof cases
  case (request ro est cb m)
  then show ?thesis using preservesD[OF grown_request grown_refl] by simp
next
  case (respond ro d p)
  then show ?thesis using preservesD[OF grown_validate grown_refl] by simp
next
  case (proved n p)
  then show ?thesis using grown_proof[OF assms(1) grown_refl] by simp
next
  case (send n d c)
  have "keeps_links (link_send_with_context X transmit n d c)" by (intro pres_intros)
  then show ?thesis using preservesD[OF keeps_grown grown_refl] send by simp
next
  case (inbound n p)
  then show ?thesis using preservesD[OF keeps_grown[OF keeps_inbound[OF assms(1)]] grown_refl] by simp
next
  case (set_callback n cb)
  then show ?thesis
  proof (cases "n < length (link_heap s)")
    case True
    have "s' = s\<lparr>link_heap := (link_heap s)[n := (link_heap s ! n)\<lparr>lk_on_packet := cb\<rparr>]\<rparr>"
      using set_callback True by (simp add: set_link_packet_callback_def with_link_def)
    then show ?thesis
      using grown_put[OF grown_refl True, of "(link_heap s ! n)\<lparr>lk_on_packet := cb\<rparr>" s']
      by (simp add: evolves_def link_ok_def)
  qed (simp add: set_link_packet_callback_def with_link_def grown_refl)
qed

lemma grown_steps: "(link_step X W app)\<^sup>*\<^sup>* s s' \<Longrightarrow> quiet app \<Longrightarrow> grown s s'"
  by (induction rule: rtranclp_induct) (auto intro: grown_refl grown_trans grown_step)

text \<open>
  C8: the life of a link, over any sequence of operations on a node that starts without links, whatever
  frames arrive and whichever operations throw, when callbacks may send but leave the link objects alone.
  A responder's link is active from the moment it exists; an initiator's link waits for a proof and
  then is active or closed for good; an active link has a session. Once a link no longer waits its
  state, session, MTU, id and destination never change.
\<close>

theorem link_life:
  assumes "quiet app" "link_heap s0 = []" "(link_step X W app)\<^sup>*\<^sup>* s0 s" "(link_step X W app)\<^sup>*\<^sup>* s s'"
    "n < length (link_heap s)"
  shows "link_ok (link_heap s ! n) \<and> n < length (link_heap s') \<and> evolves (link_heap s ! n) (link_heap s' ! n)"
  using grown_steps[OF assms(3,1)] grown_steps[OF assms(4,1)] assms(2,5) by (simp add: grown_def)
section \<open>Concrete instances\<close>

definition toy_node :: "link list \<Rightarrow> wire" where
  "toy_node ls =
    \<lparr>hal_calls = 5, known_destinations = Map.empty, fs_impl = None, dest_heap = dest_heap toy_state,
     link_heap = ls, wire_sent = []\<rparr>"

definition toy_app :: "wire app" where
  "toy_app =
    \<lparr>app_packet = (\<lambda>_ _ _. ret ()), app_generator = (\<lambda>_ _ _ _ _ _. ret []), app_established = (\<lambda>_ _. ret ()),
     app_link_packet = (\<lambda>_ d _. transmit d), app_announce = (\<lambda>_ _ _ _. ret ()),
     app_link_request = (\<lambda>_ _ _ _. ret None)\<rparr>"

definition toy_token :: token where
  "toy_token = \<lparr>tk_mode = MODE_AES_256_CBC, tk_signing_key = replicate 32 7, tk_encryption_key = replicate 32 7\<rparr>"

definition toy_link :: "link_status \<Rightarrow> link" where
  "toy_link st =
    (fresh_link toy (Some 0) True (replicate 32 3) (replicate 32 4))
      \<lparr>lk_status := st, lk_hash := replicate 16 9, lk_token := Some toy_token, lk_on_packet := Some (App_cb 0)\<rparr>"

lemma toy_node_simps [simp]:
  "link_heap (toy_node ls) = ls" "dest_heap (toy_node ls) = dest_heap toy_state" "wire_sent (toy_node ls) = []"
  by (simp_all add: toy_node_def)

lemma toy_link_simps [simp]:
  "lk_status (toy_link st) = st" "lk_hash (toy_link st) = replicate 16 9" "lk_token (toy_link st) = Some toy_token"
  "lk_on_packet (toy_link st) = Some (App_cb 0)" "lk_destination (toy_link st) = Some 0"
  "lk_initiator (toy_link st)" "lk_on_established (toy_link st) = None"
  by (simp_all add: toy_link_def fresh_link_def)

lemma toy_token_new: "token_new (replicate 64 7) MODE_AES = Ret toy_token"
  by (simp add: token_new_def toy_token_def)

lemma toy_session: "same_session (toy_link ACTIVE) (toy_link ACTIVE)"
  using token_new_ok[OF toy_token_new] by (simp add: same_session_def)

lemma toy_quiet: "quiet toy_app"
  by (simp add: quiet_def toy_app_def pres_intros)

theorem link_handshake_witness:
  "\<exists>n a1 request p k b1 answer u a2.
    link_request toy no_reg transmit (Some 0) None None 600 (toy_node []) = (Ret n, a1) \<and>
    wire_sent a1 = [request] \<and> packet_unpack toy (packet_of_raw request) = (True, p) \<and>
    link_validate_request toy no_reg transmit (Some 1) (pk_data p) p (toy_node []) = (Ret (Some k), b1) \<and>
    wire_sent b1 = [answer] \<and> packet_unpack toy (packet_of_raw answer) = (True, u) \<and>
    link_on_proof toy toy_app n u a1 = (Ret (), a2) \<and>
    same_session (link_heap a2 ! n) (link_heap b1 ! k) \<and> lk_mtu (link_heap a2 ! n) = 600"
proof -
  have m: "(if (600 :: u32) = 0 then 500 else 600 AND MTU_BYTEMASK) = 600" by (simp add: MTU_BYTEMASK_def)
  show ?thesis
    using link_handshake[OF toy_laws create_toy, of 0 "toy_node []" 1 "toy_node []" None 600 toy_app]
    unfolding m by (auto simp: toy_heap toy_dest_def toy_id_def simp flip: One_nat_def)
qed

theorem link_data_witness:
  "\<exists>a' f u. link_send_with_context toy transmit 0 [1, 2, 3] 0 (toy_node [toy_link ACTIVE]) = (Ret (), a') \<and>
    wire_sent a' = [f] \<and> packet_unpack toy (packet_of_raw f) = (True, u) \<and>
    wire_sent (snd (link_on_inbound toy 32 toy_app transmit 0 u (toy_node [toy_link ACTIVE]))) = [[1, 2, 3]]"
  using link_data[OF toy_laws, of 0 "toy_node [toy_link ACTIVE]" 0 "toy_node [toy_link ACTIVE]" "App_cb 0"
      "[1, 2, 3]" 0 32 toy_app transmit] toy_session
  by (auto simp: REQUEST_def toy_app_def)

lemma toy_forged:
  "\<not> identity_validate toy (Some (load_public_key toy (get_public_key toy_id) empty_identity)) (replicate 64 0) m"
proof -
  have "replicate 64 (0 :: u8) \<noteq> replicate 32 2 @ q" for q
    by (rule notI, drule arg_cong[where f = hd]) simp
  then show ?thesis
    by (simp add: toy_id_def key_identity_def load_public_key_def get_public_key_def update_hashes_def
        identity_validate_def ed25519_verify_def toy_def size_values Let_def)
qed

theorem link_proof_decides_witness:
  "\<exists>s'. link_on_proof toy toy_app 0 (packet_object\<lparr>pk_data := replicate 96 0\<rparr>) (toy_node [toy_link HANDSHAKE]) =
     (Ret (), s') \<and> lk_status (link_heap s' ! 0) = CLOSED"
proof -
  let ?s = "toy_node [toy_link HANDSHAKE]" and ?p = "packet_object\<lparr>pk_data := replicate 96 0\<rparr>"
  have "0 < length (link_heap ?s)" "lk_destination (link_heap ?s ! 0) = Some 0" "0 < length (dest_heap ?s)"
    "dst_identity (dest_heap ?s ! 0) = Some (load_public_key toy (get_public_key toy_id) empty_identity)"
    "lk_on_established (link_heap ?s ! 0) = None"
    by (simp_all add: toy_heap toy_dest_def)
  from link_proof_decides[OF toy_laws this, of ?p toy_app] show ?thesis
    by (cases "link_on_proof toy toy_app 0 ?p ?s") (auto simp: Let_def toy_forged)
qed

theorem link_forged_data_witness:
  "\<exists>w. link_on_inbound toy 32 toy_app transmit 0 packet_object (toy_node [toy_link ACTIVE]) =
     (Raise (Invalid_argument w), toy_node [toy_link ACTIVE])"
  by (rule link_forged_data[OF crypto_lawsD(2)[OF toy_laws] _ _ _ toy_token_new])
    (simp_all add: packet_object_def)

theorem link_life_witness:
  "let s = snd (link_request toy no_reg transmit (Some 0) None None 0 (toy_node []));
       s' = snd (link_on_proof toy toy_app 0 (packet_object\<lparr>pk_data := replicate 96 0\<rparr>) s) in
   link_ok (link_heap s ! 0) \<and> evolves (link_heap s ! 0) (link_heap s' ! 0)"
proof -
  let ?s = "snd (link_request toy no_reg transmit (Some 0) None None 0 (toy_node []))"
  let ?s' = "snd (link_on_proof toy toy_app 0 (packet_object\<lparr>pk_data := replicate 96 0\<rparr>) ?s)"
  have a: "(link_step toy 32 toy_app)\<^sup>*\<^sup>* (toy_node []) ?s" "(link_step toy 32 toy_app)\<^sup>*\<^sup>* ?s ?s'"
    by (rule r_into_rtranclp, rule link_step.request, rule r_into_rtranclp, rule link_step.proved)
  have "link_request toy no_reg transmit (Some 0) None None 0 (toy_node []) = (fst (link_request toy no_reg transmit (Some 0) None None 0 (toy_node [])), ?s)"
    by simp
  have n: "0 < length (link_heap ?s)"
    using request_wire[OF toy_laws, of 0 "toy_node []" "dest_heap toy_state ! 0" None 0]
    by (auto simp: toy_heap toy_dest_def linked_def)
  show ?thesis using link_life[OF toy_quiet _ a n] by (simp add: Let_def)
qed

end
