(* ===== verification/Resource.thy ===== *)
theory Resource
  imports LinkSession "HOL-Library.AList"
begin

text \<open>
  Resources (src/resource.cpp, include/rtreticulum/resource.h): a payload cut into chunks that are sent
  over a link, and the receiver that locks on the first head chunk's id and puts the chunks together.
  Resources are shared objects in a heap; a receiving one is reached through its link's packet
  callback. The application's completion and progress callbacks are arguments. \<open>W\<close> is the width of
  \<open>size_t\<close>.
\<close>

section \<open>State\<close>

datatype res_status = IDLE | SENDING | RECEIVING | COMPLETE | FAILED

text \<open>\<open>std::map<uint32_t, Bytes>\<close> is an association list with distinct keys.\<close>

record resource =
  rs_link :: nat
  rs_id :: bytes
  rs_status :: res_status
  rs_total_size :: nat
  rs_chunk_count :: nat
  rs_bytes_received :: nat
  rs_chunks :: "(u32 \<times> bytes) list"
  rs_on_complete :: "nat option"
  rs_on_progress :: "nat option"

record res_state = link_state +
  res_heap :: "resource list"

record 's res_app =
  ra_complete :: "nat \<Rightarrow> bytes \<Rightarrow> ('s, unit) prog"
  ra_progress :: "nat \<Rightarrow> nat \<Rightarrow> nat \<Rightarrow> ('s, unit) prog"

definition get_res :: "nat \<Rightarrow> ('a res_state_scheme, resource) prog" where
  "get_res r = heap_get res_heap r"

definition set_res :: "nat \<Rightarrow> (resource \<Rightarrow> resource) \<Rightarrow> ('a res_state_scheme, unit) prog" where
  "set_res r f s =
     (if r < length (res_heap s)
      then (Ret (), s\<lparr>res_heap := (res_heap s)[r := f (res_heap s ! r)]\<rparr>) else (Fault Null_deref, s))"

definition alloc_res :: "resource \<Rightarrow> ('a res_state_scheme, nat) prog" where
  "alloc_res o1 s = (Ret (length (res_heap s)), s\<lparr>res_heap := res_heap s @ [o1]\<rparr>)"

definition TAG_HEAD :: u8 where "TAG_HEAD = 0xA0"
definition TAG_BODY :: u8 where "TAG_BODY = 0xA1"
definition ID_BYTES :: nat where "ID_BYTES = 16"
definition CHUNK_PAYLOAD :: nat where "CHUNK_PAYLOAD = 256"

definition put_u32 :: "u32 \<Rightarrow> bytes" where
  "put_u32 v =
     [ucast (drop_bit 24 v AND 0xFF), ucast (drop_bit 16 v AND 0xFF), ucast (drop_bit 8 v AND 0xFF),
      ucast (v AND 0xFF)]"

definition get_u32 :: "bytes \<Rightarrow> u32" where
  "get_u32 p = push_bit 24 (ucast (p ! 0)) OR push_bit 16 (ucast (p ! 1)) OR push_bit 8 (ucast (p ! 2)) OR ucast (p ! 3)"

text \<open>The constructor.\<close>

definition resource_new :: "nat \<Rightarrow> resource" where
  "resource_new l =
    \<lparr>rs_link = l, rs_id = [], rs_status = IDLE, rs_total_size = 0, rs_chunk_count = 0,
     rs_bytes_received = 0, rs_chunks = [], rs_on_complete = None, rs_on_progress = None\<rparr>"

section \<open>Sending\<close>

definition chunk_size_for :: "u32 \<Rightarrow> nat" where
  "chunk_size_for mtu =
     (if 0 < unat mtu \<and> unat mtu < CHUNK_PAYLOAD + 100
      then (if unat mtu > 100 then unat mtu - 100 else 64) else CHUNK_PAYLOAD)"

definition chunk_count_for :: "nat \<Rightarrow> nat \<Rightarrow> nat" where
  "chunk_count_for n chunk_size = (if n = 0 then 0 else (n + chunk_size - 1) div chunk_size)"

definition head_chunk :: "bytes \<Rightarrow> bytes \<Rightarrow> nat \<Rightarrow> bytes" where
  "head_chunk rid payload chunk_size =
     TAG_HEAD # rid @ put_u32 (of_nat (length payload)) @
     put_u32 (of_nat (chunk_count_for (length payload) chunk_size)) @ put_u32 0 @
     take (if length payload < chunk_size then length payload else chunk_size) payload"

definition body_chunk :: "bytes \<Rightarrow> bytes \<Rightarrow> nat \<Rightarrow> nat \<Rightarrow> bytes" where
  "body_chunk rid payload chunk_size i =
     (let off = i * chunk_size;
          len = (if off + chunk_size > length payload then length payload - off else chunk_size)
      in TAG_BODY # rid @ put_u32 (of_nat i) @ take len (drop off payload))"

definition resource_send ::
  "ext \<Rightarrow> (bytes \<Rightarrow> ('a res_state_scheme, unit) prog) \<Rightarrow> nat option \<Rightarrow> bytes \<Rightarrow>
   ('a res_state_scheme, nat) prog" where
  "resource_send X bc lo payload =
     (case lo of
        None \<Rightarrow> raise (Runtime_error (Msg ''Resource::send requires an ACTIVE Link''))
      | Some lr \<Rightarrow> bnd (get_link lr) (\<lambda>l.
          if lk_status l \<noteq> ACTIVE
          then raise (Runtime_error (Msg ''Resource::send requires an ACTIVE Link''))
          else
            bnd (random_bytes X ID_BYTES) (\<lambda>rid.
            let chunk_size = chunk_size_for (lk_mtu l);
                chunk_count = chunk_count_for (length payload) chunk_size;
                o1 = (resource_new lr)
                  \<lparr>rs_id := rid, rs_total_size := length payload, rs_status := COMPLETE,
                   rs_chunk_count := chunk_count\<rparr> in
            if chunk_count = 0 then
              bnd (link_send X bc lr (TAG_HEAD # rid @ put_u32 0 @ put_u32 0 @ put_u32 0)) (\<lambda>_.
              alloc_res o1)
            else
              bnd (link_send X bc lr (head_chunk rid payload chunk_size)) (\<lambda>_.
              bnd (for_each [1..<chunk_count]
                (\<lambda>i. link_send X bc lr (body_chunk rid payload chunk_size i))) (\<lambda>_.
              alloc_res o1)))))"

section \<open>Receiving\<close>

definition resource_receive ::
  "nat option \<Rightarrow> nat option \<Rightarrow> nat option \<Rightarrow> ('a res_state_scheme, nat) prog" where
  "resource_receive lo on_complete on_progress =
     (case lo of
        None \<Rightarrow> raise (Runtime_error (Msg ''Resource::receive requires a Link''))
      | Some lr \<Rightarrow>
          bnd (alloc_res ((resource_new lr)
            \<lparr>rs_status := RECEIVING, rs_on_complete := on_complete, rs_on_progress := on_progress\<rparr>)) (\<lambda>r.
          bnd (set_link_packet_callback lr (Some (Resource_cb r))) (\<lambda>_. ret r)))"

text \<open>What a chunk stores, when the object accepts it.\<close>

definition accept_chunk :: "nat \<Rightarrow> bytes \<Rightarrow> resource \<Rightarrow> resource option" where
  "accept_chunk W chunk o1 =
     (if length chunk < 1 + ID_BYTES then None
      else
        let tag = chunk ! 0; rid = take ID_BYTES (drop 1 chunk); p = drop (1 + ID_BYTES) chunk in
        if tag = TAG_HEAD then
          (if length chunk < 1 + ID_BYTES + 12 then None
           else if rs_id o1 \<noteq> [] \<and> rs_id o1 \<noteq> rid then None
           else
             let payload = drop (1 + ID_BYTES + 12) chunk in
             Some (o1\<lparr>rs_id := rid, rs_total_size := unat (get_u32 p), rs_chunk_count := unat (get_u32 (drop 4 p)),
                      rs_chunks := AList.update (get_u32 (drop 8 p)) payload (rs_chunks o1),
                      rs_bytes_received := (rs_bytes_received o1 + length payload) mod 2 ^ W\<rparr>))
        else if tag = TAG_BODY then
          (if length chunk < 1 + ID_BYTES + 4 then None
           else if rs_id o1 = [] \<or> rs_id o1 \<noteq> rid then None
           else
             let payload = drop (1 + ID_BYTES + 4) chunk in
             Some (o1\<lparr>rs_chunks := AList.update (get_u32 p) payload (rs_chunks o1),
                      rs_bytes_received := (rs_bytes_received o1 + length payload) mod 2 ^ W\<rparr>))
        else None)"

fun assemble :: "(u32 \<times> bytes) list \<Rightarrow> nat list \<Rightarrow> bytes option" where
  "assemble chunks [] = Some []"
| "assemble chunks (i # is) =
     (case map_of chunks (of_nat i) of
        None \<Rightarrow> None
      | Some b \<Rightarrow> map_option (\<lambda>rest. b @ rest) (assemble chunks is))"

text \<open>The test whether every chunk has come.\<close>

definition complete ::
  "'a res_state_scheme res_app \<Rightarrow> nat \<Rightarrow> ('a res_state_scheme, unit) prog" where
  "complete ra r =
     bnd (get_res r) (\<lambda>o1.
     let finish = (\<lambda>d. bnd (set_res r (\<lambda>o1. o1\<lparr>rs_status := COMPLETE\<rparr>)) (\<lambda>_.
           case rs_on_complete o1 of None \<Rightarrow> ret () | Some cb \<Rightarrow> ra_complete ra cb d));
         fail = set_res r (\<lambda>o1. o1\<lparr>rs_status := FAILED\<rparr>) in
     if rs_chunk_count o1 > 0 \<and> length (rs_chunks o1) = rs_chunk_count o1 then
       (case assemble (rs_chunks o1) [0..<rs_chunk_count o1] of
          None \<Rightarrow> fail
        | Some d \<Rightarrow> if length d \<noteq> rs_total_size o1 then fail else finish d)
     else if rs_chunk_count o1 = 0 \<and> rs_total_size o1 = 0 then finish []
     else ret ())"

definition resource_on_chunk ::
  "nat \<Rightarrow> 'a res_state_scheme res_app \<Rightarrow> nat \<Rightarrow> bytes \<Rightarrow> ('a res_state_scheme, unit) prog" where
  "resource_on_chunk W ra r chunk =
     bnd (get_res r) (\<lambda>o1.
     if rs_status o1 \<noteq> RECEIVING then ret ()
     else case accept_chunk W chunk o1 of
        None \<Rightarrow> ret ()
      | Some o2 \<Rightarrow>
          bnd (set_res r (\<lambda>_. o2)) (\<lambda>_.
          bnd (case rs_on_progress o2 of
                 None \<Rightarrow> ret ()
               | Some cb \<Rightarrow> ra_progress ra cb (rs_bytes_received o2) (rs_total_size o2)) (\<lambda>_.
          complete ra r)))"

section \<open>Numbers on the wire\<close>

lemma put_u32_be: "put_u32 v = be 4 v"
proof -
  have "ucast (drop_bit k v AND 0xFF) = (ucast (drop_bit k v) :: u8)" for k
    unfolding and_0xFF by (rule bit_word_eqI) (auto simp: bit_take_bit_iff bit_ucast_iff bit_drop_bit_eq)
  from this[of 24] this[of 16] this[of 8] this[of 0] show ?thesis
    by (simp add: put_u32_def be_def upt_rec)
qed

lemma length_put_u32 [simp, len_simps]: "length (put_u32 v) = 4"
  by (simp add: put_u32_def)

lemma get_u32_unbe: "get_u32 (a # b # c # d # p) = unbe [a, b, c, d]"
  by (rule bit_word_eqI) (auto simp: get_u32_def unbe_def bit_or_iff bit_push_bit_iff bit_ucast_iff numeral_2_eq_2 numeral_3_eq_3)

lemma get_put_u32 [simp]: "get_u32 (put_u32 v @ p) = v"
proof -
  have "get_u32 (put_u32 v @ p) = unbe (put_u32 v)" by (simp add: put_u32_def get_u32_unbe)
  then show ?thesis by (simp add: put_u32_be unbe_be take_bit_word_eq_self)
qed
section \<open>Reassembly\<close>

definition piece :: "bytes \<Rightarrow> nat \<Rightarrow> nat \<Rightarrow> bytes" where
  "piece payload c i = take c (drop (i * c) payload)"

lemma chunks_defs:
  "head_chunk rid payload c = TAG_HEAD # rid @ put_u32 (of_nat (length payload)) @
     put_u32 (of_nat (chunk_count_for (length payload) c)) @ put_u32 0 @ piece payload c 0"
  "body_chunk rid payload c i = TAG_BODY # rid @ put_u32 (of_nat i) @ piece payload c i"
  by (auto simp: head_chunk_def body_chunk_def piece_def Let_def)

lemma concat_pieces: "concat (map (piece payload c) [0..<n]) = take (n * c) payload"
proof (induction n)
  case (Suc n)
  have "take (Suc n * c) payload = take (n * c) payload @ take c (drop (n * c) payload)"
    unfolding mult_Suc add.commute[of c] by (rule take_add)
  then show ?case using Suc by (simp add: piece_def)
qed simp

lemma chunk_count_bounds:
  assumes "0 < c"
  shows "len \<le> chunk_count_for len c * c" "chunk_count_for len c \<le> len"
    "chunk_count_for len c = 0 \<longleftrightarrow> len = 0"
proof -
  define q where "q = (len - 1) div c"
  have q: "len - 1 < c + c * q" "q \<le> len - 1"
    unfolding q_def using dividend_less_times_div[OF assms] by (auto intro: div_le_dividend)
  have n: "chunk_count_for len c = (if len = 0 then 0 else q + 1)"
  proof (cases "len = 0")
    case False
    then have "len + c - 1 = (len - 1) + c" by simp
    then show ?thesis using assms False by (simp only: chunk_count_for_def q_def if_False div_add_self2)
  qed (simp add: chunk_count_for_def)
  have "len \<le> c + c * q" using q(1) by linarith
  then show "len \<le> chunk_count_for len c * c" by (simp add: n algebra_simps)
  show "chunk_count_for len c \<le> len" using q(2) by (simp add: n) linarith
  show "chunk_count_for len c = 0 \<longleftrightarrow> len = 0" by (simp add: n)
qed

text \<open>A receiver that holds the chunks \<open>T\<close> of the payload.\<close>

definition collecting :: "bytes \<Rightarrow> bytes \<Rightarrow> nat \<Rightarrow> nat set \<Rightarrow> resource \<Rightarrow> bool" where
  "collecting rid payload c T o1 \<longleftrightarrow>
     rs_status o1 = RECEIVING \<and> rs_id o1 = rid \<and> rs_total_size o1 = length payload \<and>
     rs_chunk_count o1 = chunk_count_for (length payload) c \<and> distinct (map fst (rs_chunks o1)) \<and>
     fst ` set (rs_chunks o1) = of_nat ` T \<and>
     (\<forall>i \<in> T. map_of (rs_chunks o1) (of_nat i) = Some (piece payload c i))"

lemma of_nat_inj_on: "n \<le> 2 ^ 32 \<Longrightarrow> inj_on (of_nat :: nat \<Rightarrow> u32) {..<n}"
  by (auto intro!: inj_onI simp: word_of_nat_eq_iff take_bit_nat_eq_self)

lemma collecting_size:
  assumes "collecting rid payload c T o1" "T \<subseteq> {..<n}" "n \<le> 2 ^ 32"
  shows "length (rs_chunks o1) = card T"
proof -
  have "length (rs_chunks o1) = card (fst ` set (rs_chunks o1))"
    using assms(1) distinct_card[of "map fst (rs_chunks o1)"] by (simp add: collecting_def)
  also have "\<dots> = card ((of_nat :: nat \<Rightarrow> u32) ` T)" using assms(1) by (simp add: collecting_def)
  also have "\<dots> = card T"
    using of_nat_inj_on[OF assms(3)] assms(2) by (metis card_image inj_on_subset)
  finally show ?thesis .
qed

lemma assemble_pieces:
  "(\<And>i. i \<in> set is \<Longrightarrow> map_of cs (of_nat i) = Some (f i)) \<Longrightarrow> assemble cs is = Some (concat (map f is))"
  by (induction "is") simp_all

lemma collecting_insert:
  assumes "collecting rid payload c T o1" "insert i T \<subseteq> {..<n}" "n \<le> 2 ^ 32"
  shows "collecting rid payload c (insert i T)
    (o1\<lparr>rs_chunks := AList.update (of_nat i) (piece payload c i) (rs_chunks o1), rs_bytes_received := b\<rparr>)"
proof -
  have "(of_nat j :: u32) = of_nat i \<longleftrightarrow> j = i" if "j \<in> T" for j
    using of_nat_inj_on[OF assms(3)] assms(2) that by (auto simp: inj_on_def)
  then show ?thesis
    using assms(1) by (auto simp: collecting_def update_conv' distinct_update dom_update)
qed
section \<open>Nodes with a log of completed payloads and of sent frames\<close>

record rwire = res_state +
  res_done :: "bytes list"
  res_sent :: "bytes list"

definition emit :: "bytes \<Rightarrow> (rwire, unit) prog" where
  "emit f = modify (\<lambda>s. s\<lparr>res_sent := res_sent s @ [f]\<rparr>)"

definition log_app :: "rwire res_app" where
  "log_app =
    \<lparr>ra_complete = (\<lambda>_ d. modify (\<lambda>s. s\<lparr>res_done := res_done s @ [d]\<rparr>)),
     ra_progress = (\<lambda>_ _ _. ret ())\<rparr>"

text \<open>The state with resource \<open>r\<close> replaced and some completions added.\<close>

definition put_res :: "nat \<Rightarrow> resource \<Rightarrow> bytes list \<Rightarrow> rwire \<Rightarrow> rwire" where
  "put_res r o1 ds s = s\<lparr>res_heap := (res_heap s)[r := o1], res_done := res_done s @ ds\<rparr>"

lemma put_res_simps [simp]:
  "length (res_heap (put_res r o1 ds s)) = length (res_heap s)"
  "r < length (res_heap s) \<Longrightarrow> res_heap (put_res r o1 ds s) ! r = o1"
  "put_res r o2 es (put_res r o1 ds s) = put_res r o2 (ds @ es) s"
  "res_done (put_res r o1 ds s) = res_done s @ ds"
  by (simp_all add: put_res_def)

lemma get_res_run: "r < length (res_heap s) \<Longrightarrow> get_res r s = (Ret (res_heap s ! r), s)"
  by (simp add: get_res_def heap_get_def)

lemma set_res_run: "r < length (res_heap s) \<Longrightarrow> set_res r f s = (Ret (), put_res r (f (res_heap s ! r)) [] s)"
  by (simp add: set_res_def put_res_def)

text \<open>The outcome of a chunk: the object after it and the payloads handed to the callback.\<close>

definition absorb :: "nat \<Rightarrow> resource \<Rightarrow> bytes \<Rightarrow> resource \<times> bytes list" where
  "absorb W o1 chunk =
     (if rs_status o1 \<noteq> RECEIVING then (o1, [])
      else case accept_chunk W chunk o1 of
        None \<Rightarrow> (o1, [])
      | Some o2 \<Rightarrow>
         let done = (\<lambda>d. (o2\<lparr>rs_status := COMPLETE\<rparr>, case rs_on_complete o2 of None \<Rightarrow> [] | Some cb \<Rightarrow> [d])) in
         if rs_chunk_count o2 > 0 \<and> length (rs_chunks o2) = rs_chunk_count o2 then
           (case assemble (rs_chunks o2) [0..<rs_chunk_count o2] of
              None \<Rightarrow> (o2\<lparr>rs_status := FAILED\<rparr>, [])
            | Some d \<Rightarrow> if length d \<noteq> rs_total_size o2 then (o2\<lparr>rs_status := FAILED\<rparr>, []) else done d)
         else if rs_chunk_count o2 = 0 \<and> rs_total_size o2 = 0 then done []
         else (o2, []))"

lemma on_chunk_run:
  assumes "r < length (res_heap s)"
  shows "resource_on_chunk W log_app r chunk s =
    (case absorb W (res_heap s ! r) chunk of (o2, ds) \<Rightarrow> (Ret (), put_res r o2 ds s))"
proof -
  have same: "put_res r (res_heap s ! r) [] s = s" by (simp add: put_res_def)
  have add: "put_res r o2 [] s\<lparr>res_done := res_done s @ ds\<rparr> = put_res r o2 ds s" for o2 ds
    by (simp add: put_res_def)
  show ?thesis
  proof (cases "rs_status (res_heap s ! r) \<noteq> RECEIVING \<or> accept_chunk W chunk (res_heap s ! r) = None")
    case True
    then show ?thesis
      using assms same by (auto simp: resource_on_chunk_def bnd_def get_res_run absorb_def)
  next
    case False
    then obtain o2 where "rs_status (res_heap s ! r) = RECEIVING" "accept_chunk W chunk (res_heap s ! r) = Some o2"
      by auto
    then show ?thesis
      using assms add by (simp add: resource_on_chunk_def complete_def bnd_def get_res_run set_res_run absorb_def log_app_def Let_def
          split: option.split)
  qed
qed

fun absorb_all :: "nat \<Rightarrow> resource \<Rightarrow> bytes list \<Rightarrow> resource \<times> bytes list" where
  "absorb_all W o1 [] = (o1, [])"
| "absorb_all W o1 (c # cs) = (case absorb W o1 c of (o2, ds) \<Rightarrow>
     case absorb_all W o2 cs of (o3, es) \<Rightarrow> (o3, ds @ es))"

lemma on_chunks_run:
  assumes "r < length (res_heap s)"
  shows "for_each cs (resource_on_chunk W log_app r) s =
    (case absorb_all W (res_heap s ! r) cs of (o2, ds) \<Rightarrow> (Ret (), put_res r o2 ds s))"
  using assms
proof (induction cs arbitrary: s)
  case Nil
  then show ?case by (simp add: put_res_def)
next
  case (Cons c cs)
  then show ?case
    by (simp add: bnd_def on_chunk_run split: prod.split)
qed
lemma absorb_idle: "rs_status o1 \<noteq> RECEIVING \<Longrightarrow> absorb_all W o1 cs = (o1, [])"
  by (induction cs) (simp_all add: absorb_def)

lemma accept_body:
  assumes "length rid = 16" "rs_id o1 = rid"
  shows "accept_chunk W (body_chunk rid payload c i) o1 = Some (o1\<lparr>rs_chunks :=
    AList.update (of_nat i) (piece payload c i) (rs_chunks o1),
    rs_bytes_received := (rs_bytes_received o1 + length (piece payload c i)) mod 2 ^ W\<rparr>)"
  using assms by (auto simp: chunks_defs accept_chunk_def ID_BYTES_def TAG_HEAD_def TAG_BODY_def Let_def)

lemma accept_head:
  assumes "length rid = 16" "rs_id o1 = []" "length payload < 2 ^ 32" "n = chunk_count_for (length payload) c" "n < 2 ^ 32"
  shows "accept_chunk W (head_chunk rid payload c) o1 = Some (o1\<lparr>rs_id := rid, rs_total_size := length payload,
    rs_chunk_count := n, rs_chunks := AList.update 0 (piece payload c 0) (rs_chunks o1),
    rs_bytes_received := (rs_bytes_received o1 + length (piece payload c 0)) mod 2 ^ W\<rparr>)"
  using assms by (simp add: chunks_defs accept_chunk_def ID_BYTES_def TAG_HEAD_def Let_def unsigned_of_nat take_bit_nat_eq_self)

lemma absorb_collecting:
  assumes "accept_chunk W chunk o1 = Some o2" "rs_status o1 = RECEIVING" "collecting rid payload c T o2"
    "T \<subseteq> {..<n}" "n = chunk_count_for (length payload) c" "n < 2 ^ 32" "0 < n" "0 < c"
  shows "absorb W o1 chunk = (if T = {..<n}
    then (o2\<lparr>rs_status := COMPLETE\<rparr>, case rs_on_complete o2 of None \<Rightarrow> [] | Some cb \<Rightarrow> [payload]) else (o2, []))"
proof -
  have n: "rs_chunk_count o2 = n" "rs_total_size o2 = length payload" using assms(3,5) by (simp_all add: collecting_def)
  have sz: "length (rs_chunks o2) = n \<longleftrightarrow> T = {..<n}"
    using collecting_size[OF assms(3,4)] assms(4,6) card_subset_eq[of "{..<n}" T] by auto
  show ?thesis
  proof (cases "T = {..<n}")
    case True
    have "map_of (rs_chunks o2) (of_nat i) = Some (piece payload c i)" if "i \<in> set [0..<n]" for i
      using assms(3) True that by (simp add: collecting_def)
    from assemble_pieces[of "[0..<n]" "rs_chunks o2" "piece payload c", OF this] have "assemble (rs_chunks o2) [0..<n] = Some payload"
      using concat_pieces[of payload c n] chunk_count_bounds(1)[OF assms(8), of "length payload"] assms(5) by simp
    then show ?thesis using assms(1,2,7) n sz True by (simp add: absorb_def Let_def)
  next
    case False
    then show ?thesis using assms(1,2,7) n sz by (simp add: absorb_def Let_def)
  qed
qed

lemma absorb_bodies:
  assumes "collecting rid payload c T o1" "rs_on_complete o1 = Some cb" "length rid = 16"
    "n = chunk_count_for (length payload) c" "n < 2 ^ 32" "0 < c" "T \<subset> {..<n}" "set is \<subseteq> {..<n}" "T \<union> set is = {..<n}"
  shows "\<exists>o2. absorb_all W o1 (map (body_chunk rid payload c) is) = (o2, [payload]) \<and> rs_status o2 = COMPLETE"
  using assms(1,2,7-9)
proof (induction "is" arbitrary: T o1)
  case Nil
  then show ?case by simp
next
  case (Cons i "is")
  have st: "rs_status o1 = RECEIVING" "rs_id o1 = rid" using Cons.prems(1) by (simp_all add: collecting_def)
  note b = accept_body[OF assms(3) st(2), of W payload c i]
  let ?o2 = "o1\<lparr>rs_chunks := AList.update (of_nat i) (piece payload c i) (rs_chunks o1),
    rs_bytes_received := (rs_bytes_received o1 + length (piece payload c i)) mod 2 ^ W\<rparr>"
  have sub: "insert i T \<subseteq> {..<n}" using Cons.prems by auto
  have col: "collecting rid payload c (insert i T) ?o2"
    using collecting_insert[OF Cons.prems(1) sub] assms(5) by simp
  have n0: "0 < n" using sub by auto
  note ab = absorb_collecting[OF b st(1) col sub assms(4,5) n0 assms(6)]
  show ?case
  proof (cases "insert i T = {..<n}")
    case True
    then show ?thesis using ab Cons.prems(2) by (simp add: absorb_idle)
  next
    case False
    then have "insert i T \<subset> {..<n}" using sub by auto
    moreover have "set is \<subseteq> {..<n}" "insert i T \<union> set is = {..<n}" using Cons.prems by auto
    moreover have "rs_on_complete ?o2 = Some cb" using Cons.prems(2) by simp
    ultimately obtain o3 where "absorb_all W ?o2 (map (body_chunk rid payload c) is) = (o3, [payload])"
      "rs_status o3 = COMPLETE"
      using Cons.IH[OF col] by blast
    then show ?thesis using ab False by simp
  qed
qed

text \<open>A receiver that nothing has reached yet.\<close>

definition fresh_receiver :: "nat \<Rightarrow> resource \<Rightarrow> bool" where
  "fresh_receiver cb o1 \<longleftrightarrow> rs_status o1 = RECEIVING \<and> rs_id o1 = [] \<and> rs_chunks o1 = [] \<and>
     rs_on_complete o1 = Some cb"

lemma absorb_transfer:
  assumes "fresh_receiver cb o1" "length rid = 16" "length payload < 2 ^ 32" "0 < c"
    "set is = {1..<chunk_count_for (length payload) c}"
  shows "\<exists>o2. absorb_all W o1 (head_chunk rid payload c # map (body_chunk rid payload c) is) = (o2, [payload]) \<and>
    rs_status o2 = COMPLETE"
proof -
  define n where "n = chunk_count_for (length payload) c"
  note b = chunk_count_bounds[OF assms(4), of "length payload", folded n_def]
  have n: "n < 2 ^ 32" using b(2) assms(3) by linarith
  have st: "rs_status o1 = RECEIVING" "rs_id o1 = []" "rs_chunks o1 = []" "rs_on_complete o1 = Some cb"
    using assms(1) by (simp_all add: fresh_receiver_def)
  note k = accept_head[OF assms(2) st(2) assms(3) n_def n, of W]
  let ?o2 = "o1\<lparr>rs_id := rid, rs_total_size := length payload, rs_chunk_count := n,
    rs_chunks := AList.update 0 (piece payload c 0) (rs_chunks o1),
    rs_bytes_received := (rs_bytes_received o1 + length (piece payload c 0)) mod 2 ^ W\<rparr>"
  show ?thesis
  proof (cases "n = 0")
    case True
    then have "payload = []" "is = []" using b(3) assms(5) by (auto simp: n_def)
    then show ?thesis using k st True by (simp add: absorb_def)
  next
    case False
    have col: "collecting rid payload c {0} ?o2" using st by (simp add: collecting_def n_def)
    note ab = absorb_collecting[OF k st(1) col _ n_def n _ assms(4)]
    show ?thesis
    proof (cases "n = 1")
      case True
      then have "{0} = {..<n}" by auto
      then show ?thesis using ab True st(4) by (simp add: absorb_idle)
    next
      case neq: False
      then have "1 < n" using False by linarith
      then have T: "{0} \<subset> {..<n}" "set is \<subseteq> {..<n}" "{0} \<union> set is = {..<n}"
        using assms(5)[folded n_def] by force+
      have "rs_on_complete ?o2 = Some cb" using st(4) by simp
      from absorb_bodies[OF col this assms(2) n_def n assms(4) T] obtain o3 where
        "absorb_all W ?o2 (map (body_chunk rid payload c) is) = (o3, [payload])" "rs_status o3 = COMPLETE" by blast
      moreover have "{0} \<noteq> {..<n}" using T by blast
      ultimately show ?thesis using ab False by auto
    qed
  qed
qed
section \<open>Properties\<close>

text \<open>
  Reassembly in any order. Once the head chunk has come, the body chunks may arrive in any order and
  any number of times: as soon as every index has come the receiver hands exactly the payload to its
  completion callback, once, and ignores the rest; an empty payload completes at once.
\<close>

theorem resource_reassembly:
  assumes "r < length (res_heap s)" "fresh_receiver cb (res_heap s ! r)" "length rid = 16"
    "length payload < 2 ^ 32" "0 < c" "set is = {1..<chunk_count_for (length payload) c}"
  shows "\<exists>s'. for_each (head_chunk rid payload c # map (body_chunk rid payload c) is)
      (resource_on_chunk W log_app r) s = (Ret (), s') \<and>
    res_done s' = res_done s @ [payload] \<and> rs_status (res_heap s' ! r) = COMPLETE"
proof -
  obtain o2 where "absorb_all W (res_heap s ! r) (head_chunk rid payload c # map (body_chunk rid payload c) is) = (o2, [payload])"
    "rs_status o2 = COMPLETE"
    using absorb_transfer[OF assms(2-6)] by blast
  then show ?thesis
    using on_chunks_run[OF assms(1), of "head_chunk rid payload c # map (body_chunk rid payload c) is" W] assms(1)
    by auto
qed

lemma absorb_once:
  assumes "rs_on_complete o1 = Some cb" "absorb_all W o1 cs = (o2, ds)"
  shows "(rs_status o1 \<noteq> RECEIVING \<longrightarrow> o2 = o1 \<and> ds = []) \<and>
    (rs_status o1 = RECEIVING \<longrightarrow> (rs_status o2 = RECEIVING \<or> rs_status o2 = FAILED) \<and> ds = [] \<or>
      rs_status o2 = COMPLETE \<and> (\<exists>d. ds = [d] \<and> length d = rs_total_size o2))"
  using assms
proof (induction cs arbitrary: o1 ds)
  case Nil
  then show ?case by (cases "rs_status o1 = RECEIVING") auto
next
  case (Cons c cs)
  obtain o' es where a: "absorb W o1 c = (o', es)" by fastforce
  obtain fs where b: "absorb_all W o' cs = (o2, fs)" "ds = es @ fs"
    using Cons.prems(2) a by (auto split: prod.splits)
  have keep: "rs_on_complete o' = Some cb"
    using a Cons.prems(1) by (auto simp: absorb_def accept_chunk_def Let_def split: if_splits option.splits)
  have step: "rs_status o1 = RECEIVING \<Longrightarrow> (rs_status o' = RECEIVING \<or> rs_status o' = FAILED) \<and> es = [] \<or>
      rs_status o' = COMPLETE \<and> (\<exists>d. es = [d] \<and> length d = rs_total_size o')"
    using a Cons.prems(1) by (auto simp: absorb_def accept_chunk_def Let_def split: if_splits option.splits)
  show ?case
  proof (cases "rs_status o1 = RECEIVING")
    case True
    then show ?thesis using step[OF True] Cons.IH[OF keep b(1)] b(2) by (cases "rs_status o'") auto
  next
    case False
    then show ?thesis using Cons.prems(2) absorb_idle[OF False, of W "c # cs"] by simp
  qed
qed

text \<open>
  C24: whatever chunks arrive, a receiver completes at most once: the payloads handed to its callback are
  none or one, one exactly when it ends complete, and then of the size the head chunk announced. A
  receiver that ended, complete or failed, never changes again.
\<close>

theorem resource_once:
  assumes "r < length (res_heap s)" "rs_on_complete (res_heap s ! r) = Some cb"
  shows "\<exists>s' ds. for_each cs (resource_on_chunk W log_app r) s = (Ret (), s') \<and> res_done s' = res_done s @ ds \<and>
    (rs_status (res_heap s ! r) \<noteq> RECEIVING \<longrightarrow> res_heap s' = res_heap s \<and> ds = []) \<and>
    (rs_status (res_heap s ! r) = RECEIVING \<longrightarrow>
      rs_status (res_heap s' ! r) \<in> {RECEIVING, FAILED} \<and> ds = [] \<or>
      rs_status (res_heap s' ! r) = COMPLETE \<and> (\<exists>d. ds = [d] \<and> length d = rs_total_size (res_heap s' ! r)))"
proof -
  obtain o2 ds where a: "absorb_all W (res_heap s ! r) cs = (o2, ds)" by fastforce
  have "res_heap (put_res r (res_heap s ! r) [] s) = res_heap s" by (simp add: put_res_def)
  then show ?thesis
    using absorb_once[OF assms(2) a] on_chunks_run[OF assms(1), of cs W] a assms(1)
    by (intro exI[of _ "put_res r o2 ds s"] exI[of _ ds]) auto
qed

text \<open>
  Body chunks that overtake the head chunk are lost: a receiver that has not seen a head ignores them,
  so it is left exactly as it was and has to get them again.
\<close>

theorem resource_head_first:
  assumes "r < length (res_heap s)" "fresh_receiver cb (res_heap s ! r)" "length rid = 16"
  shows "for_each (map (body_chunk rid payload c) is) (resource_on_chunk W log_app r) s = (Ret (), s)"
proof -
  have st: "rs_id (res_heap s ! r) = []" using assms(2) by (simp add: fresh_receiver_def)
  have "accept_chunk W (body_chunk rid payload c i) (res_heap s ! r) = None" for i
    using assms(3) st by (simp add: chunks_defs accept_chunk_def ID_BYTES_def TAG_HEAD_def TAG_BODY_def Let_def)
  then have "absorb_all W (res_heap s ! r) (map (body_chunk rid payload c) is) = (res_heap s ! r, [])"
    by (induction "is") (simp_all add: absorb_def)
  then show ?thesis
    using on_chunks_run[OF assms(1), of "map (body_chunk rid payload c) is" W] by (simp add: put_res_def)
qed
section \<open>A transfer over a link\<close>

lemma for_each_map: "for_each (map g xs) f = for_each xs (\<lambda>x. f (g x))"
  by (induction xs) simp_all

text \<open>A frame of link \<open>l\<close> that carries the plaintext \<open>d\<close>.\<close>

definition carries :: "ext \<Rightarrow> token \<Rightarrow> bytes \<Rightarrow> bytes \<Rightarrow> bytes \<Rightarrow> bool" where
  "carries X t h f d \<longleftrightarrow> length f = 67 + 16 * (length d div 16 + 1) \<and>
     (let (ok, u) = packet_unpack X (packet_of_raw f) in
      ok \<and> pk_destination_hash u = h \<and> pk_packet_type u = DATA \<and> pk_context u = CONTEXT_NONE \<and>
      token_decrypt X t (pk_data u) = Ret d)"

lemma emit_run:
  assumes "crypto_laws X" "n < length (link_heap s)" "lk_status (link_heap s ! n) = ACTIVE"
    "lk_token (link_heap s ! n) = Some t" "token_ok t" "length (lk_hash (link_heap s ! n)) = 16"
  shows "\<exists>f s'. link_send X emit n d s = (Ret (), s') \<and> res_sent s' = res_sent s @ [f] \<and>
    link_heap s' = link_heap s \<and> res_heap s' = res_heap s \<and> carries X t (lk_hash (link_heap s ! n)) f d"
proof -
  obtain c where c: "token_encrypt X t d s = (Ret c, s\<lparr>hal_calls := hal_calls s + 1\<rparr>)"
    "token_decrypt X t c = Ret d" "length c = 48 + 16 * (length d div 16 + 1)"
    using token_sealed[OF assms(1,5)] by blast
  let ?f = "frame 0x0C 0 [] (lk_hash (link_heap s ! n)) CONTEXT_NONE c"
  obtain u where "packet_unpack X (packet_of_raw ?f) = (True, u)" "pk_destination_hash u = lk_hash (link_heap s ! n)"
    "pk_context u = CONTEXT_NONE" "pk_data u = c" "pk_packet_type u = packet_type_of (0x0C AND 0b00000011)"
    using unpack_narrow[OF narrow_flags(2) assms(6), where X = X and h = 0 and c = CONTEXT_NONE and d = c] by blast
  then have "carries X t (lk_hash (link_heap s ! n)) ?f d"
    using c(2,3) assms(6) by (simp add: carries_def packet_type_of_def frame_def)
  then show ?thesis
    using send_run[OF assms(2-4) c(1), of emit CONTEXT_NONE] by (simp add: link_send_def emit_def)
qed

lemma emit_all_run:
  assumes "crypto_laws X" "n < length (link_heap s)" "lk_status (link_heap s ! n) = ACTIVE"
    "lk_token (link_heap s ! n) = Some t" "token_ok t" "length (lk_hash (link_heap s ! n)) = 16"
  shows "\<exists>fs s'. for_each ds (link_send X emit n) s = (Ret (), s') \<and> res_sent s' = res_sent s @ fs \<and>
    link_heap s' = link_heap s \<and> res_heap s' = res_heap s \<and> list_all2 (carries X t (lk_hash (link_heap s ! n))) fs ds"
  using assms(2-4,6)
proof (induction ds arbitrary: s)
  case Nil
  then show ?case by simp
next
  case (Cons d ds)
  obtain f s1 where s1: "link_send X emit n d s = (Ret (), s1)" "res_sent s1 = res_sent s @ [f]"
    "link_heap s1 = link_heap s" "res_heap s1 = res_heap s" "carries X t (lk_hash (link_heap s ! n)) f d"
    using emit_run[OF assms(1) Cons.prems(1-3) assms(5) Cons.prems(4)] by blast
  obtain fs s2 where "for_each ds (link_send X emit n) s1 = (Ret (), s2)" "res_sent s2 = res_sent s1 @ fs"
    "link_heap s2 = link_heap s1" "res_heap s2 = res_heap s1" "list_all2 (carries X t (lk_hash (link_heap s ! n))) fs ds"
    using Cons.IH[of s1] Cons.prems s1(3) by auto
  then show ?case using s1 by (intro exI[of _ "f # fs"] exI[of _ s2]) (simp add: bnd_def)
qed

text \<open>The chunks of a payload: a lone head for an empty one.\<close>

definition chunks_of :: "bytes \<Rightarrow> bytes \<Rightarrow> nat \<Rightarrow> bytes list" where
  "chunks_of rid payload c =
     head_chunk rid payload c # map (body_chunk rid payload c) [1..<chunk_count_for (length payload) c]"

lemma chunk_size_pos: "0 < chunk_size_for m"
  by (simp add: chunk_size_for_def CHUNK_PAYLOAD_def)

lemma resource_send_run:
  assumes "crypto_laws X" "n < length (link_heap s)" "lk_status (link_heap s ! n) = ACTIVE"
    "lk_token (link_heap s ! n) = Some t" "token_ok t" "length (lk_hash (link_heap s ! n)) = 16"
    "c = chunk_size_for (lk_mtu (link_heap s ! n))"
  shows "\<exists>rid fs s'. length rid = 16 \<and> resource_send X emit (Some n) payload s = (Ret (length (res_heap s)), s') \<and>
    res_sent s' = res_sent s @ fs \<and> list_all2 (carries X t (lk_hash (link_heap s ! n))) fs (chunks_of rid payload c)"
proof -
  obtain rid where rid: "random_bytes X 16 s = (Ret rid, s\<lparr>hal_calls := hal_calls s + 1\<rparr>)" "length rid = 16"
    using random_ok[OF crypto_lawsD(7)[OF assms(1)]] by blast
  let ?s = "s\<lparr>hal_calls := hal_calls s + 1\<rparr>"
  obtain fs s' where run: "for_each (chunks_of rid payload c) (link_send X emit n) ?s = (Ret (), s')"
    "res_sent s' = res_sent s @ fs" "res_heap s' = res_heap s"
    "list_all2 (carries X t (lk_hash (link_heap s ! n))) fs (chunks_of rid payload c)"
    using emit_all_run[OF assms(1), of n ?s t "chunks_of rid payload c"] assms(2-6) by auto
  define o1 where "o1 = (resource_new n)\<lparr>rs_id := rid, rs_total_size := length payload, rs_status := COMPLETE,
      rs_chunk_count := chunk_count_for (length payload) c\<rparr>"
  have e: "chunk_count_for (length payload) c = 0 \<Longrightarrow> head_chunk rid payload c = TAG_HEAD # rid @ put_u32 0 @ put_u32 0 @ put_u32 0"
    using chunk_count_bounds(3)[of c "length payload"] chunk_size_pos assms(7) by (simp add: chunks_defs piece_def)
  have "resource_send X emit (Some n) payload s =
      bnd (for_each (chunks_of rid payload c) (link_send X emit n)) (\<lambda>_. alloc_res o1) ?s"
    unfolding resource_send_def option.case chunks_of_def for_each.simps for_each_map bnd_assoc
    by (subst bnd_Ret[where m = "get_link n", OF get_link_run[OF assms(2)]],
        simp only: assms(3) simp_thms if_False,
        subst bnd_Ret[where m = "random_bytes X ID_BYTES", OF rid(1)[folded ID_BYTES_def]])
      (cases "chunk_count_for (length payload) c = 0"; simp add: assms(7)[symmetric] e o1_def Let_def)
  then have "resource_send X emit (Some n) payload s = alloc_res o1 s'"
    using run(1) by (simp add: bnd_def)
  then show ?thesis using run rid(2) by (auto simp: alloc_res_def)
qed
lemma list_all2_pick:
  "list_all2 P xs ys \<Longrightarrow> \<forall>i \<in> set is. i < length xs \<Longrightarrow> list_all2 P (map ((!) xs) is) (map ((!) ys) is)"
  by (auto simp: list_all2_map1 list_all2_map2 list_all2_same list_all2_nthD)

text \<open>A link whose packets go to resource \<open>r\<close>.\<close>

lemma inbound_chunk:
  assumes "k < length (link_heap s)" "l = link_heap s ! k" "lk_status l = ACTIVE" "lk_token l = Some t"
    "lk_on_packet l = Some (Resource_cb r)" "carries X t h f d" "d \<noteq> []"
    "\<And>d. app_link_packet app (Resource_cb r) d k = resource_on_chunk W log_app r d"
  shows "link_on_inbound X W app bc k (snd (packet_unpack X (packet_of_raw f))) s = resource_on_chunk W log_app r d s"
  using assms by (simp add: inbound_run carries_def CONTEXT_NONE_def REQUEST_def case_prod_beta)

lemma inbound_chunks:
  assumes "k < length (link_heap s)" "l = link_heap s ! k" "lk_status l = ACTIVE" "lk_token l = Some t"
    "lk_on_packet l = Some (Resource_cb r)" "r < length (res_heap s)" "list_all2 (carries X t h) fs ds" "[] \<notin> set ds"
    "\<And>d. app_link_packet app (Resource_cb r) d k = resource_on_chunk W log_app r d"
  shows "for_each fs (\<lambda>f. link_on_inbound X W app bc k (snd (packet_unpack X (packet_of_raw f)))) s =
    for_each ds (resource_on_chunk W log_app r) s"
  using assms(7,1,2,6,8)
proof (induction arbitrary: s rule: list_all2_induct)
  case (Cons f fs d ds)
  have d: "d \<noteq> []" using Cons.prems(4) by auto
  have "link_on_inbound X W app bc k (snd (packet_unpack X (packet_of_raw f))) s = resource_on_chunk W log_app r d s"
    by (rule inbound_chunk[OF Cons.prems(1,2) assms(3-5) Cons.hyps(1) d assms(9)])
  moreover obtain o2 es where "resource_on_chunk W log_app r d s = (Ret (), put_res r o2 es s)"
    using on_chunk_run[OF Cons.prems(3), of W d] by (cases "absorb W (res_heap s ! r) d") auto
  moreover have "link_heap (put_res r o2 es s) = link_heap s" by (simp add: put_res_def)
  ultimately show ?case
    using Cons.IH[of "put_res r o2 es s"] Cons.prems by (simp add: bnd_def)
qed simp

text \<open>
  C10: a payload of less than \<open>2 ^ 32\<close> bytes sent as a resource over an established session arrives: the
  sender puts one frame per chunk on the wire, and when the receiver's link gets the first of them and
  then the others in any order, any number of times, its resource hands exactly the payload to
  its completion callback.
\<close>

theorem resource_transfer:
  assumes "crypto_laws X" "n < length (link_heap a)" "k < length (link_heap b)" "r < length (res_heap b)"
    "same_session (link_heap a ! n) (link_heap b ! k)" "lk_on_packet (link_heap b ! k) = Some (Resource_cb r)"
    "fresh_receiver cb (res_heap b ! r)" "length payload < 2 ^ 32"
    "\<And>d. app_link_packet app (Resource_cb r) d k = resource_on_chunk W log_app r d"
  shows "\<exists>o1 a' fs. resource_send X emit (Some n) payload a = (Ret o1, a') \<and> res_sent a' = res_sent a @ fs \<and>
    fs \<noteq> [] \<and> (\<forall>is. set is = {1..<length fs} \<longrightarrow>
      (\<exists>b'. for_each (map ((!) fs) (0 # is))
          (\<lambda>f. link_on_inbound X W app bc k (snd (packet_unpack X (packet_of_raw f)))) b = (Ret (), b') \<and>
        res_done b' = res_done b @ [payload]))"
proof -
  from assms(5) obtain t where t: "lk_token (link_heap a ! n) = Some t" "lk_token (link_heap b ! k) = Some t" "token_ok t"
    and st: "lk_status (link_heap a ! n) = ACTIVE" "lk_status (link_heap b ! k) = ACTIVE"
      "length (lk_hash (link_heap a ! n)) = 16"
    by (auto simp: same_session_def)
  define c where "c = chunk_size_for (lk_mtu (link_heap a ! n))"
  define m where "m = chunk_count_for (length payload) c"
  obtain rid fs a' where rid: "length rid = 16"
    and snd: "resource_send X emit (Some n) payload a = (Ret (length (res_heap a)), a')" "res_sent a' = res_sent a @ fs"
    and fs: "list_all2 (carries X t (lk_hash (link_heap a ! n))) fs (chunks_of rid payload c)"
    using resource_send_run[OF assms(1,2) st(1) t(1,3) st(3) c_def] by blast
  have len: "length fs = Suc (m - 1)" using list_all2_lengthD[OF fs] by (simp add: chunks_of_def m_def)
  define ch where "ch = (\<lambda>i. if i = 0 then head_chunk rid payload c else body_chunk rid payload c i)"
  have ch: "chunks_of rid payload c ! i = ch i" if "i < length fs" for i
    using that len by (cases i) (simp_all add: chunks_of_def ch_def m_def)
  have run: "\<exists>b'. for_each (map ((!) fs) (0 # is))
      (\<lambda>f. link_on_inbound X W app bc k (snd (packet_unpack X (packet_of_raw f)))) b = (Ret (), b') \<and>
    res_done b' = res_done b @ [payload]" if "is": "set is = {1..<length fs}" for "is"
  proof -
    have lt: "\<forall>i \<in> set (0 # is). i < length fs" using "is" len by auto
    then have "map ((!) (chunks_of rid payload c)) (0 # is) = map ch (0 # is)" using ch by (intro map_cong) auto
    then have A: "list_all2 (carries X t (lk_hash (link_heap a ! n))) (map ((!) fs) (0 # is)) (map ch (0 # is))"
      using list_all2_pick[OF fs lt] by (simp only:)
    have B: "[] \<notin> set (map ch (0 # is))" by (auto simp: ch_def chunks_defs)
    have z: "ch i = body_chunk rid payload c i" if "i \<in> set is" for i
      using that unfolding "is" by (simp add: ch_def)
    have "map ch is = map (body_chunk rid payload c) is" by (rule map_cong[OF refl z])
    then have C: "map ch (0 # is) = head_chunk rid payload c # map (body_chunk rid payload c) is"
      by (simp add: ch_def)
    note inbound_chunks[OF assms(3) refl st(2) t(2) assms(6,4) A B assms(9), of bc, unfolded C]
    moreover have "set is = {1..<m}" unfolding "is" len by (cases m) simp_all
    ultimately show ?thesis
      using resource_reassembly[OF assms(4,7) rid assms(8), of c "is" W] chunk_size_pos
      by (simp only: m_def c_def) blast
  qed
  show ?thesis using snd run len by (intro exI[of _ "length (res_heap a)"] exI[of _ a'] exI[of _ fs]) auto
qed

section \<open>Concrete instances\<close>

definition toy_res :: resource where
  "toy_res = (resource_new 0)\<lparr>rs_status := RECEIVING, rs_on_complete := Some 0\<rparr>"

definition toy_rnode :: rwire where
  "toy_rnode =
    \<lparr>hal_calls = 5, known_destinations = Map.empty, fs_impl = None, dest_heap = [],
     link_heap = [(toy_link ACTIVE)\<lparr>lk_on_packet := Some (Resource_cb 0)\<rparr>], res_heap = [toy_res],
     res_done = [], res_sent = []\<rparr>"

definition toy_rapp :: "rwire app" where
  "toy_rapp =
    \<lparr>app_packet = (\<lambda>_ _ _. ret ()), app_generator = (\<lambda>_ _ _ _ _ _. ret []), app_established = (\<lambda>_ _. ret ()),
     app_link_packet = (\<lambda>cb d _. case cb of App_cb _ \<Rightarrow> ret () | Resource_cb r \<Rightarrow> resource_on_chunk 32 log_app r d),
     app_announce = (\<lambda>_ _ _ _. ret ()), app_link_request = (\<lambda>_ _ _ _. ret None)\<rparr>"

lemma toy_rnode_simps:
  "0 < length (res_heap toy_rnode)" "res_heap toy_rnode ! 0 = toy_res" "0 < length (link_heap toy_rnode)"
  "res_done toy_rnode = []" "res_sent toy_rnode = []" "fresh_receiver 0 toy_res"
  "rs_on_complete toy_res = Some 0" "lk_mtu (link_heap toy_rnode ! 0) = 500"
  "lk_on_packet (link_heap toy_rnode ! 0) = Some (Resource_cb 0)"
  "same_session (link_heap toy_rnode ! 0) (link_heap toy_rnode ! 0)"
  using toy_session
  by (simp_all add: toy_rnode_def toy_res_def resource_new_def fresh_receiver_def same_session_def toy_link_def
      fresh_link_def size_values)

theorem resource_reassembly_witness:
  "\<exists>s'. for_each [head_chunk (replicate 16 7) [1, 2, 3] 1, body_chunk (replicate 16 7) [1, 2, 3] 1 2,
      body_chunk (replicate 16 7) [1, 2, 3] 1 1] (resource_on_chunk 32 log_app 0) toy_rnode = (Ret (), s') \<and>
    res_done s' = [[1, 2, 3]]"
proof -
  have "set [2, 1] = {1..<chunk_count_for (length [1 :: u8, 2, 3]) 1}" by (auto simp: chunk_count_for_def)
  from resource_reassembly[OF toy_rnode_simps(1) _ _ _ _ this, of 0 "replicate 16 7" 32]
  show ?thesis by (auto simp: toy_rnode_simps)
qed

theorem resource_once_witness:
  "\<exists>s' ds. for_each [[0xA0], replicate 40 0xA0] (resource_on_chunk 32 log_app 0) toy_rnode = (Ret (), s') \<and>
    res_done s' = ds \<and> length ds \<le> 1"
  using resource_once[OF toy_rnode_simps(1), of 0 "[[0xA0], replicate 40 0xA0]" 32]
  by (auto simp: toy_rnode_simps)

theorem resource_head_first_witness:
  "for_each (map (body_chunk (replicate 16 7) [1, 2, 3] 1) [1, 2]) (resource_on_chunk 32 log_app 0) toy_rnode =
    (Ret (), toy_rnode)"
  by (rule resource_head_first[OF toy_rnode_simps(1), where cb = 0]) (simp_all add: toy_rnode_simps)

theorem resource_transfer_witness:
  "\<exists>o1 a' fs b'. resource_send toy emit (Some 0) [1, 2, 3] toy_rnode = (Ret o1, a') \<and> res_sent a' = fs \<and>
    for_each (map ((!) fs) (0 # [1..<length fs]))
      (\<lambda>f. link_on_inbound toy 32 toy_rapp emit 0 (snd (packet_unpack toy (packet_of_raw f)))) toy_rnode = (Ret (), b') \<and>
    res_done b' = [[1, 2, 3]]"
proof -
  have "app_link_packet toy_rapp (Resource_cb 0) d 0 = resource_on_chunk 32 log_app 0 d" for d
    by (simp add: toy_rapp_def)
  from resource_transfer[OF toy_laws toy_rnode_simps(3,3,1,10,9) _ _ this, of 0 "[1, 2, 3]" emit]
  show ?thesis by (force simp: toy_rnode_simps)
qed


end
