(* ===== verification/Transport.thy ===== *)
theory Transport
  imports Resource
begin

text \<open>
  Transport (src/transport.cpp, include/rtreticulum/transport.h), the interface base class
  (src/interface.cpp, include/rtreticulum/interface.h) and the loopback interface
  (src/interfaces/loopback.cpp): tables of interfaces, destinations, paths, links and seen
  announces, dispatch of received frames, announce processing and forwarding.

  A loopback interface delivers a frame to its peer inside \<open>send_outgoing\<close>, so receiving a frame can
  call itself again. That recursion is bounded by a number of nested calls, and running out of it is
  the fault \<open>Out_of_fuel\<close>. A device interface is a driver outside the library: the model keeps the
  frames handed to it. The application is a function of the broadcast its callbacks may use. The
  recursive mutex serializes the entry points and has no effect on the values, so it is left out.
\<close>

section \<open>State\<close>

datatype iface_kind = Loopback "nat option" | Device

record iface =
  if_kind :: iface_kind
  if_online :: bool
  if_rxb :: nat
  if_txb :: nat
  if_out :: "bytes list"

record path_entry =
  pe_next_hop :: bytes
  pe_hops :: u8
  pe_timestamp :: rtime
  pe_via :: "nat option"

text \<open>The static members; interfaces are objects of a heap, named by their index.\<close>

record net_state = res_state +
  net_heap :: "iface list"
  net_interfaces :: "nat list"
  net_destinations :: "bytes \<Rightarrow> nat option"
  net_paths :: "bytes \<Rightarrow> path_entry option"
  net_links :: "bytes \<Rightarrow> nat option"
  net_seen :: "bytes set"
  net_on_announce :: "nat option"
  net_on_link_request :: "nat option"

definition get_iface :: "nat \<Rightarrow> ('a net_state_scheme, iface) prog" where
  "get_iface i = heap_get net_heap i"

definition set_iface :: "nat \<Rightarrow> (iface \<Rightarrow> iface) \<Rightarrow> ('a net_state_scheme, unit) prog" where
  "set_iface i f s =
     (if i < length (net_heap s)
      then (Ret (), s\<lparr>net_heap := (net_heap s)[i := f (net_heap s ! i)]\<rparr>) else (Fault Null_deref, s))"

section \<open>Loopback interfaces\<close>

definition loopback_create :: "('a net_state_scheme, nat) prog" where
  "loopback_create s = (Ret (length (net_heap s)),
     s\<lparr>net_heap := net_heap s @
       [\<lparr>if_kind = Loopback None, if_online = True, if_rxb = 0, if_txb = 0, if_out = []\<rparr>]\<rparr>)"

definition loopback_pair :: "nat \<Rightarrow> nat \<Rightarrow> ('a net_state_scheme, unit) prog" where
  "loopback_pair a b =
     bnd (set_iface a (\<lambda>f. f\<lparr>if_kind := Loopback (Some b)\<rparr>)) (\<lambda>_.
     set_iface b (\<lambda>f. f\<lparr>if_kind := Loopback (Some a)\<rparr>))"

text \<open>\<open>send_outgoing\<close> of either kind; \<open>rec\<close> is \<open>handle_incoming\<close> of the peer.\<close>

definition send_via ::
  "(nat \<Rightarrow> bytes \<Rightarrow> ('a net_state_scheme, unit) prog) \<Rightarrow> nat \<Rightarrow> bytes \<Rightarrow> ('a net_state_scheme, unit) prog" where
  "send_via rec i raw =
     bnd (get_iface i) (\<lambda>f.
     case if_kind f of
       Loopback peer \<Rightarrow>
         bnd (set_iface i (\<lambda>f. f\<lparr>if_txb := if_txb f + length raw\<rparr>)) (\<lambda>_.
         case peer of None \<Rightarrow> ret () | Some j \<Rightarrow> rec j raw)
     | Device \<Rightarrow> set_iface i (\<lambda>f. f\<lparr>if_out := if_out f @ [raw]\<rparr>))"

section \<open>Tables\<close>

definition register_interface :: "nat \<Rightarrow> ('a net_state_scheme, unit) prog" where
  "register_interface i = modify (\<lambda>s. s\<lparr>net_interfaces := net_interfaces s @ [i]\<rparr>)"

definition deregister_interface :: "nat \<Rightarrow> ('a net_state_scheme, unit) prog" where
  "deregister_interface i = modify (\<lambda>s. s\<lparr>net_interfaces := filter (\<lambda>j. j \<noteq> i) (net_interfaces s)\<rparr>)"

definition register_destination :: "nat \<Rightarrow> ('a net_state_scheme, unit) prog" where
  "register_destination r =
     bnd (get_dest r) (\<lambda>d. modify (\<lambda>s. s\<lparr>net_destinations := (net_destinations s)(dst_hash d \<mapsto> r)\<rparr>))"

definition deregister_destination :: "nat \<Rightarrow> ('a net_state_scheme, unit) prog" where
  "deregister_destination r =
     bnd (get_dest r) (\<lambda>d. modify (\<lambda>s. s\<lparr>net_destinations := (net_destinations s)(dst_hash d := None)\<rparr>))"

definition find_destination_from_hash :: "bytes \<Rightarrow> 'a net_state_scheme \<Rightarrow> nat option" where
  "find_destination_from_hash h s = net_destinations s h"

text \<open>The links' arguments are handles, null in the \<open>None\<close> case.\<close>

definition register_link :: "nat option \<Rightarrow> ('a net_state_scheme, unit) prog" where
  "register_link lo =
     (case lo of
        None \<Rightarrow> ret ()
      | Some r \<Rightarrow> bnd (get_link r) (\<lambda>l. modify (\<lambda>s. s\<lparr>net_links := (net_links s)(lk_hash l \<mapsto> r)\<rparr>)))"

definition deregister_link :: "nat option \<Rightarrow> ('a net_state_scheme, unit) prog" where
  "deregister_link lo =
     (case lo of
        None \<Rightarrow> ret ()
      | Some r \<Rightarrow> bnd (get_link r) (\<lambda>l. modify (\<lambda>s. s\<lparr>net_links := (net_links s)(lk_hash l := None)\<rparr>)))"

definition find_link :: "bytes \<Rightarrow> 'a net_state_scheme \<Rightarrow> nat option" where
  "find_link h s = net_links s h"

definition set_link_request_handler :: "nat option \<Rightarrow> ('a net_state_scheme, unit) prog" where
  "set_link_request_handler cb = modify (\<lambda>s. s\<lparr>net_on_link_request := cb\<rparr>)"

definition on_announce :: "nat option \<Rightarrow> ('a net_state_scheme, unit) prog" where
  "on_announce cb = modify (\<lambda>s. s\<lparr>net_on_announce := cb\<rparr>)"

definition has_path :: "bytes \<Rightarrow> 'a net_state_scheme \<Rightarrow> bool" where
  "has_path h s \<longleftrightarrow> net_paths s h \<noteq> None"

definition hops_to :: "bytes \<Rightarrow> 'a net_state_scheme \<Rightarrow> u8" where
  "hops_to h s = (case net_paths s h of None \<Rightarrow> 0 | Some e \<Rightarrow> pe_hops e)"

definition lookup_path :: "bytes \<Rightarrow> 'a net_state_scheme \<Rightarrow> path_entry option" where
  "lookup_path h s = net_paths s h"

definition clear_paths :: "('a net_state_scheme, unit) prog" where
  "clear_paths = modify (\<lambda>s. s\<lparr>net_paths := Map.empty\<rparr>)"

definition transport_reset :: "('a net_state_scheme, unit) prog" where
  "transport_reset = modify (\<lambda>s. s
     \<lparr>net_interfaces := [], net_destinations := Map.empty, net_paths := Map.empty,
      net_links := Map.empty, net_seen := {}, net_on_announce := None, net_on_link_request := None\<rparr>)"

section \<open>Frames\<close>

definition broadcast ::
  "(nat \<Rightarrow> bytes \<Rightarrow> ('a net_state_scheme, unit) prog) \<Rightarrow> bytes \<Rightarrow> nat option \<Rightarrow>
   ('a net_state_scheme, unit) prog" where
  "broadcast send raw except =
     bnd (gets net_interfaces) (\<lambda>snapshot.
     for_each snapshot (\<lambda>i. if Some i = except then ret () else send i raw))"

text \<open>The hop count of a frame, incremented in place when the frame has one.\<close>

definition next_hop_frame :: "bytes \<Rightarrow> u8 \<Rightarrow> bytes" where
  "next_hop_frame raw hops = (if length raw > 1 then raw[1 := hops + 1] else raw)"

definition process_announce ::
  "ext \<Rightarrow> 'a net_state_scheme app \<Rightarrow> (bytes \<Rightarrow> nat option \<Rightarrow> ('a net_state_scheme, unit) prog) \<Rightarrow>
   packet \<Rightarrow> nat option \<Rightarrow> ('a net_state_scheme, bool) prog" where
  "process_announce X app bc pkt via =
     bnd (gets net_seen) (\<lambda>seen.
     if pk_packet_hash pkt \<in> seen then ret False
     else
       bnd (modify (\<lambda>s. s\<lparr>net_seen := insert (pk_packet_hash pkt) (net_seen s)\<rparr>)) (\<lambda>_.
       let KEY = KEYSIZE div 8; NHL = NAME_HASH_LENGTH div 8; RHL = RANDOM_HASH_LENGTH div 8;
           SIGL = SIGLENGTH div 8; MINLEN = KEY + NHL + RHL + SIGL;
           d = pk_data pkt in
       if length d < MINLEN then ret False
       else
         let public_key = bytes_left KEY d;
             nh = bytes_mid KEY NHL d;
             random_hash = bytes_mid (KEY + NHL) RHL d;
             signature = bytes_mid (KEY + NHL + RHL) SIGL d;
             app_data = (if length d > MINLEN then bytes_mid_rest MINLEN d else []);
             signed_data = pk_destination_hash pkt @ public_key @ nh @ random_hash @ app_data;
             announced = load_public_key X public_key empty_identity in
         if \<not> identity_validate X (Some announced) signature signed_data then ret False
         else
           let expected = bytes_left (TRUNCATED_HASHLENGTH div 8) (full_hash X (nh @ id_hash announced)) in
           if expected \<noteq> pk_destination_hash pkt then ret False
           else
             bnd (remember X (pk_packet_hash pkt) (pk_destination_hash pkt) public_key app_data) (\<lambda>_.
             bnd (os_time X) (\<lambda>t.
             bnd (modify (\<lambda>s. s\<lparr>net_paths := (net_paths s)(pk_destination_hash pkt \<mapsto>
               \<lparr>pe_next_hop = pk_destination_hash pkt, pe_hops = pk_hops pkt, pe_timestamp = t, pe_via = via\<rparr>)\<rparr>)) (\<lambda>_.
             bnd (gets net_on_announce) (\<lambda>cb.
             bnd (case cb of
                    None \<Rightarrow> ret ()
                  | Some c \<Rightarrow> app_announce app c (pk_destination_hash pkt) announced app_data) (\<lambda>_.
             bnd (when_do (unat (pk_hops pkt) < PATHFINDER_M)
               (bc (next_hop_frame (pk_raw pkt) (pk_hops pkt)) via)) (\<lambda>_.
             ret True))))))))"

definition inbound_with ::
  "ext \<Rightarrow> nat \<Rightarrow> ((bytes \<Rightarrow> ('a net_state_scheme, unit) prog) \<Rightarrow> 'a net_state_scheme app) \<Rightarrow>
   (nat \<Rightarrow> bytes \<Rightarrow> ('a net_state_scheme, unit) prog) \<Rightarrow> bytes \<Rightarrow> nat option \<Rightarrow>
   ('a net_state_scheme, unit) prog" where
  "inbound_with X W A send raw via =
     (let bc = (\<lambda>f. broadcast send f None); app = A bc;
          (ok, pkt) = packet_unpack X (packet_of_raw raw); dh = pk_destination_hash pkt in
      if \<not> ok then ret ()
      else if pk_packet_type pkt = ANNOUNCE then
        bnd (process_announce X app (broadcast send) pkt via) (\<lambda>_. ret ())
      else if pk_packet_type pkt = LINKREQUEST then
        bnd (gets (\<lambda>s. (net_destinations s dh, net_on_link_request s))) (\<lambda>(dest, handler).
        case (dest, handler) of
          (Some r, Some cb) \<Rightarrow>
            bnd (app_link_request app cb r (pk_data pkt) pkt) (\<lambda>lo.
            case lo of
              None \<Rightarrow> ret ()
            | Some lr \<Rightarrow> bnd (get_link lr) (\<lambda>l. modify (\<lambda>s. s\<lparr>net_links := (net_links s)(lk_hash l \<mapsto> lr)\<rparr>)))
        | _ \<Rightarrow> ret ())
      else if pk_packet_type pkt = PROOF \<and> pk_context pkt = LRPROOF then
        bnd (gets (\<lambda>s. net_links s dh)) (\<lambda>lo.
        case lo of None \<Rightarrow> ret () | Some lr \<Rightarrow> link_on_proof X app lr pkt)
      else if pk_packet_type pkt = DATA then
        bnd (gets (\<lambda>s. net_destinations s dh)) (\<lambda>ro.
        case ro of
          Some r \<Rightarrow>
            bnd (dest_decrypt X (Some r) (pk_data pkt)) (\<lambda>plaintext.
            if plaintext \<noteq> [] then dest_receive app (Some r) plaintext pkt else ret ())
        | None \<Rightarrow>
            bnd (gets (\<lambda>s. net_links s dh)) (\<lambda>lo.
            case lo of
              Some lr \<Rightarrow> link_on_inbound X W app bc lr pkt
            | None \<Rightarrow>
                bnd (gets (\<lambda>s. net_paths s dh)) (\<lambda>po.
                case po of
                  None \<Rightarrow> ret ()
                | Some e \<Rightarrow>
                    (case pe_via e of
                       None \<Rightarrow> ret ()
                     | Some i \<Rightarrow> send i (next_hop_frame raw (raw ! 1))))))
      else ret ())"

text \<open>\<open>InterfaceImpl::handle_incoming\<close>, with at most \<open>n\<close> nested calls of itself.\<close>

fun handle_incoming ::
  "ext \<Rightarrow> nat \<Rightarrow> ((bytes \<Rightarrow> ('a net_state_scheme, unit) prog) \<Rightarrow> 'a net_state_scheme app) \<Rightarrow> nat \<Rightarrow>
   nat \<Rightarrow> bytes \<Rightarrow> ('a net_state_scheme, unit) prog" where
  "handle_incoming X W A 0 i raw = fault Out_of_fuel"
| "handle_incoming X W A (Suc n) i raw =
     bnd (set_iface i (\<lambda>f. f\<lparr>if_rxb := if_rxb f + length raw\<rparr>)) (\<lambda>_.
     inbound_with X W A (send_via (handle_incoming X W A n)) raw (Some i))"

text \<open>The entry points at a nesting bound.\<close>

definition send_outgoing ::
  "ext \<Rightarrow> nat \<Rightarrow> ((bytes \<Rightarrow> ('a net_state_scheme, unit) prog) \<Rightarrow> 'a net_state_scheme app) \<Rightarrow> nat \<Rightarrow>
   nat \<Rightarrow> bytes \<Rightarrow> ('a net_state_scheme, unit) prog" where
  "send_outgoing X W A n = send_via (handle_incoming X W A n)"

definition transport_broadcast ::
  "ext \<Rightarrow> nat \<Rightarrow> ((bytes \<Rightarrow> ('a net_state_scheme, unit) prog) \<Rightarrow> 'a net_state_scheme app) \<Rightarrow> nat \<Rightarrow>
   bytes \<Rightarrow> nat option \<Rightarrow> ('a net_state_scheme, unit) prog" where
  "transport_broadcast X W A n = broadcast (send_outgoing X W A n)"

definition transport_inbound ::
  "ext \<Rightarrow> nat \<Rightarrow> ((bytes \<Rightarrow> ('a net_state_scheme, unit) prog) \<Rightarrow> 'a net_state_scheme app) \<Rightarrow> nat \<Rightarrow>
   bytes \<Rightarrow> nat option \<Rightarrow> ('a net_state_scheme, unit) prog" where
  "transport_inbound X W A n = inbound_with X W A (send_outgoing X W A n)"

end
