(* ===== verification/Announce.thy ===== *)
theory Announce
  imports Transport LinkSession
begin

text \<open>
  What announces guarantee: which ones a node accepts and what they change, that a valid one is flooded
  once over every other interface and the flood ends, and that the announce of an identity's own
  destination makes every receiver able to recall its key.
\<close>

section \<open>Announces\<close>

text \<open>What an announce for the destination hash \<open>dh\<close> with payload \<open>d\<close> has to be: signed by the key it
  carries, and the hash derived from that key and the name hash.\<close>

definition announce_of :: "ext \<Rightarrow> bytes \<Rightarrow> bytes \<Rightarrow> bytes \<Rightarrow> bytes \<Rightarrow> bool" where
  "announce_of X dh d public app_data \<longleftrightarrow>
     (\<exists>nh rh sig. d = public @ nh @ rh @ sig @ app_data \<and> length public = 64 \<and> length nh = 10 \<and>
        length rh = 10 \<and> length sig = 64 \<and>
        x_ed_check X sig (drop 32 public) (announce_signed_data dh public nh rh app_data) \<and>
        dh = truncated_hash X (nh @ truncated_hash X public))"

definition valid_announce :: "ext \<Rightarrow> packet \<Rightarrow> bool" where
  "valid_announce X pkt \<longleftrightarrow>
     announce_of X (pk_destination_hash pkt) (pk_data pkt) (take 64 (pk_data pkt)) (drop 148 (pk_data pkt))"

lemma announce_parts:
  assumes "148 \<le> length (d :: bytes)"
  shows "d = take 64 d @ take 10 (drop 64 d) @ take 10 (drop 74 d) @ take 64 (drop 84 d) @ drop 148 d"
proof -
  have "drop 64 d = take 10 (drop 64 d) @ drop 74 d" "drop 74 d = take 10 (drop 74 d) @ drop 84 d"
    "drop 84 d = take 64 (drop 84 d) @ drop 148 d"
    using append_take_drop_id[of 10 "drop 64 d"] append_take_drop_id[of 10 "drop 74 d"]
      append_take_drop_id[of 64 "drop 84 d"] by simp_all
  then show ?thesis using append_take_drop_id[of 64 d] by metis
qed

lemma announce_of_unique:
  assumes "announce_of X dh d public app"
  shows "public = take 64 d" "app = drop 148 d" "148 \<le> length d"
  using assms by (auto simp: announce_of_def)

lemma load_public_key_id:
  assumes "length p = 64"
  shows "id_sig_pub (load_public_key X p i) = Some (drop 32 p)" "id_hash (load_public_key X p i) = truncated_hash X p"
  using load_public_key_fields(3,5)[of "take 32 p" X "drop 32 p" i] assms by simp_all

lemma valid_announce_checks:
  assumes "148 \<le> length d" "d = pk_data pkt"
  shows "valid_announce X pkt \<longleftrightarrow>
    identity_validate X (Some (load_public_key X (take 64 d) empty_identity)) (take 64 (drop 84 d))
      (pk_destination_hash pkt @ take 64 d @ take 10 (drop 64 d) @ take 10 (drop 74 d) @ drop 148 d) \<and>
    take 16 (full_hash X (take 10 (drop 64 d) @ id_hash (load_public_key X (take 64 d) empty_identity))) =
      pk_destination_hash pkt"
proof -
  have l: "length (take 64 d) = 64" "length (take 10 (drop 64 d)) = 10" "length (take 10 (drop 74 d)) = 10"
    "length (take 64 (drop 84 d)) = 64"
    using assms(1) by simp_all
  have parts: "nh = take 10 (drop 64 d) \<and> rh = take 10 (drop 74 d) \<and> sig = take 64 (drop 84 d)"
    if "d = take 64 d @ nh @ rh @ sig @ drop 148 d" "length nh = 10" "length rh = 10" "length sig = 64" for nh rh sig
  proof -
    have "nh @ rh @ sig @ drop 148 d = take 10 (drop 64 d) @ take 10 (drop 74 d) @ take 64 (drop 84 d) @ drop 148 d"
      using that(1) announce_parts[OF assms(1)] by (metis same_append_eq)
    then show ?thesis using that(2-4) l by (metis append_eq_append_conv)
  qed
  let ?nh = "take 10 (drop 64 d)" and ?rh = "take 10 (drop 74 d)" and ?sig = "take 64 (drop 84 d)"
  have "valid_announce X pkt \<longleftrightarrow>
    x_ed_check X ?sig (drop 32 (take 64 d)) (announce_signed_data (pk_destination_hash pkt) (take 64 d) ?nh ?rh (drop 148 d)) \<and>
    pk_destination_hash pkt = truncated_hash X (?nh @ truncated_hash X (take 64 d))" (is "_ = ?R")
  proof
    assume "valid_announce X pkt"
    then obtain nh rh sig where p: "d = take 64 d @ nh @ rh @ sig @ drop 148 d" "length nh = 10" "length rh = 10" "length sig = 64"
      and r: "x_ed_check X sig (drop 32 (take 64 d)) (announce_signed_data (pk_destination_hash pkt) (take 64 d) nh rh (drop 148 d))"
        "pk_destination_hash pkt = truncated_hash X (nh @ truncated_hash X (take 64 d))"
      unfolding valid_announce_def announce_of_def assms(2)[symmetric] by metis
    from parts[OF p] r show ?R by simp
  next
    assume ?R
    then show "valid_announce X pkt"
      unfolding valid_announce_def announce_of_def assms(2)[symmetric] using l announce_parts[OF assms(1)] by metis
  qed
  moreover have "drop 32 (take 64 d) \<noteq> [] \<longrightarrow> length (drop 32 (take 64 d)) = 32" using assms(1) by simp
  ultimately show ?thesis
    using load_public_key_id[OF l(1), of X empty_identity] l assms(1)
    by (auto simp: identity_validate_def ed25519_verify_def announce_signed_data_def truncated_hash_def size_values)
qed

text \<open>The state after a valid announce has been entered in the tables.\<close>

definition announced_state :: "packet \<Rightarrow> nat option \<Rightarrow> nat \<Rightarrow> rtime \<Rightarrow> rtime \<Rightarrow> 'a net_state_scheme \<Rightarrow> 'a net_state_scheme" where
  "announced_state pkt via k t t' s = s
     \<lparr>hal_calls := k, net_seen := insert (pk_packet_hash pkt) (net_seen s),
      known_destinations := (known_destinations s)(pk_destination_hash pkt \<mapsto>
        \<lparr>ie_timestamp = t, ie_packet_hash = pk_packet_hash pkt, ie_public_key = take 64 (pk_data pkt),
         ie_app_data = drop 148 (pk_data pkt)\<rparr>),
      net_paths := (net_paths s)(pk_destination_hash pkt \<mapsto>
        \<lparr>pe_next_hop = pk_destination_hash pkt, pe_hops = pk_hops pkt, pe_timestamp = t', pe_via = via\<rparr>)\<rparr>"
lemma remember_run:
  assumes "length pk = 64"
  shows "\<exists>t k. remember X ph dh pk app s = (Ret (), s\<lparr>hal_calls := k, known_destinations :=
    (known_destinations s)(dh \<mapsto> \<lparr>ie_timestamp = t, ie_packet_hash = ph, ie_public_key = pk, ie_app_data = app\<rparr>)\<rparr>)"
proof -
  obtain t k where "os_time X s = (Ret t, s\<lparr>hal_calls := k\<rparr>)" using os_time_ok by blast
  then show ?thesis using assms
    by (intro exI[of _ t] exI[of _ k]) (simp add: remember_def size_values bnd_def)
qed


lemma announce_sizes:
  "KEYSIZE div 8 = 64" "NAME_HASH_LENGTH div 8 = 10" "RANDOM_HASH_LENGTH div 8 = 10" "SIGLENGTH div 8 = 64"
  "TRUNCATED_HASHLENGTH div 8 = 16" "64 + 10 = (74 :: nat)" "74 + 10 = (84 :: nat)" "84 + 64 = (148 :: nat)"
  by (simp_all add: size_values)

lemma announce_slices:
  assumes "148 \<le> length (d :: bytes)"
  shows "bytes_left 64 d = take 64 d" "bytes_mid 64 10 d = take 10 (drop 64 d)" "bytes_mid 74 10 d = take 10 (drop 74 d)"
    "bytes_mid 84 64 d = take 64 (drop 84 d)" "(if length d > 148 then bytes_mid_rest 148 d else []) = drop 148 d"
  using assms by simp_all

lemma process_announce_eq:
  assumes "pk_packet_hash pkt \<notin> net_seen s"
  shows "process_announce X app bc pkt via s =
    (if length (pk_data pkt) < 148 \<or> \<not> valid_announce X pkt then ret False
     else
       bnd (remember X (pk_packet_hash pkt) (pk_destination_hash pkt) (take 64 (pk_data pkt)) (drop 148 (pk_data pkt))) (\<lambda>_.
       bnd (os_time X) (\<lambda>t.
       bnd (modify (\<lambda>s. s\<lparr>net_paths := (net_paths s)(pk_destination_hash pkt \<mapsto>
         \<lparr>pe_next_hop = pk_destination_hash pkt, pe_hops = pk_hops pkt, pe_timestamp = t, pe_via = via\<rparr>)\<rparr>)) (\<lambda>_.
       bnd (gets net_on_announce) (\<lambda>cb.
       bnd (case cb of
              None \<Rightarrow> ret ()
            | Some c \<Rightarrow> app_announce app c (pk_destination_hash pkt)
                (load_public_key X (take 64 (pk_data pkt)) empty_identity) (drop 148 (pk_data pkt))) (\<lambda>_.
       bnd (when_do (unat (pk_hops pkt) < 128) (bc (next_hop_frame (pk_raw pkt) (pk_hops pkt)) via)) (\<lambda>_.
       ret True)))))))
      (s\<lparr>net_seen := insert (pk_packet_hash pkt) (net_seen s)\<rparr>)"
proof (cases "length (pk_data pkt) < 148")
  case True
  then show ?thesis using assms
    by (simp only: process_announce_def bnd_gets bnd_modify announce_sizes Let_def if_True if_False simp_thms)
next
  case False
  then have l: "148 \<le> length (pk_data pkt)" by simp
  let ?V = "identity_validate X (Some (load_public_key X (take 64 (pk_data pkt)) empty_identity)) (take 64 (drop 84 (pk_data pkt)))
      (pk_destination_hash pkt @ take 64 (pk_data pkt) @ take 10 (drop 64 (pk_data pkt)) @ take 10 (drop 74 (pk_data pkt)) @ drop 148 (pk_data pkt))"
  let ?H = "take 16 (full_hash X (take 10 (drop 64 (pk_data pkt)) @ id_hash (load_public_key X (take 64 (pk_data pkt)) empty_identity))) =
      pk_destination_hash pkt"
  have v: "valid_announce X pkt \<longleftrightarrow> ?V \<and> ?H" using valid_announce_checks[OF l refl] .
  have pm: "PATHFINDER_M = 128" by (simp add: size_values)
  show ?thesis
    unfolding process_announce_def bnd_gets bnd_modify announce_sizes Let_def announce_slices[OF l] bytes_left_eq pm v
    using assms False by (cases ?V; cases ?H) (simp_all only: if_True if_False simp_thms)
qed

lemma announce_reject:
  assumes "pk_packet_hash pkt \<in> net_seen s \<or> \<not> valid_announce X pkt"
  shows "process_announce X app bc pkt via s = (Ret False, s\<lparr>net_seen := insert (pk_packet_hash pkt) (net_seen s)\<rparr>)"
proof (cases "pk_packet_hash pkt \<in> net_seen s")
  case True
  then show ?thesis by (simp add: process_announce_def insert_absorb)
next
  case False
  then show ?thesis using assms by (simp add: process_announce_eq[OF False])
qed
lemma announce_accept:
  assumes "pk_packet_hash pkt \<notin> net_seen s" "valid_announce X pkt"
  shows "\<exists>k t t'. process_announce X app bc pkt via s =
    bnd (case net_on_announce s of
           None \<Rightarrow> ret ()
         | Some c \<Rightarrow> app_announce app c (pk_destination_hash pkt)
             (load_public_key X (take 64 (pk_data pkt)) empty_identity) (drop 148 (pk_data pkt))) (\<lambda>_.
    bnd (when_do (unat (pk_hops pkt) < 128) (bc (next_hop_frame (pk_raw pkt) (pk_hops pkt)) via)) (\<lambda>_.
    ret True)) (announced_state pkt via k t t' s)"
proof -
  let ?d = "pk_data pkt" and ?dh = "pk_destination_hash pkt"
  let ?s = "s\<lparr>net_seen := insert (pk_packet_hash pkt) (net_seen s)\<rparr>"
  have l: "148 \<le> length ?d" using assms(2) announce_of_unique(3) by (auto simp: valid_announce_def)
  obtain t k where rem: "remember X (pk_packet_hash pkt) ?dh (take 64 ?d) (drop 148 ?d) ?s =
      (Ret (), ?s\<lparr>hal_calls := k, known_destinations := (known_destinations ?s)(?dh \<mapsto>
        \<lparr>ie_timestamp = t, ie_packet_hash = pk_packet_hash pkt, ie_public_key = take 64 ?d, ie_app_data = drop 148 ?d\<rparr>)\<rparr>)"
    (is "_ = (Ret (), ?s1)")
    using remember_run[of "take 64 ?d"] l by fastforce
  obtain t' k' where time: "os_time X ?s1 = (Ret t', ?s1\<lparr>hal_calls := k'\<rparr>)" using os_time_ok by blast
  have "?s1\<lparr>hal_calls := k', net_paths := (net_paths ?s1)(?dh \<mapsto> \<lparr>pe_next_hop = ?dh, pe_hops = pk_hops pkt, pe_timestamp = t', pe_via = via\<rparr>)\<rparr>
      = announced_state pkt via k' t t' s"
    by (simp add: announced_state_def)
  moreover have "net_on_announce (announced_state pkt via k' t t' s) = net_on_announce s" by (simp add: announced_state_def)
  ultimately show ?thesis
    using l assms(2) rem time
    by (intro exI[of _ k'] exI[of _ t] exI[of _ t'])
      (simp add: process_announce_eq[OF assms(1)] bnd_def cong del: res.case_cong_weak)
qed
section \<open>Announces of own destinations\<close>

lemma destination_new_fields:
  assumes "hash_law X" "destination_new X (Some i) dir SINGLE app_name aspects s = (Ret r, s')"
  obtains d nh where "r = length (dest_heap s)" "s' = s\<lparr>dest_heap := dest_heap s @ [d]\<rparr>" "dst_type d = SINGLE"
    "dst_direction d = dir" "dst_identity d = Some i" "dst_name_hash d = nh" "length nh = 10"
    "dst_hash d = truncated_hash X (nh @ id_hash i)" "name_hash X app_name aspects = Ret nh"
proof -
  have dot: "CHR ''.'' \<notin> set app_name" using assms(2) by (auto simp: destination_new_def split: if_splits)
  obtain nh where nh: "name_hash X app_name aspects = Ret nh" "length nh = 10"
    using dot assms(1) by (simp add: name_hash_def expand_name_def Let_def full_hash_def sha256_def size_values law_simps)
  then show ?thesis
    using dot assms(2) that[OF _ _ _ _ _ _ nh(2) _ nh(1)]
    by (auto simp: destination_new_def expand_name_def destination_hash_def alloc_dest_def Let_def)
qed

text \<open>The payload \<open>Destination::announce\<close> sends for a random hash and a signature.\<close>

definition announce_payload :: "ext \<Rightarrow> dest \<Rightarrow> bytes \<Rightarrow> bytes \<Rightarrow> bytes \<Rightarrow> bytes \<Rightarrow> bytes" where
  "announce_payload X d a e rh app_data =
     (let public = x_x25519_pub X a @ x_ed_pub X e in
      public @ dst_name_hash d @ rh @
        x_ed_sign X e (announce_signed_data (dst_hash d) public (dst_name_hash d) rh app_data) @ app_data)"

lemma announce_run:
  assumes "crypto_laws X" "r < length (dest_heap s)" "d = dest_heap s ! r" "dst_type d = SINGLE" "dst_direction d = IN"
    "dst_identity d = Some (key_identity X a e ap)" "length (dst_name_hash d) = 10" "length app_data \<le> 316"
  shows "\<exists>rh. length rh = 10 \<and> announce X bc (Some r) app_data False s =
    (Ret (pk_raw (packed X (new_packet r d (announce_payload X d a e rh app_data) ANNOUNCE CONTEXT_NONE BROADCAST) d
       (announce_payload X d a e rh app_data))), s\<lparr>hal_calls := hal_calls s + 1\<rparr>)"
proof -
  note laws = crypto_lawsD[OF assms(1)]
  obtain rh where rh: "random_bytes X 10 s = (Ret rh, s\<lparr>hal_calls := hal_calls s + 1\<rparr>)" "length rh = 10"
    using random_ok[OF laws(7)] by blast
  let ?s = "s\<lparr>hal_calls := hal_calls s + 1\<rparr>"
  let ?data = "announce_payload X d a e rh app_data"
  let ?p = "new_packet r d ?data ANNOUNCE CONTEXT_NONE BROADCAST"
  have r: "r < length (dest_heap ?s)" "dest_heap ?s ! r = d" using assms(2,3) by simp_all
  have sg: "identity_sign X (dst_identity d) m = Ret (x_ed_sign X e m)" for m
    by (simp add: assms(6) identity_sign_def key_identity_def ed25519_sign_def)
  have len: "length ?data \<le> 464"
    using assms(7,8) rh(2) by (simp add: announce_payload_def Let_def law_simps laws)
  then have f: "pk_destination ?p = Some r" "pk_packet_type ?p = ANNOUNCE" "pk_data ?p = ?data"
    by (simp_all add: new_packet_def packet_object_def Let_def size_values)
  have n: "packet_new (Some r) ?data ANNOUNCE CONTEXT_NONE BROADCAST ?s = (Ret ?p, ?s)"
    using packet_new_run[OF r(1)] r(2) by simp
  have p: "packet_pack X ?p ?s = (Ret (packed X ?p d ?data), ?s)"
    using packet_pack_run[OF r(1) f(1), of X ?data ?s] f r(2) by simp
  have g: "get_dest r s = (Ret d, s)" using assms(2,3) by (simp add: get_dest_run)
  have pub: "get_public_key (key_identity X a e ap) = x_x25519_pub X a @ x_ed_pub X e" by (rule get_key_identity)
  have "announce X bc (Some r) app_data False s = (Ret (pk_raw (packed X ?p d ?data)), ?s)"
    using g rh(1) assms(4-6) sg n p
    by (simp add: announce_def bnd_def pub Let_def announce_payload_def size_values cong del: res.case_cong_weak)
  then show ?thesis using rh(2) by blast
qed

lemma announce_payload_valid:
  assumes "crypto_laws X" "length rh = 10" "length (dst_name_hash d) = 10"
    "dst_hash d = truncated_hash X (dst_name_hash d @ truncated_hash X (x_x25519_pub X a @ x_ed_pub X e))"
  shows "announce_of X (dst_hash d) (announce_payload X d a e rh app_data) (x_x25519_pub X a @ x_ed_pub X e) app_data"
proof -
  note laws = crypto_lawsD[OF assms(1)]
  show ?thesis
    using assms(2-4) unfolding announce_of_def announce_payload_def Let_def
    by (intro exI[of _ "dst_name_hash d"] exI[of _ rh] exI conjI refl)
      (auto simp: law_simps laws)
qed
section \<open>Flooding\<close>

lemma unpack_received:
  assumes "packet_unpack X (packet_of_raw raw) = (True, u)"
  shows "frame_ok (pk_flags u) (pk_transport_id u) (pk_destination_hash u)" "pk_raw u = raw"
    "raw = frame (pk_flags u) (pk_hops u) (pk_transport_id u) (pk_destination_hash u) (pk_context u) (pk_data u)"
proof -
  obtain f h tid dh c d where f: "frame_ok f tid dh" "raw = frame f h tid dh c d"
    using unpack_short[of X "packet_of_raw raw"] assms by (auto simp: packet_of_raw_def packet_object_def)
  then show "frame_ok (pk_flags u) (pk_transport_id u) (pk_destination_hash u)" "pk_raw u = raw"
    "raw = frame (pk_flags u) (pk_hops u) (pk_transport_id u) (pk_destination_hash u) (pk_context u) (pk_data u)"
    using unpack_frame[OF f(1), of "packet_of_raw raw" h c d X] assms
    by (auto simp: packet_of_raw_def packet_object_def)
qed

text \<open>A frame with another hop count is the same packet.\<close>

lemma unpack_hops:
  assumes "packet_unpack X (packet_of_raw raw) = (True, u)"
  shows "\<exists>u'. packet_unpack X (packet_of_raw (raw[1 := h])) = (True, u') \<and> pk_packet_hash u' = pk_packet_hash u \<and>
    pk_packet_type u' = pk_packet_type u \<and> pk_destination_hash u' = pk_destination_hash u \<and> pk_hops u' = h \<and>
    pk_context u' = pk_context u \<and> pk_data u' = pk_data u"
proof -
  note r = unpack_received[OF assms]
  let ?f = "\<lambda>h. frame (pk_flags u) h (pk_transport_id u) (pk_destination_hash u) (pk_context u) (pk_data u)"
  have "(?f (pk_hops u))[1 := h] = ?f h" by (simp add: frame_def)
  then have h: "raw[1 := h] = ?f h" using r(3) by metis
  have p: "pk_raw (packet_of_raw (?f k)) = ?f k" "pk_transport_id (packet_of_raw (?f k)) = []" for k
    by (simp_all add: packet_of_raw_def packet_object_def)
  show ?thesis
    using unpack_frame[OF r(1) p, of X h] unpack_frame[OF r(1) p, of X "pk_hops u"] assms
    unfolding h r(3)[symmetric] by auto
qed

text \<open>What sending a frame does to the interfaces when no receiver reacts to it.\<close>

definition carry_frame :: "bytes \<Rightarrow> nat \<Rightarrow> iface list \<Rightarrow> iface list" where
  "carry_frame raw i h =
     (case if_kind (h ! i) of
        Device \<Rightarrow> h[i := (h ! i)\<lparr>if_out := if_out (h ! i) @ [raw]\<rparr>]
      | Loopback peer \<Rightarrow>
          let h = h[i := (h ! i)\<lparr>if_txb := if_txb (h ! i) + length raw\<rparr>] in
          (case peer of None \<Rightarrow> h | Some j \<Rightarrow> h[j := (h ! j)\<lparr>if_rxb := if_rxb (h ! j) + length raw\<rparr>]))"

definition wired :: "iface list \<Rightarrow> bool" where
  "wired h \<longleftrightarrow> (\<forall>i<length h. \<forall>j. if_kind (h ! i) = Loopback (Some j) \<longrightarrow> j < length h)"

lemma update_field: "f v = f (h ! i) \<Longrightarrow> f (h[i := v] ! k) = f (h ! k)"
  by (cases "i = k"; cases "i < length h") (simp_all add: list_update_beyond)

lemma carry_keeps:
  "length (carry_frame raw i h) = length h"
  "k < length h \<Longrightarrow> if_kind (carry_frame raw i h ! k) = if_kind (h ! k)"
  "wired h \<Longrightarrow> wired (carry_frame raw i h)"
proof -
  show l: "length (carry_frame raw i h) = length h"
    by (simp add: carry_frame_def Let_def split: iface_kind.split option.split)
  show k: "if_kind (carry_frame raw i h ! k) = if_kind (h ! k)" for k
    by (simp add: carry_frame_def Let_def update_field[of if_kind] split: iface_kind.split option.split)
  show "wired h \<Longrightarrow> wired (carry_frame raw i h)" unfolding wired_def l using k by simp
qed

lemma carry_out:
  assumes "k < length h" "i < length h" "if_kind (h ! k) = Device"
  shows "if_out (carry_frame raw i h ! k) = if_out (h ! k) @ (if i = k then [raw] else [])"
  using assms
  by (cases "i = k") (auto simp: carry_frame_def Let_def update_field[of if_out] split: iface_kind.split option.split)

lemma carry_all:
  assumes "wired h" "set is \<subseteq> {..<length h}"
  shows "length (fold (carry_frame raw) is h) = length h \<and> wired (fold (carry_frame raw) is h)"
    "k < length h \<Longrightarrow> if_kind (h ! k) = Device \<Longrightarrow>
      if_out (fold (carry_frame raw) is h ! k) = if_out (h ! k) @ replicate (count_list is k) raw"
  using assms
proof (induction "is" arbitrary: h)
  case (Cons i xs)
  {
    case 1
    then show ?case using Cons.IH(1)[of "carry_frame raw i h"] by (simp add: carry_keeps)
  next
    case 2
    have "if_out (fold (carry_frame raw) (i # xs) h ! k) =
      if_out (carry_frame raw i h ! k) @ replicate (count_list xs k) raw"
      using 2 Cons.IH(2)[of "carry_frame raw i h"] by (simp add: carry_keeps)
    also have "if_out (carry_frame raw i h ! k) = if_out (h ! k) @ (if i = k then [raw] else [])"
      using 2 by (intro carry_out) simp_all
    finally show ?case by (simp add: replicate_append_same)
  }
qed simp_all

text \<open>A frame seen before is counted and dropped, so sending it ends after one call.\<close>

lemma receive_seen:
  assumes "packet_unpack X (packet_of_raw raw) = (True, u)" "pk_packet_type u = ANNOUNCE"
    "pk_packet_hash u \<in> net_seen s" "j < length (net_heap s)"
  shows "handle_incoming X W A (Suc n) j raw s =
    (Ret (), s\<lparr>net_heap := (net_heap s)[j := (net_heap s ! j)\<lparr>if_rxb := if_rxb (net_heap s ! j) + length raw\<rparr>]\<rparr>)"
  using assms
  by (simp add: bnd_def set_iface_def inbound_with_def Let_def announce_reject insert_absorb)

lemma send_seen:
  assumes "packet_unpack X (packet_of_raw raw) = (True, u)" "pk_packet_type u = ANNOUNCE"
    "pk_packet_hash u \<in> net_seen s" "i < length (net_heap s)" "wired (net_heap s)"
  shows "send_via (handle_incoming X W A (Suc n)) i raw s = (Ret (), s\<lparr>net_heap := carry_frame raw i (net_heap s)\<rparr>)"
proof -
  have g: "get_iface i s = (Ret (net_heap s ! i), s)" using assms(4) by (simp add: get_iface_def heap_get_def)
  show ?thesis
  proof (cases "if_kind (net_heap s ! i)")
    case Device
    then show ?thesis using g assms(4) by (simp add: send_via_def bnd_def set_iface_def carry_frame_def)
  next
    case (Loopback peer)
    let ?s = "s\<lparr>net_heap := (net_heap s)[i := (net_heap s ! i)\<lparr>if_txb := if_txb (net_heap s ! i) + length raw\<rparr>]\<rparr>"
    have sent: "send_via (handle_incoming X W A (Suc n)) i raw s =
        (case peer of None \<Rightarrow> ret () | Some j \<Rightarrow> handle_incoming X W A (Suc n) j raw) ?s"
      using g assms(4) Loopback by (simp add: send_via_def bnd_def set_iface_def del: handle_incoming.simps)
    show ?thesis
    proof (cases peer)
      case None
      then show ?thesis unfolding sent using Loopback by (simp add: carry_frame_def)
    next
      case (Some j)
      have "j < length (net_heap ?s)" using assms(4,5) Loopback Some by (auto simp: wired_def)
      then have "handle_incoming X W A (Suc n) j raw ?s = (Ret (), ?s\<lparr>net_heap := (net_heap ?s)[j := (net_heap ?s ! j)
          \<lparr>if_rxb := if_rxb (net_heap ?s ! j) + length raw\<rparr>]\<rparr>)"
        using assms(3) by (intro receive_seen[OF assms(1,2)]) simp_all
      then show ?thesis unfolding sent using Loopback Some
        by (simp add: carry_frame_def Let_def del: handle_incoming.simps)
    qed
  qed
qed

lemma for_each_seen:
  assumes "packet_unpack X (packet_of_raw raw) = (True, u)" "pk_packet_type u = ANNOUNCE"
    "pk_packet_hash u \<in> net_seen s" "set is \<subseteq> {..<length (net_heap s)}" "wired (net_heap s)"
  shows "for_each is (\<lambda>i. if Some i = via then ret () else send_via (handle_incoming X W A (Suc n)) i raw) s =
    (Ret (), s\<lparr>net_heap := fold (carry_frame raw) (filter (\<lambda>i. Some i \<noteq> via) is) (net_heap s)\<rparr>)"
  using assms(3-)
proof (induction "is" arbitrary: s)
  case (Cons i xs)
  show ?case
  proof (cases "Some i = via")
    case True
    then show ?thesis using Cons.IH[of s] Cons.prems by (simp add: bnd_def del: handle_incoming.simps)
  next
    case False
    let ?s = "s\<lparr>net_heap := carry_frame raw i (net_heap s)\<rparr>"
    have s: "send_via (handle_incoming X W A (Suc n)) i raw s = (Ret (), ?s)"
      using Cons.prems by (intro send_seen[OF assms(1,2)]) simp_all
    have "for_each xs (\<lambda>i. if Some i = via then ret () else send_via (handle_incoming X W A (Suc n)) i raw) ?s =
      (Ret (), ?s\<lparr>net_heap := fold (carry_frame raw) (filter (\<lambda>i. Some i \<noteq> via) xs) (net_heap ?s)\<rparr>)"
      using Cons.prems by (intro Cons.IH) (simp_all add: carry_keeps)
    with s False show ?thesis by (simp add: bnd_def del: handle_incoming.simps)
  qed
qed simp
text \<open>
  What a node that hears an announce may do in its announce callback without disturbing the flood: it may
  send frames of its own, each once per registration of an interface, and change its own state, but it
  leaves the tables and the registered interfaces alone.
\<close>

definition sent_each :: "nat list \<Rightarrow> bytes list \<Rightarrow> iface list \<Rightarrow> iface list \<Rightarrow> bool" where
  "sent_each is fs h h' \<longleftrightarrow> length h' = length h \<and>
     (\<forall>i<length h. if_kind (h' ! i) = if_kind (h ! i) \<and>
        (if_kind (h ! i) = Device \<longrightarrow> if_out (h' ! i) = if_out (h ! i) @ concat (map (replicate (count_list is i)) fs)))"

definition orderly :: "bytes list \<Rightarrow> 'a net_state_scheme \<Rightarrow> 'a net_state_scheme \<Rightarrow> bool" where
  "orderly fs s s' \<longleftrightarrow> net_seen s' = net_seen s \<and> net_interfaces s' = net_interfaces s \<and>
     known_destinations s' = known_destinations s \<and> net_paths s' = net_paths s \<and>
     sent_each (net_interfaces s) fs (net_heap s) (net_heap s')"

definition reports :: "'a net_state_scheme app \<Rightarrow> 'a net_state_scheme \<Rightarrow> bool" where
  "reports app s \<longleftrightarrow> (\<forall>c h i d t. net_interfaces t = net_interfaces s \<and> net_heap t = net_heap s \<longrightarrow>
     (\<exists>t' fs. app_announce app c h i d t = (Ret (), t') \<and> orderly fs t t'))"

lemma sent_none [simp]: "sent_each is [] h h"
  by (simp add: sent_each_def)

lemma orderly_none [simp]: "orderly [] s s"
  by (simp add: orderly_def)

lemma sent_wired: "sent_each is fs h h' \<Longrightarrow> wired h \<Longrightarrow> wired h'"
  by (simp add: sent_each_def wired_def)

text \<open>The report of an accepted announce to the callback, if there is one.\<close>

definition reported :: "ext \<Rightarrow> 'a net_state_scheme app \<Rightarrow> packet \<Rightarrow> nat option \<Rightarrow> ('a net_state_scheme, unit) prog" where
  "reported X app u cb =
     (case cb of
        None \<Rightarrow> ret ()
      | Some c \<Rightarrow> app_announce app c (pk_destination_hash u)
          (load_public_key X (take 64 (pk_data u)) empty_identity) (drop 148 (pk_data u)))"

text \<open>The frame the flood passes on, and the interfaces it goes to.\<close>

definition flooded :: "packet \<Rightarrow> nat option \<Rightarrow> 'a net_state_scheme \<Rightarrow> iface list" where
  "flooded u via s =
     (if unat (pk_hops u) < 128
      then fold (carry_frame ((pk_raw u)[1 := pk_hops u + 1])) (filter (\<lambda>i. Some i \<noteq> via) (net_interfaces s)) (net_heap s)
      else net_heap s)"

lemma announced_simps [simp]:
  "net_seen (announced_state u via k t t' s) = insert (pk_packet_hash u) (net_seen s)"
  "net_interfaces (announced_state u via k t t' s) = net_interfaces s"
  "net_heap (announced_state u via k t t' s) = net_heap s"
  "net_paths (announced_state u via k t t' s) = (net_paths s)(pk_destination_hash u \<mapsto>
     \<lparr>pe_next_hop = pk_destination_hash u, pe_hops = pk_hops u, pe_timestamp = t', pe_via = via\<rparr>)"
  "known_destinations (announced_state u via k t t' s) = (known_destinations s)(pk_destination_hash u \<mapsto>
     \<lparr>ie_timestamp = t, ie_packet_hash = pk_packet_hash u, ie_public_key = take 64 (pk_data u),
      ie_app_data = drop 148 (pk_data u)\<rparr>)"
  by (simp_all add: announced_state_def)

lemma inbound_reported:
  assumes "packet_unpack X (packet_of_raw raw) = (True, u)" "pk_packet_type u = ANNOUNCE"
    "pk_packet_hash u \<notin> net_seen s" "valid_announce X u"
  shows "\<exists>k t t'. \<forall>s1. reported X (A (\<lambda>f. broadcast (send_outgoing X W A (Suc n)) f None)) u (net_on_announce s)
      (announced_state u via k t t' s) = (Ret (), s1) \<longrightarrow> pk_packet_hash u \<in> net_seen s1 \<longrightarrow>
    set (net_interfaces s1) \<subseteq> {..<length (net_heap s1)} \<longrightarrow> wired (net_heap s1) \<longrightarrow>
    transport_inbound X W A (Suc n) raw via s = (Ret (), s1\<lparr>net_heap := flooded u via s1\<rparr>)"
proof -
  let ?bc = "broadcast (send_via (handle_incoming X W A (Suc n)))"
  let ?app = "A (\<lambda>f. ?bc f None)"
  let ?pass = "when_do (unat (pk_hops u) < 128) (?bc (next_hop_frame (pk_raw u) (pk_hops u)) via)"
  obtain k t t' where acc: "process_announce X ?app ?bc u via s =
    bnd (reported X ?app u (net_on_announce s)) (\<lambda>_. bnd ?pass (\<lambda>_. ret True)) (announced_state u via k t t' s)"
    (is "_ = bnd ?cb _ ?s")
    using announce_accept[OF assms(3,4)] unfolding reported_def by blast
  note r = unpack_received[OF assms(1)]
  have next_hop: "next_hop_frame (pk_raw u) (pk_hops u) = raw[1 := pk_hops u + 1]"
    unfolding next_hop_frame_def r(2) by (subst r(3)) (simp add: frame_def r(3)[symmetric])
  obtain u' where u': "packet_unpack X (packet_of_raw (raw[1 := pk_hops u + 1])) = (True, u')"
    "pk_packet_hash u' = pk_packet_hash u" "pk_packet_type u' = ANNOUNCE"
    using unpack_hops[OF assms(1), of "pk_hops u + 1"] assms(2) by auto
  {
    fix s1
    assume cb: "?cb ?s = (Ret (), s1)" and s1: "pk_packet_hash u \<in> net_seen s1"
      "set (net_interfaces s1) \<subseteq> {..<length (net_heap s1)}" "wired (net_heap s1)"
    have pass: "?pass s1 = (Ret (), s1\<lparr>net_heap := flooded u via s1\<rparr>)"
    proof (cases "unat (pk_hops u) < 128")
      case True
      have "?bc (raw[1 := pk_hops u + 1]) via s1 = (Ret (), s1\<lparr>net_heap := fold (carry_frame (raw[1 := pk_hops u + 1]))
          (filter (\<lambda>i. Some i \<noteq> via) (net_interfaces s1)) (net_heap s1)\<rparr>)"
        unfolding broadcast_def bnd_gets
        using s1 u'(2) by (intro for_each_seen[OF u'(1,3)]) simp_all
      then show ?thesis unfolding next_hop using True r(2) by (simp add: flooded_def)
    qed (simp add: flooded_def)
    have "process_announce X ?app ?bc u via s = (Ret True, s1\<lparr>net_heap := flooded u via s1\<rparr>)"
      unfolding acc bnd_Ret[where m = "?cb", OF cb] bnd_Ret[where m = "?pass", OF pass] by simp
    then have "transport_inbound X W A (Suc n) raw via s = (Ret (), s1\<lparr>net_heap := flooded u via s1\<rparr>)"
      using assms(1,2) by (simp add: transport_inbound_def send_outgoing_def inbound_with_def Let_def bnd_def
          del: handle_incoming.simps)
  }
  then show ?thesis unfolding send_outgoing_def by blast
qed

text \<open>The state after an announce was entered, reported by sending \<open>fs\<close>, and passed on.\<close>

definition flooded_once :: "packet \<Rightarrow> bytes list \<Rightarrow> nat option \<Rightarrow> 'a net_state_scheme \<Rightarrow> 'a net_state_scheme \<Rightarrow> bool" where
  "flooded_once u fs via s s' \<longleftrightarrow>
     net_seen s' = insert (pk_packet_hash u) (net_seen s) \<and> net_interfaces s' = net_interfaces s \<and>
     length (net_heap s') = length (net_heap s) \<and>
     (\<forall>i<length (net_heap s). if_kind (net_heap s ! i) = Device \<longrightarrow>
        if_out (net_heap s' ! i) = if_out (net_heap s ! i) @ concat (map (replicate (count_list (net_interfaces s) i)) fs) @
          (if unat (pk_hops u) < 128 \<and> Some i \<noteq> via
           then replicate (count_list (net_interfaces s) i) ((pk_raw u)[1 := pk_hops u + 1]) else []))"

lemma flood_reported:
  assumes "set (net_interfaces s) \<subseteq> {..<length (net_heap s)}" "wired (net_heap s)"
    "orderly fs (announced_state u via k t t' s) s1"
  shows "flooded_once u fs via s (s1\<lparr>net_heap := flooded u via s1\<rparr>)"
    "pk_packet_hash u \<in> net_seen s1" "set (net_interfaces s1) \<subseteq> {..<length (net_heap s1)}" "wired (net_heap s1)"
proof -
  have s1: "net_interfaces s1 = net_interfaces s" "net_seen s1 = insert (pk_packet_hash u) (net_seen s)"
    "sent_each (net_interfaces s) fs (net_heap s) (net_heap s1)"
    using assms(3) by (simp_all add: orderly_def)
  then have len: "length (net_heap s1) = length (net_heap s)" by (simp add: sent_each_def)
  show "pk_packet_hash u \<in> net_seen s1" "set (net_interfaces s1) \<subseteq> {..<length (net_heap s1)}" "wired (net_heap s1)"
    using s1 len assms(1) sent_wired[OF s1(3) assms(2)] by simp_all
  have cnt: "count_list (filter (\<lambda>i. Some i \<noteq> via) is) i = (if Some i \<noteq> via then count_list is i else 0)" for i "is"
    by (induction "is") auto
  have sub: "set (filter (\<lambda>i. Some i \<noteq> via) (net_interfaces s)) \<subseteq> {..<length (net_heap s1)}" using assms(1) len by auto
  note carry = carry_all[OF \<open>wired (net_heap s1)\<close> sub, where raw = "(pk_raw u)[1 := pk_hops u + 1]"]
  show "flooded_once u fs via s (s1\<lparr>net_heap := flooded u via s1\<rparr>)"
    unfolding flooded_once_def using carry s1 len
    by (simp add: flooded_def cnt) (auto simp: sent_each_def)
qed

text \<open>So a node whose callback is orderly floods it, whatever the callback sends.\<close>

lemma reports_run:
  assumes "reports app s" "net_on_announce s = cb"
  shows "\<exists>s1 fs. reported X app u cb (announced_state u via k t t' s) = (Ret (), s1) \<and>
    orderly fs (announced_state u via k t t' s) s1 \<and> (cb = None \<longrightarrow> s1 = announced_state u via k t t' s)"
proof (cases cb)
  case None
  then show ?thesis by (intro exI[of _ "announced_state u via k t t' s"] exI[of _ "[]"]) (simp add: reported_def)
next
  case (Some c)
  then show ?thesis using assms(1) unfolding reports_def reported_def by simp
qed

lemma inbound_announce_run:
  assumes "packet_unpack X (packet_of_raw raw) = (True, u)" "pk_packet_type u = ANNOUNCE"
    "pk_packet_hash u \<notin> net_seen s" "valid_announce X u"
    "reports (A (\<lambda>f. broadcast (send_outgoing X W A (Suc n)) f None)) s"
    "set (net_interfaces s) \<subseteq> {..<length (net_heap s)}" "wired (net_heap s)"
  shows "\<exists>k t t' s1 fs. transport_inbound X W A (Suc n) raw via s = (Ret (), s1\<lparr>net_heap := flooded u via s1\<rparr>) \<and>
    orderly fs (announced_state u via k t t' s) s1 \<and> flooded_once u fs via s (s1\<lparr>net_heap := flooded u via s1\<rparr>)"
proof -
  let ?app = "A (\<lambda>f. broadcast (send_outgoing X W A (Suc n)) f None)"
  obtain k t t' where run: "\<And>s1. reported X ?app u (net_on_announce s) (announced_state u via k t t' s) = (Ret (), s1) \<Longrightarrow>
      pk_packet_hash u \<in> net_seen s1 \<Longrightarrow> set (net_interfaces s1) \<subseteq> {..<length (net_heap s1)} \<Longrightarrow> wired (net_heap s1) \<Longrightarrow>
      transport_inbound X W A (Suc n) raw via s = (Ret (), s1\<lparr>net_heap := flooded u via s1\<rparr>)"
    using inbound_reported[OF assms(1-4), of A W n via] by blast
  obtain s1 fs where s1: "reported X ?app u (net_on_announce s) (announced_state u via k t t' s) = (Ret (), s1)"
    "orderly fs (announced_state u via k t t' s) s1"
    using reports_run[OF assms(5) refl] by blast
  note f = flood_reported[OF assms(6,7) s1(2)]
  show ?thesis using run[OF s1(1) f(2-4)] s1(2) f(1) by blast
qed

lemma loaded_public_key:
  "get_public_key ((load_public_key X p empty_identity)\<lparr>id_app_data := d\<rparr>) = p"
  "id_hash (load_public_key X p empty_identity) = truncated_hash X p"
  by (simp_all add: load_public_key_def update_hashes_def get_public_key_def Let_def)

text \<open>The frame of an announce: it unpacks to a valid announce of the destination.\<close>

lemma announce_frame:
  assumes "crypto_laws X" "r < length (dest_heap s)" "d = dest_heap s ! r" "dst_type d = SINGLE" "dst_direction d = IN"
    "dst_identity d = Some (key_identity X a e ap)" "length (dst_name_hash d) = 10" "length app_data \<le> 316"
    "dst_hash d = truncated_hash X (dst_name_hash d @ id_hash (key_identity X a e ap))"
  obtains raw u rh where "announce X bc (Some r) app_data False s = (Ret raw, s\<lparr>hal_calls := hal_calls s + 1\<rparr>)"
    "packet_unpack X (packet_of_raw raw) = (True, u)" "pk_packet_type u = ANNOUNCE" "pk_hops u = 0"
    "pk_destination_hash u = dst_hash d" "pk_data u = announce_payload X d a e rh app_data"
    "announce_of X (dst_hash d) (announce_payload X d a e rh app_data) (x_x25519_pub X a @ x_ed_pub X e) app_data"
    "valid_announce X u"
proof -
  note laws = crypto_lawsD[OF assms(1)]
  obtain rh where rh: "length rh = 10" "announce X bc (Some r) app_data False s =
    (Ret (pk_raw (packed X (new_packet r d (announce_payload X d a e rh app_data) ANNOUNCE CONTEXT_NONE BROADCAST) d
       (announce_payload X d a e rh app_data))), s\<lparr>hal_calls := hal_calls s + 1\<rparr>)"
    using announce_run[OF assms(1-8)] by blast
  let ?pub = "x_x25519_pub X a @ x_ed_pub X e"
  have hash: "dst_hash d = truncated_hash X (dst_name_hash d @ truncated_hash X ?pub)"
    using assms(9) by (simp add: get_key_identity)
  have l16: "length (dst_hash d) = 16" using hash laws(1) by (simp add: length_truncated_hash)
  obtain u where u: "packet_unpack X (packet_of_raw (pk_raw (packed X (new_packet r d (announce_payload X d a e rh app_data)
      ANNOUNCE CONTEXT_NONE BROADCAST) d (announce_payload X d a e rh app_data)))) = (True, u)"
    "pk_packet_type u = ANNOUNCE" "pk_hops u = 0"
    "pk_destination_hash u = dst_hash d" "pk_data u = announce_payload X d a e rh app_data"
    using unpack_packed[OF _ l16 refl[of "new_packet r d (announce_payload X d a e rh app_data) ANNOUNCE CONTEXT_NONE BROADCAST"],
        of X "announce_payload X d a e rh app_data"]
    by (auto simp: wire_transport_def)
  have valid: "announce_of X (dst_hash d) (announce_payload X d a e rh app_data) ?pub app_data"
    by (rule announce_payload_valid[OF assms(1) rh(1) assms(7) hash])
  have "valid_announce X u"
    unfolding valid_announce_def u(4,5) announce_of_unique(1,2)[OF valid, symmetric] by (rule valid)
  then show thesis using that rh(2) u valid by blast
qed

text \<open>
  The frame \<open>Destination::announce\<close> makes for an identity's destination, with at most 316 bytes of
  application data, is accepted by any receiver that has not seen it: the receiver recalls the identity's
  public key and the data, and has a path of zero hops over the interface it came in by.
\<close>

lemma announce_accepted:
  assumes "crypto_laws X" "create_identity X s0 = (Ret i, s1)"
    "destination_new X (Some i) IN SINGLE name aspects s2 = (Ret r, s3)" "length app_data \<le> 316"
    "announce X bc (Some r) app_data False s3 = (Ret raw, s4)"
    "pk_packet_hash (snd (packet_unpack X (packet_of_raw raw))) \<notin> net_seen t"
    "reports (A (\<lambda>f. broadcast (send_outgoing X W A (Suc n)) f None)) t"
    "set (net_interfaces t) \<subseteq> {..<length (net_heap t)}" "wired (net_heap t)"
  shows "\<exists>t' dh j e. transport_inbound X W A (Suc n) raw via t = (Ret (), t') \<and>
    dst_hash (dest_heap s3 ! r) = dh \<and> recall X dh t' = Some j \<and> get_public_key j = get_public_key i \<and>
    id_hash j = id_hash i \<and> recall_app_data dh t' = app_data \<and>
    net_paths t' = (net_paths t)(dh \<mapsto> e) \<and> pe_hops e = 0 \<and> pe_via e = via"
proof -
  note laws = crypto_lawsD[OF assms(1)]
  obtain a e where i: "i = key_identity X a e []" "length a = 32" using create_identityD[OF laws(7) assms(2)] by blast
  obtain d nh where d: "r = length (dest_heap s2)" "s3 = s2\<lparr>dest_heap := dest_heap s2 @ [d]\<rparr>" "dst_type d = SINGLE"
    "dst_direction d = IN" "dst_identity d = Some i" "dst_name_hash d = nh" "length nh = 10"
    "dst_hash d = truncated_hash X (nh @ id_hash i)"
    using destination_new_fields[OF laws(1) assms(3)] by metis
  have at: "r < length (dest_heap s3)" "d = dest_heap s3 ! r" using d(1,2) by simp_all
  have len: "length (dst_name_hash d) = 10" using d(6,7) by simp
  obtain u rh where u: "packet_unpack X (packet_of_raw raw) = (True, u)" "pk_packet_type u = ANNOUNCE" "pk_hops u = 0"
    "pk_destination_hash u = dst_hash d" "pk_data u = announce_payload X d a e rh app_data"
    and valid: "announce_of X (dst_hash d) (announce_payload X d a e rh app_data) (x_x25519_pub X a @ x_ed_pub X e) app_data"
    "valid_announce X u"
    using announce_frame[OF assms(1) at d(3,4) d(5)[unfolded i(1)] len assms(4) d(8)[folded d(6), unfolded i(1)], of bc] assms(5)
    by (metis Pair_inject res.inject(1))
  let ?pub = "x_x25519_pub X a @ x_ed_pub X e"
  note parts = announce_of_unique(1,2)[OF valid(1)]
  have "pk_packet_hash u \<notin> net_seen t" using assms(6) u(1) by simp
  then obtain k x y t1 fs where run: "transport_inbound X W A (Suc n) raw via t =
      (Ret (), t1\<lparr>net_heap := flooded u via t1\<rparr>)" "orderly fs (announced_state u via k x y t) t1"
    using inbound_announce_run[where A = A and W = W and n = n and via = via, OF u(1,2) _ valid(2) assms(7-9)] by blast
  let ?t = "t1\<lparr>net_heap := flooded u via t1\<rparr>"
  from run(2) have tables: "known_destinations t1 = known_destinations (announced_state u via k x y t)"
    "net_paths t1 = net_paths (announced_state u via k x y t)" by (simp_all add: orderly_def)
  have "recall X (dst_hash d) ?t = Some ((load_public_key X ?pub empty_identity)\<lparr>id_app_data := app_data\<rparr>)"
    "get_public_key ((load_public_key X ?pub empty_identity)\<lparr>id_app_data := app_data\<rparr>) = get_public_key i"
    "id_hash ((load_public_key X ?pub empty_identity)\<lparr>id_app_data := app_data\<rparr>) = id_hash i"
    "recall_app_data (dst_hash d) ?t = app_data"
    using i(1) u(4,5) parts tables by (simp_all add: recall_def recall_app_data_def get_key_identity loaded_public_key)
  with run(1) at(2) u(3,4) tables(2) show ?thesis by auto
qed

section \<open>Properties\<close>

text \<open>
  C3: an announce changes the tables exactly when its packet hash is new, it is signed by the key it
  carries and its destination hash is derived from that key. A rejected one only enters the set of seen
  announces; an accepted one binds its destination to the key and the path, then is reported and passed
  on.
\<close>

theorem announce_gate:
  "(pk_packet_hash u \<in> net_seen s \<or> \<not> valid_announce X u \<longrightarrow>
      process_announce X app bc u via s = (Ret False, s\<lparr>net_seen := insert (pk_packet_hash u) (net_seen s)\<rparr>)) \<and>
   (pk_packet_hash u \<notin> net_seen s \<and> valid_announce X u \<longrightarrow>
      (\<exists>k t t'. process_announce X app bc u via s =
        bnd (case net_on_announce s of
               None \<Rightarrow> ret ()
             | Some c \<Rightarrow> app_announce app c (pk_destination_hash u)
                 (load_public_key X (take 64 (pk_data u)) empty_identity) (drop 148 (pk_data u))) (\<lambda>_.
        bnd (when_do (unat (pk_hops u) < 128) (bc (next_hop_frame (pk_raw u) (pk_hops u)) via)) (\<lambda>_.
        ret True)) (announced_state u via k t t' s)))"
  using announce_reject announce_accept by blast

section \<open>Witnesses\<close>

definition idle_app :: "'s app" where
  "idle_app =
    \<lparr>app_packet = (\<lambda>_ _ _. ret ()), app_generator = (\<lambda>_ _ _ _ _ _. ret []), app_established = (\<lambda>_ _. ret ()),
     app_link_packet = (\<lambda>_ _ _. ret ()), app_announce = (\<lambda>_ _ _ _. ret ()),
     app_link_request = (\<lambda>_ _ _ _. ret None)\<rparr>"

definition toy_iface :: "iface_kind \<Rightarrow> iface" where
  "toy_iface k = \<lparr>if_kind = k, if_online = True, if_rxb = 0, if_txb = 0, if_out = []\<rparr>"

definition toy_net :: net_state where
  "toy_net =
    \<lparr>hal_calls = 5, known_destinations = Map.empty, fs_impl = None, dest_heap = dest_heap toy_state,
     link_heap = [], res_heap = [],
     net_heap = [toy_iface (Loopback (Some 1)), toy_iface (Loopback (Some 0)), toy_iface Device],
     net_interfaces = [0, 2], net_destinations = Map.empty, net_paths = Map.empty, net_links = Map.empty,
     net_seen = {}, net_on_announce = Some 0, net_on_link_request = None\<rparr>"

lemma toy_net_simps [simp]:
  "length (net_heap toy_net) = 3" "net_interfaces toy_net = [0, 2]" "net_seen toy_net = {}"
  "net_heap toy_net ! 2 = toy_iface Device" "wired (net_heap toy_net)" "dest_heap toy_net = dest_heap toy_state"
  "net_paths toy_net = Map.empty" "net_destinations toy_net = Map.empty" "net_links toy_net = Map.empty"
  by (simp_all add: toy_net_def) (auto simp: wired_def toy_iface_def less_Suc_eq numeral_3_eq_3)

lemma idle_reports: "reports idle_app s"
  unfolding reports_def by (auto simp: idle_app_def intro: exI[of _ "[]"])

lemma toy_announce:
  "\<exists>raw u. packet_unpack toy (packet_of_raw raw) = (True, u) \<and> pk_packet_type u = ANNOUNCE \<and> pk_hops u = 0 \<and>
     valid_announce toy u"
proof -
  let ?pub = "x_x25519_pub toy (replicate 32 1) @ x_ed_pub toy (replicate 32 2)"
  let ?d = "(toy_dest toy_id IN)\<lparr>dst_hash := truncated_hash toy (replicate 10 8 @ truncated_hash toy ?pub)\<rparr>"
  let ?data = "announce_payload toy ?d (replicate 32 1) (replicate 32 2) (replicate 10 0) [5]"
  let ?p = "new_packet 0 ?d ?data ANNOUNCE CONTEXT_NONE BROADCAST"
  note laws = crypto_lawsD[OF toy_laws]
  have "length (dst_hash ?d) = 16" using laws(1) by (simp add: length_truncated_hash)
  then obtain u where u: "packet_unpack toy (packet_of_raw (pk_raw (packed toy ?p ?d ?data))) = (True, u)"
    "pk_packet_type u = ANNOUNCE" "pk_hops u = 0" "pk_destination_hash u = dst_hash ?d" "pk_data u = ?data"
    using unpack_packed[of BROADCAST ?d ?p 0 ?data ANNOUNCE CONTEXT_NONE toy ?data] by (auto simp: wire_transport_def)
  have valid: "announce_of toy (dst_hash ?d) ?data ?pub [5]"
    by (rule announce_payload_valid[OF toy_laws]) (simp_all add: toy_dest_def)
  have "valid_announce toy u"
    unfolding valid_announce_def u(4,5) announce_of_unique(1,2)[OF valid, symmetric] by (rule valid)
  with u show ?thesis by blast
qed

theorem announce_gate_witness:
  "\<exists>u s'. process_announce toy idle_app (\<lambda>_ _. ret ()) u None toy_net = (Ret True, s') \<and>
    net_paths s' (pk_destination_hash u) \<noteq> None \<and>
    process_announce toy idle_app (\<lambda>_ _. ret ()) u None s' = (Ret False, s')"
proof -
  obtain u where u: "pk_packet_type u = ANNOUNCE" "valid_announce toy u" using toy_announce by blast
  have "pk_packet_hash u \<notin> net_seen toy_net \<and> valid_announce toy u" using u by simp
  from announce_gate[THEN conjunct2, THEN mp, OF this, of idle_app "\<lambda>_ _. ret ()" None]
  obtain k t t' where acc: "process_announce toy idle_app (\<lambda>_ _. ret ()) u None toy_net =
      (Ret True, announced_state u None k t t' toy_net)"
    by (auto simp: bnd_def idle_app_def when_do_def split: option.splits)
  have "pk_packet_hash u \<in> net_seen (announced_state u None k t t' toy_net) \<or> \<not> valid_announce toy u" by simp
  from announce_gate[THEN conjunct1, THEN mp, OF this, of idle_app "\<lambda>_ _. ret ()" None] acc show ?thesis
    by (intro exI conjI) (assumption | simp add: announced_state_def)+
qed

end
