(* ===== verification/Routing.thy ===== *)
theory Routing
  imports Announce
begin

text \<open>
  What the transport's tables and its dispatch guarantee: the registries of destinations and links, the
  invariant of the path table over all received frames, the delivery of data to a destination found by an
  announce, the forwarding of data for others, and the endless forwarding over a loopback path.
\<close>

section \<open>Registries\<close>

text \<open>A table of objects by a key they hold; the keys do not change by registering.\<close>

locale registry =
  fixes put :: "nat \<Rightarrow> ('s, unit) prog"
    and del :: "nat \<Rightarrow> ('s, unit) prog"
    and look :: "bytes \<Rightarrow> 's \<Rightarrow> nat option"
    and key :: "nat \<Rightarrow> 's \<Rightarrow> bytes option"
  assumes put_run: "key r s = Some h \<Longrightarrow> \<exists>s'. put r s = (Ret (), s') \<and> (\<forall>k. key k s' = key k s) \<and>
      (\<forall>h'. look h' s' = (if h' = h then Some r else look h' s))"
    and del_run: "key r s = Some h \<Longrightarrow> \<exists>s'. del r s = (Ret (), s') \<and> (\<forall>k. key k s' = key k s) \<and>
      (\<forall>h'. look h' s' = (if h' = h then None else look h' s))"
begin

lemma run_look:
  assumes "\<forall>(add, r)\<in>set ops. key r s \<noteq> None"
  shows "\<exists>s'. for_each ops (\<lambda>(add, r). if add then put r else del r) s = (Ret (), s') \<and>
    (\<forall>h. look h s' = (case find (\<lambda>(add, r). key r s = Some h) (rev ops) of
       None \<Rightarrow> look h s | Some (add, r) \<Rightarrow> if add then Some r else None))"
  using assms
proof (induction ops arbitrary: s)
  case (Cons p ops)
  obtain add r where p: "p = (add, r)" by (cases p)
  obtain h where h: "key r s = Some h" using Cons.prems p by auto
  obtain s1 where s1: "(if add then put r else del r) s = (Ret (), s1)" "\<And>k. key k s1 = key k s"
    "\<And>h'. look h' s1 = (if h' = h then if add then Some r else None else look h' s)"
    using put_run[OF h] del_run[OF h] by (cases add) auto
  obtain s' where s': "for_each ops (\<lambda>(add, r). if add then put r else del r) s1 = (Ret (), s')"
    "\<And>h. look h s' = (case find (\<lambda>(add, r). key r s1 = Some h) (rev ops) of
       None \<Rightarrow> look h s1 | Some (add, r) \<Rightarrow> if add then Some r else None)"
    using Cons.IH[of s1] Cons.prems s1(2) by auto
  have "find P (xs @ [y]) = (case find P xs of None \<Rightarrow> if P y then Some y else None | Some x \<Rightarrow> Some x)"
    for P and xs :: "(bool \<times> nat) list" and y
    by (induction xs) simp_all
  then have "look h' s' = (case find (\<lambda>(add, r). key r s = Some h') (rev (p # ops)) of
       None \<Rightarrow> look h' s | Some (add, r) \<Rightarrow> if add then Some r else None)" for h'
    unfolding s'(2) s1(2) using s1(3)[of h'] h p by (auto split: option.split)
  moreover have "for_each (p # ops) (\<lambda>(add, r). if add then put r else del r) s = (Ret (), s')"
    using s1(1) s'(1) p by (simp add: bnd_Ret[where m = "if add then put r else del r"])
  ultimately show ?case by blast
qed simp

end

definition dest_key :: "nat \<Rightarrow> 'a net_state_scheme \<Rightarrow> bytes option" where
  "dest_key r s = (if r < length (dest_heap s) then Some (dst_hash (dest_heap s ! r)) else None)"

definition link_key :: "nat \<Rightarrow> 'a net_state_scheme \<Rightarrow> bytes option" where
  "link_key r s = (if r < length (link_heap s) then Some (lk_hash (link_heap s ! r)) else None)"

interpretation dests: registry register_destination deregister_destination find_destination_from_hash dest_key
  by unfold_locales
    (auto simp: dest_key_def register_destination_def deregister_destination_def find_destination_from_hash_def
      get_dest_run bnd_def split: if_splits)

interpretation links: registry "\<lambda>r. register_link (Some r)" "\<lambda>r. deregister_link (Some r)" find_link link_key
  by unfold_locales
    (auto simp: link_key_def register_link_def deregister_link_def find_link_def
      get_link_def heap_get_def bnd_def split: if_splits)

text \<open>
  After any sequence of registrations and deregistrations, a lookup by hash finds the object the last
  operation on that hash registered, nothing if that operation removed it, and what was there before
  if there was none; for destinations and for links.
\<close>

theorem registries:
  "((\<forall>(add, r)\<in>set ops. dest_key r s \<noteq> None) \<longrightarrow>
     (\<exists>s'. for_each ops (\<lambda>(add, r). if add then register_destination r else deregister_destination r) s = (Ret (), s') \<and>
       (\<forall>h. find_destination_from_hash h s' = (case find (\<lambda>(add, r). dest_key r s = Some h) (rev ops) of
          None \<Rightarrow> find_destination_from_hash h s | Some (add, r) \<Rightarrow> if add then Some r else None)))) \<and>
   ((\<forall>(add, r)\<in>set ops. link_key r s \<noteq> None) \<longrightarrow>
     (\<exists>s'. for_each ops (\<lambda>(add, r). if add then register_link (Some r) else deregister_link (Some r)) s = (Ret (), s') \<and>
       (\<forall>h. find_link h s' = (case find (\<lambda>(add, r). link_key r s = Some h) (rev ops) of
          None \<Rightarrow> find_link h s | Some (add, r) \<Rightarrow> if add then Some r else None))))"
  using dests.run_look[of ops s] links.run_look[of ops s] by blast

theorem registries_witness:
  "\<exists>s'. for_each [(True, 0), (True, 1), (False, 0)]
      (\<lambda>(add, r). if add then register_destination r else deregister_destination r) toy_net = (Ret (), s') \<and>
    find_destination_from_hash (replicate 16 7) s' = None"
proof -
  have k: "dest_key 0 toy_net = Some (replicate 16 7)" "dest_key 1 toy_net = Some (replicate 16 7)"
    by (simp_all add: dest_key_def toy_heap toy_dest_def flip: One_nat_def)
  have "\<forall>(add, r)\<in>set [(True, 0), (True, 1), (False, 0)]. dest_key r toy_net \<noteq> None" using k by simp
  from registries[THEN conjunct1, THEN mp, OF this] k show ?thesis by auto
qed
section \<open>The tables only hold what announces proved\<close>

definition binds :: "ext \<Rightarrow> bytes \<Rightarrow> bytes \<Rightarrow> bool" where
  "binds X dh public \<longleftrightarrow>
     length public = 64 \<and> (\<exists>nh. length nh = 10 \<and> dh = truncated_hash X (nh @ truncated_hash X public))"

definition bound_tables :: "ext \<Rightarrow> 'a net_state_scheme \<Rightarrow> bool" where
  "bound_tables X s \<longleftrightarrow>
     (\<forall>dh k. known_destinations s dh = Some k \<longrightarrow> binds X dh (ie_public_key k)) \<and>
     dom (net_paths s) \<subseteq> dom (known_destinations s)"

text \<open>Programs that leave both tables alone.\<close>

lemma bound_frame:
  assumes "\<And>s. known_destinations (snd (m s)) = known_destinations s" "\<And>s. net_paths (snd (m s)) = net_paths s"
  shows "preserves (bound_tables X) m"
  by (rule preservesI) (simp add: bound_tables_def assms)

lemma bound_basic [pres_intros]:
  "preserves (bound_tables X) (get_dest r)" "preserves (bound_tables X) (get_link r)"
  "preserves (bound_tables X) (get_iface i)" "preserves (bound_tables X) hal_tick"
  "preserves (bound_tables X) (set_iface i f)" "preserves (bound_tables X) (with_link r m)"
  by (rule bound_frame; simp add: get_dest_def get_link_def get_iface_def heap_get_def hal_tick_def set_iface_def
      with_link_def split: prod.split)+

lemma bound_crypto [pres_intros]:
  "preserves (bound_tables X) (token_encrypt Y t d)" "preserves (bound_tables X) (dest_identity ro)"
  "preserves (bound_tables X) (dest_decrypt Y ro d)"
  unfolding token_encrypt_def random_bytes_def dest_identity_def dest_decrypt_def Let_def
  by (intro pres_intros)+

definition safe_app :: "ext \<Rightarrow> 'a net_state_scheme app \<Rightarrow> bool" where
  "safe_app X app \<longleftrightarrow>
     (\<forall>c d p. preserves (bound_tables X) (app_packet app c d p)) \<and>
     (\<forall>g p d i h t. preserves (bound_tables X) (app_generator app g p d i h t)) \<and>
     (\<forall>c n. preserves (bound_tables X) (app_established app c n)) \<and>
     (\<forall>c d n. preserves (bound_tables X) (app_link_packet app c d n)) \<and>
     (\<forall>c h i d. preserves (bound_tables X) (app_announce app c h i d)) \<and>
     (\<forall>c r d p. preserves (bound_tables X) (app_link_request app c r d p))"

lemma safe_appD:
  assumes "safe_app X app"
  shows "preserves (bound_tables X) (app_packet app c d p)" "preserves (bound_tables X) (app_generator app g b d j h t)"
    "preserves (bound_tables X) (app_established app c n)" "preserves (bound_tables X) (app_link_packet app cb d n)"
    "preserves (bound_tables X) (app_announce app c h i d)" "preserves (bound_tables X) (app_link_request app c r d p)"
  using assms by (simp_all add: safe_app_def)

lemma bound_link:
  assumes "safe_app X app"
  shows "preserves (bound_tables X) (link_on_proof Y app r p)" "preserves (bound_tables X) (dest_receive app ro d p)"
  unfolding link_on_proof_def dest_receive_def Let_def by (intro pres_intros safe_appD[OF assms])+

lemma bound_link_inbound:
  assumes "safe_app X app" "\<And>f. preserves (bound_tables X) (bc f)"
  shows "preserves (bound_tables X) (link_on_inbound Y W app bc r p)"
proof -
  have send: "preserves (bound_tables X) (link_send_with_context Y bc r d c)" for d c
    unfolding link_send_with_context_def by (intro pres_intros assms(2))
  have "preserves (bound_tables X) (link_handle_request Y W app bc r d p)" for d
    unfolding link_handle_request_def Let_def by (intro pres_intros send safe_appD[OF assms(1)])
  then show ?thesis
    unfolding link_on_inbound_def by (intro pres_intros safe_appD[OF assms(1)])
qed

lemma bound_announced:
  assumes "bound_tables X s" "valid_announce X u"
  shows "bound_tables X (announced_state u via k t t' s)"
proof -
  have "binds X (pk_destination_hash u) (take 64 (pk_data u))"
    using assms(2) by (auto simp: valid_announce_def announce_of_def binds_def)
  then show ?thesis using assms(1) by (auto simp: bound_tables_def)
qed

lemma bound_announce:
  assumes "safe_app X app" "\<And>f v. preserves (bound_tables X) (bc f v)"
  shows "preserves (bound_tables X) (process_announce X app bc u via)"
proof (rule preservesI)
  fix s :: "'a net_state_scheme" assume s: "bound_tables X s"
  show "bound_tables X (snd (process_announce X app bc u via s))"
  proof (cases "pk_packet_hash u \<in> net_seen s \<or> \<not> valid_announce X u")
    case True
    then show ?thesis using s by (simp add: announce_reject bound_tables_def)
  next
    case False
    then have new: "pk_packet_hash u \<notin> net_seen s" and valid: "valid_announce X u" by simp_all
    from announce_accept[OF new valid, of app bc via] obtain k t t' where
      acc: "process_announce X app bc u via s =
        bnd (case net_on_announce s of
               None \<Rightarrow> ret ()
             | Some c \<Rightarrow> app_announce app c (pk_destination_hash u)
                 (load_public_key X (take 64 (pk_data u)) empty_identity) (drop 148 (pk_data u))) (\<lambda>_.
        bnd (when_do (unat (pk_hops u) < 128) (bc (next_hop_frame (pk_raw u) (pk_hops u)) via)) (\<lambda>_.
        ret True)) (announced_state u via k t t' s)" by blast
    have "preserves (bound_tables X) (bnd (case net_on_announce s of
               None \<Rightarrow> ret ()
             | Some c \<Rightarrow> app_announce app c (pk_destination_hash u)
                 (load_public_key X (take 64 (pk_data u)) empty_identity) (drop 148 (pk_data u))) (\<lambda>_.
        bnd (when_do (unat (pk_hops u) < 128) (bc (next_hop_frame (pk_raw u) (pk_hops u)) via)) (\<lambda>_.
        ret True)))"
      by (intro pres_intros safe_appD[OF assms(1)] assms(2))
    from preservesD[OF this bound_announced[OF s valid]] show ?thesis unfolding acc .
  qed
qed

lemma bound_links_update [pres_intros]: "preserves (bound_tables X) (modify (\<lambda>s. s\<lparr>net_links := f s\<rparr>))"
  by (rule bound_frame) simp_all

lemma bound_inbound:
  assumes "\<And>bc. (\<And>f. preserves (bound_tables X) (bc f)) \<Longrightarrow> safe_app X (A bc)"
    "\<And>i f. preserves (bound_tables X) (send i f)"
  shows "preserves (bound_tables X) (inbound_with X W A send raw via)"
proof -
  have bc: "preserves (bound_tables X) (broadcast send f v)" for f v
    unfolding broadcast_def by (intro pres_intros assms(2))
  note app = assms(1)[OF bc]
  show ?thesis
    unfolding inbound_with_def Let_def
    by (intro pres_intros bound_announce[OF app] bound_link[OF app] bound_link_inbound[OF app bc] bc assms(2) safe_appD[OF app])
qed

lemma bound_send:
  assumes "\<And>i f. preserves (bound_tables X) (rec i f)"
  shows "preserves (bound_tables X) (send_via rec i raw)"
proof -
  have "preserves (bound_tables X) (case k of
      Loopback peer \<Rightarrow>
        bnd (set_iface i g) (\<lambda>_. case peer of None \<Rightarrow> ret () | Some j \<Rightarrow> rec j raw)
    | Device \<Rightarrow> set_iface i g')" for k g g'
    by (cases k) (auto intro!: pres_intros assms)
  then show ?thesis unfolding send_via_def by (intro pres_intros)
qed

lemma bound_handle:
  assumes "\<And>bc. (\<And>f. preserves (bound_tables X) (bc f)) \<Longrightarrow> safe_app X (A bc)"
  shows "preserves (bound_tables X) (handle_incoming X W A n i raw)"
proof (induction n arbitrary: i raw)
  case (Suc n)
  show ?case
    unfolding handle_incoming.simps by (intro pres_intros bound_inbound assms bound_send Suc)
qed (simp add: pres_intros)
section \<open>Data\<close>

lemma get_iface_run: "i < length (net_heap s) \<Longrightarrow> get_iface i s = (Ret (net_heap s ! i), s)"
  by (simp add: get_iface_def heap_get_def)

lemma next_hop_raw:
  assumes "packet_unpack X (packet_of_raw raw) = (True, u)"
  shows "next_hop_frame raw (raw ! 1) = raw[1 := pk_hops u + 1]"
proof -
  note r = unpack_received(3)[OF assms]
  have "1 < length raw" by (subst r) (simp add: frame_def)
  moreover have "raw ! 1 = pk_hops u" by (subst r) (simp add: frame_def)
  ultimately show ?thesis by (simp add: next_hop_frame_def)
qed

text \<open>A data frame nobody here waits for.\<close>

definition transit :: "ext \<Rightarrow> bytes \<Rightarrow> packet \<Rightarrow> 'a net_state_scheme \<Rightarrow> bool" where
  "transit X raw u s \<longleftrightarrow>
     packet_unpack X (packet_of_raw raw) = (True, u) \<and> pk_packet_type u = DATA \<and>
     net_destinations s (pk_destination_hash u) = None \<and> net_links s (pk_destination_hash u) = None"

lemma inbound_transit:
  assumes "transit X raw u s"
  shows "inbound_with X W A send raw via s =
    (case net_paths s (pk_destination_hash u) of
       None \<Rightarrow> (Ret (), s)
     | Some e \<Rightarrow> (case pe_via e of None \<Rightarrow> (Ret (), s) | Some i \<Rightarrow> send i (raw[1 := pk_hops u + 1]) s))"
  using assms next_hop_raw[of X raw u]
  by (simp add: transit_def inbound_with_def Let_def split: option.split)

lemma loop_step:
  assumes "transit X raw u s" "net_paths s (pk_destination_hash u) = Some e" "pe_via e = Some i"
    "i < length (net_heap s)" "if_kind (net_heap s ! i) = Loopback (Some j)" "j < length (net_heap s)"
  shows "fst (inbound_with X W A (send_via (handle_incoming X W A n)) raw via s) = Fault Out_of_fuel"
  using assms
proof (induction n arbitrary: s raw u via)
  case 0
  note run = inbound_transit[OF 0(1), unfolded 0(2), of W A "send_via (handle_incoming X W A 0)" via, simplified, unfolded 0(3)]
  show ?case using 0 unfolding run by (simp add: send_via_def bnd_def get_iface_run set_iface_def)
next
  case (Suc n)
  let ?raw = "raw[1 := pk_hops u + 1]"
  let ?h = "(net_heap s)[i := (net_heap s ! i)\<lparr>if_txb := if_txb (net_heap s ! i) + length ?raw\<rparr>]"
  let ?h' = "?h[j := (?h ! j)\<lparr>if_rxb := if_rxb (?h ! j) + length ?raw\<rparr>]"
  have un: "packet_unpack X (packet_of_raw raw) = (True, u)" using Suc.prems(1) by (simp add: transit_def)
  obtain u' where u': "packet_unpack X (packet_of_raw ?raw) = (True, u')" "pk_packet_type u' = pk_packet_type u"
    "pk_destination_hash u' = pk_destination_hash u"
    using unpack_hops[OF un] by blast
  note run = inbound_transit[OF Suc.prems(1), unfolded Suc.prems(2), of W A "send_via (handle_incoming X W A (Suc n))" via,
      simplified option.case, unfolded Suc.prems(3) option.case]
  have "send_via (handle_incoming X W A (Suc n)) i ?raw s =
      inbound_with X W A (send_via (handle_incoming X W A n)) ?raw (Some j) (s\<lparr>net_heap := ?h'\<rparr>)"
    using Suc.prems(4-6) by (simp add: send_via_def bnd_def get_iface_run set_iface_def)
  moreover have "fst (inbound_with X W A (send_via (handle_incoming X W A n)) ?raw (Some j) (s\<lparr>net_heap := ?h'\<rparr>)) =
      Fault Out_of_fuel"
  proof (rule Suc.IH)
    show "transit X ?raw u' (s\<lparr>net_heap := ?h'\<rparr>)" using Suc.prems(1) u' by (simp add: transit_def)
    show "if_kind (net_heap (s\<lparr>net_heap := ?h'\<rparr>) ! i) = Loopback (Some j)"
      using Suc.prems(5) by (simp add: update_field[of if_kind])
  qed (use Suc.prems u'(3) in simp_all)
  ultimately show ?case unfolding run by simp
qed

section \<open>Properties\<close>

text \<open>
  C13: whatever frames a node receives and whatever its interfaces are wired to, every path it has leads to
  a known destination, and every known destination's hash is derived from the 64-byte key recorded for it,
  as long as the application's callbacks keep to that. It holds of failing runs too.
\<close>

theorem tables_bound:
  assumes "\<And>bc. (\<And>f. preserves (bound_tables X) (bc f)) \<Longrightarrow> safe_app X (A bc)" "bound_tables X s"
  shows "bound_tables X (snd (for_each frames (\<lambda>(i, raw). handle_incoming X W A n i raw) s))"
proof -
  have "preserves (bound_tables X) (for_each frames (\<lambda>(i, raw). handle_incoming X W A n i raw))"
    by (intro pres_intros bound_handle assms(1))
  from preservesD[OF this assms(2)] show ?thesis .
qed

text \<open>
  A data frame for another node goes out on the interface of the destination's path with its hop count
  incremented, modulo 256 and without a limit; without a path it is dropped. Nothing else changes.
\<close>

theorem data_forward:
  assumes "transit X raw u s"
  shows "(\<forall>e i. net_paths s (pk_destination_hash u) = Some e \<longrightarrow> pe_via e = Some i \<longrightarrow> i < length (net_heap s) \<longrightarrow>
       if_kind (net_heap s ! i) = Device \<longrightarrow>
       transport_inbound X W A n raw via s =
         (Ret (), s\<lparr>net_heap := (net_heap s)[i := (net_heap s ! i)\<lparr>if_out := if_out (net_heap s ! i) @
            [raw[1 := pk_hops u + 1]]\<rparr>]\<rparr>)) \<and>
    ((case net_paths s (pk_destination_hash u) of None \<Rightarrow> True | Some e \<Rightarrow> pe_via e = None) \<longrightarrow>
       transport_inbound X W A n raw via s = (Ret (), s))"
  by (auto simp: transport_inbound_def inbound_transit[OF assms] send_outgoing_def send_via_def bnd_def get_iface_run
      set_iface_def split: option.split)

text \<open>
  A path over a loopback interface sends a data frame back to the node itself, which forwards it
  again: the nested calls never end, whatever bound they are given.
\<close>

theorem data_loop:
  assumes "transit X raw u s" "net_paths s (pk_destination_hash u) = Some e" "pe_via e = Some i"
    "i < length (net_heap s)" "if_kind (net_heap s ! i) = Loopback (Some j)" "j < length (net_heap s)"
  shows "fst (transport_inbound X W A n raw via s) = Fault Out_of_fuel"
  unfolding transport_inbound_def send_outgoing_def by (rule loop_step[OF assms])
text \<open>Application data is not used to encrypt.\<close>

lemma identity_encrypt_app [simp]:
  "identity_encrypt X (Some (i\<lparr>id_app_data := d\<rparr>)) m = identity_encrypt X (Some i) m"
  by (simp add: identity_encrypt_def)

text \<open>Data for a destination made from a recalled identity.\<close>

lemma recalled_delivery:
  assumes "crypto_laws X" "create_identity X s0 = (Ret i, s1)"
    "destination_new X (Some i) IN SINGLE name aspects s2 = (Ret r, s3)" "d = dest_heap s3 ! r"
    "recall X (dst_hash d) t = Some j" "get_public_key j = get_public_key i"
    "destination_new X (Some j) OUT SINGLE name aspects t = (Ret q, t1)"
    "packet_new (Some q) data DATA ctx BROADCAST t1 = (Ret p, t1)" "data \<noteq> []" "length data \<le> 464"
    "r' < length (dest_heap o1)" "dest_heap o1 ! r' = d\<lparr>dst_packet_callback := Some cb\<rparr>"
    "net_destinations o1 (dst_hash d) = Some r'"
  shows "\<exists>p' t2 u. packet_pack X p t1 = (Ret p', t2) \<and> packet_unpack X (packet_of_raw (pk_raw p')) = (True, u) \<and>
    pk_destination_hash u = dst_hash d \<and> pk_context u = ctx \<and>
    transport_inbound X W A n (pk_raw p') via o1 =
      app_packet (A (\<lambda>f. broadcast (send_outgoing X W A n) f None)) cb data u o1"
proof -
  note laws = crypto_lawsD[OF assms(1)]
  obtain d0 nh where d0: "r = length (dest_heap s2)" "s3 = s2\<lparr>dest_heap := dest_heap s2 @ [d0]\<rparr>" "dst_type d0 = SINGLE"
    "dst_identity d0 = Some i" "dst_hash d0 = truncated_hash X (nh @ id_hash i)" "name_hash X name aspects = Ret nh"
    using destination_new_fields[OF laws(1) assms(3)] by metis
  have "d0 = d" using d0(1,2) assms(4) by simp
  note d = d0(3-6)[unfolded this]
  obtain e where e: "j = (load_public_key X (get_public_key i) empty_identity)\<lparr>id_app_data := e\<rparr>"
    using assms(5,6) by (auto simp: recall_def loaded_public_key split: option.splits)
  obtain a b where i: "i = key_identity X a b []" using create_identityD[OF laws(7) assms(2)] by blast
  have hash: "id_hash j = id_hash i" unfolding e by (simp add: loaded_public_key i get_key_identity)
  obtain c ch where c: "q = length (dest_heap t)" "t1 = t\<lparr>dest_heap := dest_heap t @ [c]\<rparr>" "dst_type c = SINGLE"
    "dst_identity c = Some j" "dst_hash c = truncated_hash X (ch @ id_hash j)" "name_hash X name aspects = Ret ch"
    using destination_new_fields[OF laws(1) assms(7)] by metis
  have q: "q < length (dest_heap t1)" "dest_heap t1 ! q = c" using c(1,2) by simp_all
  have same: "dst_hash c = dst_hash d" using c(5,6) d(3,4) hash by simp
  have l16: "length (dst_hash c) = 16" using c(5) laws(1) by (simp add: length_truncated_hash)
  have p: "p = new_packet q c data DATA ctx BROADCAST"
    using assms(8) packet_new_run[OF q(1)] q(2) by simp
  have pf: "pk_destination p = Some q" "pk_packet_type p = DATA" "pk_data p = data"
    using assms(10) by (simp_all add: p new_packet_def packet_object_def Let_def size_values)
  let ?t = "t1\<lparr>hal_calls := hal_calls t1 + 2\<rparr>"
  obtain ct where ct: "identity_encrypt X (dst_identity c) data t1 = (Ret ct, ?t)" "identity_decrypt X (Some i) ct = Ret data"
    using channel_run[OF assms(1,2), of data t1] c(4) e by auto
  have enc: "(if pk_packet_type p = DATA then dest_encrypt X (Some q) (pk_data p) else ret (pk_data p)) t1 = (Ret ct, ?t)"
    using q c(3,4) ct(1) pf by (simp add: dest_encrypt_def bnd_def get_dest_run)
  have run: "packet_pack X p t1 = (Ret (packed X p c ct), ?t)"
    using packet_pack_run[OF q(1) pf(1) enc] q(2) by simp
  obtain u where u: "packet_unpack X (packet_of_raw (pk_raw (packed X p c ct))) = (True, u)" "pk_packet_type u = DATA"
    "pk_destination_hash u = dst_hash d" "pk_context u = ctx" "pk_data u = ct"
    using unpack_packed[OF _ l16 p, of X ct] same by (auto simp: wire_transport_def)
  have dec: "dest_decrypt X (Some r') ct o1 = (Ret data, o1)"
    using assms(11,12) d(1,2) ct(2) by (simp add: dest_decrypt_def bnd_def get_dest_run)
  have recv: "dest_receive app (Some r') data u o1 = app_packet app cb data u o1" for app
    using assms(11,12) by (simp add: dest_receive_def bnd_def get_dest_run)
  have "transport_inbound X W A n (pk_raw (packed X p c ct)) via o1 =
      app_packet (A (\<lambda>f. broadcast (send_outgoing X W A n) f None)) cb data u o1"
    unfolding transport_inbound_def inbound_with_def Let_def u(1) split_conv
    using u(2-5) assms(9,13) by (simp add: bnd_Ret[where m = "dest_decrypt X (Some r') ct", OF dec] recv)
  with run u show ?thesis by blast
qed

lemma destination_new_again:
  assumes "destination_new X (Some i) dir SINGLE name aspects s = (Ret r, s')"
  shows "\<exists>q t'. destination_new X (Some j) dir' SINGLE name aspects t = (Ret q, t')"
  using assms
  by (auto simp: destination_new_def name_hash_def expand_name_def destination_hash_def alloc_dest_def Let_def split: if_splits)

text \<open>
  C2: from an announce to data. When a node \<open>t\<close> receives the frame \<open>Destination::announce\<close> made for an
  identity's destination, with at most 316 bytes of application data, and has not seen it, it can recall an
  identity with the announcer's public key under the destination's hash. That identity, put in an
  outgoing destination of the same name, addresses the announcer: a packet made for that destination from 1 to
  464 bytes of data carries the announcer's hash, and the announcer's node hands its payload to the destination's
  packet callback, decrypted. The announce callback of the receiving node may send frames of its own, but leaves
  the tables alone (\<open>reports\<close>), as the firmware's does. (An empty payload is not handed on,
  and the constructor cuts longer ones.)
\<close>

theorem announced_delivery:
  assumes "crypto_laws X" "create_identity X s0 = (Ret i, s1)"
    "destination_new X (Some i) IN SINGLE name aspects s2 = (Ret r, s3)" "d = dest_heap s3 ! r"
    "announce X bc (Some r) app_data False s3 = (Ret raw, s4)" "length app_data \<le> 316"
    "pk_packet_hash (snd (packet_unpack X (packet_of_raw raw))) \<notin> net_seen t"
    "reports (A (\<lambda>f. broadcast (send_outgoing X W A (Suc n)) f None)) t"
    "set (net_interfaces t) \<subseteq> {..<length (net_heap t)}" "wired (net_heap t)"
    "data \<noteq> []" "length data \<le> 464"
    "r' < length (dest_heap o1)" "dest_heap o1 ! r' = d\<lparr>dst_packet_callback := Some cb\<rparr>"
    "net_destinations o1 (dst_hash d) = Some r'"
  shows "\<exists>t1 j q t2 p p' t3 u. transport_inbound X W A (Suc n) raw via t = (Ret (), t1) \<and>
    recall X (dst_hash d) t1 = Some j \<and> get_public_key j = get_public_key i \<and>
    destination_new X (Some j) OUT SINGLE name aspects t1 = (Ret q, t2) \<and>
    packet_new (Some q) data DATA ctx BROADCAST t2 = (Ret p, t2) \<and> packet_pack X p t2 = (Ret p', t3) \<and>
    packet_unpack X (packet_of_raw (pk_raw p')) = (True, u) \<and> pk_destination_hash u = dst_hash d \<and> pk_context u = ctx \<and>
    transport_inbound X W' A' n' (pk_raw p') via' o1 =
      app_packet (A' (\<lambda>f. broadcast (send_outgoing X W' A' n') f None)) cb data u o1"
proof -
  obtain t1 j where t1: "transport_inbound X W A (Suc n) raw via t = (Ret (), t1)" "recall X (dst_hash d) t1 = Some j"
    "get_public_key j = get_public_key i"
    using announce_accepted[where A = A and W = W and n = n and via = via, OF assms(1-3,6,5,7-10)] assms(4) by auto
  obtain q t2 where q: "destination_new X (Some j) OUT SINGLE name aspects t1 = (Ret q, t2)"
    using destination_new_again[OF assms(3)] by blast
  obtain c where "q = length (dest_heap t1)" "t2 = t1\<lparr>dest_heap := dest_heap t1 @ [c]\<rparr>"
    using destination_new_fields[OF crypto_lawsD(1)[OF assms(1)] q] by metis
  then have p: "packet_new (Some q) data DATA ctx BROADCAST t2 = (Ret (new_packet q c data DATA ctx BROADCAST), t2)"
    using packet_new_run[of q t2 data DATA ctx BROADCAST] by simp
  from recalled_delivery[where A = A' and W = W' and n = n' and via = via', OF assms(1-4) t1(2,3) q p assms(11-15)]
  obtain p' t3 u where "packet_pack X (new_packet q c data DATA ctx BROADCAST) t2 = (Ret p', t3)"
    "packet_unpack X (packet_of_raw (pk_raw p')) = (True, u)" "pk_destination_hash u = dst_hash d" "pk_context u = ctx"
    "transport_inbound X W' A' n' (pk_raw p') via' o1 =
      app_packet (A' (\<lambda>f. broadcast (send_outgoing X W' A' n') f None)) cb data u o1" by blast
  with t1 q p show ?thesis by blast
qed

section \<open>Witnesses\<close>

lemma idle_safe: "safe_app X idle_app"
  by (simp add: safe_app_def idle_app_def pres_intros)

theorem tables_bound_witness:
  "bound_tables toy (snd (for_each [(2, replicate 30 1), (0, [])]
     (\<lambda>(i, raw). handle_incoming toy 64 (\<lambda>_. idle_app) 3 i raw) toy_net))"
  by (rule tables_bound) (simp_all add: idle_safe bound_tables_def toy_net_def)

text \<open>A frame in transit, with a path over a given interface.\<close>

definition toy_entry :: "nat \<Rightarrow> path_entry" where
  "toy_entry i = \<lparr>pe_next_hop = replicate 16 7, pe_hops = 1, pe_timestamp = Uptime_ms 0, pe_via = Some i\<rparr>"

definition toy_route :: "nat \<Rightarrow> net_state" where
  "toy_route i = toy_net\<lparr>net_paths := [replicate 16 7 \<mapsto> toy_entry i]\<rparr>"

lemma toy_transit:
  obtains u where "transit toy (frame 0 255 [] (replicate 16 7) 0 [1]) u (toy_route i)"
    "pk_destination_hash u = replicate 16 7" "pk_hops u = 255"
proof -
  have "\<not> wide_header 0" by (simp add: wide_header_def)
  then have "frame_ok 0 [] (replicate 16 7)" by (simp add: frame_ok_def)
  from unpack_frame[OF this, of "packet_of_raw (frame 0 255 [] (replicate 16 7) 0 [1])" 255 0 "[1]" toy]
  obtain u where "packet_unpack toy (packet_of_raw (frame 0 255 [] (replicate 16 7) 0 [1])) = (True, u)"
    "pk_destination_hash u = replicate 16 7" "pk_hops u = 255" "pk_packet_type u = DATA"
    by (auto simp: packet_of_raw_def packet_object_def packet_type_of_def)
  then show ?thesis using that[of u] by (simp add: transit_def toy_route_def)
qed

theorem data_forward_witness:
  "\<exists>s'. transport_inbound toy 64 (\<lambda>_. idle_app) 1 (frame 0 255 [] (replicate 16 7) 0 [1]) (Some 0) (toy_route 2) = (Ret (), s') \<and>
    if_out (net_heap s' ! 2) = [frame 0 0 [] (replicate 16 7) 0 [1]]"
proof -
  obtain u where u: "transit toy (frame 0 255 [] (replicate 16 7) 0 [1]) u (toy_route 2)"
    "pk_destination_hash u = replicate 16 7" "pk_hops u = 255" by (rule toy_transit)
  note f = data_forward[OF u(1), THEN conjunct1, rule_format, of "toy_entry 2" 2, where via = "Some 0" and W = 64 and n = 1 and A = "\<lambda>_. idle_app"]
  show ?thesis
    by (subst f) (simp_all add: u(2,3) toy_route_def toy_entry_def toy_iface_def frame_def)
qed

theorem data_loop_witness:
  "fst (transport_inbound toy 64 (\<lambda>_. idle_app) 5 (frame 0 255 [] (replicate 16 7) 0 [1]) None (toy_route 0)) =
    Fault Out_of_fuel"
proof -
  obtain u where u: "transit toy (frame 0 255 [] (replicate 16 7) 0 [1]) u (toy_route 0)"
    "pk_destination_hash u = replicate 16 7" "pk_hops u = 255" by (rule toy_transit)
  show ?thesis
    by (rule data_loop[OF u(1), where j = 1 and i = 0 and e = "toy_entry 0"]) (simp_all add: u(2) toy_entry_def toy_route_def toy_net_def toy_iface_def)
qed

definition echo_app :: "(bytes \<Rightarrow> (net_state, unit) prog) \<Rightarrow> net_state app" where
  "echo_app bc = idle_app\<lparr>app_packet := (\<lambda>_ d _. bc d)\<rparr>"

theorem announced_delivery_witness:
  "\<exists>r s3 raw s4 t1 j q t2 p p' t3 (o1 :: net_state).
    destination_new toy (Some toy_id) IN SINGLE ''app'' ''x'' toy_state = (Ret r, s3) \<and>
    announce toy (\<lambda>_. ret ()) (Some r) [1, 2] False s3 = (Ret raw, s4) \<and>
    transport_inbound toy 64 (\<lambda>_. idle_app) (Suc 0) raw (Some 2) toy_net = (Ret (), t1) \<and>
    recall toy (dst_hash (dest_heap s3 ! r)) t1 = Some j \<and>
    destination_new toy (Some j) OUT SINGLE ''app'' ''x'' t1 = (Ret q, t2) \<and>
    packet_new (Some q) [4, 2] DATA 0 BROADCAST t2 = (Ret p, t2) \<and> packet_pack toy p t2 = (Ret p', t3) \<and>
    transport_inbound toy 64 echo_app 1 (pk_raw p') (Some 0) o1 = broadcast (send_outgoing toy 64 echo_app 1) [4, 2] None o1"
proof -
  note laws = crypto_lawsD[OF toy_laws]
  have made: "create_identity toy \<lparr>hal_calls = 0\<rparr> = (Ret toy_id, \<lparr>hal_calls = 2\<rparr>)" unfolding toy_id_def by (rule create_toy)
  obtain r s3 where new: "destination_new toy (Some toy_id) IN SINGLE ''app'' ''x'' toy_state = (Ret r, s3)"
    by (simp add: destination_new_def expand_name_def destination_hash_def name_hash_def alloc_dest_def Let_def)
  obtain d nh where d: "r = length (dest_heap toy_state)" "s3 = toy_state\<lparr>dest_heap := dest_heap toy_state @ [d]\<rparr>"
    "dst_type d = SINGLE" "dst_direction d = IN" "dst_identity d = Some toy_id" "dst_name_hash d = nh" "length nh = 10"
    using destination_new_fields[OF laws(1) new] by metis
  have at: "r < length (dest_heap s3)" "d = dest_heap s3 ! r" using d(1,2) by simp_all
  obtain raw s4 where run: "announce toy (\<lambda>_. ret ()) (Some r) [1, 2] False s3 = (Ret raw, s4)"
    using announce_run[OF toy_laws at d(3,4) d(5)[unfolded toy_id_def], where bc = "\<lambda>_. ret ()" and app_data = "[1, 2]"]
      d(6,7) by auto
  define o1 where "o1 = toy_net\<lparr>dest_heap := [d\<lparr>dst_packet_callback := Some 0\<rparr>], net_destinations := [dst_hash d \<mapsto> 0]\<rparr>"
  have o1: "0 < length (dest_heap o1)" "dest_heap o1 ! 0 = d\<lparr>dst_packet_callback := Some 0\<rparr>" "net_destinations o1 (dst_hash d) = Some 0"
    by (simp_all add: o1_def)
  have tn: "pk_packet_hash (snd (packet_unpack toy (packet_of_raw raw))) \<notin> net_seen toy_net"
    "set (net_interfaces toy_net) \<subseteq> {..<length (net_heap toy_net)}" "wired (net_heap toy_net)" by simp_all
  have sz: "length [1 :: u8, 2] \<le> 316" "[4 :: u8, 2] \<noteq> []" "length [4 :: u8, 2] \<le> 464" by simp_all
  from announced_delivery[where A = "\<lambda>_. idle_app" and W = 64 and n = 0 and via = "Some 2" and A' = echo_app and W' = 64
      and n' = 1 and via' = "Some 0" and ctx = 0, OF toy_laws made new at(2) run sz(1) tn(1) idle_reports tn(2,3) sz(2,3) o1]
  obtain t1 j q t2 p p' t3 u where
    "transport_inbound toy 64 (\<lambda>_. idle_app) (Suc 0) raw (Some 2) toy_net = (Ret (), t1)" "recall toy (dst_hash d) t1 = Some j"
    "destination_new toy (Some j) OUT SINGLE ''app'' ''x'' t1 = (Ret q, t2)"
    "packet_new (Some q) [4, 2] DATA 0 BROADCAST t2 = (Ret p, t2)" "packet_pack toy p t2 = (Ret p', t3)"
    "transport_inbound toy 64 echo_app 1 (pk_raw p') (Some 0) o1 =
      app_packet (echo_app (\<lambda>f. broadcast (send_outgoing toy 64 echo_app 1) f None)) 0 [4, 2] u o1" by blast
  then show ?thesis using new run at(2)
    by (intro exI[of _ r] exI[of _ s3] exI[of _ raw] exI[of _ s4] exI[of _ t1] exI[of _ j] exI[of _ q] exI[of _ t2] exI[of _ p]
      exI[of _ p'] exI[of _ t3] exI[of _ o1]) (simp add: echo_app_def)
qed

end
