(* ===== verification/Request.thy ===== *)
theory Request
  imports LinkSession
begin

text \<open>
  Requests over a link (\<open>Link::handle_request\<close> of src/link.cpp): what a peer that sends a request gets back,
  over the definitions of Link and MsgPack.
\<close>

section \<open>Messages\<close>

text \<open>A request as a peer packs it: time, path hash, and data or nil.\<close>

definition request_message :: "u64 \<Rightarrow> bytes \<Rightarrow> bytes option \<Rightarrow> bytes" where
  "request_message t ph data =
     pack_array_header 3 [] @ pack_float64 t [] @ pack_bin ph [] @
     (case data of None \<Rightarrow> pack_nil [] | Some d \<Rightarrow> pack_bin d [])"

definition response_message :: "bytes \<Rightarrow> bytes \<Rightarrow> bytes" where
  "response_message rid response = pack_array_header 2 [] @ pack_bin rid [] @ pack_bin response []"

lemma pack_bin_head: "\<exists>b bs. pack_bin d [] = b # bs \<and> b \<noteq> 0xC0"
  by (simp add: pack_bin_def Let_def)

lemma read_nil_bnd:
  "bnd read_nil (\<lambda>nil. bnd (if \<not> nil then read_bin W else ret []) (\<lambda>rd. ret (f rd))) =
    bnd (gets peek) (\<lambda>p. if p = 0xC0 then bnd next_byte (\<lambda>_. ret (f [])) else bnd (read_bin W) (\<lambda>rd. ret (f rd)))"
  unfolding read_nil_def by (rule ext) (auto simp: bnd_def split: res.splits prod.splits)

lemma reads_data:
  assumes "case data of None \<Rightarrow> True | Some d \<Rightarrow> length d < 2 ^ 32"
  shows "reads W (bnd read_nil (\<lambda>nil. bnd (if \<not> nil then read_bin W else ret []) (\<lambda>rd. ret (f rd))))
    (case data of None \<Rightarrow> pack_nil [] | Some d \<Rightarrow> pack_bin d []) (f (case data of None \<Rightarrow> [] | Some d \<Rightarrow> d))"
proof (cases data)
  case None
  have "reads W (bnd next_byte (\<lambda>_. ret (f []))) [0xC0] (f [])"
    by (intro reads_next_bnd reads_ret)
  then have "reads W (bnd (gets peek) (\<lambda>p. if p = 0xC0 then bnd next_byte (\<lambda>_. ret (f []))
      else bnd (read_bin W) (\<lambda>rd. ret (f rd)))) [0xC0] (f [])"
    by (intro reads_peek) simp
  then show ?thesis using None unfolding read_nil_bnd by (simp add: pack_nil_def)
next
  case (Some d)
  obtain b bs where b: "pack_bin d [] = b # bs" "b \<noteq> 0xC0" using pack_bin_head by blast
  have "reads W (bnd (read_bin W) (\<lambda>rd. ret (f rd))) (pack_bin d [] @ []) (f d)"
    using assms Some by (intro reads_bnd[OF pack_bin_reads] reads_ret) simp
  then have "reads W (bnd (gets peek) (\<lambda>p. if p = 0xC0 then bnd next_byte (\<lambda>_. ret (f []))
      else bnd (read_bin W) (\<lambda>rd. ret (f rd)))) (pack_bin d []) (f d)"
    unfolding b(1) using b(2) by (intro reads_peek) simp
  then show ?thesis using Some unfolding read_nil_bnd by simp
qed

lemma parse_reads:
  assumes "length ph < 2 ^ 32" "case data of None \<Rightarrow> True | Some d \<Rightarrow> length d < 2 ^ 32"
  shows "reads W (parse_request W) (request_message t ph data)
    (Some (t, ph, case data of None \<Rightarrow> [] | Some d \<Rightarrow> d))"
  unfolding parse_request_def request_message_def
  by (rule reads_bnd[OF pack_array_header_reads]) 
    (simp_all, intro reads_bnd[OF pack_float64_reads] reads_bnd[OF pack_bin_reads] assms(1) reads_data[OF assms(2)])

lemma parse_run:
  assumes "length (request_message t ph data) < 2 ^ W" "length ph < 2 ^ 32"
    "case data of None \<Rightarrow> True | Some d \<Rightarrow> length d < 2 ^ 32"
  shows "fst (parse_request W (mk_reader (request_message t ph data))) =
    Ret (Some (t, ph, case data of None \<Rightarrow> [] | Some d \<Rightarrow> d))"
  using parse_reads[OF assms(2,3), of W t, unfolded reads_def, rule_format, of "[]" "[]"] assms(1)
  by (simp add: mk_reader_def)

text \<open>The owner's side of a request.\<close>

lemma handle_request_run:
  assumes "k < length (link_heap s)" "lk_destination (link_heap s ! k) = Some dr" "dr < length (dest_heap s)"
    "length (request_message t ph data) < 2 ^ W" "length ph < 2 ^ 32"
    "case data of None \<Rightarrow> True | Some d \<Rightarrow> length d < 2 ^ 32"
  shows "link_handle_request X W app bc k (request_message t ph data) p s =
    (case dst_request_handlers (dest_heap s ! dr) ph of
       None \<Rightarrow> (Ret (), s)
     | Some h \<Rightarrow>
         bnd (app_generator app (rh_generator h) (rh_path h) (case data of None \<Rightarrow> [] | Some d \<Rightarrow> d)
           (truncated_hash X (get_hashable_part p)) (lk_hash (link_heap s ! k)) t) (\<lambda>response.
         if response = [] then ret ()
         else link_send_with_context X bc k (response_message (truncated_hash X (get_hashable_part p)) response) RESPONSE) s)"
proof -
  have r: "pack_bin response (pack_bin rid (pack_array_header 2 [])) = response_message rid response" for rid response
    unfolding response_message_def by (metis append_assoc pack_bin_append)
  have d: "get_dest dr s = (Ret (dest_heap s ! dr), s)" using assms(3) by (simp add: get_dest_def heap_get_def)
  show ?thesis
    unfolding link_handle_request_def Let_def r
    by (simp add: bnd_Ret[where m = "get_link k", OF get_link_run[OF assms(1)]] parse_run[OF assms(4-6)] assms(2)
        bnd_Ret[where m = "get_dest dr", OF d] split: option.splits)
qed

lemma response_length:
  "length rid = 16 \<Longrightarrow> length (response_message rid response) \<le> LINK_MDU \<longleftrightarrow> length response \<le> 409"
  by (simp add: response_message_def pack_array_header_def pack_bin_def Let_def size_values)

section \<open>Property\<close>

text \<open>
  C25: A request sent over an established session is answered exactly when the destination has a handler for its
  path hash and the handler's response is not empty: the handler gets the path, the data and the truncated hash
  of the request packet, and the requester's packet callback gets that hash and the response. The answer is one
  frame; it fits the MTU exactly for responses up to 409 bytes.
\<close>

theorem link_request_answered:
  assumes "crypto_laws X" "n < length (link_heap a)" "k < length (link_heap b)"
    "same_session (link_heap a ! n) (link_heap b ! k)" "lk_on_packet (link_heap a ! n) = Some cb"
    "lk_destination (link_heap b ! k) = Some dr" "dr < length (dest_heap b)"
    "length (request_message t ph data) < 2 ^ W" "length ph < 2 ^ 32"
    "case data of None \<Rightarrow> True | Some d \<Rightarrow> length d < 2 ^ 32"
    "\<And>h rid. dst_request_handlers (dest_heap b ! dr) ph = Some h \<Longrightarrow>
      app_generator app (rh_generator h) (rh_path h) (case data of None \<Rightarrow> [] | Some d \<Rightarrow> d) rid
        (lk_hash (link_heap b ! k)) t b = (Ret (response h rid), b)"
  shows "\<exists>a' f u. link_send_with_context X transmit n (request_message t ph data) REQUEST a = (Ret (), a') \<and>
    wire_sent a' = wire_sent a @ [f] \<and> packet_unpack X (packet_of_raw f) = (True, u) \<and>
    (let rid = truncated_hash X (get_hashable_part u) in
     case dst_request_handlers (dest_heap b ! dr) ph of
       None \<Rightarrow> link_on_inbound X W app transmit k u b = (Ret (), b)
     | Some h \<Rightarrow>
         if response h rid = [] then link_on_inbound X W app transmit k u b = (Ret (), b)
         else \<exists>b' g v. link_on_inbound X W app transmit k u b = (Ret (), b') \<and> wire_sent b' = wire_sent b @ [g] \<and>
           packet_unpack X (packet_of_raw g) = (True, v) \<and>
           link_on_inbound X W app bc n v a' = app_link_packet app cb (response_message rid (response h rid)) n a' \<and>
           (length g \<le> MTU \<longleftrightarrow> length (response h rid) \<le> 409))"
proof -
  have ne: "request_message t ph data \<noteq> []" "\<And>rid r. response_message rid r \<noteq> []"
    by (simp_all add: request_message_def response_message_def pack_array_header_def Let_def)
  note same = assms(4)
  have same': "same_session (link_heap b ! k) (link_heap a ! n)" using same by (auto simp: same_session_def)
  obtain a' f u where req: "link_send_with_context X transmit n (request_message t ph data) REQUEST a = (Ret (), a')"
    "wire_sent a' = wire_sent a @ [f]" "link_heap a' = link_heap a" "packet_unpack X (packet_of_raw f) = (True, u)"
    "link_on_inbound X W app transmit k u b = link_handle_request X W app transmit k (request_message t ph data) u b"
    using delivered[OF assms(1-4), of "request_message t ph data" REQUEST] ne(1) by auto
  let ?rid = "truncated_hash X (get_hashable_part u)"
  note handled = handle_request_run[OF assms(3,6,7,8-10), where X = X and app = app and bc = transmit and p = u]
  show ?thesis
  proof (cases "dst_request_handlers (dest_heap b ! dr) ph")
    case None
    then show ?thesis using req(1,2,4,5) handled by auto
  next
    case (Some h)
    note gen = assms(11)[OF Some, of ?rid]
    show ?thesis
    proof (cases "response h ?rid = []")
      case True
      then show ?thesis using req(1,2,4,5) handled Some gen by (auto simp: bnd_Ret)
    next
      case False
      let ?m = "response_message ?rid (response h ?rid)"
      obtain b' g v where ans: "link_send_with_context X transmit k ?m RESPONSE b = (Ret (), b')"
        "wire_sent b' = wire_sent b @ [g]" "packet_unpack X (packet_of_raw g) = (True, v)"
        "link_on_inbound X W app bc n v a' = app_link_packet app cb ?m n a'" "length g \<le> MTU \<longleftrightarrow> length ?m \<le> LINK_MDU"
        using delivered[OF assms(1,3,2) same', of ?m RESPONSE] ne(2)[of ?rid "response h ?rid"] req(3) assms(5)
        by (auto simp: RESPONSE_def REQUEST_def)
      have "length ?m \<le> LINK_MDU \<longleftrightarrow> length (response h ?rid) \<le> 409"
        by (rule response_length) (simp add: length_truncated_hash[OF crypto_lawsD(1)[OF assms(1)]])
      then show ?thesis using req(1,2,4,5) handled Some gen False ans by (auto simp: Let_def bnd_Ret)
    qed
  qed
qed

definition toy_handler :: request_handler where
  "toy_handler = \<lparr>rh_path = [47], rh_path_hash = replicate 16 5, rh_generator = 0\<rparr>"

definition toy_owner :: wire where
  "toy_owner = (toy_node [toy_link ACTIVE])
     \<lparr>dest_heap := [(dest_heap toy_state ! 0)\<lparr>dst_request_handlers := [replicate 16 5 \<mapsto> toy_handler]\<rparr>]\<rparr>"

definition toy_server :: "wire app" where
  "toy_server = toy_app\<lparr>app_generator := (\<lambda>_ path _ _ _ _. ret (path @ [8]))\<rparr>"

theorem link_request_answered_witness:
  "\<exists>a' f u b' g v rid. link_send_with_context toy transmit 0 (request_message 7 (replicate 16 5) None) REQUEST
      (toy_node [toy_link ACTIVE]) = (Ret (), a') \<and> wire_sent a' = [f] \<and> packet_unpack toy (packet_of_raw f) = (True, u) \<and>
    link_on_inbound toy 32 toy_server transmit 0 u toy_owner = (Ret (), b') \<and> wire_sent b' = [g] \<and>
    packet_unpack toy (packet_of_raw g) = (True, v) \<and> rid = truncated_hash toy (get_hashable_part u) \<and>
    link_on_inbound toy 32 toy_server transmit 0 v a' = transmit (response_message rid [47, 8]) a' \<and> length g \<le> MTU"
proof -
  have heap: "link_heap toy_owner = [toy_link ACTIVE]" "wire_sent toy_owner = []"
    "dest_heap toy_owner = [(dest_heap toy_state ! 0)\<lparr>dst_request_handlers := [replicate 16 5 \<mapsto> toy_handler]\<rparr>]"
    by (simp_all add: toy_owner_def)
  have len: "length (request_message 7 (replicate 16 5) None) < 2 ^ 32"
    by (simp add: request_message_def pack_array_header_def pack_float64_def pack_bin_def pack_nil_def be_ubytes Let_def)
  have app: "app_link_packet toy_server = app_link_packet toy_app" by (simp add: toy_server_def)
  have "\<exists>a' f u. link_send_with_context toy transmit 0 (request_message 7 (replicate 16 5) None) REQUEST
      (toy_node [toy_link ACTIVE]) = (Ret (), a') \<and> wire_sent a' = wire_sent (toy_node [toy_link ACTIVE]) @ [f] \<and>
      packet_unpack toy (packet_of_raw f) = (True, u) \<and>
    (let rid = truncated_hash toy (get_hashable_part u) in
     case dst_request_handlers (dest_heap toy_owner ! 0) (replicate 16 5) of
       None \<Rightarrow> link_on_inbound toy 32 toy_server transmit 0 u toy_owner = (Ret (), toy_owner)
     | Some h \<Rightarrow>
         if rh_path h @ [8] = [] then link_on_inbound toy 32 toy_server transmit 0 u toy_owner = (Ret (), toy_owner)
         else \<exists>b' g v. link_on_inbound toy 32 toy_server transmit 0 u toy_owner = (Ret (), b') \<and>
           wire_sent b' = wire_sent toy_owner @ [g] \<and> packet_unpack toy (packet_of_raw g) = (True, v) \<and>
           link_on_inbound toy 32 toy_server transmit 0 v a' =
             app_link_packet toy_server (App_cb 0) (response_message rid (rh_path h @ [8])) 0 a' \<and>
           (length g \<le> MTU \<longleftrightarrow> length (rh_path h @ [8]) \<le> 409))"
    by (rule link_request_answered[where response = "\<lambda>h rid. rh_path h @ [8]"])
      (use len in \<open>simp_all add: heap toy_laws toy_session toy_server_def\<close>)
  then show ?thesis
    by (simp add: heap(2,3) app Let_def toy_handler_def toy_app_def)
qed

end
