(* ===== verification/Framing.thy ===== *)
theory Framing
  imports Prelude
begin

text \<open>
  Byte-stream framing as the serial and TCP links of the firmware do it: a flag byte ends a frame and
  starts the next one, other bytes may be sent as two. The locale states what a parser promises for one
  byte and proves what follows for streams of frames; the HDLC and KISS parsers interpret it.
\<close>

section \<open>Parsers and encoders\<close>

text \<open>A parser takes one byte and may hand on a frame.\<close>

fun feed_all :: "('b \<Rightarrow> 'p \<Rightarrow> 'p \<times> 'f option) \<Rightarrow> 'b list \<Rightarrow> 'p \<Rightarrow> 'p \<times> 'f list" where
  "feed_all feed [] p = (p, [])"
| "feed_all feed (b # bs) p =
     (let (p, f) = feed b p; (p, fs) = feed_all feed bs p in (p, (case f of None \<Rightarrow> fs | Some x \<Rightarrow> x # fs)))"

text \<open>The encoders' loop: escape the bytes from offset \<open>o1\<close> of a buffer on, stopping when two more bytes and
  the closing flag might not fit.\<close>

fun fill :: "(u8 \<Rightarrow> bytes) \<Rightarrow> nat \<Rightarrow> nat \<Rightarrow> bytes \<Rightarrow> bytes" where
  "fill enc n o1 [] = []"
| "fill enc n o1 (b # bs) = (if o1 + 2 < n then enc b @ fill enc n (o1 + length (enc b)) bs else [])"

lemma fill_room: "(\<And>b. length (enc b) \<le> 2) \<Longrightarrow> o1 < n \<Longrightarrow> o1 + length (fill enc n o1 bs) < n"
proof (induction bs arbitrary: o1)
  case (Cons b bs)
  have "o1 + length (enc b) < n" if "o1 + 2 < n" using Cons.prems(1)[of b] that by linarith
  then show ?case using Cons.IH[of "o1 + length (enc b)"] Cons.prems by (simp add: add.assoc)
qed simp

lemma fill_all: "(\<And>b. length (enc b) \<le> 2) \<Longrightarrow> o1 + 2 * length bs < n \<Longrightarrow> fill enc n o1 bs = concat (map enc bs)"
proof (induction bs arbitrary: o1)
  case (Cons b bs)
  have "o1 + length (enc b) + 2 * length bs < n" using Cons.prems(1)[of b] Cons.prems(2) by simp
  then show ?case using Cons.IH[of "o1 + length (enc b)"] Cons.prems by simp
qed simp

lemma feed_all_append:
  "feed_all feed (bs @ cs) p =
    (fst (feed_all feed cs (fst (feed_all feed bs p))),
     snd (feed_all feed bs p) @ snd (feed_all feed cs (fst (feed_all feed bs p))))"
  by (induction bs arbitrary: p) (auto simp: Let_def split: prod.split option.split)

section \<open>The interface\<close>

text \<open>
  \<open>holding c p\<close>: the parser has seen the content \<open>c\<close> since the last flag and waits for an unescaped byte;
  \<open>good c b\<close>: the byte \<open>b\<close> may follow \<open>c\<close>; \<open>final c\<close>: the frame handed on for it.
\<close>

locale framing =
  fixes feed :: "u8 \<Rightarrow> 'p \<Rightarrow> 'p \<times> 'f option"
    and enc :: "u8 \<Rightarrow> bytes"
    and flag :: u8
    and holding :: "bytes \<Rightarrow> 'p \<Rightarrow> bool"
    and good :: "bytes \<Rightarrow> u8 \<Rightarrow> bool"
    and final :: "bytes \<Rightarrow> 'f option"
  assumes feed_flag: "holding [] (fst (feed flag p))"
    and feed_final: "holding c p \<Longrightarrow> snd (feed flag p) = final c"
    and final_empty: "final [] = None"
    and feed_enc: "holding c p \<Longrightarrow> good c b \<Longrightarrow>
      snd (feed_all feed (enc b) p) = [] \<and> holding (c @ [b]) (fst (feed_all feed (enc b) p))"
begin

fun good_after :: "bytes \<Rightarrow> bytes \<Rightarrow> bool" where
  "good_after c [] = True"
| "good_after c (b # bs) = (good c b \<and> good_after (c @ [b]) bs)"

lemma feed_content:
  "holding c p \<Longrightarrow> good_after c d \<Longrightarrow>
    snd (feed_all feed (concat (map enc d)) p) = [] \<and> holding (c @ d) (fst (feed_all feed (concat (map enc d)) p))"
proof (induction d arbitrary: c p)
  case (Cons b d)
  have e: "snd (feed_all feed (enc b) p) = []" "holding (c @ [b]) (fst (feed_all feed (enc b) p))"
    using feed_enc[OF Cons.prems(1)] Cons.prems(2) by simp_all
  then show ?case using Cons.IH[OF e(2)] Cons.prems(2) by (simp add: feed_all_append)
qed simp

lemma feed_one:
  assumes "holding [] p" "good_after [] d"
  shows "snd (feed_all feed (concat (map enc d) @ [flag]) p) = (case final d of None \<Rightarrow> [] | Some f \<Rightarrow> [f])"
    "holding [] (fst (feed_all feed (concat (map enc d) @ [flag]) p))"
proof -
  let ?q = "fst (feed_all feed (concat (map enc d)) p)"
  have q: "snd (feed_all feed (concat (map enc d)) p) = []" "holding d ?q"
    using feed_content[OF assms] by simp_all
  from feed_final[OF q(2)] feed_flag[of ?q]
  show "snd (feed_all feed (concat (map enc d) @ [flag]) p) = (case final d of None \<Rightarrow> [] | Some f \<Rightarrow> [f])"
    "holding [] (fst (feed_all feed (concat (map enc d) @ [flag]) p))"
    by (auto simp: feed_all_append q(1) Let_def split: prod.split option.split)
qed

text \<open>Frames one after the other, from a parser that waits for one.\<close>

lemma feed_frames:
  "holding [] p \<Longrightarrow> \<forall>d\<in>set ds. good_after [] d \<Longrightarrow>
    snd (feed_all feed (concat (map (\<lambda>d. flag # concat (map enc d) @ [flag]) ds)) p) = List.map_filter final ds \<and>
    holding [] (fst (feed_all feed (concat (map (\<lambda>d. flag # concat (map enc d) @ [flag]) ds)) p))"
proof (induction ds arbitrary: p)
  case (Cons d ds)
  let ?p1 = "fst (feed flag p)"
  have start: "feed flag p = (?p1, None)" "holding [] ?p1"
    using feed_final[OF Cons.prems(1)] final_empty feed_flag[of p] by (simp_all add: prod_eq_iff)
  let ?p2 = "fst (feed_all feed (concat (map enc d) @ [flag]) ?p1)"
  have one: "snd (feed_all feed (concat (map enc d) @ [flag]) ?p1) = (case final d of None \<Rightarrow> [] | Some f \<Rightarrow> [f])"
    "holding [] ?p2"
    using feed_one[OF start(2)] Cons.prems(2) by simp_all
  have f: "feed_all feed (flag # concat (map enc d) @ [flag]) p = (?p2, case final d of None \<Rightarrow> [] | Some f \<Rightarrow> [f])"
    using start(1) one(1) by (simp add: Let_def prod_eq_iff split: prod.split)
  have "feed_all feed ((flag # concat (map enc d) @ [flag]) @ rest) p =
      (fst (feed_all feed rest ?p2), (case final d of None \<Rightarrow> [] | Some f \<Rightarrow> [f]) @ snd (feed_all feed rest ?p2))" for rest
    unfolding feed_all_append f by simp
  then show ?case using Cons.IH[OF one(2)] Cons.prems(2)
    by (simp add: List.map_filter_def split: option.split)
qed (simp add: List.map_filter_def)

text \<open>From any state: the first flag may end a frame that was begun before, then the stream is in step.\<close>

lemma feed_resync:
  assumes "\<forall>d\<in>set ds. good_after [] d" "ds \<noteq> []"
  shows "snd (feed_all feed (concat (map (\<lambda>d. flag # concat (map enc d) @ [flag]) ds)) p) =
      (case snd (feed flag p) of None \<Rightarrow> [] | Some f \<Rightarrow> [f]) @ List.map_filter final ds \<and>
    holding [] (fst (feed_all feed (concat (map (\<lambda>d. flag # concat (map enc d) @ [flag]) ds)) p))"
proof -
  obtain d rest where ds: "ds = d # rest" using assms(2) by (cases ds) simp_all
  obtain q x where q: "feed flag p = (q, x)" by fastforce
  have h: "holding [] q" using feed_flag[of p] q by simp
  let ?q2 = "fst (feed_all feed (concat (map enc d) @ [flag]) q)"
  have one: "snd (feed_all feed (concat (map enc d) @ [flag]) q) = (case final d of None \<Rightarrow> [] | Some f \<Rightarrow> [f])"
    "holding [] ?q2"
    using feed_one[OF h] assms(1) ds by simp_all
  have f: "feed_all feed (flag # concat (map enc d) @ [flag]) p =
      (?q2, (case x of None \<Rightarrow> [] | Some f \<Rightarrow> [f]) @ (case final d of None \<Rightarrow> [] | Some f \<Rightarrow> [f]))"
    using q one(1) by (simp add: Let_def prod_eq_iff split: prod.split option.split)
  have "feed_all feed ((flag # concat (map enc d) @ [flag]) @ more) p = (fst (feed_all feed more ?q2),
      (case x of None \<Rightarrow> [] | Some f \<Rightarrow> [f]) @ (case final d of None \<Rightarrow> [] | Some f \<Rightarrow> [f]) @ snd (feed_all feed more ?q2))" for more
    unfolding feed_all_append f by simp
  then show ?thesis
    using feed_frames[OF one(2), of rest] assms(1) ds q
    by (auto simp: List.map_filter_def split: option.split)
qed

end

end
