(* ===== verification/Tcp.thy ===== *)
theory Tcp
  imports Framing
begin

text \<open>
  The TCP interface of the firmware (firmware/heltec_v3/main/tcp_interface.cpp): connecting with its
  clean-up, HDLC framing both ways, and the receive loop. The socket calls are external: what they
  returned is an argument. Handing a frame to the transport is the argument \<open>deliver\<close>, a program on
  the whole state, since the transport may send on this interface before it returns.
\<close>

section \<open>State\<close>

definition HDLC_FLAG :: u8 where "HDLC_FLAG = 0x7E"
definition HDLC_ESC :: u8 where "HDLC_ESC = 0x7D"
definition HDLC_ESC_MASK :: u8 where "HDLC_ESC_MASK = 0x20"

record hdlc =
  hd_in_frame :: bool
  hd_escape :: bool
  hd_rx :: bytes

text \<open>Besides the members: the descriptors the interface opened and did not close, and the buffers
  given to \<open>send\<close>.\<close>

record tcp =
  tcp_sock :: int
  tcp_connected :: bool
  tcp_online :: bool
  tcp_reconnect_at :: nat
  tcp_txb :: nat
  tcp_parser :: hdlc
  tcp_open :: "int list"
  tcp_sent :: "bytes list"

text \<open>What the calls of one connection attempt return.\<close>

record connect_calls =
  cc_resolved :: bool
  cc_socket :: int
  cc_started :: bool
  cc_select :: int
  cc_error :: int

definition tcp_close :: "int \<Rightarrow> 'a tcp_scheme \<Rightarrow> 'a tcp_scheme" where
  "tcp_close fd s = s\<lparr>tcp_open := remove1 fd (tcp_open s)\<rparr>"

definition try_connect :: "connect_calls \<Rightarrow> ('a tcp_scheme, bool) prog" where
  "try_connect c =
     (if \<not> cc_resolved c then ret False
      else
        bnd (modify (\<lambda>s. s\<lparr>tcp_sock := cc_socket c\<rparr>)) (\<lambda>_.
        if cc_socket c < 0 then ret False
        else
          bnd (modify (\<lambda>s. s\<lparr>tcp_open := tcp_open s @ [cc_socket c]\<rparr>)) (\<lambda>_.
          if \<not> cc_started c then bnd (modify (\<lambda>s. (tcp_close (tcp_sock s) s)\<lparr>tcp_sock := -1\<rparr>)) (\<lambda>_. ret False)
          else if cc_select c \<le> 0 then bnd (modify (\<lambda>s. (tcp_close (tcp_sock s) s)\<lparr>tcp_sock := -1\<rparr>)) (\<lambda>_. ret False)
          else if cc_error c \<noteq> 0 then bnd (modify (\<lambda>s. (tcp_close (tcp_sock s) s)\<lparr>tcp_sock := -1\<rparr>)) (\<lambda>_. ret False)
          else bnd (modify (\<lambda>s. s\<lparr>tcp_connected := True\<rparr>)) (\<lambda>_. ret True))))"

definition disconnect :: "('a tcp_scheme, unit) prog" where
  "disconnect =
     bnd (modify (\<lambda>s. if tcp_sock s \<ge> 0 then (tcp_close (tcp_sock s) s)\<lparr>tcp_sock := -1\<rparr> else s)) (\<lambda>_.
     modify (\<lambda>s. s\<lparr>tcp_connected := False\<rparr>))"

definition tcp_start :: "connect_calls \<Rightarrow> ('a tcp_scheme, bool) prog" where
  "tcp_start c =
     bnd (try_connect c) (\<lambda>ok.
     bnd (modify (\<lambda>s. s\<lparr>tcp_online := True\<rparr>)) (\<lambda>_. ret True))"

definition tcp_stop :: "('a tcp_scheme, unit) prog" where
  "tcp_stop = bnd disconnect (\<lambda>_. modify (\<lambda>s. s\<lparr>tcp_online := False\<rparr>))"

section \<open>Receiving\<close>

definition hdlc_feed :: "u8 \<Rightarrow> hdlc \<Rightarrow> hdlc \<times> bytes option" where
  "hdlc_feed b p =
     (if b = HDLC_FLAG then
        (p\<lparr>hd_in_frame := True, hd_escape := False, hd_rx := []\<rparr>,
         if hd_in_frame p \<and> 0 < length (hd_rx p) then Some (hd_rx p) else None)
      else if hd_in_frame p then
        (if b = HDLC_ESC then (p\<lparr>hd_escape := True\<rparr>, None)
         else
           let b = (if hd_escape p then b XOR HDLC_ESC_MASK else b); p = p\<lparr>hd_escape := False\<rparr> in
           (if length (hd_rx p) < 600 then p\<lparr>hd_rx := hd_rx p @ [b]\<rparr> else p, None))
      else (p, None))"

text \<open>One received byte: a complete frame is delivered before the parser is reset.\<close>

definition tcp_byte :: "(bytes \<Rightarrow> ('a tcp_scheme, unit) prog) \<Rightarrow> u8 \<Rightarrow> ('a tcp_scheme, unit) prog" where
  "tcp_byte deliver b =
     bnd (gets tcp_parser) (\<lambda>p.
     case hdlc_feed b p of (p', f) \<Rightarrow>
       bnd (case f of None \<Rightarrow> ret () | Some fr \<Rightarrow> deliver fr) (\<lambda>_.
       modify (\<lambda>s. s\<lparr>tcp_parser := p'\<rparr>)))"

text \<open>How \<open>recv\<close> ends the loop; it fails at once when delivering closed the socket.\<close>

datatype recv_end = Peer_closed | No_data | Recv_failed

definition recv_done :: "recv_end \<Rightarrow> ('a tcp_scheme, unit) prog" where
  "recv_done e = (case e of Peer_closed \<Rightarrow> disconnect | No_data \<Rightarrow> ret () | Recv_failed \<Rightarrow> disconnect)"

fun tcp_drain ::
  "(bytes \<Rightarrow> ('a tcp_scheme, unit) prog) \<Rightarrow> bytes \<Rightarrow> recv_end \<Rightarrow> ('a tcp_scheme, unit) prog" where
  "tcp_drain deliver [] e = recv_done e"
| "tcp_drain deliver (b # bs) e =
     bnd (gets tcp_sock) (\<lambda>k.
     if k < 0 then recv_done Recv_failed
     else bnd (tcp_byte deliver b) (\<lambda>_. tcp_drain deliver bs e))"

definition tcp_loop ::
  "(bytes \<Rightarrow> ('a tcp_scheme, unit) prog) \<Rightarrow> nat \<Rightarrow> connect_calls \<Rightarrow> bytes \<Rightarrow> recv_end \<Rightarrow>
   ('a tcp_scheme, unit) prog" where
  "tcp_loop deliver now c bs e =
     bnd (gets (\<lambda>s. (tcp_connected s, tcp_reconnect_at s))) (\<lambda>(connected, at).
     if \<not> connected then
       (if now < at then ret ()
        else bnd (try_connect c) (\<lambda>ok.
          if ok then ret () else modify (\<lambda>s. s\<lparr>tcp_reconnect_at := now + 5000\<rparr>)))
     else tcp_drain deliver bs e)"

section \<open>Sending\<close>

definition hdlc_enc :: "u8 \<Rightarrow> bytes" where
  "hdlc_enc b = (if b = HDLC_FLAG \<or> b = HDLC_ESC then [HDLC_ESC, b XOR HDLC_ESC_MASK] else [b])"

definition hdlc_frame :: "bytes \<Rightarrow> bytes" where
  "hdlc_frame data = HDLC_FLAG # fill hdlc_enc 1400 1 data @ [HDLC_FLAG]"

text \<open>\<open>ok\<close>: whether \<open>send\<close> took the whole buffer.\<close>

definition tcp_send :: "bool \<Rightarrow> bytes \<Rightarrow> ('a tcp_scheme, unit) prog" where
  "tcp_send ok data =
     bnd (gets (\<lambda>s. (tcp_connected s, tcp_sock s))) (\<lambda>(connected, sock).
     if \<not> connected \<or> sock < 0 then ret ()
     else
       bnd (modify (\<lambda>s. s\<lparr>tcp_txb := tcp_txb s + length data\<rparr>)) (\<lambda>_.
       bnd (modify (\<lambda>s. s\<lparr>tcp_sent := tcp_sent s @ [hdlc_frame data]\<rparr>)) (\<lambda>_.
       if \<not> ok then disconnect else ret ())))"

section \<open>The HDLC parser is a framing parser\<close>

definition hdlc_holding :: "bytes \<Rightarrow> hdlc \<Rightarrow> bool" where
  "hdlc_holding c p \<longleftrightarrow> hd_in_frame p \<and> \<not> hd_escape p \<and> hd_rx p = take 600 c"

definition hdlc_final :: "bytes \<Rightarrow> bytes option" where
  "hdlc_final c = (if c = [] then None else Some (take 600 c))"

lemma hdlc_enc_length: "length (hdlc_enc b) \<le> 2"
  by (simp add: hdlc_enc_def)

lemma hdlc_unmask: "(b XOR HDLC_ESC_MASK) XOR HDLC_ESC_MASK = b"
  by (simp add: xor.assoc)

lemma hdlc_masked: "HDLC_FLAG XOR HDLC_ESC_MASK = 0x5E" "HDLC_ESC XOR HDLC_ESC_MASK = 0x5D"
  by (simp_all add: HDLC_FLAG_def HDLC_ESC_def HDLC_ESC_MASK_def)

interpretation hdlc: framing hdlc_feed hdlc_enc HDLC_FLAG hdlc_holding "\<lambda>_ _. True" hdlc_final
proof unfold_locales
  show "hdlc_holding [] (fst (hdlc_feed HDLC_FLAG p))" for p
    by (simp add: hdlc_holding_def hdlc_feed_def)
  show "snd (hdlc_feed HDLC_FLAG p) = hdlc_final c" if "hdlc_holding c p" for c p
    using that by (simp add: hdlc_holding_def hdlc_feed_def hdlc_final_def)
  show "hdlc_final [] = None" by (simp add: hdlc_final_def)
  show "snd (feed_all hdlc_feed (hdlc_enc b) p) = [] \<and> hdlc_holding (c @ [b]) (fst (feed_all hdlc_feed (hdlc_enc b) p))"
    if "hdlc_holding c p" for c b p
  proof (cases "b = HDLC_FLAG \<or> b = HDLC_ESC")
    case True
    then show ?thesis using that hdlc_masked hdlc_unmask[of b]
      by (auto simp: hdlc_enc_def hdlc_holding_def hdlc_feed_def Let_def HDLC_FLAG_def HDLC_ESC_def)
  next
    case False
    then show ?thesis using that
      by (auto simp: hdlc_enc_def hdlc_holding_def hdlc_feed_def Let_def)
  qed
qed

lemma hdlc_good [simp]: "hdlc.good_after c d"
  by (induction d arbitrary: c) simp_all

section \<open>Descriptors\<close>

text \<open>The interface holds one open descriptor while connected and none otherwise.\<close>

definition tcp_ok :: "'a tcp_scheme \<Rightarrow> bool" where
  "tcp_ok s \<longleftrightarrow> (tcp_connected s \<longleftrightarrow> 0 \<le> tcp_sock s) \<and>
     tcp_open s = (if 0 \<le> tcp_sock s then [tcp_sock s] else [])"

lemma ok_disconnect [pres_intros]: "preserves tcp_ok disconnect"
  by (rule preservesI) (auto simp: disconnect_def tcp_ok_def tcp_close_def)

lemma ok_other:
  "preserves tcp_ok (modify (\<lambda>s. s\<lparr>tcp_parser := f s\<rparr>))" "preserves tcp_ok (modify (\<lambda>s. s\<lparr>tcp_reconnect_at := g s\<rparr>))"
  "preserves tcp_ok (modify (\<lambda>s. s\<lparr>tcp_txb := h s\<rparr>))" "preserves tcp_ok (modify (\<lambda>s. s\<lparr>tcp_sent := k s\<rparr>))"
  "preserves tcp_ok (modify (\<lambda>s. s\<lparr>tcp_online := b\<rparr>))"
  by (rule preserves_modify; simp add: tcp_ok_def)+

lemma try_connect_ok: "tcp_ok s \<Longrightarrow> \<not> tcp_connected s \<Longrightarrow> tcp_ok (snd (try_connect c s))"
  by (auto simp: try_connect_def tcp_ok_def tcp_close_def)

lemma ok_drain:
  assumes "\<And>f. preserves tcp_ok (deliver f)"
  shows "preserves tcp_ok (tcp_drain deliver bs e)"
proof (induction bs)
  case Nil
  show ?case unfolding tcp_drain.simps recv_done_def by (cases e; simp only: recv_end.case) (intro pres_intros)+
next
  case (Cons b bs)
  have "preserves tcp_ok (tcp_byte deliver b)"
    unfolding tcp_byte_def by (intro pres_intros assms ok_other)
  then show ?case using Cons unfolding tcp_drain.simps recv_done_def recv_end.case by (intro pres_intros)
qed

section \<open>Streams\<close>

text \<open>An interface whose transport keeps what it is given.\<close>

record tcp_log = tcp +
  tcp_got :: "bytes list"

definition log_frame :: "bytes \<Rightarrow> (tcp_log, unit) prog" where
  "log_frame f = modify (\<lambda>s. s\<lparr>tcp_got := tcp_got s @ [f]\<rparr>)"

lemma drain_log:
  assumes "0 \<le> tcp_sock s"
  shows "tcp_drain log_frame bs No_data s =
    (Ret (), s\<lparr>tcp_parser := fst (feed_all hdlc_feed bs (tcp_parser s)),
              tcp_got := tcp_got s @ snd (feed_all hdlc_feed bs (tcp_parser s))\<rparr>)"
  using assms
proof (induction bs arbitrary: s)
  case (Cons b bs)
  obtain p f where p: "hdlc_feed b (tcp_parser s) = (p, f)" by fastforce
  let ?s = "s\<lparr>tcp_parser := p, tcp_got := tcp_got s @ (case f of None \<Rightarrow> [] | Some x \<Rightarrow> [x])\<rparr>"
  have "tcp_byte log_frame b s = (Ret (), ?s)"
    using p by (simp add: tcp_byte_def log_frame_def bnd_def split: option.split)
  then show ?case using Cons.IH[of ?s] Cons.prems p
    by (simp add: bnd_def Let_def split: prod.split option.split)
qed (simp add: recv_done_def)

text \<open>The calls of \<open>loop\<close>, each with the time, its connection attempt and what it reads.\<close>

lemma loops_log:
  assumes "tcp_connected s" "0 \<le> tcp_sock s"
  shows "for_each reads (\<lambda>(now, c, bs). tcp_loop log_frame now c bs No_data) s =
    (let bs = concat (map (\<lambda>(now, c, bs). bs) reads) in
     (Ret (), s\<lparr>tcp_parser := fst (feed_all hdlc_feed bs (tcp_parser s)),
               tcp_got := tcp_got s @ snd (feed_all hdlc_feed bs (tcp_parser s))\<rparr>))"
  using assms
proof (induction reads arbitrary: s)
  case (Cons r reads)
  obtain now c bs where r: "r = (now, c, bs)" by (cases r)
  let ?s = "s\<lparr>tcp_parser := fst (feed_all hdlc_feed bs (tcp_parser s)), tcp_got := tcp_got s @ snd (feed_all hdlc_feed bs (tcp_parser s))\<rparr>"
  have one: "tcp_loop log_frame now c bs No_data s = (Ret (), ?s)"
    using Cons.prems drain_log[OF Cons.prems(2), of bs] by (simp add: tcp_loop_def)
  show ?case using Cons.IH[of ?s] Cons.prems
    by (simp add: r bnd_Ret[where m = "tcp_loop log_frame now c bs No_data", OF one] feed_all_append Let_def)
qed simp

lemma send_log:
  assumes "tcp_connected s" "0 \<le> tcp_sock s"
  shows "for_each ds (tcp_send True) s = (Ret (), s\<lparr>tcp_txb := tcp_txb s + sum_list (map length ds),
    tcp_sent := tcp_sent s @ map hdlc_frame ds\<rparr>)"
  using assms
proof (induction ds arbitrary: s)
  case (Cons d ds)
  let ?s = "s\<lparr>tcp_txb := tcp_txb s + length d, tcp_sent := tcp_sent s @ [hdlc_frame d]\<rparr>"
  have "tcp_send True d s = (Ret (), ?s)" using Cons.prems by (simp add: tcp_send_def bnd_def)
  then show ?case using Cons.IH[of ?s] Cons.prems by (simp add: bnd_def)
qed simp

lemma hdlc_frame_content: "length d \<le> 600 \<Longrightarrow> hdlc_frame d = HDLC_FLAG # concat (map hdlc_enc d) @ [HDLC_FLAG]"
  using fill_all[OF hdlc_enc_length, of 1 d 1400] by (simp add: hdlc_frame_def)

section \<open>Properties\<close>

text \<open>
  C18: packets of at most 600 bytes sent one after the other over a TCP connection that takes them whole arrive at the
  other end one for one, in order and unchanged, empty ones apart, however the stream is cut into what the calls of
  \<open>loop\<close> read. The parser may be in any state before: what comes first, if anything, is the frame it had begun,
  which the first flag ends; a parser outside a frame, as at the start, hands on nothing else.
\<close>

theorem tcp_stream:
  assumes "tcp_connected s" "0 \<le> tcp_sock s" "\<forall>d\<in>set ds. length d \<le> 600" "tcp_connected t" "0 \<le> tcp_sock t"
    "tcp_sent s = []" "ds \<noteq> []"
  shows "\<exists>s'. for_each ds (tcp_send True) s = (Ret (), s') \<and>
    (\<forall>reads. concat (map (\<lambda>(now, c, bs). bs) reads) = concat (tcp_sent s') \<longrightarrow>
      (\<exists>t'. for_each reads (\<lambda>(now, c, bs). tcp_loop log_frame now c bs No_data) t = (Ret (), t') \<and>
        tcp_got t' = tcp_got t @
          (if hd_in_frame (tcp_parser t) \<and> hd_rx (tcp_parser t) \<noteq> [] then [hd_rx (tcp_parser t)] else []) @ filter (\<lambda>d. d \<noteq> []) ds))"
proof -
  have frames: "concat (map hdlc_frame ds) = concat (map (\<lambda>d. HDLC_FLAG # concat (map hdlc_enc d) @ [HDLC_FLAG]) ds)"
    using assms(3) by (intro arg_cong[of _ _ concat] map_cong refl hdlc_frame_content) simp
  have got: "List.map_filter hdlc_final ds = filter (\<lambda>d. d \<noteq> []) ds"
    using assms(3) by (induction ds) (simp_all add: List.map_filter_simps hdlc_final_def)
  have "snd (feed_all hdlc_feed (concat (map hdlc_frame ds)) (tcp_parser t)) =
      (if hd_in_frame (tcp_parser t) \<and> hd_rx (tcp_parser t) \<noteq> [] then [hd_rx (tcp_parser t)] else []) @ filter (\<lambda>d. d \<noteq> []) ds"
    using hdlc.feed_resync[of ds "tcp_parser t"] assms(7) unfolding frames got by (simp add: hdlc_feed_def)
  then show ?thesis
    using send_log[OF assms(1,2), of ds] loops_log[OF assms(4,5)] assms(6) by simp
qed

definition toy_tcp :: "hdlc \<Rightarrow> tcp_log" where
  "toy_tcp p =
    \<lparr>tcp_sock = 3, tcp_connected = True, tcp_online = True, tcp_reconnect_at = 0, tcp_txb = 0, tcp_parser = p,
     tcp_open = [3], tcp_sent = [], tcp_got = []\<rparr>"

definition toy_calls :: connect_calls where
  "toy_calls = \<lparr>cc_resolved = True, cc_socket = 4, cc_started = True, cc_select = 1, cc_error = 0\<rparr>"

theorem tcp_stream_witness:
  "\<exists>s' t'. for_each [[0x7E, 1], [], [2, 0x7D]] (tcp_send True)
      (toy_tcp \<lparr>hd_in_frame = False, hd_escape = False, hd_rx = []\<rparr>) = (Ret (), s') \<and>
    for_each (map (\<lambda>b. (0, toy_calls, [b])) (concat (tcp_sent s'))) (\<lambda>(now, c, bs). tcp_loop log_frame now c bs No_data)
      (toy_tcp \<lparr>hd_in_frame = True, hd_escape = True, hd_rx = [9]\<rparr>) = (Ret (), t') \<and>
    tcp_got t' = [[9], [0x7E, 1], [2, 0x7D]]"
proof -
  let ?ds = "[[0x7E, 1], [], [2, 0x7D]] :: bytes list"
  let ?s = "toy_tcp \<lparr>hd_in_frame = False, hd_escape = False, hd_rx = []\<rparr>" and ?t = "toy_tcp \<lparr>hd_in_frame = True, hd_escape = True, hd_rx = [9]\<rparr>"
  have cut: "concat (map (\<lambda>(now, c, bs). bs) (map (\<lambda>b. (0 :: nat, toy_calls, [b])) xs)) = xs" for xs :: bytes
    by (induction xs) simp_all
  have "tcp_connected ?s" "0 \<le> tcp_sock ?s" "\<forall>d\<in>set ?ds. length d \<le> 600" "tcp_connected ?t" "0 \<le> tcp_sock ?t" "tcp_sent ?s = []" "?ds \<noteq> []"
    by (simp_all add: toy_tcp_def)
  from tcp_stream[OF this] obtain s' where s': "for_each ?ds (tcp_send True) ?s = (Ret (), s')"
    and reads: "\<forall>reads. concat (map (\<lambda>(now, c, bs). bs) reads) = concat (tcp_sent s') \<longrightarrow>
      (\<exists>t'. for_each reads (\<lambda>(now, c, bs). tcp_loop log_frame now c bs No_data) ?t = (Ret (), t') \<and>
        tcp_got t' = tcp_got ?t @
          (if hd_in_frame (tcp_parser ?t) \<and> hd_rx (tcp_parser ?t) \<noteq> [] then [hd_rx (tcp_parser ?t)] else []) @ filter (\<lambda>d. d \<noteq> []) ?ds)"
    by (elim exE conjE)
  from reads[rule_format, OF cut] s' show ?thesis by (auto simp: toy_tcp_def)
qed

text \<open>
  No call sequence leaks or double-closes a socket: the interface holds exactly the descriptor it is
  connected on, whatever connection attempts, receive errors, failed sends and re-entrant deliveries
  happen, provided \<open>start\<close> is called while it is not connected.
\<close>

theorem tcp_descriptors:
  assumes "tcp_ok s" "\<And>f. preserves tcp_ok (deliver f)"
  shows "tcp_ok (snd (tcp_loop deliver now c bs e s)) \<and> tcp_ok (snd (tcp_send ok data s)) \<and> tcp_ok (snd (tcp_stop s)) \<and>
    (\<not> tcp_connected s \<longrightarrow> tcp_ok (snd (tcp_start c s)))"
proof (intro conjI impI)
  show "tcp_ok (snd (tcp_loop deliver now c bs e s))"
  proof (cases "tcp_connected s")
    case True
    then show ?thesis using preservesD[OF ok_drain[OF assms(2)] assms(1)] by (simp add: tcp_loop_def)
  next
    case False
    note tried = try_connect_ok[OF assms(1) False, of c]
    show ?thesis
    proof (cases "try_connect c s")
      case (Pair r s')
      then have "tcp_ok s'" using tried by simp
      then show ?thesis using Pair False assms(1)
        by (cases r) (auto simp: tcp_loop_def bnd_def tcp_ok_def)
    qed
  qed
  have "preserves tcp_ok (tcp_send ok data)"
    unfolding tcp_send_def by (intro pres_intros ok_other)
  from preservesD[OF this assms(1)] show "tcp_ok (snd (tcp_send ok data s))" .
  have "preserves tcp_ok tcp_stop" unfolding tcp_stop_def by (intro pres_intros ok_other)
  from preservesD[OF this assms(1)] show "tcp_ok (snd (tcp_stop s))" .
  assume "\<not> tcp_connected s"
  from try_connect_ok[OF assms(1) this, of c] show "tcp_ok (snd (tcp_start c s))"
    by (auto simp: tcp_start_def bnd_def tcp_ok_def split: res.split prod.splits)
qed

theorem tcp_descriptors_witness:
  "tcp_ok (snd (tcp_loop (tcp_send False) 9000 toy_calls [0x7E, 1, 0x7E, 2] No_data
     (toy_tcp \<lparr>hd_in_frame = True, hd_escape = False, hd_rx = [5]\<rparr>)))"
proof -
  have "preserves tcp_ok (tcp_send False f :: (tcp_log, unit) prog)" for f
    unfolding tcp_send_def by (intro pres_intros ok_other)
  moreover have "tcp_ok (toy_tcp \<lparr>hd_in_frame = True, hd_escape = False, hd_rx = [5]\<rparr>)"
    by (simp add: toy_tcp_def tcp_ok_def)
  ultimately show ?thesis using tcp_descriptors by blast
qed

end
