(* ===== verification/Oled.thy ===== *)
theory Oled
  imports Prelude
begin

text \<open>
  The display of the firmware (firmware/heltec_v3/main/oled.cpp): a frame buffer of eight rows of 128 column
  bytes, drawn with a 5x7 font (glcdfont.h), and the transfers to the panel. A transfer is a byte string on
  the I2C bus; whether the \<open>n\<close>-th one is acknowledged is the argument \<open>A n\<close>. Accesses outside
  the buffer and the font are faults.
\<close>

section \<open>Constants and state\<close>

definition WIDTH :: int where "WIDTH = 128"
definition HEIGHT :: int where "HEIGHT = 64"
definition ROWS :: int where "ROWS = HEIGHT div 8"

text \<open>The font: five columns for each of the 256 characters.\<close>

definition oled_font5x7 :: bytes where
  "oled_font5x7 =
    [0x00, 0x00, 0x00, 0x00, 0x00, 0x3E, 0x5B, 0x4F, 0x5B, 0x3E, 0x3E, 0x6B, 0x4F, 0x6B, 0x3E,
     0x1C, 0x3E, 0x7C, 0x3E, 0x1C, 0x18, 0x3C, 0x7E, 0x3C, 0x18, 0x1C, 0x57, 0x7D, 0x57, 0x1C,
     0x1C, 0x5E, 0x7F, 0x5E, 0x1C, 0x00, 0x18, 0x3C, 0x18, 0x00, 0xFF, 0xE7, 0xC3, 0xE7, 0xFF,
     0x00, 0x18, 0x24, 0x18, 0x00, 0xFF, 0xE7, 0xDB, 0xE7, 0xFF, 0x30, 0x48, 0x3A, 0x06, 0x0E,
     0x26, 0x29, 0x79, 0x29, 0x26, 0x40, 0x7F, 0x05, 0x05, 0x07, 0x40, 0x7F, 0x05, 0x25, 0x3F,
     0x5A, 0x3C, 0xE7, 0x3C, 0x5A, 0x7F, 0x3E, 0x1C, 0x1C, 0x08, 0x08, 0x1C, 0x1C, 0x3E, 0x7F,
     0x14, 0x22, 0x7F, 0x22, 0x14, 0x5F, 0x5F, 0x00, 0x5F, 0x5F, 0x06, 0x09, 0x7F, 0x01, 0x7F,
     0x00, 0x66, 0x89, 0x95, 0x6A, 0x60, 0x60, 0x60, 0x60, 0x60, 0x94, 0xA2, 0xFF, 0xA2, 0x94,
     0x08, 0x04, 0x7E, 0x04, 0x08, 0x10, 0x20, 0x7E, 0x20, 0x10, 0x08, 0x08, 0x2A, 0x1C, 0x08,
     0x08, 0x1C, 0x2A, 0x08, 0x08, 0x1E, 0x10, 0x10, 0x10, 0x10, 0x0C, 0x1E, 0x0C, 0x1E, 0x0C,
     0x30, 0x38, 0x3E, 0x38, 0x30, 0x06, 0x0E, 0x3E, 0x0E, 0x06, 0x00, 0x00, 0x00, 0x00, 0x00,
     0x00, 0x00, 0x5F, 0x00, 0x00, 0x00, 0x07, 0x00, 0x07, 0x00, 0x14, 0x7F, 0x14, 0x7F, 0x14,
     0x24, 0x2A, 0x7F, 0x2A, 0x12, 0x23, 0x13, 0x08, 0x64, 0x62, 0x36, 0x49, 0x56, 0x20, 0x50,
     0x00, 0x08, 0x07, 0x03, 0x00, 0x00, 0x1C, 0x22, 0x41, 0x00, 0x00, 0x41, 0x22, 0x1C, 0x00,
     0x2A, 0x1C, 0x7F, 0x1C, 0x2A, 0x08, 0x08, 0x3E, 0x08, 0x08, 0x00, 0x80, 0x70, 0x30, 0x00,
     0x08, 0x08, 0x08, 0x08, 0x08, 0x00, 0x00, 0x60, 0x60, 0x00, 0x20, 0x10, 0x08, 0x04, 0x02,
     0x3E, 0x51, 0x49, 0x45, 0x3E, 0x00, 0x42, 0x7F, 0x40, 0x00, 0x72, 0x49, 0x49, 0x49, 0x46,
     0x21, 0x41, 0x49, 0x4D, 0x33, 0x18, 0x14, 0x12, 0x7F, 0x10, 0x27, 0x45, 0x45, 0x45, 0x39,
     0x3C, 0x4A, 0x49, 0x49, 0x31, 0x41, 0x21, 0x11, 0x09, 0x07, 0x36, 0x49, 0x49, 0x49, 0x36,
     0x46, 0x49, 0x49, 0x29, 0x1E, 0x00, 0x00, 0x14, 0x00, 0x00, 0x00, 0x40, 0x34, 0x00, 0x00,
     0x00, 0x08, 0x14, 0x22, 0x41, 0x14, 0x14, 0x14, 0x14, 0x14, 0x00, 0x41, 0x22, 0x14, 0x08,
     0x02, 0x01, 0x59, 0x09, 0x06, 0x3E, 0x41, 0x5D, 0x59, 0x4E, 0x7C, 0x12, 0x11, 0x12, 0x7C,
     0x7F, 0x49, 0x49, 0x49, 0x36, 0x3E, 0x41, 0x41, 0x41, 0x22, 0x7F, 0x41, 0x41, 0x41, 0x3E,
     0x7F, 0x49, 0x49, 0x49, 0x41, 0x7F, 0x09, 0x09, 0x09, 0x01, 0x3E, 0x41, 0x41, 0x51, 0x73,
     0x7F, 0x08, 0x08, 0x08, 0x7F, 0x00, 0x41, 0x7F, 0x41, 0x00, 0x20, 0x40, 0x41, 0x3F, 0x01,
     0x7F, 0x08, 0x14, 0x22, 0x41, 0x7F, 0x40, 0x40, 0x40, 0x40, 0x7F, 0x02, 0x1C, 0x02, 0x7F,
     0x7F, 0x04, 0x08, 0x10, 0x7F, 0x3E, 0x41, 0x41, 0x41, 0x3E, 0x7F, 0x09, 0x09, 0x09, 0x06,
     0x3E, 0x41, 0x51, 0x21, 0x5E, 0x7F, 0x09, 0x19, 0x29, 0x46, 0x26, 0x49, 0x49, 0x49, 0x32,
     0x03, 0x01, 0x7F, 0x01, 0x03, 0x3F, 0x40, 0x40, 0x40, 0x3F, 0x1F, 0x20, 0x40, 0x20, 0x1F,
     0x3F, 0x40, 0x38, 0x40, 0x3F, 0x63, 0x14, 0x08, 0x14, 0x63, 0x03, 0x04, 0x78, 0x04, 0x03,
     0x61, 0x59, 0x49, 0x4D, 0x43, 0x00, 0x7F, 0x41, 0x41, 0x41, 0x02, 0x04, 0x08, 0x10, 0x20,
     0x00, 0x41, 0x41, 0x41, 0x7F, 0x04, 0x02, 0x01, 0x02, 0x04, 0x40, 0x40, 0x40, 0x40, 0x40,
     0x00, 0x03, 0x07, 0x08, 0x00, 0x20, 0x54, 0x54, 0x78, 0x40, 0x7F, 0x28, 0x44, 0x44, 0x38,
     0x38, 0x44, 0x44, 0x44, 0x28, 0x38, 0x44, 0x44, 0x28, 0x7F, 0x38, 0x54, 0x54, 0x54, 0x18,
     0x00, 0x08, 0x7E, 0x09, 0x02, 0x18, 0xA4, 0xA4, 0x9C, 0x78, 0x7F, 0x08, 0x04, 0x04, 0x78,
     0x00, 0x44, 0x7D, 0x40, 0x00, 0x20, 0x40, 0x40, 0x3D, 0x00, 0x7F, 0x10, 0x28, 0x44, 0x00,
     0x00, 0x41, 0x7F, 0x40, 0x00, 0x7C, 0x04, 0x78, 0x04, 0x78, 0x7C, 0x08, 0x04, 0x04, 0x78,
     0x38, 0x44, 0x44, 0x44, 0x38, 0xFC, 0x18, 0x24, 0x24, 0x18, 0x18, 0x24, 0x24, 0x18, 0xFC,
     0x7C, 0x08, 0x04, 0x04, 0x08, 0x48, 0x54, 0x54, 0x54, 0x24, 0x04, 0x04, 0x3F, 0x44, 0x24,
     0x3C, 0x40, 0x40, 0x20, 0x7C, 0x1C, 0x20, 0x40, 0x20, 0x1C, 0x3C, 0x40, 0x30, 0x40, 0x3C,
     0x44, 0x28, 0x10, 0x28, 0x44, 0x4C, 0x90, 0x90, 0x90, 0x7C, 0x44, 0x64, 0x54, 0x4C, 0x44,
     0x00, 0x08, 0x36, 0x41, 0x00, 0x00, 0x00, 0x77, 0x00, 0x00, 0x00, 0x41, 0x36, 0x08, 0x00,
     0x02, 0x01, 0x02, 0x04, 0x02, 0x3C, 0x26, 0x23, 0x26, 0x3C, 0x1E, 0xA1, 0xA1, 0x61, 0x12,
     0x3A, 0x40, 0x40, 0x20, 0x7A, 0x38, 0x54, 0x54, 0x55, 0x59, 0x21, 0x55, 0x55, 0x79, 0x41,
     0x22, 0x54, 0x54, 0x78, 0x42, 0x21, 0x55, 0x54, 0x78, 0x40, 0x20, 0x54, 0x55, 0x79, 0x40,
     0x0C, 0x1E, 0x52, 0x72, 0x12, 0x39, 0x55, 0x55, 0x55, 0x59, 0x39, 0x54, 0x54, 0x54, 0x59,
     0x39, 0x55, 0x54, 0x54, 0x58, 0x00, 0x00, 0x45, 0x7C, 0x41, 0x00, 0x02, 0x45, 0x7D, 0x42,
     0x00, 0x01, 0x45, 0x7C, 0x40, 0x7D, 0x12, 0x11, 0x12, 0x7D, 0xF0, 0x28, 0x25, 0x28, 0xF0,
     0x7C, 0x54, 0x55, 0x45, 0x00, 0x20, 0x54, 0x54, 0x7C, 0x54, 0x7C, 0x0A, 0x09, 0x7F, 0x49,
     0x32, 0x49, 0x49, 0x49, 0x32, 0x3A, 0x44, 0x44, 0x44, 0x3A, 0x32, 0x4A, 0x48, 0x48, 0x30,
     0x3A, 0x41, 0x41, 0x21, 0x7A, 0x3A, 0x42, 0x40, 0x20, 0x78, 0x00, 0x9D, 0xA0, 0xA0, 0x7D,
     0x3D, 0x42, 0x42, 0x42, 0x3D, 0x3D, 0x40, 0x40, 0x40, 0x3D, 0x3C, 0x24, 0xFF, 0x24, 0x24,
     0x48, 0x7E, 0x49, 0x43, 0x66, 0x2B, 0x2F, 0xFC, 0x2F, 0x2B, 0xFF, 0x09, 0x29, 0xF6, 0x20,
     0xC0, 0x88, 0x7E, 0x09, 0x03, 0x20, 0x54, 0x54, 0x79, 0x41, 0x00, 0x00, 0x44, 0x7D, 0x41,
     0x30, 0x48, 0x48, 0x4A, 0x32, 0x38, 0x40, 0x40, 0x22, 0x7A, 0x00, 0x7A, 0x0A, 0x0A, 0x72,
     0x7D, 0x0D, 0x19, 0x31, 0x7D, 0x26, 0x29, 0x29, 0x2F, 0x28, 0x26, 0x29, 0x29, 0x29, 0x26,
     0x30, 0x48, 0x4D, 0x40, 0x20, 0x38, 0x08, 0x08, 0x08, 0x08, 0x08, 0x08, 0x08, 0x08, 0x38,
     0x2F, 0x10, 0xC8, 0xAC, 0xBA, 0x2F, 0x10, 0x28, 0x34, 0xFA, 0x00, 0x00, 0x7B, 0x00, 0x00,
     0x08, 0x14, 0x2A, 0x14, 0x22, 0x22, 0x14, 0x2A, 0x14, 0x08, 0x55, 0x00, 0x55, 0x00, 0x55,
     0xAA, 0x55, 0xAA, 0x55, 0xAA, 0xFF, 0x55, 0xFF, 0x55, 0xFF, 0x00, 0x00, 0x00, 0xFF, 0x00,
     0x10, 0x10, 0x10, 0xFF, 0x00, 0x14, 0x14, 0x14, 0xFF, 0x00, 0x10, 0x10, 0xFF, 0x00, 0xFF,
     0x10, 0x10, 0xF0, 0x10, 0xF0, 0x14, 0x14, 0x14, 0xFC, 0x00, 0x14, 0x14, 0xF7, 0x00, 0xFF,
     0x00, 0x00, 0xFF, 0x00, 0xFF, 0x14, 0x14, 0xF4, 0x04, 0xFC, 0x14, 0x14, 0x17, 0x10, 0x1F,
     0x10, 0x10, 0x1F, 0x10, 0x1F, 0x14, 0x14, 0x14, 0x1F, 0x00, 0x10, 0x10, 0x10, 0xF0, 0x00,
     0x00, 0x00, 0x00, 0x1F, 0x10, 0x10, 0x10, 0x10, 0x1F, 0x10, 0x10, 0x10, 0x10, 0xF0, 0x10,
     0x00, 0x00, 0x00, 0xFF, 0x10, 0x10, 0x10, 0x10, 0x10, 0x10, 0x10, 0x10, 0x10, 0xFF, 0x10,
     0x00, 0x00, 0x00, 0xFF, 0x14, 0x00, 0x00, 0xFF, 0x00, 0xFF, 0x00, 0x00, 0x1F, 0x10, 0x17,
     0x00, 0x00, 0xFC, 0x04, 0xF4, 0x14, 0x14, 0x17, 0x10, 0x17, 0x14, 0x14, 0xF4, 0x04, 0xF4,
     0x00, 0x00, 0xFF, 0x00, 0xF7, 0x14, 0x14, 0x14, 0x14, 0x14, 0x14, 0x14, 0xF7, 0x00, 0xF7,
     0x14, 0x14, 0x14, 0x17, 0x14, 0x10, 0x10, 0x1F, 0x10, 0x1F, 0x14, 0x14, 0x14, 0xF4, 0x14,
     0x10, 0x10, 0xF0, 0x10, 0xF0, 0x00, 0x00, 0x1F, 0x10, 0x1F, 0x00, 0x00, 0x00, 0x1F, 0x14,
     0x00, 0x00, 0x00, 0xFC, 0x14, 0x00, 0x00, 0xF0, 0x10, 0xF0, 0x10, 0x10, 0xFF, 0x10, 0xFF,
     0x14, 0x14, 0x14, 0xFF, 0x14, 0x10, 0x10, 0x10, 0x1F, 0x00, 0x00, 0x00, 0x00, 0xF0, 0x10,
     0xFF, 0xFF, 0xFF, 0xFF, 0xFF, 0xF0, 0xF0, 0xF0, 0xF0, 0xF0, 0xFF, 0xFF, 0xFF, 0x00, 0x00,
     0x00, 0x00, 0x00, 0xFF, 0xFF, 0x0F, 0x0F, 0x0F, 0x0F, 0x0F, 0x38, 0x44, 0x44, 0x38, 0x44,
     0xFC, 0x4A, 0x4A, 0x4A, 0x34, 0x7E, 0x02, 0x02, 0x06, 0x06, 0x02, 0x7E, 0x02, 0x7E, 0x02,
     0x63, 0x55, 0x49, 0x41, 0x63, 0x38, 0x44, 0x44, 0x3C, 0x04, 0x40, 0x7E, 0x20, 0x1E, 0x20,
     0x06, 0x02, 0x7E, 0x02, 0x02, 0x99, 0xA5, 0xE7, 0xA5, 0x99, 0x1C, 0x2A, 0x49, 0x2A, 0x1C,
     0x4C, 0x72, 0x01, 0x72, 0x4C, 0x30, 0x4A, 0x4D, 0x4D, 0x30, 0x30, 0x48, 0x78, 0x48, 0x30,
     0xBC, 0x62, 0x5A, 0x46, 0x3D, 0x3E, 0x49, 0x49, 0x49, 0x00, 0x7E, 0x01, 0x01, 0x01, 0x7E,
     0x2A, 0x2A, 0x2A, 0x2A, 0x2A, 0x44, 0x44, 0x5F, 0x44, 0x44, 0x40, 0x51, 0x4A, 0x44, 0x40,
     0x40, 0x44, 0x4A, 0x51, 0x40, 0x00, 0x00, 0xFF, 0x01, 0x03, 0xE0, 0x80, 0xFF, 0x00, 0x00,
     0x08, 0x08, 0x6B, 0x6B, 0x08, 0x36, 0x12, 0x36, 0x24, 0x36, 0x06, 0x0F, 0x09, 0x0F, 0x06,
     0x00, 0x00, 0x18, 0x18, 0x00, 0x00, 0x00, 0x10, 0x10, 0x00, 0x30, 0x40, 0xFF, 0x01, 0x01,
     0x00, 0x1F, 0x01, 0x01, 0x1E, 0x00, 0x19, 0x1D, 0x17, 0x12, 0x00, 0x3C, 0x3C, 0x3C, 0x3C,
     0x00, 0x00, 0x00, 0x00, 0x00]"

record oled =
  od_fb :: bytes
  od_ready :: bool
  od_suspended :: bool
  od_sent :: "bytes list"

section \<open>Transfers\<close>

definition i2c_transmit :: "(nat \<Rightarrow> bool) \<Rightarrow> bytes \<Rightarrow> (oled, bool) prog" where
  "i2c_transmit A bs =
     bnd (gets (\<lambda>s. length (od_sent s))) (\<lambda>n. bnd (modify (\<lambda>s. s\<lparr>od_sent := od_sent s @ [bs]\<rparr>)) (\<lambda>_. ret (A n)))"

definition i2c_cmd :: "(nat \<Rightarrow> bool) \<Rightarrow> u8 \<Rightarrow> (oled, bool) prog" where
  "i2c_cmd A cmd = i2c_transmit A [0x00, cmd]"

definition i2c_data_row :: "(nat \<Rightarrow> bool) \<Rightarrow> bytes \<Rightarrow> (oled, bool) prog" where
  "i2c_data_row A data = (if length data > 129 - 1 then ret False else i2c_transmit A (0x40 # data))"

section \<open>Drawing\<close>

definition fb_get :: "int \<Rightarrow> (oled, u8) prog" where
  "fb_get i s =
     (if 0 \<le> i \<and> nat i < length (od_fb s) then (Ret (od_fb s ! nat i), s) else (Fault Overread, s))"

definition fb_put :: "int \<Rightarrow> u8 \<Rightarrow> (oled, unit) prog" where
  "fb_put i b s =
     (if 0 \<le> i \<and> nat i < length (od_fb s) then (Ret (), s\<lparr>od_fb := (od_fb s)[nat i := b]\<rparr>) else (Fault Overrun, s))"

definition font_at :: "nat \<Rightarrow> (oled, u8) prog" where
  "font_at i = (if i < length oled_font5x7 then ret (oled_font5x7 ! i) else fault Overread)"

definition draw_char :: "int \<Rightarrow> int \<Rightarrow> char \<Rightarrow> (oled, unit) prog" where
  "draw_char px py c =
     (if px < 0 \<or> px > WIDTH - 6 then ret ()
      else if py < 0 \<or> py > HEIGHT - 8 then ret ()
      else
        let page = py div 8; base = of_char c * 5 in
        bnd (for_each [0..<5] (\<lambda>i. bnd (font_at (base + i)) (\<lambda>b. fb_put (page * WIDTH + px + int i) b))) (\<lambda>_.
        fb_put (page * WIDTH + px + 5) 0))"

definition oled_clear :: "(oled, unit) prog" where
  "oled_clear = modify (\<lambda>s. s\<lparr>od_fb := replicate (length (od_fb s)) 0\<rparr>)"

text \<open>A text is a C string: it ends before the first NUL.\<close>

fun print_chars :: "int \<Rightarrow> int \<Rightarrow> string \<Rightarrow> (oled, unit) prog" where
  "print_chars x y [] = ret ()"
| "print_chars x y (c # cs) =
     (if c \<noteq> CHR 0x00 \<and> x \<le> WIDTH - 6 then bnd (draw_char x y c) (\<lambda>_. print_chars (x + 6) y cs) else ret ())"

text \<open>The column of pixels is an unbounded integer; the code's \<open>int\<close> holds it for any column below 2^31 / 6.\<close>

definition oled_print :: "int \<Rightarrow> int \<Rightarrow> string \<Rightarrow> (oled, unit) prog" where
  "oled_print row col text =
     (if row < 0 \<or> row \<ge> ROWS then ret () else let y = row * 8; x = col * 6 in print_chars x y text)"

text \<open>\<open>memset(g_fb + off, 0, len)\<close>.\<close>

definition fb_zero :: "int \<Rightarrow> int \<Rightarrow> (oled, unit) prog" where
  "fb_zero off len s =
     (if 0 \<le> off \<and> nat (off + len) \<le> length (od_fb s)
      then (Ret (), s\<lparr>od_fb := take (nat off) (od_fb s) @ replicate (nat len) 0 @ drop (nat (off + len)) (od_fb s)\<rparr>)
      else (Fault Overrun, s))"

definition set_line :: "int \<Rightarrow> string \<Rightarrow> (oled, unit) prog" where
  "set_line row text =
     (if row < 0 \<or> row \<ge> ROWS then ret ()
      else bnd (fb_zero (row * WIDTH) WIDTH) (\<lambda>_. oled_print row 0 text))"

definition hline :: "int \<Rightarrow> (oled, unit) prog" where
  "hline y =
     (if y < 0 \<or> y \<ge> HEIGHT then ret ()
      else
        let page = y div 8; mask = (push_bit (nat (y mod 8)) 1 :: u8) in
        for_each [0..<nat WIDTH] (\<lambda>x. bnd (fb_get (page * WIDTH + int x)) (\<lambda>b.
          fb_put (page * WIDTH + int x) (b OR mask))))"

section \<open>Panel\<close>

definition oled_flush :: "(nat \<Rightarrow> bool) \<Rightarrow> (oled, unit) prog" where
  "oled_flush A =
     bnd (gets (\<lambda>s. \<not> od_ready s \<or> od_suspended s)) (\<lambda>off.
     if off then ret ()
     else
       bnd (for_each [0x21, 0x00, 0x7F, 0x22, 0x00, 0x07] (\<lambda>c. bnd (i2c_cmd A c) (\<lambda>_. ret ()))) (\<lambda>_.
       for_each [0..<8] (\<lambda>page.
         bnd (gets (\<lambda>s. take (nat WIDTH) (drop (page * nat WIDTH) (od_fb s)))) (\<lambda>row.
         bnd (i2c_data_row A row) (\<lambda>_. ret ())))))"

definition oled_suspend :: "(nat \<Rightarrow> bool) \<Rightarrow> (oled, unit) prog" where
  "oled_suspend A =
     bnd (gets (\<lambda>s. \<not> od_ready s \<or> od_suspended s)) (\<lambda>off.
     if off then ret ()
     else bnd (i2c_cmd A 0xAE) (\<lambda>_. modify (\<lambda>s. s\<lparr>od_suspended := True\<rparr>)))"

definition oled_resume :: "(nat \<Rightarrow> bool) \<Rightarrow> (oled, unit) prog" where
  "oled_resume A =
     bnd (gets (\<lambda>s. \<not> od_ready s \<or> \<not> od_suspended s)) (\<lambda>off.
     if off then ret ()
     else
       bnd (modify (\<lambda>s. s\<lparr>od_suspended := False\<rparr>)) (\<lambda>_.
       bnd (oled_flush A) (\<lambda>_. bnd (i2c_cmd A 0xAF) (\<lambda>_. ret ()))))"

definition init_seq :: bytes where
  "init_seq =
     [0xAE, 0xD5, 0x80, 0xA8, 0x3F, 0xD3, 0x00, 0x40, 0x8D, 0x14, 0x20, 0x00, 0xA1, 0xC8, 0xDA, 0x12,
      0x81, 0xCF, 0xD9, 0xF1, 0xDB, 0x40, 0xA4, 0xA6, 0x2E, 0xAF]"

fun send_seq :: "(nat \<Rightarrow> bool) \<Rightarrow> bytes \<Rightarrow> (oled, bool) prog" where
  "send_seq A [] = ret True"
| "send_seq A (c # cs) = bnd (i2c_cmd A c) (\<lambda>ok. if \<not> ok then ret False else send_seq A cs)"

text \<open>\<open>bus\<close> and \<open>dev\<close>: whether the bus and the device could be set up.\<close>

definition oled_init :: "(nat \<Rightarrow> bool) \<Rightarrow> bool \<Rightarrow> bool \<Rightarrow> (oled, bool) prog" where
  "oled_init A bus dev =
     bnd (gets od_ready) (\<lambda>ready.
     if ready then ret True
     else if \<not> bus then ret False
     else if \<not> dev then ret False
     else
       bnd (send_seq A init_seq) (\<lambda>ok.
       if \<not> ok then ret False
       else
         bnd oled_clear (\<lambda>_.
         bnd (oled_flush A) (\<lambda>_.
         bnd (modify (\<lambda>s. s\<lparr>od_ready := True\<rparr>)) (\<lambda>_. ret True)))))"

section \<open>What drawing does to the frame buffer\<close>

definition splice :: "nat \<Rightarrow> bytes \<Rightarrow> bytes \<Rightarrow> bytes" where
  "splice off bs fb = take off fb @ bs @ drop (off + length bs) fb"

lemma length_splice [len_simps, simp]: "off + length bs \<le> length fb \<Longrightarrow> length (splice off bs fb) = length fb"
  by (simp add: splice_def)

lemma splice_Nil [simp]: "splice off [] fb = fb"
  by (simp add: splice_def)

lemma splice_Cons: "off < length fb \<Longrightarrow> splice off (b # bs) fb = splice (Suc off) bs (fb[off := b])"
  by (simp add: splice_def take_Suc_conv_app_nth)

lemma splice_6:
  "off + 5 < length fb \<Longrightarrow> splice off [a, b, c, d, e, f] fb =
    fb[off := a, off + 1 := b, off + 2 := c, off + 3 := d, off + 4 := e, off + 5 := f]"
  by (simp add: splice_Cons eval_nat_numeral)

lemma splice_splice:
  assumes "off' = off + length bs" "off' \<le> length fb"
  shows "splice off' cs (splice off bs fb) = splice off (bs @ cs) fb"
  using assms by (simp add: splice_def ac_simps)

lemma splice_over:
  assumes "length bs \<le> length cs" "off + length cs \<le> length fb"
  shows "splice off bs (splice off cs fb) = splice off (bs @ drop (length bs) cs) fb"
  using assms by (simp add: splice_def add.commute)

text \<open>The six columns of a character, of the characters that fit a line from a column on, and of a line.\<close>

definition glyph :: "char \<Rightarrow> bytes" where
  "glyph c = take 5 (drop (5 * of_char c) oled_font5x7) @ [0]"

definition cells :: "nat \<Rightarrow> string \<Rightarrow> bytes" where
  "cells x str = concat (map glyph (take ((128 - x) div 6) (takeWhile (\<lambda>c. c \<noteq> CHR 0x00) str)))"

definition text_row :: "string \<Rightarrow> bytes" where
  "text_row str = cells 0 str @ replicate (128 - length (cells 0 str)) 0"

lemma length_font: "length oled_font5x7 = 1280"
  by (simp add: oled_font5x7_def)

lemma of_char_256: "(of_char c :: nat) < 256"
  by (metis char_of_mod_256 mod_less_divisor of_char_mod_256 zero_less_numeral)

lemma font_room: "(of_char c :: nat) * 5 + 4 < 1280"
  using of_char_256[of c] by linarith

lemma glyph_columns:
  "glyph c = [oled_font5x7 ! (of_char c * 5), oled_font5x7 ! (of_char c * 5 + 1), oled_font5x7 ! (of_char c * 5 + 2),
     oled_font5x7 ! (of_char c * 5 + 3), oled_font5x7 ! (of_char c * 5 + 4), 0]"
proof -
  have "take 5 (drop k xs) = [xs ! k, xs ! (k + 1), xs ! (k + 2), xs ! (k + 3), xs ! (k + 4)]"
    if "k + 4 < length xs" for k and xs :: bytes
    using that by (simp add: take_Suc_conv_app_nth numeral_eq_Suc)
  from this[of "5 * of_char c" oled_font5x7] show ?thesis
    using font_room[of c] length_font by (simp add: glyph_def mult.commute)
qed

lemma length_glyph [simp]: "length (glyph c) = 6"
  by (simp add: glyph_columns)

lemma length_cells: "length (cells x str) = 6 * min ((128 - x) div 6) (length (takeWhile (\<lambda>c. c \<noteq> CHR 0x00) str))"
  by (simp add: cells_def length_concat comp_def sum_list_triv min.commute)

lemma fb_put_run: "i < length (od_fb s) \<Longrightarrow> fb_put (int i) b s = (Ret (), s\<lparr>od_fb := (od_fb s)[i := b]\<rparr>)"
  by (simp add: fb_put_def)

lemma font_at_run: "i < 1280 \<Longrightarrow> font_at i = ret (oled_font5x7 ! i)"
  by (simp add: font_at_def length_font)

lemma draw_char_run:
  assumes "x \<le> 122" "row < 8" "length (od_fb s) = 1024"
  shows "draw_char (int x) (int row * 8) c s = (Ret (), s\<lparr>od_fb := splice (row * 128 + x) (glyph c) (od_fb s)\<rparr>)"
proof -
  have room: "row * 128 + x + 5 < 1024" using assms(1,2) by linarith
  have put: "fb_put (int row * 128 + int x + int i) b t = (Ret (), t\<lparr>od_fb := (od_fb t)[row * 128 + x + i := b]\<rparr>)"
    if "i < 6" "length (od_fb t) = 1024" for i b and t :: oled
    using fb_put_run[of "row * 128 + x + i" t b] that room by simp
  have "[0..<5] = [0, 1, 2, 3, 4 :: nat]" by (simp add: upt_conv_Cons)
  then show ?thesis
    using assms room font_room[of c] put[of 0] put[of 1] put[of 2] put[of 3] put[of 4] put[of 5]
    by (simp add: draw_char_def WIDTH_def HEIGHT_def Let_def font_at_run bnd_def glyph_columns splice_6)
qed

lemma print_chars_run:
  assumes "row < 8" "length (od_fb s) = 1024"
  shows "print_chars (int x) (int row * 8) str s =
    (Ret (), s\<lparr>od_fb := splice (row * 128 + x) (cells x str) (od_fb s)\<rparr>)"
  using assms(2)
proof (induction str arbitrary: x s)
  case Nil
  then show ?case by (simp add: cells_def)
next
  case (Cons c cs)
  show ?case
  proof (cases "c \<noteq> CHR 0x00 \<and> x \<le> 122")
    case False
    then have "(128 - x) div 6 = 0 \<or> c = CHR 0x00" by auto
    then have "cells x (c # cs) = []" by (auto simp: cells_def)
    then show ?thesis using False by (auto simp: WIDTH_def)
  next
    case True
    then have room: "row * 128 + x + 6 \<le> 1024" using assms(1) by linarith
    have "(128 - x) div 6 = Suc ((128 - (x + 6)) div 6)" using True by linarith
    then have c: "cells x (c # cs) = glyph c @ cells (x + 6) cs" using True by (simp add: cells_def)
    have "int x \<le> WIDTH - 6" using True by (simp add: WIDTH_def)
    then have "print_chars (int x) (int row * 8) (c # cs) s =
        print_chars (int (x + 6)) (int row * 8) cs (s\<lparr>od_fb := splice (row * 128 + x) (glyph c) (od_fb s)\<rparr>)"
      using True by (simp add: bnd_Ret[where m = "draw_char (int x) (int row * 8) c", OF draw_char_run[OF _ assms(1) Cons.prems]] add.commute)
    also have "\<dots> = (Ret (), s\<lparr>od_fb := splice (row * 128 + x) (cells x (c # cs)) (od_fb s)\<rparr>)"
      using Cons.prems room unfolding c
      by (subst Cons.IH) (simp_all add: splice_splice add.assoc)
    finally show ?thesis .
  qed
qed

lemma cells_room: "length (cells 0 str) \<le> 126"
  by (simp add: length_cells)

lemma length_text_row [simp]: "length (text_row str) = 128"
  using cells_room[of str] by (simp add: text_row_def)

lemma fb_zero_run:
  "row < 8 \<Longrightarrow> length (od_fb s) = 1024 \<Longrightarrow>
    fb_zero (int row * 128) 128 s = (Ret (), s\<lparr>od_fb := splice (row * 128) (replicate 128 0) (od_fb s)\<rparr>)"
  by (simp add: fb_zero_def splice_def nat_mult_distrib nat_add_distrib)

lemma set_line_run:
  assumes "row < 8" "length (od_fb s) = 1024"
  shows "set_line (int row) str s = (Ret (), s\<lparr>od_fb := splice (row * 128) (text_row str) (od_fb s)\<rparr>)"
proof -
  have r: "\<not> (int row < 0 \<or> int row \<ge> ROWS)" using assms(1) by (simp add: ROWS_def HEIGHT_def)
  have room: "row * 128 + 128 \<le> 1024" using assms(1) by linarith
  have "set_line (int row) str s =
    print_chars (int 0) (int row * 8) str (s\<lparr>od_fb := splice (row * 128) (replicate 128 0) (od_fb s)\<rparr>)"
    using r bnd_Ret[where m = "fb_zero (int row * 128) 128", OF fb_zero_run[OF assms]]
    by (simp add: set_line_def oled_print_def WIDTH_def)
  also have "\<dots> = (Ret (), s\<lparr>od_fb := splice (row * 128) (text_row str) (od_fb s)\<rparr>)"
    using assms room cells_room[of str]
    by (subst print_chars_run) (simp_all add: splice_over text_row_def)
  finally show ?thesis .
qed

text \<open>Any placement of str keeps the buffer's length and touches nothing else.\<close>

definition drawn :: "oled \<Rightarrow> 'a res \<times> oled \<Rightarrow> bool" where
  "drawn s p \<longleftrightarrow> (\<exists>a fb. p = (Ret a, s\<lparr>od_fb := fb\<rparr>) \<and> length fb = length (od_fb s))"

lemma drawn_bnd:
  assumes "drawn s (m s)" "\<And>a t. length (od_fb t) = length (od_fb s) \<Longrightarrow> drawn t (f a t)"
  shows "drawn s (bnd m f s)"
proof -
  obtain a fb where 1: "m s = (Ret a, s\<lparr>od_fb := fb\<rparr>)" "length fb = length (od_fb s)"
    using assms(1) unfolding drawn_def by blast
  then obtain b fb' where "f a (s\<lparr>od_fb := fb\<rparr>) = (Ret b, (s\<lparr>od_fb := fb\<rparr>)\<lparr>od_fb := fb'\<rparr>)" "length fb' = length fb"
    using assms(2)[of "s\<lparr>od_fb := fb\<rparr>" a] unfolding drawn_def by auto
  then show ?thesis using 1 unfolding drawn_def by (intro exI[of _ b] exI[of _ fb']) (simp add: bnd_Ret)
qed

lemma drawn_ret [simp]: "drawn s (Ret a, s)"
  unfolding drawn_def by (intro exI[of _ a] exI[of _ "od_fb s"]) simp

lemma drawn_for_each:
  assumes "\<And>x t. x \<in> set xs \<Longrightarrow> length (od_fb t) = n \<Longrightarrow> drawn t (f x t)" "length (od_fb s) = n"
  shows "drawn s (for_each xs f s)"
  using assms
proof (induction xs arbitrary: s)
  case (Cons x xs)
  then show ?case by (auto intro!: drawn_bnd)
qed simp

lemma drawn_char: 
  assumes "length (od_fb s) = 1024"
  shows "drawn s (draw_char px py c s)"
proof (cases "0 \<le> px \<and> px \<le> 122 \<and> 0 \<le> py \<and> py \<le> 56")
  case False
  then show ?thesis by (auto simp: draw_char_def WIDTH_def HEIGHT_def)
next
  case True
  define x row where "x = nat px" and "row = nat (py div 8)"
  have "x \<le> 122" "row < 8" "int x = px" "int row = py div 8" using True by (auto simp: x_def row_def)
  moreover have "draw_char px py c = draw_char px (py div 8 * 8) c"
  proof -
    have "0 \<le> py div 8" "py div 8 \<le> 7" using True by auto
    then show ?thesis using True by (simp add: draw_char_def HEIGHT_def)
  qed
  ultimately show ?thesis
    using draw_char_run[of x row s c] assms unfolding drawn_def by auto
qed

lemma drawn_print_chars: "length (od_fb s) = 1024 \<Longrightarrow> drawn s (print_chars x y str s)"
proof (induction str arbitrary: x s)
  case (Cons c cs)
  then show ?case by (auto intro!: drawn_bnd drawn_char)
qed simp

lemma drawn_print: "length (od_fb s) = 1024 \<Longrightarrow> drawn s (oled_print row col str s)"
  by (simp add: oled_print_def Let_def drawn_print_chars)

lemma drawn_set_line: "length (od_fb s) = 1024 \<Longrightarrow> drawn s (set_line row str s)"
proof (cases "row < 0 \<or> row \<ge> ROWS")
  case False
  assume l: "length (od_fb s) = 1024"
  have "nat row < 8" "int (nat row) = row" using False by (auto simp: ROWS_def HEIGHT_def)
  then show ?thesis using set_line_run[of "nat row" s str] l unfolding drawn_def
    by (intro exI[of _ "()"] exI[of _ "splice (nat row * 128) (text_row str) (od_fb s)"]) simp
qed (auto simp: set_line_def)

lemma drawn_hline:
  assumes "length (od_fb s) = 1024"
  shows "drawn s (hline y s)"
proof (cases "y < 0 \<or> y \<ge> 64")
  case False
  then have "y div 8 * 128 + 128 \<le> 1024" "0 \<le> y div 8 * 128" by auto
  then have "drawn t (bnd (fb_get (y div 8 * WIDTH + int x)) (\<lambda>b. fb_put (y div 8 * WIDTH + int x) (b OR m)) t)"
    if "x < 128" "length (od_fb t) = 1024" for x t m
    using that unfolding drawn_def
    by (auto simp: fb_get_def fb_put_def bnd_def WIDTH_def nat_less_iff)
  then show ?thesis using False assms unfolding hline_def HEIGHT_def Let_def
    by (auto intro!: drawn_for_each[where n = 1024] simp: WIDTH_def)
qed (auto simp: hline_def HEIGHT_def)

lemma drawn_clear: "drawn s (oled_clear s)"
  unfolding drawn_def oled_clear_def by (intro exI[of _ "()"] exI[of _ "replicate (length (od_fb s)) 0"]) simp

section \<open>What reaches the panel\<close>

definition fb_rows :: "bytes \<Rightarrow> bytes list" where
  "fb_rows fb = map (\<lambda>p. take 128 (drop (p * 128) fb)) [0..<8]"

definition cmd_transfers :: "bytes \<Rightarrow> bytes list" where
  "cmd_transfers cs = map (\<lambda>c. [0x00, c]) cs"

definition screen_transfers :: "bytes \<Rightarrow> bytes list" where
  "screen_transfers fb = cmd_transfers [0x21, 0x00, 0x7F, 0x22, 0x00, 0x07] @ map ((#) 0x40) (fb_rows fb)"

lemma cmd_run: "i2c_cmd A c s = (Ret (A (length (od_sent s))), s\<lparr>od_sent := od_sent s @ [[0, c]]\<rparr>)"
  by (simp add: i2c_cmd_def i2c_transmit_def)

lemma cmds_run:
  "for_each cs (\<lambda>c. bnd (i2c_cmd A c) (\<lambda>_. ret ())) s = (Ret (), s\<lparr>od_sent := od_sent s @ cmd_transfers cs\<rparr>)"
proof (induction cs arbitrary: s)
  case (Cons c cs)
  then show ?case by (simp add: bnd_def cmd_run cmd_transfers_def)
qed (simp add: cmd_transfers_def)

lemma rows_run:
  assumes "length (od_fb s) = 1024" "\<forall>p\<in>set ps. p < 8"
  shows "for_each ps (\<lambda>page. bnd (gets (\<lambda>s. take (nat WIDTH) (drop (page * nat WIDTH) (od_fb s)))) (\<lambda>row.
      bnd (i2c_data_row A row) (\<lambda>_. ret ()))) s =
    (Ret (), s\<lparr>od_sent := od_sent s @ map (\<lambda>p. 0x40 # take 128 (drop (p * 128) (od_fb s))) ps\<rparr>)"
  using assms
proof (induction ps arbitrary: s)
  case (Cons p ps)
  then show ?case by (simp add: bnd_def i2c_data_row_def i2c_transmit_def WIDTH_def)
qed simp

lemma flush_run:
  assumes "length (od_fb s) = 1024"
  shows "oled_flush A s =
    (Ret (), if od_ready s \<and> \<not> od_suspended s then s\<lparr>od_sent := od_sent s @ screen_transfers (od_fb s)\<rparr> else s)"
  using assms
  by (simp add: oled_flush_def bnd_Ret[where m = "for_each [0x21, 0x00, 0x7F, 0x22, 0x00, 0x07] (\<lambda>c. bnd (i2c_cmd A c) (\<lambda>_. ret ()))",
        OF cmds_run] rows_run screen_transfers_def fb_rows_def comp_def del: for_each.simps)

text \<open>A failed command ends the initialisation.\<close>

lemma send_seq_run:
  "\<exists>k. send_seq A cs s = (Ret (\<forall>i<length cs. A (length (od_sent s) + i)),
      s\<lparr>od_sent := od_sent s @ cmd_transfers (take k cs)\<rparr>) \<and>
    ((\<forall>i<length cs. A (length (od_sent s) + i)) \<longrightarrow> k = length cs)"
proof (induction cs arbitrary: s)
  case Nil
  then show ?case by (simp add: cmd_transfers_def)
next
  case (Cons c cs)
  let ?s = "s\<lparr>od_sent := od_sent s @ [[0, c]]\<rparr>"
  have all: "(\<forall>i<length (c # cs). A (length (od_sent s) + i)) \<longleftrightarrow>
      A (length (od_sent s)) \<and> (\<forall>i<length cs. A (length (od_sent ?s) + i))"
    by (auto simp: less_Suc_eq_0_disj)
  show ?case
  proof (cases "A (length (od_sent s))")
    case True
    obtain k where "send_seq A cs ?s = (Ret (\<forall>i<length cs. A (length (od_sent ?s) + i)),
        ?s\<lparr>od_sent := od_sent ?s @ cmd_transfers (take k cs)\<rparr>)"
      "(\<forall>i<length cs. A (length (od_sent ?s) + i)) \<longrightarrow> k = length cs"
      using Cons.IH[of ?s] by blast
    then show ?thesis unfolding all using True
      by (intro exI[of _ "Suc k"]) (simp add: bnd_def cmd_run cmd_transfers_def)
  next
    case False
    then show ?thesis unfolding all by (intro exI[of _ 1]) (simp add: bnd_def cmd_run cmd_transfers_def)
  qed
qed

section \<open>Sequences of calls\<close>

datatype oled_op =
  Init bool bool | Clear | Print int int string | Set_line int string | Hline int | Flush | Suspend | Resume

fun oled_op_run :: "(nat \<Rightarrow> bool) \<Rightarrow> oled_op \<Rightarrow> (oled, unit) prog" where
  "oled_op_run A (Init bus dev) = bnd (oled_init A bus dev) (\<lambda>_. ret ())"
| "oled_op_run A Clear = oled_clear"
| "oled_op_run A (Print row col str) = oled_print row col str"
| "oled_op_run A (Set_line row str) = set_line row str"
| "oled_op_run A (Hline y) = hline y"
| "oled_op_run A Flush = oled_flush A"
| "oled_op_run A Suspend = oled_suspend A"
| "oled_op_run A Resume = oled_resume A"

definition oled_ok :: "oled \<Rightarrow> bool" where
  "oled_ok s \<longleftrightarrow> length (od_fb s) = 1024 \<and> (od_suspended s \<longrightarrow> od_ready s)"

lemma init_run:
  assumes "length (od_fb s) = 1024" "\<not> od_ready s"
  shows "\<exists>k. oled_init A bus dev s =
     (if bus \<and> dev \<and> (\<forall>i<26. A (length (od_sent s) + i))
      then (Ret True, s\<lparr>od_sent := od_sent s @ cmd_transfers init_seq, od_fb := replicate 1024 0, od_ready := True\<rparr>)
      else (Ret False, s\<lparr>od_sent := od_sent s @ cmd_transfers (take k init_seq)\<rparr>))"
proof (cases "bus \<and> dev")
  case False
  then show ?thesis using assms by (intro exI[of _ 0]) (auto simp: oled_init_def cmd_transfers_def)
next
  case True
  have len: "length init_seq = 26" by (simp add: init_seq_def)
  obtain k where k: "send_seq A init_seq s = (Ret (\<forall>i<26. A (length (od_sent s) + i)),
      s\<lparr>od_sent := od_sent s @ cmd_transfers (take k init_seq)\<rparr>)"
    "(\<forall>i<26. A (length (od_sent s) + i)) \<longrightarrow> k = 26"
    using send_seq_run[of A init_seq s] unfolding len by blast
  then show ?thesis using True assms len
    by (intro exI[of _ k]) (auto simp: oled_init_def oled_clear_def bnd_def flush_run)
qed

lemma op_run:
  assumes "oled_ok s"
  shows "\<exists>s'. oled_op_run A op s = (Ret (), s') \<and> oled_ok s' \<and>
    (od_suspended s \<longrightarrow> op \<noteq> Resume \<longrightarrow> od_suspended s' \<and> od_sent s' = od_sent s)"
proof -
  have len: "length (od_fb s) = 1024" using assms by (simp add: oled_ok_def)
  have draw: ?thesis if "drawn s (oled_op_run A op s)"
    using that assms unfolding drawn_def oled_ok_def by auto
  show ?thesis
  proof (cases op)
    case (Init bus dev)
    show ?thesis
    proof (cases "od_ready s")
      case True
      then show ?thesis using Init assms by (simp add: oled_init_def bnd_def)
    next
      case False
      then have "\<not> od_suspended s" using assms by (simp add: oled_ok_def)
      then show ?thesis using init_run[OF len False, of A bus dev] Init assms
        by (auto simp: bnd_def oled_ok_def split: if_splits)
    qed
  next
    case Flush
    then show ?thesis using assms len by (simp add: flush_run oled_ok_def)
  next
    case Suspend
    then show ?thesis using assms by (auto simp: oled_suspend_def bnd_def cmd_run oled_ok_def)
  next
    case Resume
    then show ?thesis using assms len by (auto simp: oled_resume_def bnd_def flush_run cmd_run oled_ok_def)
  qed (use len in \<open>intro draw, simp add: drawn_print drawn_set_line drawn_hline drawn_clear\<close>)+
qed

lemma ops_run:
  "oled_ok s \<Longrightarrow> \<exists>s'. for_each ops (oled_op_run A) s = (Ret (), s') \<and> oled_ok s' \<and>
    (od_suspended s \<longrightarrow> Resume \<notin> set ops \<longrightarrow> od_suspended s' \<and> od_sent s' = od_sent s)"
proof (induction ops arbitrary: s)
  case (Cons op ops)
  obtain s1 where s1: "oled_op_run A op s = (Ret (), s1)" "oled_ok s1"
    "od_suspended s \<longrightarrow> op \<noteq> Resume \<longrightarrow> od_suspended s1 \<and> od_sent s1 = od_sent s"
    using op_run[OF Cons.prems, of A op] by blast
  then show ?case using Cons.IH[OF s1(2)] by (auto simp: bnd_Ret)
qed simp

section \<open>Properties\<close>

text \<open>
  C30: No sequence of display calls, whatever the coordinates and texts and whichever transfers fail, reads or
  writes outside the frame buffer or the font; the buffer keeps its 1024 bytes and only an initialised panel
  is ever suspended.
\<close>

theorem oled_safe:
  assumes "length (od_fb s) = 1024" "od_suspended s \<longrightarrow> od_ready s"
  shows "\<exists>s'. for_each ops (oled_op_run A) s = (Ret (), s') \<and> length (od_fb s') = 1024 \<and>
    (od_suspended s' \<longrightarrow> od_ready s')"
  using ops_run[of s ops A] assms by (auto simp: oled_ok_def)

text \<open>
  C29: Setting a line replaces that row of the buffer by the glyphs of the text's first 21 characters up to a
  NUL, a blank column after each, and zeros, whatever was there, and leaves the other rows; a flush
  then sends the window commands and the eight rows as they are.
\<close>

theorem oled_line:
  assumes "length (od_fb s) = 1024" "row < 8" "od_ready s" "\<not> od_suspended s"
  shows "\<exists>s'. bnd (set_line (int row) line) (\<lambda>_. oled_flush A) s = (Ret (), s') \<and>
    fb_rows (od_fb s') = (fb_rows (od_fb s))[row := text_row line] \<and>
    od_sent s' = od_sent s @ screen_transfers (od_fb s')"
proof -
  let ?fb = "splice (row * 128) (text_row line) (od_fb s)"
  have len: "length ?fb = 1024" using assms(1,2) by simp
  have "take 128 (drop (p * 128) ?fb) = (if p = row then text_row line else take 128 (drop (p * 128) (od_fb s)))"
    if "p < 8" for p
  proof (cases p row rule: linorder_cases)
    case less
    then have "p * 128 + 128 \<le> row * 128" by linarith
    then show ?thesis using less assms(1,2) by (simp add: splice_def take_drop min_def)
  next
    case greater
    then have "row * 128 + 128 \<le> p * 128" by linarith
    then show ?thesis using greater assms(1,2) by (simp add: splice_def)
  qed (use assms in \<open>simp add: splice_def\<close>)
  then have "fb_rows ?fb = (fb_rows (od_fb s))[row := text_row line]"
    using assms(2) by (intro nth_equalityI) (auto simp: fb_rows_def nth_list_update)
  then show ?thesis
    using assms len
    by (simp add: flush_run bnd_Ret[where m = "set_line (int row) line", OF set_line_run[OF assms(2,1)]])
qed

text \<open>
  From suspending the panel to resuming it nothing is sent, whatever is drawn, flushed or initialised in
  between; resuming sends the buffer as drawn meanwhile and only then turns the panel on.
\<close>

theorem oled_suspension:
  assumes "length (od_fb s) = 1024" "od_ready s" "\<not> od_suspended s" "Resume \<notin> set ops"
  shows "\<exists>s'. for_each (Suspend # ops @ [Resume]) (oled_op_run A) s = (Ret (), s') \<and> \<not> od_suspended s' \<and>
    od_sent s' = od_sent s @ cmd_transfers [0xAE] @ screen_transfers (od_fb s') @ cmd_transfers [0xAF]"
proof -
  let ?s = "s\<lparr>od_sent := od_sent s @ cmd_transfers [0xAE], od_suspended := True\<rparr>"
  have 1: "oled_op_run A Suspend s = (Ret (), ?s)"
    using assms by (simp add: oled_suspend_def bnd_def cmd_run cmd_transfers_def)
  obtain s2 where 2: "for_each ops (oled_op_run A) ?s = (Ret (), s2)" "oled_ok s2" "od_suspended s2"
    "od_sent s2 = od_sent ?s"
    using ops_run[of ?s ops A] assms by (auto simp: oled_ok_def)
  have "for_each (ops @ [Resume]) (oled_op_run A) ?s = bnd (oled_resume A) (\<lambda>_. ret ()) s2"
    using bnd_Ret[where m = "for_each ops (oled_op_run A)", OF 2(1)] by (simp add: for_each_append)
  then show ?thesis using 1 2(2-4)
    by (auto simp: bnd_def oled_resume_def flush_run cmd_run oled_ok_def cmd_transfers_def)
qed

text \<open>
  Initialising succeeds exactly when the bus and the device come up and all 26 commands are acknowledged;
  until then every call starts again. The cleared buffer is not sent: the flush inside sees a panel
  that is not ready yet.
\<close>

theorem oled_init_result:
  assumes "length (od_fb s) = 1024" "\<not> od_ready s"
  shows "\<exists>ok s'. oled_init A bus dev s = (Ret ok, s') \<and> od_ready s' = ok \<and>
    (ok \<longleftrightarrow> bus \<and> dev \<and> (\<forall>i<26. A (length (od_sent s) + i))) \<and>
    (ok \<longrightarrow> od_fb s' = replicate 1024 0 \<and> od_sent s' = od_sent s @ cmd_transfers init_seq) \<and>
    oled_init A bus' dev' s' = (if ok then (Ret True, s') else oled_init A bus' dev' s')"
proof -
  let ?ok = "bus \<and> dev \<and> (\<forall>i<26. A (length (od_sent s) + i))"
  obtain k where k: "oled_init A bus dev s =
     (if ?ok then (Ret True, s\<lparr>od_sent := od_sent s @ cmd_transfers init_seq, od_fb := replicate 1024 0, od_ready := True\<rparr>)
      else (Ret False, s\<lparr>od_sent := od_sent s @ cmd_transfers (take k init_seq)\<rparr>))"
    using init_run[OF assms, of A bus dev] by blast
  show ?thesis
  proof (cases ?ok)
    case True
    have "oled_init A bus' dev' t = (Ret True, t)" if "od_ready t" for t
      using that by (simp add: oled_init_def)
    then show ?thesis unfolding k if_P[OF True]
      using True by (intro exI conjI) (rule refl, simp_all)
  next
    case False
    show ?thesis unfolding k if_not_P[OF False]
      using False assms(2) by (intro exI conjI) (rule refl, simp_all)
  qed
qed

definition toy_oled :: "bool \<Rightarrow> oled" where
  "toy_oled ready = \<lparr>od_fb = replicate 1024 0x55, od_ready = ready, od_suspended = False, od_sent = []\<rparr>"

lemma toy_oled_simps [simp]:
  "od_fb (toy_oled r) = replicate 1024 0x55" "od_ready (toy_oled r) = r" "\<not> od_suspended (toy_oled r)"
  "od_sent (toy_oled r) = []"
  by (simp_all add: toy_oled_def)

theorem oled_safe_witness:
  "\<exists>s'. for_each [Init True True, Print 7 20 ''ab'', Print (-1) 3 ''x'', Hline 63, Set_line 2 ''hello'', Suspend, Flush]
      (oled_op_run (\<lambda>n. n \<noteq> 40)) (toy_oled False) = (Ret (), s') \<and> length (od_fb s') = 1024 \<and>
    (od_suspended s' \<longrightarrow> od_ready s')"
  by (rule oled_safe) simp_all

theorem oled_line_witness:
  "\<exists>s'. bnd (set_line (int 4) ''LoRa online'') (\<lambda>_. oled_flush (\<lambda>_. True)) (toy_oled True) = (Ret (), s') \<and>
    fb_rows (od_fb s') = (fb_rows (replicate 1024 0x55))[4 := text_row ''LoRa online''] \<and>
    od_sent s' = screen_transfers (od_fb s')"
  using oled_line[of "toy_oled True" 4 "''LoRa online''" "\<lambda>_. True"] by simp

theorem oled_suspension_witness:
  "\<exists>s'. for_each (Suspend # [Set_line 3 ''OTA FAILED'', Flush] @ [Resume]) (oled_op_run (\<lambda>_. True)) (toy_oled True) =
      (Ret (), s') \<and> \<not> od_suspended s' \<and>
    od_sent s' = [] @ cmd_transfers [0xAE] @ screen_transfers (od_fb s') @ cmd_transfers [0xAF]"
  using oled_suspension[of "toy_oled True" "[Set_line 3 ''OTA FAILED'', Flush]" "\<lambda>_. True"] by (simp del: for_each.simps)

theorem oled_init_result_witness:
  "\<exists>s'. oled_init (\<lambda>_. True) True True (toy_oled False) = (Ret True, s') \<and> od_fb s' = replicate 1024 0 \<and>
    od_sent s' = cmd_transfers init_seq"
  using oled_init_result[of "toy_oled False" "\<lambda>_. True" True True True True] by auto

end
