(* ===== verification/Decimal.thy ===== *)
theory Decimal
  imports ByteBuf
begin

text \<open>
  Numbers as \<open>snprintf\<close> prints them, and C strings: the conversions the log and the firmware's page use.
\<close>

text \<open>\<open>%u\<close>, \<open>%d\<close>, \<open>%02u\<close> and \<open>%03u\<close>.\<close>

fun dec :: "nat \<Rightarrow> bytes" where
  "dec n = (if n < 10 then [of_nat (48 + n)] else dec (n div 10) @ [of_nat (48 + n mod 10)])"

declare dec.simps [simp del]

definition dec_int :: "int \<Rightarrow> bytes" where
  "dec_int i = (if i < 0 then str_bytes ''-'' @ dec (nat (- i)) else dec (nat i))"

definition dec02 :: "nat \<Rightarrow> bytes" where
  "dec02 n = (if n < 10 then str_bytes ''0'' else []) @ dec n"

definition dec03 :: "nat \<Rightarrow> bytes" where
  "dec03 n = (if n < 10 then str_bytes ''00'' else if n < 100 then str_bytes ''0'' else []) @ dec n"

text \<open>\<open>%s\<close> prints a string up to its first NUL.\<close>

definition c_str :: "bytes \<Rightarrow> bytes" where
  "c_str b = takeWhile (\<lambda>x. x \<noteq> 0) b"

lemma dec_run:
  "n < 10 \<Longrightarrow> dec n = [of_nat (48 + n)]" "10 \<le> n \<Longrightarrow> dec n = dec (n div 10) @ [of_nat (48 + n mod 10)]"
  by (simp_all add: dec.simps[of n])

lemma length_dec: "n < 10 ^ Suc k \<Longrightarrow> length (dec n) \<le> Suc k"
proof (induction k arbitrary: n)
  case 0
  then show ?case by (simp add: dec_run)
next
  case (Suc k)
  show ?case
  proof (cases "n < 10")
    case False
    have "n div 10 < 10 ^ Suc k" using Suc.prems by (simp add: less_mult_imp_div_less)
    then show ?thesis using Suc.IH[of "n div 10"] False by (simp add: dec_run)
  qed (simp add: dec_run)
qed

lemma dec_not_empty [simp]: "dec n \<noteq> []"
  by (cases "n < 10") (simp_all add: dec_run)

lemma length_dec02: "n < 100 \<Longrightarrow> length (dec02 n) = 2"
  using length_dec[of "n div 10" 0] by (cases "n < 10") (simp_all add: dec02_def dec_run)

lemma length_dec03: "n < 1000 \<Longrightarrow> length (dec03 n) = 3"
  by (cases "n < 10"; cases "n < 100") (simp_all add: dec03_def dec_run)

lemma length_c_str: "length (c_str b) \<le> length b"
  by (simp add: c_str_def length_takeWhile_le)

end
