(* ===== verification/Page.thy ===== *)
theory Page
  imports Announce Decimal
begin

text \<open>
  The NomadNet node of the firmware (firmware/heltec_v3/main/nomadnet_node.cpp): the status page, printed
  piece by piece into a stack buffer of 2048 bytes, and the registration of the node. The readings of
  the ESP-IDF calls (timer, heap, ADC, Wi-Fi) are arguments; a reading of the ADC is a natural number.
\<close>

section \<open>Uptime\<close>

text \<open>\<open>snprintf\<close> into a buffer of \<open>len\<close> bytes, as the string the buffer then holds.\<close>

definition fmt_uptime :: "nat \<Rightarrow> nat \<Rightarrow> bytes" where
  "fmt_uptime len secs =
     (let d = secs div 86400 mod 2 ^ 32; h = (secs mod 86400) div 3600; m = (secs mod 3600) div 60; s = secs mod 60 in
      take (len - 1)
        (if d > 0 then
           dec d @ str_bytes ''d '' @ dec h @ str_bytes ''h '' @ dec m @ str_bytes ''m '' @ dec s @ str_bytes ''s''
         else if h > 0 then dec h @ str_bytes ''h '' @ dec m @ str_bytes ''m '' @ dec s @ str_bytes ''s''
         else if m > 0 then dec m @ str_bytes ''m '' @ dec s @ str_bytes ''s''
         else dec s @ str_bytes ''s''))"

section \<open>Battery\<close>

text \<open>\<open>ready\<close>: the ADC handle is set; \<open>cali\<close>: the calibration, when there is one; \<open>rd\<close>: the eight
  raw samples.\<close>

definition read_battery_mv :: "bool \<Rightarrow> (nat \<Rightarrow> nat) option \<Rightarrow> (nat \<Rightarrow> nat) \<Rightarrow> nat" where
  "read_battery_mv ready cali rd =
     (if \<not> ready then 0
      else
        let total = sum_list (map rd [0..<8]); avg = total div 8;
            mv = (case cali of Some f \<Rightarrow> f avg | None \<Rightarrow> avg * 3300 div 4095) in
        mv * 542 div 100)"

section \<open>The page buffer\<close>

definition PAGE_SIZE :: nat where "PAGE_SIZE = 2048"

record page =
  pg_buf :: bytes
  pg_n :: nat

text \<open>\<open>n += snprintf(page + n, sizeof(page) - n, text)\<close>: the size wraps when \<open>n\<close> is beyond the page
  (\<open>size_t\<close> has 32 bits), and \<open>snprintf\<close> writes one byte less than it, and a NUL. POSIX, and newlib with it,
  refuses a size above \<open>INT_MAX\<close> and returns -1; ISO C knows no such limit. \<open>lim\<close> tells which library it is.\<close>

definition page_room :: "page \<Rightarrow> nat" where
  "page_room s = nat ((int PAGE_SIZE - int (pg_n s)) mod 2 ^ 32)"

definition page_printf :: "bool \<Rightarrow> bytes \<Rightarrow> (page, unit) prog" where
  "page_printf lim t s =
     (let room = page_room s;
          w = (if room = 0 then [] else take (room - 1) t @ [0]);
          s' = s\<lparr>pg_n := pg_n s + length t\<rparr> in
      if lim \<and> room > 2 ^ 31 - 1 then (Ret (), s\<lparr>pg_n := pg_n s - 1\<rparr>)
      else if w = [] then (Ret (), s')
      else if pg_n s + length w \<le> length (pg_buf s)
      then (Ret (), s'\<lparr>pg_buf := take (pg_n s) (pg_buf s) @ w @ drop (pg_n s + length w) (pg_buf s)\<rparr>)
      else (Fault Overrun, s))"

section \<open>The page\<close>

text \<open>What the handler reads from the platform: uptime in seconds, heap in KB, signal, battery in mV.\<close>

record status =
  st_uptime :: nat
  st_free :: nat
  st_min :: nat
  st_rssi :: int
  st_bat :: nat

definition status_text :: "status \<Rightarrow> bytes" where
  "status_text e =
     str_bytes ''>RTReticulum'' @ [10, 10] @
     str_bytes ''Uptime ........ '' @ fmt_uptime 32 (st_uptime e) @ [10, 10] @
     str_bytes ''Battery ....... '' @ dec (st_bat e div 1000) @ str_bytes ''.'' @ dec02 (st_bat e mod 1000 div 10) @
       str_bytes ''V'' @ [10, 10] @
     str_bytes ''Free heap ..... '' @ dec (st_free e) @ str_bytes '' KB (min '' @ dec (st_min e) @ str_bytes '' KB)'' @ [10, 10] @
     str_bytes ''WiFi RSSI ..... '' @ dec_int (st_rssi e) @ str_bytes '' dBm'' @ [10]"

text \<open>An interface's name and counters; \<open>(unsigned)\<close> cuts the counters to 32 bits.\<close>

record if_line =
  il_name :: string
  il_txb :: nat
  il_rxb :: nat
  il_online :: bool

definition iface_text :: "if_line \<Rightarrow> bytes" where
  "iface_text f =
     str_bytes (il_name f) @ str_bytes ''  TX '' @ dec (il_txb f mod 2 ^ 32) @ str_bytes ''B  RX '' @
     dec (il_rxb f mod 2 ^ 32) @ str_bytes ''B  '' @ str_bytes (if il_online f then ''online'' else ''offline'') @ [10, 10]"

definition peer_text :: "bytes \<Rightarrow> bytes \<Rightarrow> u8 \<Rightarrow> nat \<Rightarrow> bytes" where
  "peer_text dest_hash app_data hops age_s =
     (let hash_short = str_bytes (take 12 (to_hex False dest_hash)); age = fmt_uptime 32 age_s in
      if app_data \<noteq> []
      then hash_short @ str_bytes ''  '' @ c_str app_data @ str_bytes ''  '' @ dec (unat hops) @ str_bytes '' hop  '' @ age @
        str_bytes '' ago'' @ [10, 10]
      else hash_short @ str_bytes ''  '' @ dec (unat hops) @ str_bytes '' hop  '' @ age @ str_bytes '' ago'' @ [10, 10])"

definition footer_text :: bytes where
  "footer_text = str_bytes ''-'' @ [10, 10] @ str_bytes ''Served live by RTReticulum on ESP32-S3'' @ [10]"

text \<open>The walk over the path table: entries in the map's order, with the seconds since each was heard.
  \<open>name\<close> is \<open>recall_app_data\<close>.\<close>

fun peers_walk :: "bool \<Rightarrow> bytes \<Rightarrow> (bytes \<Rightarrow> bytes) \<Rightarrow> (bytes \<times> u8 \<times> nat) list \<Rightarrow> (page, unit) prog" where
  "peers_walk lim own name [] = ret ()"
| "peers_walk lim own name ((dest_hash, hops, age_s) # es) =
     (if dest_hash = own then peers_walk lim own name es
      else
        bnd (page_printf lim (peer_text dest_hash (name dest_hash) hops age_s)) (\<lambda>_.
        bnd (gets pg_n) (\<lambda>n. if n \<ge> PAGE_SIZE - 64 then ret () else peers_walk lim own name es)))"

definition serve_index ::
  "bool \<Rightarrow> status \<Rightarrow> if_line list \<Rightarrow> bytes \<Rightarrow> (bytes \<Rightarrow> bytes) \<Rightarrow> (bytes \<times> u8 \<times> nat) list \<Rightarrow> (page, bytes) prog" where
  "serve_index lim e ifs own name paths =
     bnd (page_printf lim (status_text e)) (\<lambda>_.
     bnd (page_printf lim ([10] @ str_bytes ''>Interfaces'' @ [10, 10])) (\<lambda>_.
     bnd (for_each ifs (\<lambda>f. page_printf lim (iface_text f))) (\<lambda>_.
     bnd (if paths \<noteq> [] then
            bnd (page_printf lim (str_bytes ''>Known Peers'' @ [10, 10])) (\<lambda>_. peers_walk lim own name paths)
          else ret ()) (\<lambda>_.
     bnd (page_printf lim footer_text) (\<lambda>_.
     bnd (gets (\<lambda>s. (pg_n s, pg_buf s))) (\<lambda>(n, buf).
     let n = (if n \<ge> PAGE_SIZE then PAGE_SIZE - 1 else n) in
     ret (take n buf)))))))"

text \<open>The page is served from uninitialised memory and the transport's tables: the keys in the map's order,
  the names from the known destinations. \<open>age\<close> converts a path's time stamp.\<close>

definition path_lines :: "(rtime \<Rightarrow> nat) \<Rightarrow> bytes list \<Rightarrow> 'a net_state_scheme \<Rightarrow> (bytes \<times> u8 \<times> nat) list" where
  "path_lines age keys s =
     List.map_filter (\<lambda>h. map_option (\<lambda>p. (h, pe_hops p, age (pe_timestamp p))) (net_paths s h)) keys"

section \<open>Start and announce\<close>

text \<open>\<open>g_dest\<close> (no destination before \<open>start\<close>) and \<open>g_node_name\<close>. The two callbacks are named by numbers.\<close>

record node = net_state +
  nn_dest :: "nat option"
  nn_name :: string

definition PAGE_PATH :: string where "PAGE_PATH = ''/page/index.mu''"
definition SERVE_INDEX :: nat where "SERVE_INDEX = 0"
definition NODE_LINKS :: nat where "NODE_LINKS = 0"

definition node_announce ::
  "ext \<Rightarrow> (bytes \<Rightarrow> ('a node_scheme, unit) prog) \<Rightarrow> ('a node_scheme, unit) prog" where
  "node_announce X bc =
     bnd (gets (\<lambda>s. (nn_dest s, nn_name s))) (\<lambda>(d, name).
     case d of None \<Rightarrow> ret () | Some r \<Rightarrow> bnd (announce X bc (Some r) (str_bytes name) True) (\<lambda>_. ret ()))"

definition node_start ::
  "ext \<Rightarrow> (bytes \<Rightarrow> ('a node_scheme, unit) prog) \<Rightarrow> identity \<Rightarrow> string \<Rightarrow> ('a node_scheme, unit) prog" where
  "node_start X bc i node_name =
     bnd (modify (\<lambda>s. s\<lparr>nn_name := node_name\<rparr>)) (\<lambda>_.
     bnd (destination_new X (Some i) IN SINGLE ''nomadnetwork'' ''node'') (\<lambda>r.
     bnd (modify (\<lambda>s. s\<lparr>nn_dest := Some r\<rparr>)) (\<lambda>_.
     bnd (register_destination r) (\<lambda>_.
     bnd (register_request_handler X r PAGE_PATH SERVE_INDEX) (\<lambda>_.
     bnd (set_link_request_handler (Some NODE_LINKS)) (\<lambda>_.
     bnd (announce X bc (Some r) (str_bytes node_name) True) (\<lambda>_. ret ())))))))"

section \<open>What is printed\<close>

text \<open>The texts in the order they are printed, the peers from a position on.\<close>

fun peer_texts :: "bytes \<Rightarrow> (bytes \<Rightarrow> bytes) \<Rightarrow> nat \<Rightarrow> (bytes \<times> u8 \<times> nat) list \<Rightarrow> bytes list" where
  "peer_texts own name n [] = []"
| "peer_texts own name n ((h, hops, age_s) # es) =
     (if h = own then peer_texts own name n es
      else
        let t = peer_text h (name h) hops age_s in
        t # (if n + length t \<ge> 1984 then [] else peer_texts own name (n + length t) es))"

definition head_texts :: "status \<Rightarrow> if_line list \<Rightarrow> bytes list" where
  "head_texts e ifs = status_text e # ([10] @ str_bytes ''>Interfaces'' @ [10, 10]) # map iface_text ifs"

definition index_texts ::
  "status \<Rightarrow> if_line list \<Rightarrow> bytes \<Rightarrow> (bytes \<Rightarrow> bytes) \<Rightarrow> (bytes \<times> u8 \<times> nat) list \<Rightarrow> bytes list" where
  "index_texts e ifs own name paths =
     head_texts e ifs @
     (if paths = [] then []
      else (str_bytes ''>Known Peers'' @ [10, 10]) # peer_texts own name (length (concat (head_texts e ifs)) + 14) paths) @
     [footer_text]"

text \<open>Where printing stands after \<open>m\<close> bytes: refused prints take one off, but never below the page's end.\<close>

definition ahead :: "nat \<Rightarrow> nat \<Rightarrow> bool" where
  "ahead m n \<longleftrightarrow> n = m \<or> 2048 \<le> m \<and> 2048 \<le> n \<and> n \<le> m"

lemma room_eq:
  "pg_n s \<le> 2048 \<Longrightarrow> page_room s = 2048 - pg_n s"
  "2048 < pg_n s \<Longrightarrow> pg_n s < 2 ^ 31 \<Longrightarrow> page_room s = 2 ^ 32 + 2048 - pg_n s"
proof -
  show "pg_n s \<le> 2048 \<Longrightarrow> page_room s = 2048 - pg_n s"
    by (simp add: page_room_def PAGE_SIZE_def of_nat_diff)
next
  assume n: "2048 < pg_n s" "pg_n s < 2 ^ 31"
  have "(int PAGE_SIZE - int (pg_n s)) mod 2 ^ 32 = int PAGE_SIZE - int (pg_n s) + 2 ^ 32"
    using n by (subst mod_add_self2[symmetric]) (rule mod_pos_pos_trivial; simp add: PAGE_SIZE_def)
  then show "page_room s = 2 ^ 32 + 2048 - pg_n s" using n by (simp add: page_room_def PAGE_SIZE_def)
qed

lemma printf_n:
  assumes "page_printf lim t s = (Ret (), s')" "ahead m (pg_n s)"
  shows "ahead (m + length t) (pg_n s')"
proof (cases "pg_n s \<le> 2048")
  case True
  then have "pg_n s' = pg_n s + length t"
    using assms(1) by (auto simp: page_printf_def Let_def room_eq(1) split: if_splits)
  then show ?thesis using assms(2) by (auto simp: ahead_def)
next
  case False
  then have "pg_n s' = pg_n s + length t \<or> pg_n s' = pg_n s - 1"
    using assms(1) by (auto simp: page_printf_def Let_def split: if_splits)
  then show ?thesis using assms(2) False by (auto simp: ahead_def)
qed

lemma printf_result: "(\<exists>s'. page_printf lim t s = (Ret (), s')) \<or> page_printf lim t s = (Fault Overrun, s)"
  by (auto simp: page_printf_def Let_def)

lemma walk_texts:
  "ahead n (pg_n s) \<Longrightarrow> peers_walk lim own name es s = for_each (peer_texts own name n es) (page_printf lim) s"
proof (induction es arbitrary: s n)
  case (Cons x es)
  obtain h hops age_s where x: "x = (h, hops, age_s)" by (cases x)
  let ?t = "peer_text h (name h) hops age_s"
  from printf_result[of lim ?t s] show ?case
  proof
    assume "\<exists>s'. page_printf lim ?t s = (Ret (), s')"
    then obtain s' where s': "page_printf lim ?t s = (Ret (), s')" by blast
    note run = bnd_Ret[where m = "page_printf lim ?t", OF s']
    have a: "ahead (n + length ?t) (pg_n s')" by (rule printf_n[OF s' Cons.prems])
    then have "1984 \<le> pg_n s' \<longleftrightarrow> 1984 \<le> n + length ?t" by (auto simp: ahead_def)
    then show ?thesis using Cons.IH[OF Cons.prems] Cons.IH[OF a] unfolding x
      by (simp add: run PAGE_SIZE_def Let_def)
  next
    assume "page_printf lim ?t s = (Fault Overrun, s)"
    then show ?thesis using Cons.IH[OF Cons.prems] unfolding x by (simp add: bnd_def Let_def)
  qed
qed simp

lemma texts_n:
  "for_each ts (page_printf lim) s = (Ret (), s') \<Longrightarrow> ahead m (pg_n s) \<Longrightarrow> ahead (m + length (concat ts)) (pg_n s')"
proof (induction ts arbitrary: s m)
  case (Cons t ts)
  from Cons.prems(1) obtain s1 where s1: "page_printf lim t s = (Ret (), s1)" "for_each ts (page_printf lim) s1 = (Ret (), s')"
    by (auto elim!: bnd_cases)
  show ?case using Cons.IH[OF s1(2) printf_n[OF s1(1) Cons.prems(2)]] by (simp add: add.assoc)
qed simp

lemma texts_result: "(\<exists>s'. for_each ts (page_printf lim) s = (Ret (), s')) \<or> (\<exists>s'. for_each ts (page_printf lim) s = (Fault Overrun, s'))"
proof (induction ts arbitrary: s)
  case (Cons t ts)
  from printf_result[of lim t s] show ?case
  proof
    assume "\<exists>s'. page_printf lim t s = (Ret (), s')"
    then obtain s' where s': "page_printf lim t s = (Ret (), s')" by blast
    show ?thesis using Cons.IH[of s'] by (simp add: bnd_Ret[where m = "page_printf lim t", OF s'])
  qed (simp add: bnd_def)
qed simp

text \<open>The state in which a text has been printed: the buffer holds what of it fits.\<close>

definition printed :: "bool \<Rightarrow> bytes \<Rightarrow> page \<Rightarrow> bool" where
  "printed lim T s \<longleftrightarrow> length (pg_buf s) = 2048 \<and> take (min (length T) 2047) (pg_buf s) = take 2047 T \<and>
     (if lim then ahead (length T) (pg_n s) else pg_n s = length T)"

lemma printf_fits:
  assumes "printed lim T s" "lim \<or> length T \<le> 2048" "length T < 2 ^ 31"
  shows "\<exists>s'. page_printf lim t s = (Ret (), s') \<and> printed lim (T @ t) s'"
proof (cases "length T < 2048")
  case False
  show ?thesis
  proof (cases "pg_n s \<le> 2048")
    case True
    then have "pg_n s = 2048" using assms(1) False by (auto simp: printed_def ahead_def split: if_splits)
    then show ?thesis using assms(1,2) False by (auto simp: page_printf_def room_eq printed_def ahead_def)
  next
    case False
    then have "lim" "pg_n s \<le> length T" using assms by (auto simp: printed_def ahead_def split: if_splits)
    then have "page_printf lim t s = (Ret (), s\<lparr>pg_n := pg_n s - 1\<rparr>)"
      using False assms(3) by (simp add: page_printf_def room_eq Let_def)
    then show ?thesis using False assms by (auto simp: printed_def ahead_def)
  qed
next
  case True
  then have n: "pg_n s = length T" "length T \<le> 2047" "length (pg_buf s) = 2048" "take (length T) (pg_buf s) = T"
    using assms by (auto simp: printed_def ahead_def min_def split: if_splits)
  have room: "page_room s = 2048 - length T"
    using n(1,2) by (simp add: room_eq)
  define w where "w = take (2047 - length T) t @ [0]"
  have w: "w \<noteq> []" "length T + length w \<le> 2048" using n(2) by (simp_all add: w_def)
  let ?buf = "T @ w @ drop (length T + length w) (pg_buf s)"
  have "page_printf lim t s = (Ret (), s\<lparr>pg_n := length T + length t, pg_buf := ?buf\<rparr>)"
  proof -
    have "(if 2048 - length T = 0 then [] else take (2048 - length T - 1) t @ [0]) = w" using n(2) by (simp add: w_def)
    moreover have "\<not> 2 ^ 31 - 1 < 2048 - length T" by simp
    ultimately show ?thesis using w n(1,3,4) unfolding page_printf_def room Let_def by simp
  qed
  moreover have "take (min (length (T @ t)) 2047) ?buf = take 2047 (T @ t)"
    using n(2) by (auto simp: w_def min_def)
  moreover have "length ?buf = 2048" using w(2) n(3) by simp
  ultimately show ?thesis unfolding printed_def by (intro exI conjI) (assumption, simp_all add: ahead_def)
qed

lemma printf_overrun:
  assumes "printed False T s" "2048 < length T" "length T < 2 ^ 31"
  shows "page_printf False t s = (Fault Overrun, s)"
proof -
  have "pg_n s = length T" "length (pg_buf s) = 2048" using assms(1) by (simp_all add: printed_def)
  then show ?thesis using assms(2,3) by (simp add: page_printf_def Let_def room_eq(2))
qed

lemma texts_fit:
  assumes "printed lim T s" "lim \<or> (\<forall>k<length ts. length (T @ concat (take k ts)) \<le> 2048)" "length (T @ concat ts) < 2 ^ 31"
  shows "\<exists>s'. for_each ts (page_printf lim) s = (Ret (), s') \<and> printed lim (T @ concat ts) s'"
  using assms
proof (induction ts arbitrary: T s)
  case (Cons t ts)
  have "lim \<or> length T \<le> 2048" using Cons.prems(2) by (auto dest: spec[of _ 0])
  then obtain s1 where s1: "page_printf lim t s = (Ret (), s1)" "printed lim (T @ t) s1"
    using printf_fits[OF Cons.prems(1)] Cons.prems(3) by fastforce
  have "lim \<or> (\<forall>k<length ts. length ((T @ t) @ concat (take k ts)) \<le> 2048)"
    using Cons.prems(2) by (auto dest: spec[of _ "Suc k" for k])
  from Cons.IH[OF s1(2) this] Cons.prems(3) show ?case by (simp add: bnd_Ret[where m = "page_printf lim t", OF s1(1)])
qed simp

lemma texts_overrun:
  assumes "printed False T s" "k < length ts" "2048 < length (T @ concat (take k ts))" "length (T @ concat ts) < 2 ^ 31"
  shows "fst (for_each ts (page_printf False) s) = Fault Overrun"
  using assms
proof (induction ts arbitrary: T s k)
  case (Cons t ts)
  show ?case
  proof (cases "length T \<le> 2048")
    case False
    then show ?thesis using printf_overrun[OF Cons.prems(1), of t] Cons.prems(4) by (simp add: bnd_def)
  next
    case True
    then obtain j where j: "k = Suc j" using Cons.prems(3) by (cases k) auto
    obtain s1 where s1: "page_printf False t s = (Ret (), s1)" "printed False (T @ t) s1"
      using printf_fits[OF Cons.prems(1)] True by fastforce
    have "fst (for_each ts (page_printf False) s1) = Fault Overrun"
      using Cons.IH[OF s1(2), of j] Cons.prems(2-4) j by simp
    then show ?thesis by (simp add: bnd_Ret[where m = "page_printf False t", OF s1(1)])
  qed
qed simp

definition finish_page :: "(page, bytes) prog" where
  "finish_page = bnd (gets (\<lambda>s. (pg_n s, pg_buf s))) (\<lambda>(n, buf).
     let n = (if n \<ge> PAGE_SIZE then PAGE_SIZE - 1 else n) in ret (take n buf))"

lemma serve_texts:
  assumes "pg_n s = 0"
  shows "fst (serve_index lim e ifs own name paths s) =
    fst (bnd (for_each (index_texts e ifs own name paths) (page_printf lim)) (\<lambda>_. finish_page) s)"
proof -
  define hd where "hd = str_bytes ''>Known Peers'' @ [10, 10]"
  let ?rest = "\<lambda>_. bnd (if paths \<noteq> [] then bnd (page_printf lim hd) (\<lambda>_. peers_walk lim own name paths) else ret ())
    (\<lambda>_. bnd (page_printf lim footer_text) (\<lambda>_. finish_page))"
  have serve: "serve_index lim e ifs own name paths = bnd (for_each (head_texts e ifs) (page_printf lim)) ?rest"
    unfolding serve_index_def head_texts_def finish_page_def hd_def
    by (simp add: bnd_assoc for_each_map comp_def)
  have index: "index_texts e ifs own name paths = head_texts e ifs @ (if paths = [] then []
      else hd # peer_texts own name (length (concat (head_texts e ifs)) + 14) paths) @ [footer_text]"
    by (simp add: index_texts_def hd_def)
  have hd: "length hd = 14" by (simp add: hd_def)
  from texts_result[of "head_texts e ifs" lim s] show ?thesis
  proof (elim disjE exE)
    fix s' assume h: "for_each (head_texts e ifs) (page_printf lim) s = (Fault Overrun, s')"
    then show ?thesis by (simp add: serve index for_each_append bnd_def)
  next
    fix s1 assume h: "for_each (head_texts e ifs) (page_printf lim) s = (Ret (), s1)"
    note n1 = texts_n[OF h, of 0]
    note run = bnd_Ret[where m = "for_each (head_texts e ifs) (page_printf lim)", OF h]
    show ?thesis
    proof (cases "paths = []")
      case True
      then show ?thesis unfolding serve index by (simp add: run for_each_append bnd_assoc)
    next
      case False
      from printf_result[of lim hd s1] show ?thesis
      proof
        assume "page_printf lim hd s1 = (Fault Overrun, s1)"
        then show ?thesis using False
          by (simp add: serve run index for_each_append bnd_assoc) (simp add: bnd_def)
      next
        assume "\<exists>s'. page_printf lim hd s1 = (Ret (), s')"
        then obtain s2 where s2: "page_printf lim hd s1 = (Ret (), s2)" by blast
        have "ahead (length (concat (head_texts e ifs)) + 14) (pg_n s2)"
          using printf_n[OF s2 n1] assms hd by (simp add: ahead_def)
        then show ?thesis using False walk_texts[of "length (concat (head_texts e ifs)) + 14" s2 lim own name paths]
          by (simp add: serve run index for_each_append bnd_assoc bnd_Ret[where m = "page_printf lim hd", OF s2])
            (simp add: bnd_def)
      qed
    qed
  qed
qed

text \<open>Lengths.\<close>

lemma length_uptime:
  assumes "secs < 2 ^ 32"
  shows "length (fmt_uptime 32 secs) \<le> 18"
proof -
  have d: "secs div 86400 mod 2 ^ 32 < 10 ^ Suc 4" using assms by simp
  have "length (dec (secs mod 86400 div 3600)) \<le> Suc 1" "length (dec (secs mod 3600 div 60)) \<le> Suc 1"
    "length (dec (secs mod 60)) \<le> Suc 1"
    by (rule length_dec; simp)+
  then show ?thesis using length_dec[OF d] by (simp add: fmt_uptime_def Let_def)
qed

lemma length_peer:
  assumes "age_s < 2 ^ 32"
  shows "length (peer_text h app hops age_s) \<le> 49 + length app"
proof -
  have "unat hops < 10 ^ Suc 2" using unsigned_less[of hops, where ?'a = nat] by simp
  moreover have "min (2 * length h) 12 \<le> 12" by simp
  ultimately show ?thesis using length_dec[of "unat hops" 2] length_uptime[OF assms] length_c_str[of app]
    by (auto simp: peer_text_def Let_def)
qed

lemma peers_bounded:
  assumes "\<forall>(h, hops, age_s)\<in>set es. length (name h) \<le> 16 \<and> age_s < 2 ^ 32" "n < 1984"
  shows "n + length (concat (peer_texts own name n es)) \<le> 2048"
  using assms
proof (induction own name n es rule: peer_texts.induct)
  case (2 own name n h hops age_s es)
  have "length (peer_text h (name h) hops age_s) \<le> 65"
    using length_peer[of age_s h "name h" hops] 2(3) by auto
  then show ?case using 2 by (auto simp: Let_def not_le)
qed simp

lemma concat_take_length: "length (concat (take k ts)) \<le> length (concat ts)"
  by (metis append_take_drop_id concat_append le_add1 length_append)

lemma page_texts_served:
  assumes "length (pg_buf s) = 2048" "pg_n s = 0" "ts = index_texts e ifs own name paths" "length (concat ts) < 2 ^ 31"
  shows "fst (serve_index lim e ifs own name paths s) =
    (if \<not> lim \<and> (\<exists>k<length ts. 2048 < length (concat (take k ts))) then Fault Overrun else Ret (take 2047 (concat ts)))"
proof -
  have p: "printed lim [] s" for lim using assms(1,2) by (simp add: printed_def ahead_def)
  show ?thesis
  proof (cases "\<not> lim \<and> (\<exists>k<length ts. 2048 < length (concat (take k ts)))")
    case True
    then have "fst (for_each ts (page_printf lim) s) = Fault Overrun"
      using texts_overrun[OF p] assms(4) by fastforce
    then show ?thesis using True unfolding serve_texts[OF assms(2)] assms(3)[symmetric]
      by (auto simp: bnd_def split: prod.split)
  next
    case False
    then have "lim \<or> (\<forall>k<length ts. length ([] @ concat (take k ts)) \<le> 2048)"
      by (metis append_Nil not_le_imp_less)
    from texts_fit[OF p this] assms(4) obtain s' where
      s': "for_each ts (page_printf lim) s = (Ret (), s')" "printed lim (concat ts) s'" by auto
    have "take (min (length (concat ts)) 2047) (pg_buf s') = take 2047 (concat ts)"
      "ahead (length (concat ts)) (pg_n s')" "length (pg_buf s') = 2048"
      using s'(2) by (auto simp: printed_def ahead_def split: if_splits)
    then have "fst (finish_page s') = Ret (take 2047 (concat ts))"
      by (simp add: finish_page_def PAGE_SIZE_def min_def ahead_def) (auto simp: Let_def)
    then show ?thesis using False unfolding serve_texts[OF assms(2)] assms(3)[symmetric]
      by (simp add: bnd_Ret[where m = "for_each ts (page_printf lim)", OF s'(1)])
  qed
qed

section \<open>Properties\<close>

text \<open>
  C26: The page is the first 2047 bytes of its texts (the status, the interfaces, the peers until 1984 bytes are
  reached, the footer), unless the library's \<open>snprintf\<close> has no limit and one text ends beyond the page's 2048
  bytes with another still to print: then the remaining size has wrapped, and the next text is written past
  the end of the stack buffer.
\<close>

theorem page_served:
  assumes "length (pg_buf s) = 2048" "pg_n s = 0" "ts = index_texts e ifs own name paths" "length (concat ts) < 2 ^ 31"
  shows "fst (serve_index lim e ifs own name paths s) =
    (if \<not> lim \<and> (\<exists>k<length ts. 2048 < length (concat (take k ts))) then Fault Overrun else Ret (take 2047 (concat ts)))"
  by (rule page_texts_served[OF assms])

text \<open>
  With names of at most 16 bytes the page never leaves its buffer, however many peers are known, as long as
  the part before the peers leaves room for one.
\<close>

theorem page_bounded:
  assumes "length (pg_buf s) = 2048" "pg_n s = 0" "length (concat (head_texts e ifs)) + 14 < 1984"
    "\<forall>(h, hops, age_s)\<in>set paths. length (name h) \<le> 16 \<and> age_s < 2 ^ 32"
  shows "fst (serve_index lim e ifs own name paths s) = Ret (take 2047 (concat (index_texts e ifs own name paths)))"
proof -
  let ?ts = "index_texts e ifs own name paths"
  obtain us where us: "?ts = us @ [footer_text]" "length (concat us) \<le> 2048"
  proof (cases "paths = []")
    case True
    then show ?thesis using that[of "head_texts e ifs"] assms(3) by (simp add: index_texts_def)
  next
    case False
    have "length (concat (head_texts e ifs)) + 14 +
        length (concat (peer_texts own name (length (concat (head_texts e ifs)) + 14) paths)) \<le> 2048"
      by (rule peers_bounded[OF assms(4,3)])
    then show ?thesis using False
      by (intro that[of "head_texts e ifs @ (str_bytes ''>Known Peers'' @ [10, 10]) #
          peer_texts own name (length (concat (head_texts e ifs)) + 14) paths"]) (simp_all add: index_texts_def)
  qed
  have fits: "\<not> (\<exists>k<length ?ts. 2048 < length (concat (take k ?ts)))"
    using us concat_take_length[of _ us] by (auto simp: less_Suc_eq_le not_less intro: order_trans)
  have "length footer_text = 42" by (simp add: footer_text_def)
  then have "length (concat ?ts) < 2 ^ 31" using us by simp
  from page_texts_served[OF assms(1,2) refl this] fits show ?thesis by simp
qed

text \<open>Announcing with sending is announcing and then broadcasting the frame.\<close>

lemma announce_send: "announce X bc ro app True = bnd (announce X bc ro app False) (\<lambda>raw. bnd (bc raw) (\<lambda>_. ret raw))"
  unfolding announce_def Let_def
  by (rule ext) (auto simp: bnd_def when_do_def split: option.splits res.splits prod.splits)

lemma destination_new_run:
  assumes "hash_law X" "CHR ''.'' \<notin> set app_name"
  obtains d nh where "destination_new X (Some i) dir SINGLE app_name aspects s =
      (Ret (length (dest_heap s)), s\<lparr>dest_heap := dest_heap s @ [d]\<rparr>)"
    "dst_type d = SINGLE" "dst_direction d = dir" "dst_identity d = Some i" "length (dst_name_hash d) = 10"
    "dst_hash d = truncated_hash X (dst_name_hash d @ id_hash i)" "name_hash X app_name aspects = Ret (dst_name_hash d)"
proof -
  obtain r s' where new: "destination_new X (Some i) dir SINGLE app_name aspects s = (Ret r, s')"
    using assms by (auto simp: destination_new_def name_hash_def expand_name_def destination_hash_def alloc_dest_def Let_def)
  show thesis using that destination_new_fields[OF assms(1) new] new by metis
qed

text \<open>The state in which \<open>start\<close> sends its announce: the new destination answers requests for the page.\<close>

definition node_handler :: "ext \<Rightarrow> request_handler" where
  "node_handler X = \<lparr>rh_path = str_bytes PAGE_PATH, rh_path_hash = truncated_hash X (str_bytes PAGE_PATH), rh_generator = SERVE_INDEX\<rparr>"

definition node_up :: "ext \<Rightarrow> dest \<Rightarrow> string \<Rightarrow> 'a node_scheme \<Rightarrow> 'a node_scheme" where
  "node_up X d name s = s
     \<lparr>nn_name := name, nn_dest := Some (length (dest_heap s)),
      dest_heap := dest_heap s @ [d\<lparr>dst_request_handlers := (dst_request_handlers d)(rh_path_hash (node_handler X) \<mapsto> node_handler X)\<rparr>],
      net_destinations := (net_destinations s)(dst_hash d \<mapsto> length (dest_heap s)), net_on_link_request := Some NODE_LINKS\<rparr>"

lemma node_start_run:
  assumes "hash_law X"
  obtains d where "node_start X bc i name s =
      bnd (announce X bc (Some (length (dest_heap s))) (str_bytes name) True) (\<lambda>_. ret ()) (node_up X d name s)"
    "dst_type d = SINGLE" "dst_direction d = IN" "dst_identity d = Some i" "length (dst_name_hash d) = 10"
    "dst_hash d = truncated_hash X (dst_name_hash d @ id_hash i)" "name_hash X ''nomadnetwork'' ''node'' = Ret (dst_name_hash d)"
proof -
  let ?r = "length (dest_heap s)"
  obtain d where d: "destination_new X (Some i) IN SINGLE ''nomadnetwork'' ''node'' (s\<lparr>nn_name := name\<rparr>) =
      (Ret ?r, s\<lparr>nn_name := name, dest_heap := dest_heap s @ [d]\<rparr>)"
    "dst_type d = SINGLE" "dst_direction d = IN" "dst_identity d = Some i" "length (dst_name_hash d) = 10"
    "dst_hash d = truncated_hash X (dst_name_hash d @ id_hash i)" "name_hash X ''nomadnetwork'' ''node'' = Ret (dst_name_hash d)"
    by (rule destination_new_run[OF assms, of "''nomadnetwork''" i IN "''node''" "s\<lparr>nn_name := name\<rparr>"]) auto
  define t1 where "t1 = s\<lparr>nn_name := name, dest_heap := dest_heap s @ [d], nn_dest := Some ?r\<rparr>"
  define t2 where "t2 = t1\<lparr>net_destinations := (net_destinations s)(dst_hash d \<mapsto> ?r)\<rparr>"
  have reg: "register_destination ?r (s\<lparr>nn_name := name, dest_heap := dest_heap s @ [d], nn_dest := Some ?r\<rparr>) = (Ret (), t2)"
    by (simp add: register_destination_def get_dest_def heap_get_def bnd_def t1_def t2_def)
  have hdl: "bnd (register_request_handler X ?r PAGE_PATH SERVE_INDEX) (\<lambda>_. set_link_request_handler (Some NODE_LINKS)) t2 =
      (Ret (), node_up X d name s)"
    by (simp add: register_request_handler_def upd_dest_def get_dest_def heap_get_def bnd_def Let_def t1_def t2_def
        set_link_request_handler_def node_up_def node_handler_def)
  have "node_start X bc i name s = bnd (bnd (register_request_handler X ?r PAGE_PATH SERVE_INDEX)
      (\<lambda>_. set_link_request_handler (Some NODE_LINKS))) (\<lambda>_. bnd (announce X bc (Some ?r) (str_bytes name) True) (\<lambda>_. ret ())) t2"
    unfolding node_start_def bnd_assoc
    by (simp add: bnd_Ret[where m = "destination_new X (Some i) IN SINGLE ''nomadnetwork'' ''node''", OF d(1)]
        bnd_Ret[where m = "register_destination ?r", OF reg])
  also have "\<dots> = bnd (announce X bc (Some ?r) (str_bytes name) True) (\<lambda>_. ret ()) (node_up X d name s)"
    by (rule bnd_Ret[where m = "bnd (register_request_handler X ?r PAGE_PATH SERVE_INDEX) (\<lambda>_. set_link_request_handler (Some NODE_LINKS))", OF hdl])
  finally show ?thesis using d(2-7) by (rule that)
qed

text \<open>
  Starting the node registers its destination and the page's request handler on it, takes over the link
  requests of every destination, and broadcasts one frame: a valid announce of that destination with the node's
  name as application data.
\<close>

theorem node_started:
  assumes "crypto_laws X" "create_identity X s0 = (Ret i, s1)" "length name \<le> 316"
  shows "\<exists>r s' raw u. node_start X bc i name s = bnd (bc raw) (\<lambda>_. ret ()) s' \<and>
    nn_dest s' = Some r \<and> find_destination_from_hash (dst_hash (dest_heap s' ! r)) s' = Some r \<and>
    map_option rh_generator (dst_request_handlers (dest_heap s' ! r) (truncated_hash X (str_bytes PAGE_PATH))) =
      Some SERVE_INDEX \<and> net_on_link_request s' = Some NODE_LINKS \<and>
    packet_unpack X (packet_of_raw raw) = (True, u) \<and> valid_announce X u \<and>
    pk_destination_hash u = dst_hash (dest_heap s' ! r) \<and> drop 148 (pk_data u) = str_bytes name"
proof -
  note laws = crypto_lawsD[OF assms(1)]
  obtain a e where i: "i = key_identity X a e []" using create_identityD[OF laws(7) assms(2)] by blast
  let ?r = "length (dest_heap s)"
  obtain d where run: "node_start X bc i name s = bnd (announce X bc (Some ?r) (str_bytes name) True) (\<lambda>_. ret ()) (node_up X d name s)"
    and d: "dst_type d = SINGLE" "dst_direction d = IN" "dst_identity d = Some i" "length (dst_name_hash d) = 10"
      "dst_hash d = truncated_hash X (dst_name_hash d @ id_hash i)" "name_hash X ''nomadnetwork'' ''node'' = Ret (dst_name_hash d)"
    by (rule node_start_run[OF laws(1), of bc i name s])
  define s2 where "s2 = node_up X d name s"
  define d2 where "d2 = dest_heap s2 ! ?r"
  have heap: "?r < length (dest_heap s2)" and d2: "d2 = d\<lparr>dst_request_handlers := (dst_request_handlers d)(rh_path_hash (node_handler X) \<mapsto> node_handler X)\<rparr>"
    by (simp_all add: s2_def d2_def node_up_def)
  obtain raw u rh where ann: "announce X bc (Some ?r) (str_bytes name) False s2 = (Ret raw, s2\<lparr>hal_calls := hal_calls s2 + 1\<rparr>)"
    "packet_unpack X (packet_of_raw raw) = (True, u)" "pk_destination_hash u = dst_hash d2"
    "pk_data u = announce_payload X d2 a e rh (str_bytes name)"
    "announce_of X (dst_hash d2) (announce_payload X d2 a e rh (str_bytes name)) (x_x25519_pub X a @ x_ed_pub X e) (str_bytes name)"
    "valid_announce X u"
    by (rule announce_frame[OF assms(1) heap d2_def, of a e "[]" "str_bytes name" bc]) (use d assms(3) i d2 in simp_all)
  have app: "drop 148 (pk_data u) = str_bytes name" unfolding ann(4) using announce_of_unique(2)[OF ann(5)] by simp
  have "node_start X bc i name s = bnd (bc raw) (\<lambda>_. ret ()) (s2\<lparr>hal_calls := hal_calls s2 + 1\<rparr>)"
    unfolding run s2_def[symmetric] announce_send bnd_assoc
    by (simp only: bnd_eqs bnd_Ret[where m = "announce X bc (Some ?r) (str_bytes name) False", OF ann(1)])
  then show ?thesis using ann(2,3,6) app d2
    by (intro exI[of _ ?r] exI[of _ "s2\<lparr>hal_calls := hal_calls s2 + 1\<rparr>"] exI[of _ raw] exI[of _ u])
      (simp add: s2_def node_up_def find_destination_from_hash_def node_handler_def)
qed

section \<open>Witnesses\<close>

definition toy_status :: status where
  "toy_status = \<lparr>st_uptime = 93784, st_free = 120, st_min = 96, st_rssi = -71, st_bat = 4105\<rparr>"

definition toy_lines :: "if_line list" where
  "toy_lines = [\<lparr>il_name = ''heltec_v3_lora'', il_txb = 1200, il_rxb = 7, il_online = True\<rparr>]"

definition toy_page :: page where
  "toy_page = \<lparr>pg_buf = replicate 2048 0, pg_n = 0\<rparr>"

definition toy_paths :: "(bytes \<times> u8 \<times> nat) list" where
  "toy_paths = [([1], 0, 5), ([2], 1, 5), ([3], 2, 5), ([4], 3, 5), ([5], 4, 5), ([6], 5, 5)]"

lemma toy_peer: "unat hops < 10 \<Longrightarrow> length (peer_text [b] (replicate 300 65) hops 5) = 321"
  by (simp add: peer_text_def fmt_uptime_def c_str_def dec_run takeWhile_replicate length_to_hex Let_def)

lemma toy_head: "length (concat (head_texts toy_status toy_lines)) = 181"
  by (simp add: head_texts_def status_text_def toy_status_def toy_lines_def iface_text_def fmt_uptime_def dec_run dec_int_def
      dec02_def Let_def)

theorem page_served_witness:
  "fst (serve_index False toy_status toy_lines [9] (\<lambda>_. replicate 300 65) toy_paths toy_page) = Fault Overrun"
proof -
  define ts where "ts = index_texts toy_status toy_lines [9] (\<lambda>_. replicate 300 65) toy_paths"
  have peers: "map length (peer_texts [9] (\<lambda>_. replicate 300 65) 195 toy_paths) = [321, 321, 321, 321, 321, 321]"
    by (simp add: toy_paths_def toy_peer Let_def)
  have len: "length (concat (peer_texts [9] (\<lambda>_. replicate 300 65) 195 toy_paths)) = 1926"
    unfolding length_concat peers by simp
  have ts: "ts = (head_texts toy_status toy_lines @ (str_bytes ''>Known Peers'' @ [10, 10]) #
      peer_texts [9] (\<lambda>_. replicate 300 65) 195 toy_paths) @ [footer_text]"
    unfolding ts_def index_texts_def toy_head by (simp add: toy_paths_def)
  have total: "length (concat ts) < 2 ^ 31" unfolding ts by (simp add: toy_head len footer_text_def)
  have over: "\<exists>k<length ts. 2048 < length (concat (take k ts))"
    unfolding ts by (intro exI[of _ "length ts - 1"]) (simp add: ts toy_head len)
  show ?thesis
    using page_served[OF _ _ ts_def total, of toy_page False] over by (simp add: toy_page_def)
qed

theorem page_bounded_witness:
  "fst (serve_index True toy_status toy_lines [9] (\<lambda>_. [72, 105]) toy_paths toy_page) =
    Ret (take 2047 (concat (index_texts toy_status toy_lines [9] (\<lambda>_. [72, 105]) toy_paths)))"
  by (rule page_bounded) (simp_all add: toy_page_def toy_head toy_paths_def)

definition toy_start :: node where
  "toy_start = \<lparr>hal_calls = 5, known_destinations = Map.empty, fs_impl = None, dest_heap = [], link_heap = [],
     res_heap = [], net_heap = [], net_interfaces = [], net_destinations = Map.empty, net_paths = Map.empty,
     net_links = Map.empty, net_seen = {}, net_on_announce = None, net_on_link_request = Some 7, nn_dest = None, nn_name = []\<rparr>"

theorem node_started_witness:
  "\<exists>r s'. node_start toy (\<lambda>_. ret ()) toy_id ''RTReticulum Heltec V3'' toy_start = (Ret (), s') \<and> nn_dest s' = Some r \<and>
    find_destination_from_hash (dst_hash (dest_heap s' ! r)) s' = Some r \<and> net_on_link_request s' = Some NODE_LINKS"
proof -
  note id = create_toy[folded toy_id_def]
  obtain r s' raw u where "node_start toy (\<lambda>_. ret ()) toy_id ''RTReticulum Heltec V3'' toy_start = bnd (ret ()) (\<lambda>_. ret ()) s'"
    "nn_dest s' = Some r" "find_destination_from_hash (dst_hash (dest_heap s' ! r)) s' = Some r" "net_on_link_request s' = Some NODE_LINKS"
    using node_started[OF toy_laws id, of "''RTReticulum Heltec V3''" "\<lambda>_. ret ()" toy_start] by auto
  then show ?thesis by auto
qed

end
