(* ===== verification/Board.thy ===== *)
theory Board
  imports Page Oled
begin

text \<open>
  The firmware's main program (firmware/heltec_v3/main/main.cpp): the status screen, the callbacks it gives to
  the transport, and one turn of its loop. What the hardware and ESP-IDF give in a turn (clock, button, Wi-Fi,
  random numbers, task statistics, results of I2C transfers, the frames its polls hand on) is an argument. The
  interfaces of the board are devices: sending hands the frame to them (\<open>if_out\<close>); that the LoRa queue drops it
  when full and the TCP interface when it is not connected is in the theories of these interfaces, as is which
  frames a poll hands on. What receiving a frame does is an argument here and the transport's
  \<open>handle_incoming\<close> in the theory of the main loop.
\<close>

section \<open>State\<close>

record board = node +
  bo_announces :: u32
  bo_rx :: u32
  bo_link_tx :: u32
  bo_link_rx :: u32
  bo_out_link :: "nat option"
  bo_hello :: bool
  bo_button :: bool
  bo_off_at :: nat
  bo_last_idle :: u32
  bo_last_total :: u32
  bo_tick :: u32
  bo_next :: u32
  bo_oled :: oled

definition DISPLAY_ON_MS :: nat where "DISPLAY_ON_MS = 15000"

definition on_button :: "('a board_scheme, unit) prog" where
  "on_button = modify (\<lambda>s. s\<lparr>bo_button := True\<rparr>)"

text \<open>Display calls, on the display of the state.\<close>

definition display :: "(nat \<Rightarrow> bool) \<Rightarrow> oled_op list \<Rightarrow> ('a board_scheme, unit) prog" where
  "display A ops s = (case for_each ops (oled_op_run A) (bo_oled s) of (r, o1) \<Rightarrow> (r, s\<lparr>bo_oled := o1\<rparr>))"

section \<open>Sending\<close>

definition board_send :: "nat \<Rightarrow> bytes \<Rightarrow> ('a board_scheme, unit) prog" where
  "board_send i raw = set_iface i (\<lambda>f. f\<lparr>if_out := if_out f @ [raw]\<rparr>)"

definition board_broadcast :: "bytes \<Rightarrow> ('a board_scheme, unit) prog" where
  "board_broadcast raw = broadcast board_send raw None"

section \<open>The status screen\<close>

definition IDLE_NAMES :: "string list" where "IDLE_NAMES = [''IDLE0'', ''IDLE1'', ''IDLE'']"

text \<open>\<open>tasks\<close>: the names and run times \<open>uxTaskGetSystemState\<close> lists, none for a null name.\<close>

definition measure_idle :: "(string option \<times> u32) list \<Rightarrow> u32 \<Rightarrow> ('a board_scheme, u32) prog" where
  "measure_idle tasks total_runtime =
     (let idle = filter (\<lambda>(n, t). case n of None \<Rightarrow> False | Some n \<Rightarrow> n \<in> set IDLE_NAMES) tasks;
          idle_runtime = sum_list (map snd idle); found = length idle in
     bnd (gets (\<lambda>s. (idle_runtime - bo_last_idle s, total_runtime - bo_last_total s))) (\<lambda>(delta_idle, delta_total).
     bnd (modify (\<lambda>s. s\<lparr>bo_last_idle := idle_runtime, bo_last_total := total_runtime\<rparr>)) (\<lambda>_.
     if delta_total = 0 \<or> found = 0 then ret 0
     else
       let d = delta_total * of_nat found in
       if d = 0 then fault Div_by_zero else ret (of_nat (unat delta_idle * 100 div unat d)))))"

text \<open>\<open>snprintf(line, sizeof(line), ...)\<close> with a buffer of 24 bytes, and \<open>%-3u\<close>.\<close>

definition screen_line :: "bytes \<Rightarrow> string" where
  "screen_line b = map (\<lambda>x. char_of (unat x)) (take (24 - 1) b)"

definition dec_left3 :: "nat \<Rightarrow> bytes" where
  "dec_left3 n = dec n @ replicate (3 - length (dec n)) 32"

fun link_state :: "link_status option \<Rightarrow> string" where
  "link_state None = ''--''"
| "link_state (Some PENDING) = ''pd''"
| "link_state (Some HANDSHAKE) = ''hs''"
| "link_state (Some ACTIVE) = ''ok''"
| "link_state (Some CLOSED) = ''xx''"

definition status_ops :: "string \<Rightarrow> string \<Rightarrow> u32 \<Rightarrow> u32 \<Rightarrow> u32 \<Rightarrow> link_status option \<Rightarrow> u32 \<Rightarrow> u32 \<Rightarrow> oled_op list" where
  "status_ops id_hex dst_hex idle_pct announces rx status link_tx link_rx =
     [Clear, Print 0 0 ''RTReticulum'', Hline 9,
      Print 2 0 (screen_line (str_bytes ''ID  '' @ str_bytes (take 12 id_hex))),
      Print 3 0 (screen_line (str_bytes ''DST '' @ str_bytes (take 12 dst_hex))),
      Print 4 0 (screen_line (str_bytes ''CPU idle '' @ dec (unat idle_pct) @ str_bytes ''%'')),
      Print 5 0 ''915.0 SF9 BW125 US'',
      Print 6 0 (screen_line (str_bytes ''Anc TX'' @ dec_left3 (unat announces) @ str_bytes '' RX'' @ dec_left3 (unat rx))),
      Print 7 0 (screen_line (str_bytes ''Lnk '' @ str_bytes (link_state status) @ str_bytes '' TX'' @ dec_left3 (unat link_tx) @
        str_bytes '' RX'' @ dec_left3 (unat link_rx))),
      Flush]"

definition out_status :: "('a board_scheme, link_status option) prog" where
  "out_status =
     bnd (gets bo_out_link) (\<lambda>l. case l of None \<Rightarrow> ret None | Some r \<Rightarrow> bnd (get_link r) (\<lambda>k. ret (Some (lk_status k))))"

definition render_status :: "(nat \<Rightarrow> bool) \<Rightarrow> string \<Rightarrow> string \<Rightarrow> u32 \<Rightarrow> ('a board_scheme, unit) prog" where
  "render_status A id_hex dst_hex idle_pct =
     bnd out_status (\<lambda>st.
     bnd (gets (\<lambda>s. (bo_announces s, bo_rx s, bo_link_tx s, bo_link_rx s))) (\<lambda>(announces, rx, link_tx, link_rx).
     display A (status_ops id_hex dst_hex idle_pct announces rx st link_tx link_rx)))"

section \<open>Callbacks\<close>

text \<open>The link-request handler and the packet callback it installs, which is named by a number.\<close>

definition BOARD_LINK_RX :: nat where "BOARD_LINK_RX = 0"

definition board_link_rx :: "('a board_scheme, unit) prog" where
  "board_link_rx = modify (\<lambda>s. s\<lparr>bo_link_rx := bo_link_rx s + 1\<rparr>)"

definition board_link_request ::
  "ext \<Rightarrow> nat \<Rightarrow> bytes \<Rightarrow> packet \<Rightarrow> ('a board_scheme, nat option) prog" where
  "board_link_request X owner req pkt =
     bnd (link_validate_request X (\<lambda>l. register_link (Some l)) board_broadcast (Some owner) req pkt) (\<lambda>lo.
     case lo of
       None \<Rightarrow> ret None
     | Some l \<Rightarrow> bnd (set_link_packet_callback l (Some (App_cb BOARD_LINK_RX))) (\<lambda>_. ret (Some l)))"

text \<open>The announce handler: \<open>our_dst\<close> and \<open>our_id\<close> are the hashes the lambda captured.\<close>

definition board_heard ::
  "ext \<Rightarrow> bytes \<Rightarrow> bytes \<Rightarrow> bytes \<Rightarrow> identity \<Rightarrow> ('a board_scheme, unit) prog" where
  "board_heard X our_dst our_id dh peer =
     bnd (modify (\<lambda>s. s\<lparr>bo_rx := bo_rx s + 1\<rparr>)) (\<lambda>_.
     if dh = our_dst then ret ()
     else if id_hash peer = our_id then ret ()
     else
       bnd (gets bo_out_link) (\<lambda>l.
       if l \<noteq> None then ret ()
       else
         bnd (destination_new X (Some peer) OUT SINGLE ''rtreticulum'' ''heltec_v3'') (\<lambda>d.
         bnd (link_request X (\<lambda>l. register_link (Some l)) board_broadcast (Some d) None None 0) (\<lambda>l.
         modify (\<lambda>s. s\<lparr>bo_out_link := Some l\<rparr>)))))"

section \<open>A turn of the loop\<close>

text \<open>What one turn reads: the time, how long a pressed button was held and the time then, whether Wi-Fi is
  connected and an update succeeds, the random word, the task statistics, and the frames \<open>lora->poll()\<close> and then
  \<open>tcp->loop()\<close> hand to \<open>handle_incoming\<close>, each with its interface.\<close>

record turn =
  tn_now :: nat
  tn_held :: nat
  tn_released :: nat
  tn_wifi :: bool
  tn_ota :: bool
  tn_rnd :: u32
  tn_tasks :: "(string option \<times> u32) list"
  tn_total :: u32
  tn_heard :: "(nat \<times> bytes) list"

text \<open>The result tells whether the board restarts with a new firmware. \<open>up\<close>: the display was found at start.\<close>

definition button_action :: "(nat \<Rightarrow> bool) \<Rightarrow> bool \<Rightarrow> turn \<Rightarrow> ('a board_scheme, bool) prog" where
  "button_action A up e =
     (if tn_held e \<ge> 3000 \<and> tn_wifi e then
        bnd (when_do up (display A [Resume, Set_line 3 ''OTA updating...'', Flush])) (\<lambda>_.
        if tn_ota e then bnd (when_do up (display A [Set_line 3 ''OTA OK, rebooting'', Flush])) (\<lambda>_. ret True)
        else bnd (when_do up (display A [Set_line 3 ''OTA FAILED'', Flush])) (\<lambda>_. ret False))
      else
        bnd (gets (\<lambda>s. up \<and> od_suspended (bo_oled s))) (\<lambda>off.
        bnd (when_do off (display A [Resume])) (\<lambda>_. ret False)))"

definition turn_button :: "(nat \<Rightarrow> bool) \<Rightarrow> bool \<Rightarrow> turn \<Rightarrow> ('a board_scheme, bool) prog" where
  "turn_button A up e =
     bnd (gets bo_button) (\<lambda>pressed.
     if \<not> pressed then ret False
     else
       bnd (modify (\<lambda>s. s\<lparr>bo_button := False\<rparr>)) (\<lambda>_.
       bnd (button_action A up e) (\<lambda>restart.
       if restart then ret True
       else bnd (modify (\<lambda>s. s\<lparr>bo_off_at := tn_released e + DISPLAY_ON_MS\<rparr>)) (\<lambda>_. ret False))))"

definition turn_timeout :: "(nat \<Rightarrow> bool) \<Rightarrow> bool \<Rightarrow> turn \<Rightarrow> ('a board_scheme, unit) prog" where
  "turn_timeout A up e =
     bnd (gets (\<lambda>s. up \<and> \<not> od_suspended (bo_oled s) \<and> tn_now e \<ge> bo_off_at s)) (\<lambda>off.
     when_do off (display A [Suspend]))"

definition send_hello :: "ext \<Rightarrow> string \<Rightarrow> nat \<Rightarrow> ('a board_scheme, unit) prog" where
  "send_hello X id_hex r =
     bnd (link_send X board_broadcast r (str_bytes (''hello from '' @ take 8 id_hex))) (\<lambda>_.
     modify (\<lambda>s. s\<lparr>bo_link_tx := bo_link_tx s + 1, bo_hello := True\<rparr>))"

definition turn_hello :: "ext \<Rightarrow> string \<Rightarrow> ('a board_scheme, unit) prog" where
  "turn_hello X id_hex =
     bnd (gets (\<lambda>s. (bo_out_link s, bo_hello s))) (\<lambda>(l, sent).
     case l of
       None \<Rightarrow> ret ()
     | Some r \<Rightarrow>
         if sent then ret ()
         else
           bnd (get_link r) (\<lambda>k.
           if lk_status k \<noteq> ACTIVE then ret () else try_catch (send_hello X id_hex r) (\<lambda>_. ret ())))"

definition announce_both :: "ext \<Rightarrow> nat \<Rightarrow> ('a board_scheme, unit) prog" where
  "announce_both X own =
     bnd (announce X board_broadcast (Some own) (str_bytes ''hello from heltec v3'') True) (\<lambda>_.
     bnd (node_announce X board_broadcast) (\<lambda>_.
     modify (\<lambda>s. s\<lparr>bo_announces := bo_announces s + 1\<rparr>)))"

definition turn_announce :: "ext \<Rightarrow> nat \<Rightarrow> turn \<Rightarrow> ('a board_scheme, unit) prog" where
  "turn_announce X own e =
     bnd (gets (\<lambda>s. bo_tick s = 0 \<or> bo_tick s \<ge> bo_next s)) (\<lambda>due.
     if \<not> due then ret ()
     else
       bnd (modify (\<lambda>s. s\<lparr>bo_next := bo_tick s + 270 + tn_rnd e mod 60\<rparr>)) (\<lambda>_.
       try_catch (announce_both X own) (\<lambda>_. ret ())))"

definition turn_status :: "(nat \<Rightarrow> bool) \<Rightarrow> bool \<Rightarrow> string \<Rightarrow> string \<Rightarrow> turn \<Rightarrow> ('a board_scheme, unit) prog" where
  "turn_status A up id_hex dst_hex e =
     bnd (gets (\<lambda>s. bo_tick s mod 5 = 0)) (\<lambda>due.
     if \<not> due then ret ()
     else
       bnd (measure_idle (tn_tasks e) (tn_total e)) (\<lambda>idle.
       bnd (gets (\<lambda>s. up \<and> \<not> od_suspended (bo_oled s))) (\<lambda>on.
       when_do on (render_status A id_hex dst_hex idle))))"

text \<open>The polls: nothing catches what receiving a frame throws.\<close>

definition turn_polls :: "(nat \<Rightarrow> bytes \<Rightarrow> ('a board_scheme, unit) prog) \<Rightarrow> turn \<Rightarrow> ('a board_scheme, unit) prog" where
  "turn_polls receive e = for_each (tn_heard e) (\<lambda>(i, raw). receive i raw)"

definition main_turn ::
  "ext \<Rightarrow> (nat \<Rightarrow> bytes \<Rightarrow> ('a board_scheme, unit) prog) \<Rightarrow> nat \<Rightarrow> (nat \<Rightarrow> bool) \<Rightarrow> bool \<Rightarrow> string \<Rightarrow> string \<Rightarrow> turn \<Rightarrow>
   ('a board_scheme, bool) prog" where
  "main_turn X receive own A up id_hex dst_hex e =
     bnd (turn_button A up e) (\<lambda>restart.
     if restart then ret True
     else
       bnd (turn_timeout A up e) (\<lambda>_.
       bnd (turn_hello X id_hex) (\<lambda>_.
       bnd (turn_announce X own e) (\<lambda>_.
       bnd (turn_status A up id_hex dst_hex e) (\<lambda>_.
       bnd (turn_polls receive e) (\<lambda>_.
       bnd (modify (\<lambda>s. s\<lparr>bo_tick := bo_tick s + 1\<rparr>)) (\<lambda>_.
       ret False)))))))"

section \<open>What a turn needs and keeps\<close>

text \<open>A destination that can be announced, and a state in which the loop runs: the display's buffer, the
  interfaces, the two destinations the loop announces, and the outgoing link are there, and no link has a broken
  session key.\<close>

definition announceable :: "ext \<Rightarrow> 'a net_state_scheme \<Rightarrow> nat \<Rightarrow> bool" where
  "announceable X s r \<longleftrightarrow> r < length (dest_heap s) \<and> (\<exists>a e ap. let d = dest_heap s ! r in
     dst_type d = SINGLE \<and> dst_direction d = IN \<and> dst_identity d = Some (key_identity X a e ap) \<and>
     length (dst_name_hash d) = 10 \<and> dst_hash d = truncated_hash X (dst_name_hash d @ id_hash (key_identity X a e ap)))"

definition board_ok :: "ext \<Rightarrow> nat \<Rightarrow> 'a board_scheme \<Rightarrow> bool" where
  "board_ok X own s \<longleftrightarrow> oled_ok (bo_oled s) \<and> (\<forall>i\<in>set (net_interfaces s). i < length (net_heap s)) \<and>
     announceable X s own \<and> (\<exists>n. nn_dest s = Some n \<and> announceable X s n) \<and> length (nn_name s) \<le> 316 \<and>
     (\<forall>r. bo_out_link s = Some r \<longrightarrow> r < length (link_heap s)) \<and>
     (\<forall>k\<in>set (link_heap s). \<forall>t. lk_token k = Some t \<longrightarrow> token_ok t)"

definition kept :: "'a board_scheme \<Rightarrow> 'a board_scheme \<Rightarrow> bool" where
  "kept s s' \<longleftrightarrow> dest_heap s' = dest_heap s \<and> net_interfaces s' = net_interfaces s \<and>
     length (net_heap s') = length (net_heap s) \<and> nn_dest s' = nn_dest s \<and> nn_name s' = nn_name s \<and>
     link_heap s' = link_heap s \<and> net_links s' = net_links s \<and> net_destinations s' = net_destinations s \<and>
     bo_out_link s' = bo_out_link s \<and> bo_last_total s' = bo_last_total s \<and> (oled_ok (bo_oled s) \<longrightarrow> oled_ok (bo_oled s'))"

definition counts :: "'a board_scheme \<Rightarrow> u32 \<times> u32 \<times> u32 \<times> bool \<times> u32" where
  "counts s = (bo_tick s, bo_next s, bo_announces s, bo_hello s, bo_link_tx s)"

lemma kept_refl [simp]: "kept s s"
  by (simp add: kept_def)

lemma kept_trans: "kept s t \<Longrightarrow> kept t u \<Longrightarrow> kept s u"
  by (simp add: kept_def)

lemma kept_ok: "board_ok X own s \<Longrightarrow> kept s s' \<Longrightarrow> board_ok X own s'"
  by (simp add: board_ok_def kept_def announceable_def)

section \<open>The parts of a turn\<close>

text \<open>Broadcasting queues the frame once on every registered interface.\<close>

lemma broadcast_run:
  "(\<forall>i\<in>set is. i < length (net_heap s)) \<Longrightarrow>
   \<exists>h. for_each is (\<lambda>i. if Some i = None then ret () else board_send i raw) s = (Ret (), s\<lparr>net_heap := h\<rparr>) \<and>
     length h = length (net_heap s) \<and>
     (\<forall>i<length h. if_out (h ! i) = if_out (net_heap s ! i) @ replicate (count_list is i) raw)"
proof (induction "is" arbitrary: s)
  case Nil
  show ?case by (intro exI[of _ "net_heap s"]) simp
next
  case (Cons i "is")
  let ?h1 = "(net_heap s)[i := (net_heap s ! i)\<lparr>if_out := if_out (net_heap s ! i) @ [raw]\<rparr>]"
  let ?s1 = "s\<lparr>net_heap := ?h1\<rparr>"
  have one: "board_send i raw s = (Ret (), ?s1)" using Cons.prems by (simp add: board_send_def set_iface_def)
  obtain h where h: "for_each is (\<lambda>i. if Some i = None then ret () else board_send i raw) ?s1 = (Ret (), ?s1\<lparr>net_heap := h\<rparr>)"
    "length h = length ?h1" "\<forall>i<length h. if_out (h ! i) = if_out (?h1 ! i) @ replicate (count_list is i) raw"
    using Cons.IH[of ?s1] Cons.prems by auto
  have "if_out (h ! j) = if_out (net_heap s ! j) @ replicate (count_list (i # is) j) raw" if "j < length h" for j
    using h(2,3) that by (cases "j = i") (simp_all add: replicate_append_same)
  then show ?case using h by (intro exI[of _ h]) (simp add: bnd_Ret[where m = "board_send i raw", OF one])
qed

lemma board_broadcast_run:
  assumes "\<forall>i\<in>set (net_interfaces s). i < length (net_heap s)"
  shows "\<exists>h. board_broadcast raw s = (Ret (), s\<lparr>net_heap := h\<rparr>) \<and> length h = length (net_heap s) \<and>
    (\<forall>i<length h. if_out (h ! i) = if_out (net_heap s ! i) @ replicate (count_list (net_interfaces s) i) raw)"
  using broadcast_run[OF assms, of raw] by (simp add: board_broadcast_def broadcast_def)

lemma display_run:
  assumes "oled_ok (bo_oled s)"
  shows "\<exists>d. display A ops s = (Ret (), s\<lparr>bo_oled := d\<rparr>) \<and> oled_ok d"
  using ops_run[OF assms, of ops A] by (auto simp: display_def)

lemma announce_sends:
  assumes "crypto_laws X" "announceable X s r" "length app \<le> 316" "\<forall>i\<in>set (net_interfaces s). i < length (net_heap s)"
  shows "\<exists>raw c h. announce X board_broadcast (Some r) app True s = (Ret raw, s\<lparr>hal_calls := c, net_heap := h\<rparr>) \<and>
    length h = length (net_heap s)"
proof -
  obtain a e ap where d: "r < length (dest_heap s)" "dst_type (dest_heap s ! r) = SINGLE" "dst_direction (dest_heap s ! r) = IN"
    "dst_identity (dest_heap s ! r) = Some (key_identity X a e ap)" "length (dst_name_hash (dest_heap s ! r)) = 10"
    "dst_hash (dest_heap s ! r) = truncated_hash X (dst_name_hash (dest_heap s ! r) @ id_hash (key_identity X a e ap))"
    using assms(2) by (auto simp: announceable_def Let_def)
  obtain raw where raw: "announce X board_broadcast (Some r) app False s = (Ret raw, s\<lparr>hal_calls := hal_calls s + 1\<rparr>)"
    using announce_frame[OF assms(1) d(1) refl d(2-5) assms(3) d(6)] by metis
  define c where "c = hal_calls s + 1"
  obtain h where h: "board_broadcast raw (s\<lparr>hal_calls := c\<rparr>) = (Ret (), s\<lparr>hal_calls := c, net_heap := h\<rparr>)"
    "length h = length (net_heap s)"
    using board_broadcast_run[of "s\<lparr>hal_calls := c\<rparr>" raw] assms(4) by auto
  have "announce X board_broadcast (Some r) app True s = (Ret raw, s\<lparr>hal_calls := c, net_heap := h\<rparr>)"
    unfolding announce_send
    by (simp add: bnd_Ret[where m = "announce X board_broadcast (Some r) app False", OF raw[folded c_def]]
        bnd_Ret[where m = "board_broadcast raw", OF h(1)])
  then show ?thesis using h(2) by blast
qed

lemma maybe_display_run:
  assumes "oled_ok (bo_oled s)"
  shows "\<exists>d. when_do u (display A ops) s = (Ret (), s\<lparr>bo_oled := d\<rparr>) \<and> oled_ok d"
proof (cases u)
  case True
  then show ?thesis using display_run[OF assms, of A ops] by simp
next
  case False
  then show ?thesis using assms by (intro exI[of _ "bo_oled s"]) simp
qed

lemma button_action_run:
  assumes "oled_ok (bo_oled s)"
  shows "\<exists>d. button_action A up e s = (Ret (tn_held e \<ge> 3000 \<and> tn_wifi e \<and> tn_ota e), s\<lparr>bo_oled := d\<rparr>) \<and> oled_ok d"
proof (cases "tn_held e \<ge> 3000 \<and> tn_wifi e")
  case False
  then show ?thesis using maybe_display_run[OF assms, of "up \<and> od_suspended (bo_oled s)" A "[Resume]"]
    by (auto simp: button_action_def bnd_def)
next
  case True
  obtain d where d: "when_do up (display A [Resume, Set_line 3 ''OTA updating...'', Flush]) s = (Ret (), s\<lparr>bo_oled := d\<rparr>)"
    "oled_ok d" using maybe_display_run[OF assms] by blast
  obtain d1 where d1: "when_do up (display A [Set_line 3 ''OTA OK, rebooting'', Flush]) (s\<lparr>bo_oled := d\<rparr>) =
    (Ret (), s\<lparr>bo_oled := d1\<rparr>)" "oled_ok d1"
    using maybe_display_run[of "s\<lparr>bo_oled := d\<rparr>" up A "[Set_line 3 ''OTA OK, rebooting'', Flush]"] d(2) by auto
  obtain d2 where d2: "when_do up (display A [Set_line 3 ''OTA FAILED'', Flush]) (s\<lparr>bo_oled := d\<rparr>) =
    (Ret (), s\<lparr>bo_oled := d2\<rparr>)" "oled_ok d2"
    using maybe_display_run[of "s\<lparr>bo_oled := d\<rparr>" up A "[Set_line 3 ''OTA FAILED'', Flush]"] d(2) by auto
  show ?thesis using True by (cases "tn_ota e") (auto simp: button_action_def bnd_def d d1 d2)
qed

lemma button_run:
  assumes "oled_ok (bo_oled s)"
  shows "\<exists>s'. turn_button A up e s = (Ret (bo_button s \<and> tn_held e \<ge> 3000 \<and> tn_wifi e \<and> tn_ota e), s') \<and>
    kept s s' \<and> counts s' = counts s"
proof -
  define b where "b \<longleftrightarrow> tn_held e \<ge> 3000 \<and> tn_wifi e \<and> tn_ota e"
  obtain d where act: "button_action A up e (s\<lparr>bo_button := False\<rparr>) = (Ret b, s\<lparr>bo_button := False, bo_oled := d\<rparr>)" "oled_ok d"
    using button_action_run[of "s\<lparr>bo_button := False\<rparr>" A up e] assms by (auto simp: b_def)
  then show ?thesis using assms unfolding b_def[symmetric]
    by (cases "bo_button s"; cases b)
      (auto simp: turn_button_def bnd_Ret[where m = "button_action A up e", OF act(1)] kept_def counts_def)
qed

lemma timeout_run:
  assumes "oled_ok (bo_oled s)"
  shows "\<exists>s'. turn_timeout A up e s = (Ret (), s') \<and> kept s s' \<and> counts s' = counts s"
  using display_run[OF assms, of A "[Suspend]"] by (auto simp: turn_timeout_def when_do_def kept_def counts_def)

lemma hello_run:
  assumes "crypto_laws X" "board_ok X own s"
  shows "\<exists>s'. turn_hello X ih s = (Ret (), s') \<and> kept s s' \<and>
    (s' = s \<or> \<not> bo_hello s \<and> (\<exists>r. bo_out_link s = Some r \<and> lk_status (link_heap s ! r) = ACTIVE) \<and>
      counts s' = (bo_tick s, bo_next s, bo_announces s, True, bo_link_tx s + 1))"
proof (cases "\<exists>r. bo_out_link s = Some r \<and> \<not> bo_hello s \<and> lk_status (link_heap s ! r) = ACTIVE")
  case False
  then show ?thesis using assms(2)
    by (auto simp: turn_hello_def get_link_run board_ok_def bnd_def split: option.splits)
next
  case True
  then obtain r where r: "bo_out_link s = Some r" "\<not> bo_hello s" "lk_status (link_heap s ! r) = ACTIVE" by blast
  have heap: "r < length (link_heap s)" "\<And>t. lk_token (link_heap s ! r) = Some t \<Longrightarrow> token_ok t"
    using assms(2) r(1) by (auto simp: board_ok_def)
  let ?msg = "str_bytes (''hello from '' @ take 8 ih)"
  obtain c h where send: "link_send X board_broadcast r ?msg s = (Ret (), s\<lparr>hal_calls := c, net_heap := h\<rparr>)"
    "length h = length (net_heap s)"
  proof (cases "lk_token (link_heap s ! r)")
    case None
    then show ?thesis using r(3) heap(1) that[where c = "hal_calls s" and h = "net_heap s"]
      by (simp add: link_send_def link_send_with_context_def bnd_def get_link_run)
  next
    case (Some t)
    obtain ct where ct: "token_encrypt X t ?msg s = (Ret ct, s\<lparr>hal_calls := hal_calls s + 1\<rparr>)"
      using token_encrypt_run[OF assms(1) heap(2)[OF Some], of ?msg s] by blast
    let ?s = "s\<lparr>hal_calls := hal_calls s + 1\<rparr>"
    have ifs: "\<forall>i\<in>set (net_interfaces ?s). i < length (net_heap ?s)" using assms(2) by (simp add: board_ok_def)
    obtain h where "board_broadcast (frame 0x0C 0 [] (lk_hash (link_heap s ! r)) CONTEXT_NONE ct) ?s = (Ret (), ?s\<lparr>net_heap := h\<rparr>)"
      "length h = length (net_heap s)"
      using board_broadcast_run[OF ifs] by auto
    then show ?thesis using send_run[OF heap(1) r(3) Some ct] by (intro that[of h "hal_calls s + 1"]) (simp_all add: link_send_def)
  qed
  let ?s = "s\<lparr>hal_calls := c, net_heap := h, bo_link_tx := bo_link_tx s + 1, bo_hello := True\<rparr>"
  have "send_hello X ih r s = (Ret (), ?s)"
    unfolding send_hello_def bnd_Ret[where m = "link_send X board_broadcast r ?msg", OF send(1)] by simp
  then have "turn_hello X ih s = (Ret (), ?s)"
    using r heap(1) by (simp add: turn_hello_def get_link_run try_catch_def bnd_def)
  then show ?thesis using r send(2) by (intro exI[of _ ?s]) (simp add: kept_def counts_def)
qed

lemma announce_turn_run:
  assumes "crypto_laws X" "board_ok X own s"
  shows "\<exists>s'. turn_announce X own e s = (Ret (), s') \<and> kept s s' \<and>
    counts s' = (if bo_tick s = 0 \<or> bo_tick s \<ge> bo_next s
      then (bo_tick s, bo_tick s + 270 + tn_rnd e mod 60, bo_announces s + 1, bo_hello s, bo_link_tx s) else counts s)"
proof (cases "bo_tick s = 0 \<or> bo_tick s \<ge> bo_next s")
  case False
  then show ?thesis by (intro exI[of _ s]) (simp add: turn_announce_def)
next
  case True
  obtain n where n: "nn_dest s = Some n" "announceable X s n" "announceable X s own" "length (nn_name s) \<le> 316"
    "\<forall>i\<in>set (net_interfaces s). i < length (net_heap s)"
    using assms(2) by (auto simp: board_ok_def)
  define s1 where "s1 = s\<lparr>bo_next := bo_tick s + 270 + tn_rnd e mod 60\<rparr>"
  have 1: "announceable X s1 own" "\<forall>i\<in>set (net_interfaces s1). i < length (net_heap s1)"
    using n by (simp_all add: s1_def announceable_def)
  obtain raw1 c1 h1 where a1: "announce X board_broadcast (Some own) (str_bytes ''hello from heltec v3'') True s1 =
      (Ret raw1, s1\<lparr>hal_calls := c1, net_heap := h1\<rparr>)" "length h1 = length (net_heap s1)"
    using announce_sends[OF assms(1) 1(1) _ 1(2), of "str_bytes ''hello from heltec v3''"] by auto
  define s2 where "s2 = s1\<lparr>hal_calls := c1, net_heap := h1\<rparr>"
  have 2: "announceable X s2 n" "\<forall>i\<in>set (net_interfaces s2). i < length (net_heap s2)" "nn_dest s2 = Some n" "nn_name s2 = nn_name s"
    using n 1 a1(2) by (simp_all add: s1_def s2_def announceable_def)
  obtain raw2 c2 h2 where a2: "announce X board_broadcast (Some n) (str_bytes (nn_name s)) True s2 =
      (Ret raw2, s2\<lparr>hal_calls := c2, net_heap := h2\<rparr>)" "length h2 = length (net_heap s2)"
    using announce_sends[OF assms(1) 2(1) _ 2(2), of "str_bytes (nn_name s)"] n(4) by auto
  let ?s = "s2\<lparr>hal_calls := c2, net_heap := h2, bo_announces := bo_announces s + 1\<rparr>"
  have node: "node_announce X board_broadcast s2 = (Ret (), s2\<lparr>hal_calls := c2, net_heap := h2\<rparr>)"
    by (simp add: node_announce_def 2 bnd_Ret[where m = "announce X board_broadcast (Some n) (str_bytes (nn_name s)) True", OF a2(1)])
  have both: "announce_both X own s1 = (Ret (), ?s)"
    unfolding announce_both_def
      bnd_Ret[where m = "announce X board_broadcast (Some own) (str_bytes ''hello from heltec v3'') True", OF a1(1)[folded s2_def]]
      bnd_Ret[where m = "node_announce X board_broadcast", OF node]
    by (simp add: s1_def s2_def)
  have "turn_announce X own e s = (Ret (), ?s)"
    using True both by (simp add: turn_announce_def try_catch_def s1_def)
  then show ?thesis using True a1(2) a2(2) by (intro exI[of _ ?s]) (simp add: kept_def counts_def s1_def s2_def)
qed

text \<open>The sample's product of time and idle tasks must fit its 32 bits.\<close>

definition turn_ok :: "turn \<Rightarrow> 'a board_scheme \<Rightarrow> bool" where
  "turn_ok e s \<longleftrightarrow>
     unat (tn_total e - bo_last_total s) * length (filter (\<lambda>(n, t). case n of None \<Rightarrow> False | Some n \<Rightarrow> n \<in> set IDLE_NAMES) (tn_tasks e))
       < 2 ^ 32"

lemma measure_run:
  assumes "unat (tot - bo_last_total s) * length (filter (\<lambda>(n, t). case n of None \<Rightarrow> False | Some n \<Rightarrow> n \<in> set IDLE_NAMES) tasks) < 2 ^ 32"
  shows "\<exists>p i t. measure_idle tasks tot s = (Ret p, s\<lparr>bo_last_idle := i, bo_last_total := t\<rparr>)"
proof -
  define found where "found = length (filter (\<lambda>(n, t). case n of None \<Rightarrow> False | Some n \<Rightarrow> n \<in> set IDLE_NAMES) tasks)"
  have "(tot - bo_last_total s) * of_nat found \<noteq> 0" if "tot - bo_last_total s \<noteq> 0" "found \<noteq> 0"
  proof -
    have "unat ((tot - bo_last_total s) * of_nat found) = unat (tot - bo_last_total s) * found"
    proof -
      have "0 < unat (tot - bo_last_total s)" using that(1) by (simp add: unat_gt_0)
      then have "found \<le> unat (tot - bo_last_total s) * found" by (cases "unat (tot - bo_last_total s)") simp_all
      moreover have prod: "unat (tot - bo_last_total s) * found < 2 ^ 32" using assms by (simp only: found_def)
      ultimately have "found < 2 ^ 32" by linarith
      then have "unat (of_nat found :: u32) = found" by (simp add: unat_of_nat take_bit_eq_mod)
      then show ?thesis using prod by (subst unat_mult_lem[THEN iffD1]) simp_all
    qed
    also have "\<dots> \<noteq> 0" using that by (simp add: unat_eq_zero)
    finally show ?thesis by auto
  qed
  then have nz: "tot - bo_last_total s = 0 \<or> found = 0 \<or> (tot - bo_last_total s) * of_nat found \<noteq> 0" by blast
  show ?thesis
  proof (cases "tot - bo_last_total s = 0 \<or> found = 0")
    case True
    then show ?thesis unfolding measure_idle_def Let_def found_def[symmetric] bnd_gets bnd_modify prod.case
      by (simp only: if_True) (simp only: ret_apply, blast)
  next
    case False
    then have "(tot - bo_last_total s) * of_nat found \<noteq> 0" using nz by blast
    then show ?thesis using False unfolding measure_idle_def Let_def found_def[symmetric] bnd_gets bnd_modify prod.case
      by (simp only: if_False) (simp only: ret_apply, blast)
  qed
qed

lemma board_ok_screen:
  assumes "board_ok X own s"
  shows "board_ok X own (s\<lparr>bo_last_idle := i, bo_last_total := t\<rparr>)"
    "oled_ok d \<Longrightarrow> board_ok X own (s\<lparr>bo_last_idle := i, bo_last_total := t, bo_oled := d\<rparr>)"
  using assms by (simp_all add: board_ok_def announceable_def)

lemma status_run:
  assumes "board_ok X own s" "turn_ok e s"
  shows "\<exists>s'. turn_status A up ih dh e s = (Ret (), s') \<and> board_ok X own s' \<and> counts s' = counts s \<and>
    link_heap s' = link_heap s \<and> net_links s' = net_links s \<and> net_destinations s' = net_destinations s \<and>
    net_interfaces s' = net_interfaces s"
proof (cases "bo_tick s mod 5 = 0")
  case False
  then show ?thesis using assms(1) by (intro exI[of _ s]) (simp add: turn_status_def)
next
  case True
  obtain p i t where m: "measure_idle (tn_tasks e) (tn_total e) s = (Ret p, s\<lparr>bo_last_idle := i, bo_last_total := t\<rparr>)"
    using measure_run[of "tn_total e" s "tn_tasks e"] assms(2) by (auto simp: turn_ok_def)
  let ?s = "s\<lparr>bo_last_idle := i, bo_last_total := t\<rparr>"
  have "\<exists>st. out_status ?s = (Ret st, ?s)"
    using assms(1) by (cases "bo_out_link s") (auto simp: out_status_def bnd_def get_link_run board_ok_def)
  then obtain st where st: "out_status ?s = (Ret st, ?s)" by blast
  have "oled_ok (bo_oled ?s)" using assms(1) by (simp add: board_ok_def)
  then obtain d where "render_status A ih dh p ?s = (Ret (), ?s\<lparr>bo_oled := d\<rparr>)" "oled_ok d"
    using display_run[of ?s A] unfolding render_status_def bnd_Ret[where m = out_status, OF st] bnd_gets prod.case by blast
  then show ?thesis using True board_ok_screen[OF assms(1)]
    by (cases "up \<and> \<not> od_suspended (bo_oled s)")
      (auto simp: turn_status_def bnd_Ret[where m = "measure_idle (tn_tasks e) (tn_total e)", OF m] counts_def)
qed

text \<open>What a turn that does not restart the board does to the counters; \<open>sent\<close>: it sent the greeting.\<close>

definition counted :: "bool \<Rightarrow> turn \<Rightarrow> 'a board_scheme \<Rightarrow> u32 \<times> u32 \<times> u32 \<times> bool \<times> u32" where
  "counted sent e s =
     (let due = (bo_tick s = 0 \<or> bo_tick s \<ge> bo_next s) in
      (bo_tick s + 1, if due then bo_tick s + 270 + tn_rnd e mod 60 else bo_next s,
       bo_announces s + (if due then 1 else 0), bo_hello s \<or> sent, bo_link_tx s + (if sent then 1 else 0)))"

text \<open>A turn up to its polls: it returns, and what is left is receiving the frames and counting the tick.\<close>

lemma main_turn_run:
  assumes "crypto_laws X" "board_ok X own s" "turn_ok e s"
  shows "\<exists>restart s1 sent. main_turn X receive own A up ih dh e s =
      (if restart then (Ret True, s1)
       else bnd (turn_polls receive e) (\<lambda>_. bnd (modify (\<lambda>s. s\<lparr>bo_tick := bo_tick s + 1\<rparr>)) (\<lambda>_. ret False)) s1) \<and>
    board_ok X own s1 \<and> link_heap s1 = link_heap s \<and> net_links s1 = net_links s \<and> net_destinations s1 = net_destinations s \<and>
    net_interfaces s1 = net_interfaces s \<and>
    (restart \<longleftrightarrow> bo_button s \<and> tn_held e \<ge> 3000 \<and> tn_wifi e \<and> tn_ota e) \<and>
    (sent \<longrightarrow> \<not> bo_hello s \<and> (\<exists>r. bo_out_link s = Some r \<and> lk_status (link_heap s ! r) = ACTIVE)) \<and>
    (\<not> restart \<longrightarrow> counts (s1\<lparr>bo_tick := bo_tick s1 + 1\<rparr>) = counted sent e s)"
proof -
  have oled: "oled_ok (bo_oled t)" if "board_ok X own t" for t :: "'a board_scheme"
    using that by (simp add: board_ok_def)
  define b where "b \<longleftrightarrow> bo_button s \<and> tn_held e \<ge> 3000 \<and> tn_wifi e \<and> tn_ota e"
  obtain s1 where 1: "turn_button A up e s = (Ret b, s1)" "kept s s1" "counts s1 = counts s"
    using button_run[OF oled[OF assms(2)]] unfolding b_def by blast
  note ok1 = kept_ok[OF assms(2) 1(2)]
  obtain s2 where 2: "turn_timeout A up e s1 = (Ret (), s2)" "kept s1 s2" "counts s2 = counts s1"
    using timeout_run[OF oled[OF ok1]] by blast
  note ok2 = kept_ok[OF ok1 2(2)]
  obtain s3 where 3: "turn_hello X ih s2 = (Ret (), s3)" "kept s2 s3"
    "s3 = s2 \<or> \<not> bo_hello s2 \<and> (\<exists>r. bo_out_link s2 = Some r \<and> lk_status (link_heap s2 ! r) = ACTIVE) \<and>
      counts s3 = (bo_tick s2, bo_next s2, bo_announces s2, True, bo_link_tx s2 + 1)"
    using hello_run[OF assms(1) ok2] by blast
  note ok3 = kept_ok[OF ok2 3(2)]
  obtain s4 where 4: "turn_announce X own e s3 = (Ret (), s4)" "kept s3 s4"
    "counts s4 = (if bo_tick s3 = 0 \<or> bo_tick s3 \<ge> bo_next s3
      then (bo_tick s3, bo_tick s3 + 270 + tn_rnd e mod 60, bo_announces s3 + 1, bo_hello s3, bo_link_tx s3) else counts s3)"
    using announce_turn_run[OF assms(1) ok3] by blast
  have "turn_ok e s4" using assms(3) 1(2) 2(2) 3(2) 4(2) by (simp add: turn_ok_def kept_def)
  then obtain s5 where 5: "turn_status A up ih dh e s4 = (Ret (), s5)" "board_ok X own s5" "counts s5 = counts s4"
    "link_heap s5 = link_heap s4" "net_links s5 = net_links s4" "net_destinations s5 = net_destinations s4"
    "net_interfaces s5 = net_interfaces s4"
    using status_run[OF kept_ok[OF ok3 4(2)]] by blast
  let ?rest = "bnd (turn_polls receive e) (\<lambda>_. bnd (modify (\<lambda>s. s\<lparr>bo_tick := bo_tick s + 1\<rparr>)) (\<lambda>_. ret False))"
  have rest: "bnd (turn_timeout A up e) (\<lambda>_. bnd (turn_hello X ih) (\<lambda>_. bnd (turn_announce X own e) (\<lambda>_.
      bnd (turn_status A up ih dh e) (\<lambda>_. ?rest)))) s1 = ?rest s5"
    unfolding bnd_Ret[where m = "turn_timeout A up e", OF 2(1)] bnd_Ret[where m = "turn_hello X ih", OF 3(1)]
      bnd_Ret[where m = "turn_announce X own e", OF 4(1)] bnd_Ret[where m = "turn_status A up ih dh e", OF 5(1)] ..
  have run: "main_turn X receive own A up ih dh e s = (if b then (Ret True, s1) else ?rest s5)"
    unfolding main_turn_def bnd_Ret[where m = "turn_button A up e", OF 1(1)] rest[symmetric] by (cases b) simp_all
  have same: "bo_out_link s2 = bo_out_link s" "link_heap s2 = link_heap s" "bo_hello s2 = bo_hello s"
    using 1(2,3) 2(2,3) by (simp_all add: kept_def counts_def)
  have heap: "link_heap s5 = link_heap s" "net_links s5 = net_links s" "net_destinations s5 = net_destinations s"
    "net_interfaces s5 = net_interfaces s"
    using 1(2) 2(2) 3(2) 4(2) 5(4-7) by (simp_all add: kept_def)
  have "\<exists>sent. (sent \<longrightarrow> \<not> bo_hello s \<and> (\<exists>r. bo_out_link s = Some r \<and> lk_status (link_heap s ! r) = ACTIVE)) \<and>
      counts (s5\<lparr>bo_tick := bo_tick s5 + 1\<rparr>) = counted sent e s"
    using 3(3)
  proof
    assume "s3 = s2"
    then show ?thesis using 1(3) 2(3) 4(3) 5(3)
      by (intro exI[of _ False]) (auto simp: counted_def counts_def Let_def split: if_splits)
  next
    assume "\<not> bo_hello s2 \<and> (\<exists>r. bo_out_link s2 = Some r \<and> lk_status (link_heap s2 ! r) = ACTIVE) \<and>
      counts s3 = (bo_tick s2, bo_next s2, bo_announces s2, True, bo_link_tx s2 + 1)"
    then show ?thesis using 1(3) 2(3) 4(3) 5(3) same
      by (intro exI[of _ True]) (auto simp: counted_def counts_def Let_def split: if_splits)
  qed
  then obtain sent where sent: "sent \<longrightarrow> \<not> bo_hello s \<and> (\<exists>r. bo_out_link s = Some r \<and> lk_status (link_heap s ! r) = ACTIVE)"
    "counts (s5\<lparr>bo_tick := bo_tick s5 + 1\<rparr>) = counted sent e s" by blast
  show ?thesis
  proof (cases b)
    case True
    then show ?thesis using run ok1 1(2) sent(1) unfolding b_def[symmetric]
      by (intro exI[of _ True] exI[of _ s1] exI[of _ sent]) (simp add: kept_def)
  next
    case False
    then show ?thesis using run 5(2) heap sent unfolding b_def[symmetric]
      by (intro exI[of _ False] exI[of _ s5] exI[of _ sent]) simp
  qed
qed

section \<open>Runs\<close>

text \<open>Runs of \<open>n\<close> turns from the start of the loop. Between turns come the other tasks and the callbacks: they
  may change anything but the loop's own counters, as long as the objects the loop uses stay there.\<close>

inductive board_run ::
  "ext \<Rightarrow> (nat \<Rightarrow> bytes \<Rightarrow> (board, unit) prog) \<Rightarrow> nat \<Rightarrow> (nat \<Rightarrow> bool) \<Rightarrow> bool \<Rightarrow> string \<Rightarrow> string \<Rightarrow> nat \<Rightarrow> board \<Rightarrow> bool"
  for X receive own A up ih dh where
  start: "board_ok X own s \<Longrightarrow> counts s = (0, next, 0, False, 0) \<Longrightarrow> board_run X receive own A up ih dh 0 s"
| turn: "board_run X receive own A up ih dh n s \<Longrightarrow> turn_ok e s \<Longrightarrow> main_turn X receive own A up ih dh e s = (Ret False, s') \<Longrightarrow>
    board_run X receive own A up ih dh (Suc n) s'"
| others: "board_run X receive own A up ih dh n s \<Longrightarrow> board_ok X own s' \<Longrightarrow> counts s' = counts s \<Longrightarrow>
    board_run X receive own A up ih dh n s'"

text \<open>A way of receiving frames that keeps what the loop needs, also when it fails.\<close>

definition loop_safe :: "ext \<Rightarrow> nat \<Rightarrow> (nat \<Rightarrow> bytes \<Rightarrow> ('a board_scheme, unit) prog) \<Rightarrow> bool" where
  "loop_safe X own receive \<longleftrightarrow> (\<forall>c i raw. preserves (\<lambda>s. board_ok X own s \<and> counts s = c) (receive i raw))"

lemma polls_safe:
  assumes "loop_safe X own receive" "board_ok X own s"
  shows "board_ok X own (snd (turn_polls receive e s))" "counts (snd (turn_polls receive e s)) = counts s"
proof -
  have "preserves (\<lambda>t. board_ok X own t \<and> counts t = counts s) (turn_polls receive e)"
    unfolding turn_polls_def
    by (intro preserves_for_each preserves_pair assms(1)[unfolded loop_safe_def, rule_format])
  from preservesD[OF this] assms(2)
  show "board_ok X own (snd (turn_polls receive e s))" "counts (snd (turn_polls receive e s)) = counts s" by simp_all
qed

text \<open>A turn that completes.\<close>

lemma turn_done:
  assumes "crypto_laws X" "board_ok X own s" "turn_ok e s" "loop_safe X own receive"
    "main_turn X receive own A up ih dh e s = (Ret False, s')"
  obtains sent where "board_ok X own s'" "counts s' = counted sent e s"
    "sent \<longrightarrow> \<not> bo_hello s \<and> (\<exists>r. bo_out_link s = Some r \<and> lk_status (link_heap s ! r) = ACTIVE)"
proof -
  obtain restart s1 sent where run: "main_turn X receive own A up ih dh e s =
      (if restart then (Ret True, s1)
       else bnd (turn_polls receive e) (\<lambda>_. bnd (modify (\<lambda>s. s\<lparr>bo_tick := bo_tick s + 1\<rparr>)) (\<lambda>_. ret False)) s1)"
    and s1: "board_ok X own s1" "sent \<longrightarrow> \<not> bo_hello s \<and> (\<exists>r. bo_out_link s = Some r \<and> lk_status (link_heap s ! r) = ACTIVE)"
      "\<not> restart \<longrightarrow> counts (s1\<lparr>bo_tick := bo_tick s1 + 1\<rparr>) = counted sent e s"
    using main_turn_run[OF assms(1-3), of receive A up ih dh] by blast
  have nr: "\<not> restart" using run assms(5) by (auto split: if_splits)
  obtain x s2 where p: "turn_polls receive e s1 = (x, s2)" by fastforce
  have s2: "board_ok X own s2" "counts s2 = counts s1" using polls_safe[OF assms(4) s1(1), of e] p by simp_all
  have "s' = s2\<lparr>bo_tick := bo_tick s2 + 1\<rparr>" using run nr p assms(5) by (cases x) (simp_all add: bnd_def)
  then show thesis using that[of sent] s1 s2 nr by (simp add: counts_def board_ok_def announceable_def)
qed

text \<open>\<open>last\<close> is the turn of the last announce.\<close>

definition paced :: "nat \<Rightarrow> board \<Rightarrow> bool" where
  "paced n s \<longleftrightarrow> unat (bo_tick s) = n \<and>
     (if n = 0 then bo_announces s = 0
      else \<exists>last. 270 * (unat (bo_announces s) - 1) \<le> last \<and> last < n \<and> last + 270 \<le> unat (bo_next s) \<and>
        n \<le> unat (bo_next s) \<and> unat (bo_next s) \<le> 329 * unat (bo_announces s))"

lemma unat_Suc_word: "Suc (unat (w :: u32)) < 2 ^ 32 \<Longrightarrow> unat (w + 1) = Suc (unat w)"
  by (simp add: unat_word_ariths)

lemma unat_next:
  assumes "unat (w :: u32) + 329 < 2 ^ 32"
  shows "\<exists>r<60. unat (w + 270 + d mod 60) = unat w + 270 + r"
proof -
  have r: "unat (d mod 60) < 60" by (simp add: unat_mod)
  have "unat (w + 270) = unat w + 270" using assms by (simp add: unat_word_ariths)
  then have "unat (w + 270 + d mod 60) = unat w + 270 + unat (d mod 60)"
    using assms r by (subst unat_add_lem[THEN iffD1]) simp_all
  then show ?thesis using r by blast
qed

lemma paced_turn:
  assumes "paced n s" "counts s' = counted sent e s" "Suc n + 329 < 2 ^ 32"
  shows "paced (Suc n) s'"
proof -
  let ?due = "bo_tick s = 0 \<or> bo_tick s \<ge> bo_next s"
  have tick: "unat (bo_tick s) = n" using assms(1) by (simp add: paced_def)
  have c: "bo_tick s' = bo_tick s + 1" "bo_next s' = (if ?due then bo_tick s + 270 + tn_rnd e mod 60 else bo_next s)"
    "bo_announces s' = bo_announces s + (if ?due then 1 else 0)"
    using assms(2) by (simp_all add: counts_def counted_def Let_def)
  have tick': "unat (bo_tick s') = Suc n" using unat_Suc_word[of "bo_tick s"] tick assms(3) by (simp add: c(1))
  obtain r where r: "r < 60" "unat (bo_tick s + 270 + tn_rnd e mod 60) = n + 270 + r"
    using unat_next[of "bo_tick s" "tn_rnd e"] tick assms(3) by auto
  show ?thesis
  proof (cases "n = 0")
    case True
    then have "bo_tick s = 0" "bo_announces s = 0" using tick assms(1) by (simp_all add: paced_def unat_eq_zero)
    then show ?thesis using tick' r True unfolding paced_def c(2,3) by (intro conjI) (simp, simp)
  next
    case False
    then obtain l where l: "270 * (unat (bo_announces s) - 1) \<le> l" "l < n" "l + 270 \<le> unat (bo_next s)"
      "n \<le> unat (bo_next s)" "unat (bo_next s) \<le> 329 * unat (bo_announces s)"
      using assms(1) by (auto simp: paced_def)
    have due: "?due \<longleftrightarrow> unat (bo_next s) \<le> n" using False tick by (auto simp: word_le_nat_alt unat_eq_zero)
    show ?thesis
    proof (cases ?due)
      case d: False
      then have "Suc n \<le> unat (bo_next s)" using due by simp
      then show ?thesis using d l tick' unfolding paced_def c(2,3) by (auto intro!: exI[of _ l])
    next
      case True
      then have n: "unat (bo_next s) = n" using due l(4) by simp
      have pos: "1 \<le> unat (bo_announces s)" using l(5) n False by (cases "unat (bo_announces s)") simp_all
      have "unat (bo_announces s) \<le> n" using l(1,2) pos by linarith
      then have a: "unat (bo_announces s + 1) = Suc (unat (bo_announces s))"
        using unat_Suc_word[of "bo_announces s"] assms(3) by linarith
      have "270 * (Suc (unat (bo_announces s)) - 1) \<le> n" using l(1,3) n pos by linarith
      moreover have "n + 270 + r \<le> 329 * Suc (unat (bo_announces s))" using l(5) n r(1) by simp
      ultimately show ?thesis using True tick' r a unfolding paced_def c(2,3) by (auto intro!: exI[of _ n])
    qed
  qed
qed

lemma board_run_inv:
  assumes "crypto_laws X" "loop_safe X own receive" "board_run X receive own A up ih dh n s"
  shows "board_ok X own s \<and> bo_link_tx s = (if bo_hello s then 1 else 0) \<and> (n + 329 < 2 ^ 32 \<longrightarrow> paced n s)"
  using assms(3)
proof induction
  case (start s "next")
  then show ?case by (simp add: counts_def paced_def)
next
  case (turn n s e s')
  have ok: "board_ok X own s" using turn.IH by simp
  obtain sent where t: "board_ok X own s'" "counts s' = counted sent e s" "sent \<longrightarrow> \<not> bo_hello s"
    by (rule turn_done[OF assms(1) ok turn.hyps(2) assms(2) turn.hyps(3)]) blast
  have "bo_link_tx s' = (if bo_hello s' then 1 else 0)"
    using turn.IH t(2,3) by (auto simp: counts_def counted_def Let_def)
  then show ?case using t paced_turn[OF _ t(2)] turn.IH by simp
next
  case (others n s s')
  then show ?case by (auto simp: counts_def paced_def)
qed

section \<open>A peer is heard\<close>

text \<open>Requesting the link: a new destination, a link in the registry, and one frame.\<close>

definition asked :: "dest \<Rightarrow> link \<Rightarrow> iface list \<Rightarrow> 'a board_scheme \<Rightarrow> 'a board_scheme" where
  "asked d k hp s = s\<lparr>dest_heap := dest_heap s @ [d], hal_calls := hal_calls s + 2, link_heap := link_heap s @ [k],
     net_links := (net_links s)(lk_hash k \<mapsto> length (link_heap s)), net_heap := hp\<rparr>"

lemma peer_link:
  assumes "crypto_laws X" "\<forall>i\<in>set (net_interfaces s). i < length (net_heap s)"
  obtains d nh x e h k raw hp p where
    "bnd (destination_new X (Some peer) OUT SINGLE ''rtreticulum'' ''heltec_v3'')
       (\<lambda>d. link_request X (\<lambda>l. register_link (Some l)) board_broadcast (Some d) None None 0) s =
     (Ret (length (link_heap s)), asked d k hp s)"
    "dst_identity d = Some peer" "name_hash X ''rtreticulum'' ''heltec_v3'' = Ret nh" "dst_hash d = truncated_hash X (nh @ id_hash peer)"
    "k = request_link X (length (dest_heap s)) None None 0 x e h" "length h = 16"
    "h = link_id X (request_flags d) (dst_hash d) CONTEXT_NONE (request_data X x e 0)"
    "packet_unpack X (packet_of_raw raw) = (True, p)" "pk_packet_type p = LINKREQUEST" "pk_destination_hash p = dst_hash d"
    "pk_data p = request_data X x e 0"
    "get_hashable_part p = (request_flags d AND 0b00001111) # dst_hash d @ CONTEXT_NONE # request_data X x e 0"
    "board_broadcast raw (asked d k (net_heap s) s) = (Ret (), asked d k hp s)"
    "\<forall>i<length hp. if_out (hp ! i) = if_out (net_heap s ! i) @ replicate (count_list (net_interfaces s) i) raw"
proof -
  note laws = crypto_lawsD[OF assms(1)]
  obtain r t where new: "destination_new X (Some peer) OUT SINGLE ''rtreticulum'' ''heltec_v3'' s = (Ret r, t)"
    using laws(1) by (auto simp: destination_new_def name_hash_def expand_name_def destination_hash_def alloc_dest_def Let_def)
  obtain d nh where d: "r = length (dest_heap s)" "t = s\<lparr>dest_heap := dest_heap s @ [d]\<rparr>" "dst_identity d = Some peer"
    "dst_hash d = truncated_hash X (nh @ id_hash peer)" "name_hash X ''rtreticulum'' ''heltec_v3'' = Ret nh"
    by (rule destination_new_fields[OF laws(1) new]) blast
  have heap: "r < length (dest_heap t)" "dest_heap t ! r = d" by (simp_all add: d(1,2))
  let ?fr = "\<lambda>x e. frame (request_flags d) 0 [] (dst_hash d) CONTEXT_NONE (request_data X x e 0)"
  obtain x e h where hid: "h = link_id X (request_flags d) (dst_hash d) CONTEXT_NONE (request_data X x e 0)"
    and req: "link_request X (\<lambda>l. register_link (Some l)) board_broadcast (Some r) None None 0 t =
      bnd (register_link (Some (length (link_heap t)))) (\<lambda>_. bnd (board_broadcast (?fr x e)) (\<lambda>_. ret (length (link_heap t))))
        (t\<lparr>hal_calls := hal_calls t + 2, link_heap := link_heap t @ [request_link X r None None 0 x e h]\<rparr>)"
    using request_run[OF assms(1) heap(1), where reg = "\<lambda>l. register_link (Some l)" and bc = board_broadcast and m = 0
        and est = None and cb = None] unfolding heap(2) by blast
  define k where "k = request_link X r None None 0 x e h"
  define t2 where "t2 = asked d k (net_heap s) s"
  have reg: "register_link (Some (length (link_heap t))) (t\<lparr>hal_calls := hal_calls t + 2, link_heap := link_heap t @ [k]\<rparr>) = (Ret (), t2)"
    by (simp add: register_link_def bnd_def get_link_run t2_def asked_def d(2))
  have ifs: "\<forall>i\<in>set (net_interfaces t2). i < length (net_heap t2)" using assms(2) by (simp add: t2_def asked_def)
  have put: "t2\<lparr>net_heap := hp\<rparr> = asked d k hp s" for hp by (simp add: t2_def asked_def)
  obtain hp where hp: "board_broadcast (?fr x e) t2 = (Ret (), asked d k hp s)"
    "\<forall>i<length hp. if_out (hp ! i) = if_out (net_heap s ! i) @ replicate (count_list (net_interfaces s) i) (?fr x e)"
    using board_broadcast_run[OF ifs, of "?fr x e"] unfolding put by (auto simp: t2_def asked_def)
  have run: "link_request X (\<lambda>l. register_link (Some l)) board_broadcast (Some r) None None 0 t =
      (Ret (length (link_heap s)), asked d k hp s)"
    unfolding req k_def[symmetric] bnd_Ret[where m = "register_link (Some (length (link_heap t)))", OF reg]
      bnd_Ret[where m = "board_broadcast (?fr x e)", OF hp(1)] by (simp add: d(2))
  have len: "length (dst_hash d) = 16" "length h = 16"
    unfolding d(4) hid link_id_def by (rule length_truncated_hash[OF laws(1)])+
  obtain u where u: "packet_unpack X (packet_of_raw (?fr x e)) = (True, u)" "pk_destination_hash u = dst_hash d"
    "pk_packet_type u = packet_type_of (request_flags d AND 0b00000011)" "pk_data u = request_data X x e 0"
    "get_hashable_part u = (request_flags d AND 0b00001111) # dst_hash d @ CONTEXT_NONE # request_data X x e 0"
    using unpack_narrow[OF narrow_flags(1) len(1), where X = X and h = 0 and c = CONTEXT_NONE] by blast
  have ty: "pk_packet_type u = LINKREQUEST"
    unfolding u(3) by (cases "dst_type d") (simp_all add: request_flags_def pack_flags_def packet_object_def packet_type_of_def)
  show thesis
    by (rule that[OF _ d(3,5,4) k_def[unfolded d(1)] len(2) hid u(1) ty u(2,4,5) hp(1)[unfolded t2_def] hp(2)])
      (simp add: bnd_Ret[where m = "destination_new X (Some peer) OUT SINGLE ''rtreticulum'' ''heltec_v3''", OF new] run)
qed

lemma board_heard_run:
  assumes "dh \<noteq> our_dst" "id_hash peer \<noteq> our_id" "bo_out_link s = None"
    "bnd (destination_new X (Some peer) OUT SINGLE ''rtreticulum'' ''heltec_v3'')
       (\<lambda>d. link_request X (\<lambda>l. register_link (Some l)) board_broadcast (Some d) None None 0) (s\<lparr>bo_rx := bo_rx s + 1\<rparr>) = (Ret l, t)"
  shows "board_heard X our_dst our_id dh peer s = (Ret (), t\<lparr>bo_out_link := Some l\<rparr>)"
proof -
  have "bnd (bnd (destination_new X (Some peer) OUT SINGLE ''rtreticulum'' ''heltec_v3'')
     (\<lambda>d. link_request X (\<lambda>l. register_link (Some l)) board_broadcast (Some d) None None 0))
     (\<lambda>l. modify (\<lambda>s. s\<lparr>bo_out_link := Some l\<rparr>)) (s\<lparr>bo_rx := bo_rx s + 1\<rparr>) = (Ret (), t\<lparr>bo_out_link := Some l\<rparr>)"
    using assms(4) by (simp add: bnd_def)
  then show ?thesis using assms(1-3) unfolding bnd_assoc by (simp add: board_heard_def)
qed

text \<open>
  An announce makes the board open its one outgoing link, unless it is the board's own, comes from the board's
  identity, or a link has ever been opened before (\<open>g_out_link\<close> is never reset). The request is a frame that is
  queued once on every interface and unpacks as a link request; it is addressed to the \<open>rtreticulum.heltec_v3\<close>
  destination of the announced identity, whatever destination was announced.
\<close>

theorem heard_peer:
  assumes "crypto_laws X" "\<forall>i\<in>set (net_interfaces s). i < length (net_heap s)"
  shows "if dh = our_dst \<or> id_hash peer = our_id \<or> bo_out_link s \<noteq> None
    then board_heard X our_dst our_id dh peer s = (Ret (), s\<lparr>bo_rx := bo_rx s + 1\<rparr>)
    else \<exists>s' l nh raw u. board_heard X our_dst our_id dh peer s = (Ret (), s') \<and> bo_rx s' = bo_rx s + 1 \<and>
      bo_out_link s' = Some l \<and> lk_status (link_heap s' ! l) = HANDSHAKE \<and> lk_initiator (link_heap s' ! l) \<and>
      find_link (lk_hash (link_heap s' ! l)) s' = Some l \<and>
      packet_unpack X (packet_of_raw raw) = (True, u) \<and> pk_packet_type u = LINKREQUEST \<and>
      name_hash X ''rtreticulum'' ''heltec_v3'' = Ret nh \<and> pk_destination_hash u = truncated_hash X (nh @ id_hash peer) \<and>
      (\<forall>i<length (net_heap s'). if_out (net_heap s' ! i) =
        if_out (net_heap s ! i) @ replicate (count_list (net_interfaces s) i) raw)"
proof (cases "dh = our_dst \<or> id_hash peer = our_id \<or> bo_out_link s \<noteq> None")
  case True
  then show ?thesis by (auto simp: board_heard_def)
next
  case False
  define s1 where "s1 = s\<lparr>bo_rx := bo_rx s + 1\<rparr>"
  have ifs: "\<forall>i\<in>set (net_interfaces s1). i < length (net_heap s1)" using assms(2) by (simp add: s1_def)
  obtain d nh x e h k raw hp p where
    req: "bnd (destination_new X (Some peer) OUT SINGLE ''rtreticulum'' ''heltec_v3'')
       (\<lambda>d. link_request X (\<lambda>l. register_link (Some l)) board_broadcast (Some d) None None 0) s1 =
      (Ret (length (link_heap s1)), asked d k hp s1)"
    and dest: "name_hash X ''rtreticulum'' ''heltec_v3'' = Ret nh" "dst_hash d = truncated_hash X (nh @ id_hash peer)"
    and k: "k = request_link X (length (dest_heap s1)) None None 0 x e h"
    and p: "packet_unpack X (packet_of_raw raw) = (True, p)" "pk_packet_type p = LINKREQUEST" "pk_destination_hash p = dst_hash d"
    and out: "\<forall>i<length hp. if_out (hp ! i) = if_out (net_heap s1 ! i) @ replicate (count_list (net_interfaces s1) i) raw"
    by (rule peer_link[OF assms(1) ifs, of peer])
  have "board_heard X our_dst our_id dh peer s = (Ret (), (asked d k hp s1)\<lparr>bo_out_link := Some (length (link_heap s1))\<rparr>)"
    using False req by (intro board_heard_run) (simp_all add: s1_def)
  then show ?thesis using False dest p out
    by (simp only: if_False) (intro exI[of _ "(asked d k hp s1)\<lparr>bo_out_link := Some (length (link_heap s1))\<rparr>"]
      exI[of _ "length (link_heap s1)"] exI[of _ nh] exI[of _ raw] exI[of _ p],
      simp add: find_link_def s1_def asked_def k request_link_def fresh_link_def)
qed

section \<open>Witnesses\<close>

definition toy_own :: dest where
  "toy_own = (toy_dest toy_id IN)\<lparr>dst_hash := truncated_hash toy (replicate 10 8 @ id_hash toy_id)\<rparr>"

definition toy_board :: board where
  "toy_board = \<lparr>hal_calls = 5, known_destinations = Map.empty, fs_impl = None, dest_heap = [toy_own], link_heap = [],
     res_heap = [], net_heap = [toy_iface Device, toy_iface Device], net_interfaces = [0, 1], net_destinations = Map.empty,
     net_paths = Map.empty, net_links = Map.empty, net_seen = {}, net_on_announce = None, net_on_link_request = None,
     nn_dest = Some 0, nn_name = ''node'', bo_announces = 0, bo_rx = 0, bo_link_tx = 0, bo_link_rx = 0, bo_out_link = None,
     bo_hello = False, bo_button = False, bo_off_at = 0, bo_last_idle = 0, bo_last_total = 0, bo_tick = 0, bo_next = 0,
     bo_oled = toy_oled False\<rparr>"

theorem heard_peer_witness:
  "\<exists>s' l. board_heard toy [1] [2] [3] toy_id toy_board = (Ret (), s') \<and> bo_out_link s' = Some l \<and>
    lk_status (link_heap s' ! l) = HANDSHAKE"
proof -
  have "\<forall>i\<in>set (net_interfaces toy_board). i < length (net_heap toy_board)" by (simp add: toy_board_def)
  from heard_peer[OF toy_laws this, of "[3]" "[1]" toy_id "[2]"]
  have "\<not> (id_hash toy_id = [2]) \<Longrightarrow> ?thesis" by (auto simp: toy_board_def)
  moreover have "length (id_hash toy_id) = 16"
    using length_truncated_hash[OF crypto_lawsD(1)[OF toy_laws]] by (simp add: toy_id_def key_identity_def)
  then have "id_hash toy_id \<noteq> [2]" by auto
  ultimately show ?thesis by blast
qed

end
