(* ===== verification/Peers.thy ===== *)
theory Peers
  imports Board Routing
begin

text \<open>
  Two boards: the callbacks the firmware gives to the transport (firmware/heltec_v3/main/main.cpp and
  nomadnet_node.cpp), and what happens from the first announce one board hears of the other to the greeting it
  sends over the link: the main program, the transport, the link and the cryptography of both sides together.
  Frames travel through the queues of the interfaces, which are devices.
\<close>

section \<open>Callbacks\<close>

text \<open>The callbacks of the board: the announce handler, the two link-request handlers (the second replaces the
  first when the NomadNet node starts) and the packet callback of \<open>board_link_request\<close>.\<close>

definition BOARD_HEARD :: nat where "BOARD_HEARD = 0"
definition BOARD_LINKS :: nat where "BOARD_LINKS = 1"

definition node_link_request :: "ext \<Rightarrow> nat \<Rightarrow> bytes \<Rightarrow> packet \<Rightarrow> ('a board_scheme, nat option) prog" where
  "node_link_request X d req pkt =
     link_validate_request X (\<lambda>l. register_link (Some l)) board_broadcast (Some d) req pkt"

definition board_app ::
  "ext \<Rightarrow> (bytes \<Rightarrow> ('a board_scheme, bytes) prog) \<Rightarrow> bytes \<Rightarrow> bytes \<Rightarrow> (bytes \<Rightarrow> ('a board_scheme, unit) prog) \<Rightarrow>
   'a board_scheme app" where
  "board_app X serve our_dst our_id bc =
     \<lparr>app_packet = (\<lambda>_ _ _. ret ()),
      app_generator = (\<lambda>_ path _ _ _ _. serve path),
      app_established = (\<lambda>_ _. ret ()),
      app_link_packet = (\<lambda>_ _ _. board_link_rx),
      app_announce = (\<lambda>_ dh peer _. board_heard X our_dst our_id dh peer),
      app_link_request = (\<lambda>cb r req pkt.
        if cb = NODE_LINKS then node_link_request X r req pkt else board_link_request X r req pkt)\<rparr>"

section \<open>Steps\<close>

definition devices :: "'a net_state_scheme \<Rightarrow> bool" where
  "devices s \<longleftrightarrow> (\<forall>i\<in>set (net_interfaces s). i < length (net_heap s) \<and> if_kind (net_heap s ! i) = Device)"

definition queued :: "bytes \<Rightarrow> 'a net_state_scheme \<Rightarrow> bool" where
  "queued f s \<longleftrightarrow> (\<forall>i\<in>set (net_interfaces s). f \<in> set (if_out (net_heap s ! i)))"

text \<open>Frames are added to the queues of interfaces that stay what they are.\<close>

definition grows :: "iface list \<Rightarrow> iface list \<Rightarrow> bool" where
  "grows h h' \<longleftrightarrow> length h' = length h \<and>
     (\<forall>i<length h. if_kind (h' ! i) = if_kind (h ! i) \<and> set (if_out (h ! i)) \<subseteq> set (if_out (h' ! i)))"

lemma grows_refl [simp]: "grows h h"
  by (simp add: grows_def)

lemma grows_trans: "grows h h' \<Longrightarrow> grows h' h'' \<Longrightarrow> grows h h''"
  by (fastforce simp: grows_def)

lemma grows_devices: "devices s \<Longrightarrow> grows (net_heap s) h \<Longrightarrow> devices (s\<lparr>net_heap := h\<rparr>)"
  by (simp add: devices_def grows_def)

lemma board_send_run:
  assumes "i < length (net_heap s)"
  shows "\<exists>h. board_send i raw s = (Ret (), s\<lparr>net_heap := h\<rparr>) \<and> grows (net_heap s) h \<and> raw \<in> set (if_out (h ! i))"
proof -
  let ?h = "(net_heap s)[i := (net_heap s ! i)\<lparr>if_out := if_out (net_heap s ! i) @ [raw]\<rparr>]"
  have "if_kind (?h ! j) = if_kind (net_heap s ! j) \<and> set (if_out (net_heap s ! j)) \<subseteq> set (if_out (?h ! j))" for j
    using assms by (cases "j = i") auto
  then show ?thesis using assms by (intro exI[of _ ?h]) (simp add: board_send_def set_iface_def grows_def)
qed

lemma grows_out: "grows h h' \<Longrightarrow> i < length h \<Longrightarrow> f \<in> set (if_out (h ! i)) \<Longrightarrow> f \<in> set (if_out (h' ! i))"
  by (auto simp: grows_def)

text \<open>Sending to every interface but one, by any way of sending that is the device's.\<close>

lemma sends_run:
  fixes s :: "'a board_scheme"
  assumes "\<And>i (t :: 'a board_scheme). i \<in> set js \<Longrightarrow> devices t \<Longrightarrow> i \<in> set (net_interfaces t) \<Longrightarrow> send i raw t = board_send i raw t"
    "devices s" "set js \<subseteq> set (net_interfaces s)"
  shows "\<exists>h. for_each js (\<lambda>i. if Some i = except then ret () else send i raw) s = (Ret (), s\<lparr>net_heap := h\<rparr>) \<and>
    grows (net_heap s) h \<and> (\<forall>i\<in>set js. Some i \<noteq> except \<longrightarrow> raw \<in> set (if_out (h ! i)))"
  using assms
proof (induction js arbitrary: s)
  case Nil
  show ?case by (intro exI[of _ "net_heap s"]) simp
next
  case (Cons i xs)
  note dev = Cons.prems(2)[unfolded devices_def]
  have "\<exists>h. (if Some i = except then ret () else send i raw) s = (Ret (), s\<lparr>net_heap := h\<rparr>) \<and> grows (net_heap s) h \<and>
      (Some i \<noteq> except \<longrightarrow> raw \<in> set (if_out (h ! i)))"
  proof (cases "Some i = except")
    case True
    then show ?thesis by (intro exI[of _ "net_heap s"]) simp
  next
    case False
    then show ?thesis using Cons.prems dev board_send_run[of i s raw] by simp
  qed
  then obtain h where h: "(if Some i = except then ret () else send i raw) s = (Ret (), s\<lparr>net_heap := h\<rparr>)" "grows (net_heap s) h"
    "Some i \<noteq> except \<longrightarrow> raw \<in> set (if_out (h ! i))" by blast
  obtain h' where h': "for_each xs (\<lambda>i. if Some i = except then ret () else send i raw) (s\<lparr>net_heap := h\<rparr>) =
      (Ret (), s\<lparr>net_heap := h'\<rparr>)" "grows h h'" "\<forall>i\<in>set xs. Some i \<noteq> except \<longrightarrow> raw \<in> set (if_out (h' ! i))"
    using Cons.IH[of "s\<lparr>net_heap := h\<rparr>"] Cons.prems grows_devices[OF Cons.prems(2) h(2)] by auto
  have "i < length h" using Cons.prems(3) dev h(2) by (simp add: grows_def)
  then have "Some i \<noteq> except \<longrightarrow> raw \<in> set (if_out (h' ! i))" using h(3) grows_out[OF h'(2)] by blast
  moreover have "for_each (i # xs) (\<lambda>i. if Some i = except then ret () else send i raw) s = (Ret (), s\<lparr>net_heap := h'\<rparr>)"
    by (simp only: for_each.simps bnd_Ret[where m = "if Some i = except then ret () else send i raw", OF h(1)] h'(1))
  ultimately show ?case using h'(3) grows_trans[OF h(2) h'(2)] by (intro exI[of _ h']) auto
qed

lemma board_queues:
  assumes "devices (s :: 'a board_scheme)"
  shows "\<exists>h. board_broadcast raw s = (Ret (), s\<lparr>net_heap := h\<rparr>) \<and> grows (net_heap s) h \<and> queued raw (s\<lparr>net_heap := h\<rparr>)"
  using sends_run[where send = board_send and js = "net_interfaces s" and except = None and raw = raw, OF refl assms order_refl]
  by (auto simp: board_broadcast_def broadcast_def queued_def)

lemma transport_queues:
  assumes "devices (s :: 'a board_scheme)"
  shows "\<exists>h. broadcast (send_outgoing X W A n) raw except s = (Ret (), s\<lparr>net_heap := h\<rparr>) \<and> grows (net_heap s) h"
proof -
  have "send_outgoing X W A n i raw t = board_send i raw t" if "devices t" "i \<in> set (net_interfaces t)" for i and t :: "'a board_scheme"
    using that by (simp add: devices_def send_outgoing_def send_via_def get_iface_def heap_get_def bnd_def board_send_def)
  from sends_run[where send = "send_outgoing X W A n" and js = "net_interfaces s" and except = except and raw = raw, OF this assms order_refl]
  show ?thesis by (auto simp: broadcast_def)
qed

lemma queued_grows: "queued f s \<Longrightarrow> devices s \<Longrightarrow> grows (net_heap s) h \<Longrightarrow> queued f (s\<lparr>net_heap := h\<rparr>)"
  by (auto simp: queued_def devices_def intro: grows_out)

lemma passed_on:
  assumes "devices (s :: 'a board_scheme)"
  obtains h where "when_do c (broadcast (send_outgoing X W A n) f via) s = (Ret (), s\<lparr>net_heap := h\<rparr>)" "grows (net_heap s) h"
proof (cases c)
  case True
  then show ?thesis using transport_queues[OF assms] that by fastforce
next
  case False
  then show ?thesis using that[of "net_heap s"] by simp
qed

text \<open>The request of a board: a link, and its frame in every queue.\<close>

lemma link_asked:
  fixes s :: "'a board_scheme"
  assumes "crypto_laws X" "devices s"
  obtains d nh x e h k f hp p where
    "bnd (destination_new X (Some peer) OUT SINGLE ''rtreticulum'' ''heltec_v3'')
       (\<lambda>d. link_request X (\<lambda>l. register_link (Some l)) board_broadcast (Some d) None None 0) s =
      (Ret (length (link_heap s)), asked d k hp s)"
    "devices (asked d k hp s)" "queued f (asked d k hp s)" "k = request_link X (length (dest_heap s)) None None 0 x e h"
    "dst_identity d = Some peer" "name_hash X ''rtreticulum'' ''heltec_v3'' = Ret nh" "dst_hash d = truncated_hash X (nh @ id_hash peer)"
    "length h = 16" "h = link_id X (request_flags d) (dst_hash d) CONTEXT_NONE (request_data X x e 0)"
    "packet_unpack X (packet_of_raw f) = (True, p)" "pk_packet_type p = LINKREQUEST" "pk_destination_hash p = dst_hash d"
    "pk_data p = request_data X x e 0"
    "get_hashable_part p = (request_flags d AND 0b00001111) # dst_hash d @ CONTEXT_NONE # request_data X x e 0"
proof -
  have ifs: "\<forall>i\<in>set (net_interfaces s). i < length (net_heap s)" using assms(2) by (simp add: devices_def)
  obtain d nh x e h k f hp p where
    req: "bnd (destination_new X (Some peer) OUT SINGLE ''rtreticulum'' ''heltec_v3'')
       (\<lambda>d. link_request X (\<lambda>l. register_link (Some l)) board_broadcast (Some d) None None 0) s =
      (Ret (length (link_heap s)), asked d k hp s)"
    and d: "dst_identity d = Some peer" "name_hash X ''rtreticulum'' ''heltec_v3'' = Ret nh" "dst_hash d = truncated_hash X (nh @ id_hash peer)"
    and k: "k = request_link X (length (dest_heap s)) None None 0 x e h" and h: "length h = 16"
      "h = link_id X (request_flags d) (dst_hash d) CONTEXT_NONE (request_data X x e 0)"
    and p: "packet_unpack X (packet_of_raw f) = (True, p)" "pk_packet_type p = LINKREQUEST" "pk_destination_hash p = dst_hash d"
      "pk_data p = request_data X x e 0"
      "get_hashable_part p = (request_flags d AND 0b00001111) # dst_hash d @ CONTEXT_NONE # request_data X x e 0"
    and bc: "board_broadcast f (asked d k (net_heap s) s) = (Ret (), asked d k hp s)"
    by (rule peer_link[OF assms(1) ifs, of peer])
  have "devices (asked d k (net_heap s) s)" using assms(2) by (simp add: asked_def devices_def)
  then obtain hp' where "board_broadcast f (asked d k (net_heap s) s) = (Ret (), (asked d k (net_heap s) s)\<lparr>net_heap := hp'\<rparr>)"
    "grows (net_heap s) hp'" "queued f ((asked d k (net_heap s) s)\<lparr>net_heap := hp'\<rparr>)"
    using board_queues[of "asked d k (net_heap s) s" f] by (auto simp: asked_def)
  then have "asked d k hp s = (asked d k (net_heap s) s)\<lparr>net_heap := hp'\<rparr>" "grows (net_heap s) hp'"
    and q: "queued f (asked d k hp s)" using bc by simp_all
  then have "devices (asked d k hp s)" using grows_devices[OF assms(2)] by (simp add: asked_def devices_def)
  then show ?thesis by (rule that[OF req _ q k d h p])
qed

text \<open>An announce of a peer: its path is entered, the link requested, and the announce passed on.\<close>

lemma announce_heard:
  fixes a :: "'a board_scheme"
  assumes "crypto_laws X" "packet_unpack X (packet_of_raw raw) = (True, u)" "pk_packet_type u = ANNOUNCE"
    "pk_packet_hash u \<notin> net_seen a" "valid_announce X u" "net_on_announce a = Some BOARD_HEARD" "devices a"
    "peer = load_public_key X (take 64 (pk_data u)) empty_identity" "pk_destination_hash u \<noteq> our_dst" "id_hash peer \<noteq> our_id"
    "bo_out_link a = None"
  obtains a1 d nh x e h f p where
    "transport_inbound X W (board_app X serve our_dst our_id) n raw via a = (Ret (), a1)"
    "devices a1" "queued f a1" "bo_out_link a1 = Some (length (link_heap a))" "bo_hello a1 = bo_hello a"
    "link_heap a1 = link_heap a @ [request_link X (length (dest_heap a)) None None 0 x e h]"
    "dest_heap a1 = dest_heap a @ [d]" "net_links a1 h = Some (length (link_heap a))"
    "dst_identity d = Some peer" "name_hash X ''rtreticulum'' ''heltec_v3'' = Ret nh" "dst_hash d = truncated_hash X (nh @ id_hash peer)"
    "length h = 16" "h = link_id X (request_flags d) (dst_hash d) CONTEXT_NONE (request_data X x e 0)"
    "packet_unpack X (packet_of_raw f) = (True, p)" "pk_packet_type p = LINKREQUEST" "pk_destination_hash p = dst_hash d"
    "pk_data p = request_data X x e 0"
    "get_hashable_part p = (request_flags d AND 0b00001111) # dst_hash d @ CONTEXT_NONE # request_data X x e 0"
proof -
  let ?A = "board_app X serve our_dst our_id"
  let ?app = "?A (\<lambda>f. broadcast (send_outgoing X W ?A n) f None)"
  obtain c t t' where acc: "process_announce X ?app (broadcast (send_outgoing X W ?A n)) u via a =
    bnd (board_heard X our_dst our_id (pk_destination_hash u) peer) (\<lambda>_.
    bnd (when_do (unat (pk_hops u) < 128) (broadcast (send_outgoing X W ?A n) (next_hop_frame (pk_raw u) (pk_hops u)) via)) (\<lambda>_.
    ret True)) (announced_state u via c t t' a)" (is "_ = bnd _ _ ?s")
    using announce_accept[OF assms(4,5), of ?app "broadcast (send_outgoing X W ?A n)" via] assms(6,8) by (auto simp: board_app_def)
  define s1 where "s1 = ?s\<lparr>bo_rx := bo_rx ?s + 1\<rparr>"
  have dev: "devices s1" using assms(7) by (simp add: s1_def announced_state_def devices_def)
  obtain d nh x e h k f hp p where
    req: "bnd (destination_new X (Some peer) OUT SINGLE ''rtreticulum'' ''heltec_v3'')
       (\<lambda>d. link_request X (\<lambda>l. register_link (Some l)) board_broadcast (Some d) None None 0) s1 =
      (Ret (length (link_heap s1)), asked d k hp s1)"
    and ask: "devices (asked d k hp s1)" "queued f (asked d k hp s1)" and k: "k = request_link X (length (dest_heap s1)) None None 0 x e h"
    and d: "dst_identity d = Some peer" "name_hash X ''rtreticulum'' ''heltec_v3'' = Ret nh" "dst_hash d = truncated_hash X (nh @ id_hash peer)"
    and h: "length h = 16" "h = link_id X (request_flags d) (dst_hash d) CONTEXT_NONE (request_data X x e 0)"
    and p: "packet_unpack X (packet_of_raw f) = (True, p)" "pk_packet_type p = LINKREQUEST" "pk_destination_hash p = dst_hash d"
      "pk_data p = request_data X x e 0"
      "get_hashable_part p = (request_flags d AND 0b00001111) # dst_hash d @ CONTEXT_NONE # request_data X x e 0"
    by (rule link_asked[OF assms(1) dev, of peer])
  let ?s2 = "(asked d k hp s1)\<lparr>bo_out_link := Some (length (link_heap s1))\<rparr>"
  have q: "devices ?s2" "queued f ?s2" using ask by (simp_all add: devices_def queued_def)
  have heard: "board_heard X our_dst our_id (pk_destination_hash u) peer ?s = (Ret (), ?s2)"
    using assms(9-11) req by (intro board_heard_run) (simp_all add: s1_def announced_state_def)
  obtain hp2 where hp2: "when_do (unat (pk_hops u) < 128) (broadcast (send_outgoing X W ?A n) (next_hop_frame (pk_raw u) (pk_hops u)) via) ?s2 =
      (Ret (), ?s2\<lparr>net_heap := hp2\<rparr>)" "grows (net_heap ?s2) hp2"
    by (rule passed_on[OF q(1)])
  have proc: "process_announce X ?app (broadcast (send_outgoing X W ?A n)) u via a = (Ret True, ?s2\<lparr>net_heap := hp2\<rparr>)"
    unfolding acc bnd_Ret[where m = "board_heard X our_dst our_id (pk_destination_hash u) peer", OF heard]
      bnd_Ret[where m = "when_do (unat (pk_hops u) < 128) (broadcast (send_outgoing X W ?A n) (next_hop_frame (pk_raw u) (pk_hops u)) via)", OF hp2(1)]
    by simp
  have run: "transport_inbound X W ?A n raw via a = (Ret (), ?s2\<lparr>net_heap := hp2\<rparr>)"
    by (simp add: transport_inbound_def inbound_with_def Let_def assms(2,3)
        bnd_Ret[where m = "process_announce X ?app (broadcast (send_outgoing X W ?A n)) u via", OF proc])
  show ?thesis
    by (rule that[OF run grows_devices[OF q(1) hp2(2)] queued_grows[OF q(2,1) hp2(2)] _ _ _ _ _ d h p])
      (simp_all add: asked_def s1_def announced_state_def k request_link_def)
qed

text \<open>A request for the board's own destination: the link is entered, and the proof queued.\<close>

definition answered :: "link \<Rightarrow> iface list \<Rightarrow> 'a board_scheme \<Rightarrow> 'a board_scheme" where
  "answered k hp s = s\<lparr>hal_calls := hal_calls s + 2, link_heap := link_heap s @ [k],
     net_links := (net_links s)(lk_hash k \<mapsto> length (link_heap s)), net_heap := hp\<rparr>"

lemma answer_run:
  fixes b :: "'a board_scheme"
  assumes "crypto_laws X" "own < length (dest_heap b)" "dst_identity (dest_heap b ! own) = Some (key_identity X ia ie ap)"
    "length (pk_data p) = 64 \<or> length (pk_data p) = 67" "get_hashable_part p = (f AND 0b00001111) # dh @ c # pk_data p"
    "h = link_id X f dh c (pk_data p)" "devices b"
  obtains y ye k t g v hp where "session_keys X y (take 32 (pk_data p)) h k t"
    "node_link_request X own (pk_data p) p b =
      (Ret (Some (length (link_heap b))), answered (responder_link X own (pk_data p) h y ye k t) hp b)"
    "grows (net_heap b) hp" "queued g (answered (responder_link X own (pk_data p) h y ye k t) hp b)"
    "packet_unpack X (packet_of_raw g) = (True, v)" "pk_destination_hash v = h" "pk_context v = LRPROOF"
    "pk_packet_type v = PROOF" "pk_data v = proof_data X ie h y (pk_data p)"
proof -
  let ?g = "\<lambda>y. frame (link_flags PROOF) 0 [] h LRPROOF (proof_data X ie h y (pk_data p))"
  obtain y ye k t where kt: "session_keys X y (take 32 (pk_data p)) h k t"
    and val: "node_link_request X own (pk_data p) p b =
      bnd (register_link (Some (length (link_heap b)))) (\<lambda>_. bnd (board_broadcast (?g y)) (\<lambda>_. ret (Some (length (link_heap b)))))
        (b\<lparr>hal_calls := hal_calls b + 2, link_heap := link_heap b @ [responder_link X own (pk_data p) h y ye k t]\<rparr>)"
    using validate_run[OF assms(1-5), where reg = "\<lambda>l. register_link (Some l)" and bc = board_broadcast]
    unfolding assms(6)[symmetric] proof_data_def node_link_request_def by blast
  let ?k = "responder_link X own (pk_data p) h y ye k t"
  have reg: "register_link (Some (length (link_heap b))) (b\<lparr>hal_calls := hal_calls b + 2, link_heap := link_heap b @ [?k]\<rparr>) =
      (Ret (), answered ?k (net_heap b) b)"
    by (simp add: register_link_def bnd_def get_link_run answered_def)
  have "devices (answered ?k (net_heap b) b)" using assms(7) by (simp add: answered_def devices_def)
  moreover have put: "(answered ?k (net_heap b) b)\<lparr>net_heap := hp\<rparr> = answered ?k hp b" for hp by (simp add: answered_def)
  ultimately obtain hp where hp: "board_broadcast (?g y) (answered ?k (net_heap b) b) = (Ret (), answered ?k hp b)"
    "grows (net_heap b) hp" "queued (?g y) (answered ?k hp b)"
    using board_queues[of "answered ?k (net_heap b) b" "?g y"] unfolding put by (auto simp: answered_def)
  have run: "node_link_request X own (pk_data p) p b = (Ret (Some (length (link_heap b))), answered ?k hp b)"
    unfolding val bnd_Ret[where m = "register_link (Some (length (link_heap b)))", OF reg] bnd_Ret[where m = "board_broadcast (?g y)", OF hp(1)]
    by simp
  have hl: "length h = 16"
    unfolding assms(6) link_id_def by (rule length_truncated_hash[OF crypto_lawsD(1)[OF assms(1)]])
  obtain v where v: "packet_unpack X (packet_of_raw (?g y)) = (True, v)"
    "pk_destination_hash v = h" "pk_context v = LRPROOF" "pk_data v = proof_data X ie h y (pk_data p)"
    "pk_packet_type v = packet_type_of (link_flags PROOF AND 0b00000011)"
    using unpack_narrow[OF _ hl, where X = X and h = 0 and c = LRPROOF] narrow_flags unfolding link_flags_values by blast
  have "pk_packet_type v = PROOF" unfolding v(5) by (simp add: link_flags_values packet_type_of_def)
  then show ?thesis using that[OF kt run hp(2,3) v(1-3) _ v(4)] by simp
qed

text \<open>The link of a request that a handler accepted.\<close>

definition accepted :: "nat \<Rightarrow> link \<Rightarrow> link" where
  "accepted cb k = (if cb = NODE_LINKS then k else k\<lparr>lk_on_packet := Some (App_cb BOARD_LINK_RX)\<rparr>)"

lemma accepted_simps [simp]:
  "lk_hash (accepted cb k) = lk_hash k" "lk_status (accepted cb k) = lk_status k" "lk_token (accepted cb k) = lk_token k"
  "lk_mtu (accepted cb k) = lk_mtu k" "lk_shared_session_key (accepted cb k) = lk_shared_session_key k"
  by (simp_all add: accepted_def)

lemma same_session_accepted [simp]: "same_session l (accepted cb k) = same_session l k"
  by (simp add: same_session_def)

lemma handler_run:
  assumes "node_link_request X own d p b = (Ret (Some (length (link_heap b))), answered k hp b)"
  shows "app_link_request (board_app X serve our_dst our_id bc) cb own d p b =
    (Ret (Some (length (link_heap b))), answered (accepted cb k) hp b)"
proof -
  let ?l = "length (link_heap b)"
  have 1: "board_link_request X own d p b =
      bnd (node_link_request X own d p) (\<lambda>lo. case lo of None \<Rightarrow> ret None
        | Some l \<Rightarrow> bnd (set_link_packet_callback l (Some (App_cb BOARD_LINK_RX))) (\<lambda>_. ret (Some l))) b"
    by (simp add: board_link_request_def node_link_request_def)
  have 2: "set_link_packet_callback ?l (Some (App_cb BOARD_LINK_RX)) (answered k hp b) =
      (Ret (), answered (k\<lparr>lk_on_packet := Some (App_cb BOARD_LINK_RX)\<rparr>) hp b)"
    by (simp add: set_link_packet_callback_def with_link_def answered_def)
  have "board_link_request X own d p b = (Ret (Some ?l), answered (k\<lparr>lk_on_packet := Some (App_cb BOARD_LINK_RX)\<rparr>) hp b)"
    unfolding 1 bnd_Ret[where m = "node_link_request X own d p", OF assms] option.case
      bnd_Ret[where m = "set_link_packet_callback ?l (Some (App_cb BOARD_LINK_RX))", OF 2] by simp
  then show ?thesis using assms by (simp add: board_app_def accepted_def)
qed

lemma request_answered:
  fixes b :: "'a board_scheme"
  assumes "crypto_laws X" "own < length (dest_heap b)" "dst_identity (dest_heap b ! own) = Some (key_identity X ia ie ap)"
    "length (pk_data p) = 64 \<or> length (pk_data p) = 67" "get_hashable_part p = (fl AND 0b00001111) # dh @ c # pk_data p"
    "h = link_id X fl dh c (pk_data p)" "devices b" "packet_unpack X (packet_of_raw f) = (True, p)"
    "pk_packet_type p = LINKREQUEST" "net_destinations b (pk_destination_hash p) = Some own" "net_on_link_request b = Some cb"
  obtains b1 y ye k t g v where "session_keys X y (take 32 (pk_data p)) h k t"
    "transport_inbound X W (board_app X serve our_dst our_id) n f via b = (Ret (), b1)" "devices b1" "queued g b1"
    "link_heap b1 = link_heap b @ [accepted cb (responder_link X own (pk_data p) h y ye k t)]"
    "net_links b1 h = Some (length (link_heap b))" "net_destinations b1 = net_destinations b"
    "packet_unpack X (packet_of_raw g) = (True, v)" "pk_destination_hash v = h" "pk_context v = LRPROOF"
    "pk_packet_type v = PROOF" "pk_data v = proof_data X ie h y (pk_data p)"
proof -
  obtain y ye k t g v hp where kt: "session_keys X y (take 32 (pk_data p)) h k t"
    and run: "node_link_request X own (pk_data p) p b =
      (Ret (Some (length (link_heap b))), answered (responder_link X own (pk_data p) h y ye k t) hp b)"
    and hp: "grows (net_heap b) hp" "queued g (answered (responder_link X own (pk_data p) h y ye k t) hp b)"
    and v: "packet_unpack X (packet_of_raw g) = (True, v)" "pk_destination_hash v = h" "pk_context v = LRPROOF"
      "pk_packet_type v = PROOF" "pk_data v = proof_data X ie h y (pk_data p)"
    by (rule answer_run[OF assms(1-7)])
  let ?l = "length (link_heap b)" and ?A = "board_app X serve our_dst our_id"
  define lk where "lk = accepted cb (responder_link X own (pk_data p) h y ye k t)"
  have hash: "lk_hash lk = h" by (simp add: lk_def responder_link_def opened_link_def)
  have app: "app_link_request (?A bc) cb own (pk_data p) p b = (Ret (Some ?l), answered lk hp b)" for bc
    unfolding lk_def by (rule handler_run[OF run])
  have got: "get_link ?l (answered lk hp b) = (Ret lk, answered lk hp b)" by (simp add: get_link_run answered_def)
  have "transport_inbound X W ?A n f via b = (Ret (), answered lk hp b)"
    by (simp add: transport_inbound_def inbound_with_def Let_def assms(8-11)
        bnd_Ret[where m = "app_link_request (?A bc) cb own (pk_data p) p" for bc, OF app] bnd_Ret[where m = "get_link ?l", OF got])
      (simp add: answered_def hash)
  moreover have "devices (answered lk hp b)" using assms(7) hp(1) by (simp add: answered_def devices_def grows_def)
  moreover have "queued g (answered lk hp b)" using hp(2) by (simp add: queued_def answered_def)
  ultimately show ?thesis using that[OF kt _ _ _ _ _ _ v, of "answered lk hp b"] hash
    by (simp add: answered_def lk_def)
qed

text \<open>A proof for a link of the registry goes to the link.\<close>

lemma proof_inbound:
  assumes "packet_unpack X (packet_of_raw g) = (True, v)" "pk_packet_type v = PROOF" "pk_context v = LRPROOF"
    "net_links s (pk_destination_hash v) = Some l"
  shows "transport_inbound X W A n g via s = link_on_proof X (A (\<lambda>f. broadcast (send_outgoing X W A n) f None)) l v s"
  using assms by (simp add: transport_inbound_def inbound_with_def Let_def)

text \<open>The greeting, once the link is active.\<close>

lemma greeting_sent:
  fixes a :: "'a board_scheme"
  assumes "crypto_laws X" "devices a" "bo_out_link a = Some r" "\<not> bo_hello a" "r < length (link_heap a)"
    "lk_status (link_heap a ! r) = ACTIVE" "lk_token (link_heap a ! r) = Some t" "token_ok t"
  obtains a1 ct where "turn_hello X ih a = (Ret (), a1)" "bo_hello a1" "bo_link_tx a1 = bo_link_tx a + 1"
    "queued (frame 0x0C 0 [] (lk_hash (link_heap a ! r)) CONTEXT_NONE ct) a1"
    "token_decrypt X t ct = Ret (str_bytes (''hello from '' @ take 8 ih))"
proof -
  let ?m = "str_bytes (''hello from '' @ take 8 ih)"
  obtain ct where ct: "token_encrypt X t ?m a = (Ret ct, a\<lparr>hal_calls := hal_calls a + 1\<rparr>)" "token_decrypt X t ct = Ret ?m"
    using token_sealed[OF assms(1,8)] by blast
  let ?f = "frame 0x0C 0 [] (lk_hash (link_heap a ! r)) CONTEXT_NONE ct" and ?s = "a\<lparr>hal_calls := hal_calls a + 1\<rparr>"
  have "devices ?s" using assms(2) by (simp add: devices_def)
  from board_queues[OF this, of ?f]
  obtain h where h: "board_broadcast ?f ?s = (Ret (), ?s\<lparr>net_heap := h\<rparr>)" "queued ?f (?s\<lparr>net_heap := h\<rparr>)" by auto
  have send: "link_send X board_broadcast r ?m a = (Ret (), ?s\<lparr>net_heap := h\<rparr>)"
    using send_run[OF assms(5-7) ct(1)] h(1) by (simp add: link_send_def)
  let ?a = "a\<lparr>hal_calls := hal_calls a + 1, net_heap := h, bo_link_tx := bo_link_tx a + 1, bo_hello := True\<rparr>"
  have "send_hello X ih r a = (Ret (), ?a)"
    unfolding send_hello_def bnd_Ret[where m = "link_send X board_broadcast r ?m", OF send] by simp
  then have "turn_hello X ih a = (Ret (), ?a)"
    using assms(3-6) by (simp add: turn_hello_def get_link_run try_catch_def bnd_def)
  moreover have "queued ?f ?a" using h(2) by (simp add: queued_def)
  ultimately show ?thesis using that ct(2) by simp
qed

text \<open>Data for a link of the registry, where the board has no destination of that hash.\<close>

lemma greeting_received:
  fixes b :: "'a board_scheme"
  assumes "net_destinations b h = None" "net_links b h = Some k" "k < length (link_heap b)" "length h = 16"
    "lk_status (link_heap b ! k) = ACTIVE" "lk_token (link_heap b ! k) = Some t" "token_decrypt X t ct = Ret m" "m \<noteq> []"
  shows "transport_inbound X W (board_app X serve our_dst our_id) n (frame 0x0C 0 [] h CONTEXT_NONE ct) via b =
    (Ret (), case lk_on_packet (link_heap b ! k) of None \<Rightarrow> b | Some cb \<Rightarrow> b\<lparr>bo_link_rx := bo_link_rx b + 1\<rparr>)"
proof -
  obtain u where u: "packet_unpack X (packet_of_raw (frame 0x0C 0 [] h CONTEXT_NONE ct)) = (True, u)" "pk_destination_hash u = h"
    "pk_context u = CONTEXT_NONE" "pk_data u = ct" "pk_packet_type u = packet_type_of (0x0C AND 0b00000011)"
    using unpack_narrow[OF narrow_flags(2) assms(4), where X = X and h = 0 and c = CONTEXT_NONE] by blast
  have none: "CONTEXT_NONE \<noteq> REQUEST" by (simp add: CONTEXT_NONE_def REQUEST_def)
  have ty: "pk_packet_type u = DATA" unfolding u(5) by (simp add: packet_type_of_def)
  show ?thesis using assms(1,2,7,8) u(2-4) ty none
    by (simp add: transport_inbound_def inbound_with_def Let_def u(1) inbound_run[OF assms(3,5,6) ty] board_app_def board_link_rx_def
      split: option.split)
qed

text \<open>The handshake of two boards over their transports, from an announce of \<open>b\<close> that \<open>a\<close> hears.\<close>

lemma boards_linked:
  fixes a :: board and b :: board
  assumes "crypto_laws X" "i = key_identity X ia ie []"
    "packet_unpack X (packet_of_raw raw) = (True, u)" "pk_packet_type u = ANNOUNCE" "valid_announce X u"
    "take 64 (pk_data u) = get_public_key i" "pk_packet_hash u \<notin> net_seen a" "net_on_announce a = Some BOARD_HEARD"
    "pk_destination_hash u \<noteq> our_dst" "id_hash i \<noteq> our_id" "bo_out_link a = None" "devices a"
    "name_hash X ''rtreticulum'' ''heltec_v3'' = Ret nh" "net_destinations b (truncated_hash X (nh @ id_hash i)) = Some own"
    "own < length (dest_heap b)" "dst_identity (dest_heap b ! own) = Some i" "net_on_link_request b = Some cb" "devices b"
  obtains a1 f b1 g a2 l k where
    "transport_inbound X W (board_app X serve our_dst our_id) n raw via a = (Ret (), a1)" "queued f a1"
    "transport_inbound X W' (board_app X serve' dst' id') n' f via' b = (Ret (), b1)" "queued g b1"
    "transport_inbound X W (board_app X serve our_dst our_id) n g via a1 = (Ret (), a2)" "devices a2"
    "bo_out_link a2 = Some l" "bo_hello a2 = bo_hello a" "l < length (link_heap a2)" "k < length (link_heap b1)"
    "same_session (link_heap a2 ! l) (link_heap b1 ! k)"
    "net_links b1 (lk_hash (link_heap b1 ! k)) = Some k" "net_destinations b1 = net_destinations b"
    "lk_on_packet (link_heap b1 ! k) = (if cb = NODE_LINKS then None else Some (App_cb BOARD_LINK_RX))"
proof -
  note laws = crypto_lawsD[OF assms(1)]
  let ?A = "board_app X serve our_dst our_id" and ?B = "board_app X serve' dst' id'"
  let ?l = "length (link_heap a)" and ?k = "length (link_heap b)"
  note i = assms(2)
  define peer where "peer = load_public_key X (get_public_key i) empty_identity"
  have ih: "id_hash peer = id_hash i" by (simp add: peer_def loaded_public_key i get_key_identity)
  have pr: "peer = load_public_key X (take 64 (pk_data u)) empty_identity" "id_hash peer \<noteq> our_id"
    using ih assms(6,10) by (simp_all add: peer_def)
  obtain a1 d nh' x e h f p where A1: "transport_inbound X W ?A n raw via a = (Ret (), a1)"
    "devices a1" "queued f a1" "bo_out_link a1 = Some ?l" "bo_hello a1 = bo_hello a"
    "link_heap a1 = link_heap a @ [request_link X (length (dest_heap a)) None None 0 x e h]"
    "dest_heap a1 = dest_heap a @ [d]" "net_links a1 h = Some ?l"
    and d: "dst_identity d = Some peer" "name_hash X ''rtreticulum'' ''heltec_v3'' = Ret nh'" "dst_hash d = truncated_hash X (nh' @ id_hash peer)"
    and h: "length h = 16" "h = link_id X (request_flags d) (dst_hash d) CONTEXT_NONE (request_data X x e 0)"
    and p: "packet_unpack X (packet_of_raw f) = (True, p)" "pk_packet_type p = LINKREQUEST" "pk_destination_hash p = dst_hash d"
      "pk_data p = request_data X x e 0"
      "get_hashable_part p = (request_flags d AND 0b00001111) # dst_hash d @ CONTEXT_NONE # request_data X x e 0"
    by (rule announce_heard[OF assms(1,3,4,7,5,8,12) pr(1) assms(9) pr(2) assms(11), where W = W and serve = serve and n = n and via = via])
  have dest: "net_destinations b (pk_destination_hash p) = Some own" using assms(13,14) d(2,3) ih p(3) by simp
  have len: "length (pk_data p) = 64 \<or> length (pk_data p) = 67" using length_request_data[OF laws(5,6)] by (simp add: p(4))
  have hash: "get_hashable_part p = (request_flags d AND 0b00001111) # dst_hash d @ CONTEXT_NONE # pk_data p"
    and hid: "h = link_id X (request_flags d) (dst_hash d) CONTEXT_NONE (pk_data p)"
    using p(4,5) h(2) by simp_all
  obtain b1 y ye k t g v where kt: "session_keys X y (take 32 (pk_data p)) h k t"
    and B1: "transport_inbound X W' ?B n' f via' b = (Ret (), b1)" "devices b1" "queued g b1"
      "link_heap b1 = link_heap b @ [accepted cb (responder_link X own (pk_data p) h y ye k t)]"
      "net_links b1 h = Some ?k" "net_destinations b1 = net_destinations b"
    and v: "packet_unpack X (packet_of_raw g) = (True, v)" "pk_destination_hash v = h" "pk_context v = LRPROOF"
      "pk_packet_type v = PROOF" "pk_data v = proof_data X ie h y (pk_data p)"
    by (rule request_answered[OF assms(1,15) assms(16)[unfolded i] len hash hid assms(18) p(1,2) dest assms(17),
        where W = W' and serve = serve' and our_dst = dst' and our_id = id' and n = n' and via = via'])
  define la where "la = (proof_link (signalling_of (pk_data p)) (x_x25519_pub X y) k t (request_link X (length (dest_heap a)) None None 0 x e h))\<lparr>lk_status := ACTIVE\<rparr>"
  define a2 where "a2 = put_link ?l la a1"
  have kt': "session_keys X x (x_x25519_pub X y) h k t"
    using kt session_keys_swap[OF laws(5)] by (simp add: p(4) request_data_def law_simps laws)
  have ok: "token_ok t" using kt by (auto simp: session_keys_def intro: token_new_ok)
  have A2: "transport_inbound X W ?A n g via a1 = (Ret (), a2)"
    unfolding a2_def la_def proof_inbound[OF v(1,4,3), unfolded v(2), OF A1(8)]
    by (rule active_proof[OF assms(1), where ia = ia and app' = "[]", OF _ _ _ _ v(5) kt'])
      (simp_all add: A1(6,7) d(1) peer_def i)
  have ses: "same_session la (responder_link X own (pk_data p) h y ye k t)"
    unfolding la_def p(4) using session_agreed[OF assms(1) h(1) ok] by blast
  have heap: "link_heap a2 ! ?l = la" "link_heap b1 ! ?k = accepted cb (responder_link X own (pk_data p) h y ye k t)"
    by (simp_all add: a2_def A1(6) B1(4))
  have "lk_on_packet (link_heap b1 ! ?k) = (if cb = NODE_LINKS then None else Some (App_cb BOARD_LINK_RX))"
    "lk_hash (link_heap b1 ! ?k) = h"
    unfolding heap by (simp_all add: accepted_def responder_link_def opened_link_def fresh_link_def)
  then show ?thesis using A1(2,4-6) B1(4-6) ses heap
    by (intro that[OF A1(1,3) B1(1,3) A2, of ?l ?k]) (simp_all add: a2_def put_link_def devices_def)
qed

text \<open>The greeting on that session.\<close>

lemma boards_meet:
  fixes a :: board and b :: board
  assumes "crypto_laws X" "i = key_identity X ia ie []"
    "packet_unpack X (packet_of_raw raw) = (True, u)" "pk_packet_type u = ANNOUNCE" "valid_announce X u"
    "take 64 (pk_data u) = get_public_key i" "pk_packet_hash u \<notin> net_seen a" "net_on_announce a = Some BOARD_HEARD"
    "pk_destination_hash u \<noteq> our_dst" "id_hash i \<noteq> our_id" "bo_out_link a = None" "\<not> bo_hello a" "devices a"
    "name_hash X ''rtreticulum'' ''heltec_v3'' = Ret nh" "net_destinations b (truncated_hash X (nh @ id_hash i)) = Some own"
    "own < length (dest_heap b)" "dst_identity (dest_heap b ! own) = Some i" "net_on_link_request b = Some cb" "devices b"
  shows "\<exists>a1 request b1 answer a2 a3 greeting l k.
    transport_inbound X W (board_app X serve our_dst our_id) n raw via a = (Ret (), a1) \<and> queued request a1 \<and>
    transport_inbound X W' (board_app X serve' dst' id') n' request via' b = (Ret (), b1) \<and> queued answer b1 \<and>
    transport_inbound X W (board_app X serve our_dst our_id) n answer via a1 = (Ret (), a2) \<and>
    bo_out_link a2 = Some l \<and> same_session (link_heap a2 ! l) (link_heap b1 ! k) \<and>
    turn_hello X id_hex a2 = (Ret (), a3) \<and> bo_hello a3 \<and> queued greeting a3 \<and>
    (net_destinations b (lk_hash (link_heap b1 ! k)) = None \<longrightarrow>
      transport_inbound X W' (board_app X serve' dst' id') n' greeting via' b1 =
        (Ret (), if cb = NODE_LINKS then b1 else b1\<lparr>bo_link_rx := bo_link_rx b1 + 1\<rparr>))"
proof -
  obtain a1 f b1 g a2 l k where 1: "transport_inbound X W (board_app X serve our_dst our_id) n raw via a = (Ret (), a1)" "queued f a1"
    and 2: "transport_inbound X W' (board_app X serve' dst' id') n' f via' b = (Ret (), b1)" "queued g b1"
    and 3: "transport_inbound X W (board_app X serve our_dst our_id) n g via a1 = (Ret (), a2)" "devices a2"
      "bo_out_link a2 = Some l" "bo_hello a2 = bo_hello a" "l < length (link_heap a2)"
    and k: "k < length (link_heap b1)" "same_session (link_heap a2 ! l) (link_heap b1 ! k)"
      "net_links b1 (lk_hash (link_heap b1 ! k)) = Some k" "net_destinations b1 = net_destinations b"
      "lk_on_packet (link_heap b1 ! k) = (if cb = NODE_LINKS then None else Some (App_cb BOARD_LINK_RX))"
    by (rule boards_linked[OF assms(1-11,13-19), where W = W and serve = serve and n = n and via = via and W' = W'
        and serve' = serve' and dst' = dst' and id' = id' and n' = n' and via' = via'])
  obtain t where t: "lk_token (link_heap a2 ! l) = Some t" "lk_token (link_heap b1 ! k) = Some t" "token_ok t"
    and st: "lk_status (link_heap a2 ! l) = ACTIVE" "lk_status (link_heap b1 ! k) = ACTIVE"
      "lk_hash (link_heap a2 ! l) = lk_hash (link_heap b1 ! k)" "length (lk_hash (link_heap b1 ! k)) = 16"
    using k(2) by (auto simp: same_session_def)
  let ?f = "\<lambda>ct. frame 0x0C 0 [] (lk_hash (link_heap b1 ! k)) CONTEXT_NONE ct"
  have "\<not> bo_hello a2" using assms(12) 3(4) by simp
  then obtain a3 ct where hello: "turn_hello X id_hex a2 = (Ret (), a3)" "bo_hello a3" "queued (?f ct) a3"
    "token_decrypt X t ct = Ret (str_bytes (''hello from '' @ take 8 id_hex))"
    using greeting_sent[OF assms(1) 3(2,3) _ 3(5) st(1) t(1,3), of id_hex] unfolding st(3) by metis
  have "transport_inbound X W' (board_app X serve' dst' id') n' (?f ct) via' b1 =
      (Ret (), if cb = NODE_LINKS then b1 else b1\<lparr>bo_link_rx := bo_link_rx b1 + 1\<rparr>)"
    if "net_destinations b (lk_hash (link_heap b1 ! k)) = None"
    using greeting_received[OF _ k(3,1) st(4,2) t(2) hello(4)] that k(4,5) by simp
  then show ?thesis using 1 2 3(1,3) k(2) hello(1-3)
    by (intro exI[of _ a1] exI[of _ f] exI[of _ b1] exI[of _ g] exI[of _ a2] exI[of _ a3] exI[of _ "?f ct"] exI[of _ l] exI[of _ k]
      conjI impI)
qed

section \<open>Properties\<close>

text \<open>
  C5: Two boards meet. When board \<open>a\<close> hears a valid announce that carries the identity of board \<open>b\<close>, a link
  request leaves on all its interfaces; \<open>b\<close> answers it with a proof, with which \<open>a\<close> enters the session \<open>b\<close>
  already holds; the next turn of the loop of \<open>a\<close> sends the greeting, and \<open>b\<close> decrypts it. Whether \<open>b\<close> counts it
  depends on the link-request handler: the one main installs counts it, the one the NomadNet node replaces it
  with drops it.
\<close>

theorem boards_greet:
  fixes a :: board and b :: board
  assumes "crypto_laws X" "create_identity X z = (Ret i, z')"
    "packet_unpack X (packet_of_raw raw) = (True, u)" "pk_packet_type u = ANNOUNCE" "valid_announce X u"
    "take 64 (pk_data u) = get_public_key i" "pk_packet_hash u \<notin> net_seen a" "net_on_announce a = Some BOARD_HEARD"
    "pk_destination_hash u \<noteq> our_dst" "id_hash i \<noteq> our_id" "bo_out_link a = None" "\<not> bo_hello a" "devices a"
    "name_hash X ''rtreticulum'' ''heltec_v3'' = Ret nh" "net_destinations b (truncated_hash X (nh @ id_hash i)) = Some own"
    "own < length (dest_heap b)" "dst_identity (dest_heap b ! own) = Some i" "net_on_link_request b = Some cb" "devices b"
  shows "\<exists>a1 request b1 answer a2 a3 greeting l k.
    transport_inbound X W (board_app X serve our_dst our_id) n raw via a = (Ret (), a1) \<and> queued request a1 \<and>
    transport_inbound X W' (board_app X serve' dst' id') n' request via' b = (Ret (), b1) \<and> queued answer b1 \<and>
    transport_inbound X W (board_app X serve our_dst our_id) n answer via a1 = (Ret (), a2) \<and>
    bo_out_link a2 = Some l \<and> same_session (link_heap a2 ! l) (link_heap b1 ! k) \<and>
    turn_hello X id_hex a2 = (Ret (), a3) \<and> bo_hello a3 \<and> queued greeting a3 \<and>
    (net_destinations b (lk_hash (link_heap b1 ! k)) = None \<longrightarrow>
      transport_inbound X W' (board_app X serve' dst' id') n' greeting via' b1 =
        (Ret (), if cb = NODE_LINKS then b1 else b1\<lparr>bo_link_rx := bo_link_rx b1 + 1\<rparr>))"
proof -
  obtain ia ie where "i = key_identity X ia ie []"
    using create_identityD[OF crypto_lawsD(7)[OF assms(1)] assms(2)] by blast
  from boards_meet[OF assms(1) this assms(3-19), of W serve n via W' serve' dst' id' n' via' id_hex] show ?thesis .
qed

section \<open>Witnesses\<close>

theorem boards_greet_witness:
  "\<exists>raw (a :: board) (b :: board) a1 b1 request answer a2 a3 greeting l k.
    transport_inbound toy 64 (board_app toy (\<lambda>_. ret []) [1] [2]) 1 raw (Some 0) a = (Ret (), a1) \<and> queued request a1 \<and>
    transport_inbound toy 64 (board_app toy (\<lambda>_. ret []) [3] [4]) 1 request (Some 0) b = (Ret (), b1) \<and> queued answer b1 \<and>
    transport_inbound toy 64 (board_app toy (\<lambda>_. ret []) [1] [2]) 1 answer (Some 0) a1 = (Ret (), a2) \<and>
    same_session (link_heap a2 ! l) (link_heap b1 ! k) \<and>
    turn_hello toy ''0123'' a2 = (Ret (), a3) \<and> queued greeting a3 \<and>
    (transport_inbound toy 64 (board_app toy (\<lambda>_. ret []) [3] [4]) 1 greeting (Some 0) b1 = (Ret (), b1\<lparr>bo_link_rx := bo_link_rx b1 + 1\<rparr>) \<or>
      lk_hash (link_heap b1 ! k) \<in> dom (net_destinations b))"
proof -
  note laws = crypto_lawsD[OF toy_laws]
  have own: "toy_own = dest_heap toy_board ! 0" "0 < length (dest_heap toy_board)" by (simp_all add: toy_board_def)
  obtain raw u rh where u: "packet_unpack toy (packet_of_raw raw) = (True, u)" "pk_packet_type u = ANNOUNCE"
    "pk_destination_hash u = dst_hash toy_own" "pk_data u = announce_payload toy toy_own (replicate 32 1) (replicate 32 2) rh [5]"
    "announce_of toy (dst_hash toy_own) (announce_payload toy toy_own (replicate 32 1) (replicate 32 2) rh [5])
      (x_x25519_pub toy (replicate 32 1) @ x_ed_pub toy (replicate 32 2)) [5]" "valid_announce toy u"
    by (rule announce_frame[OF toy_laws own(2,1), of "replicate 32 1" "replicate 32 2" "[]" "[5]" "\<lambda>_. ret ()"])
      (simp_all add: toy_own_def toy_dest_def toy_id_def)
  have key: "take 64 (pk_data u) = get_public_key toy_id"
    unfolding u(4) toy_id_def get_key_identity using announce_of_unique(1)[OF u(5)] by simp
  obtain nh where nh: "name_hash toy ''rtreticulum'' ''heltec_v3'' = Ret nh"
    by (simp add: name_hash_def expand_name_def Let_def)
  have len: "length (dst_hash toy_own) = 16" "length (id_hash toy_id) = 16"
    using length_truncated_hash[OF laws(1)] by (simp_all add: toy_own_def toy_id_def key_identity_def)
  define a where "a = toy_board\<lparr>net_on_announce := Some BOARD_HEARD\<rparr>"
  define b where "b = toy_board\<lparr>net_destinations := [truncated_hash toy (nh @ id_hash toy_id) \<mapsto> 0], net_on_link_request := Some BOARD_LINKS\<rparr>"
  have ne: "pk_destination_hash u \<noteq> [1]" "id_hash toy_id \<noteq> [2]" using len u(3) by auto
  have id: "create_identity toy \<lparr>hal_calls = 0\<rparr> = (Ret toy_id, \<lparr>hal_calls = 2\<rparr>)" unfolding toy_id_def by (rule create_toy)
  have A: "pk_packet_hash u \<notin> net_seen a" "net_on_announce a = Some BOARD_HEARD" "bo_out_link a = None" "\<not> bo_hello a" "devices a"
    by (simp_all add: a_def toy_board_def devices_def toy_iface_def)
  have B: "net_destinations b (truncated_hash toy (nh @ id_hash toy_id)) = Some 0" "0 < length (dest_heap b)"
    "dst_identity (dest_heap b ! 0) = Some toy_id" "net_on_link_request b = Some BOARD_LINKS" "devices b"
    by (simp_all add: b_def toy_board_def toy_own_def toy_dest_def devices_def toy_iface_def)
  note greet = boards_greet[OF toy_laws id u(1,2,6) key A(1,2) ne A(3-5) nh B, of 64 "\<lambda>_. ret []" 1 "Some 0" 64 "\<lambda>_. ret []" "[3]" "[4]"
    1 "Some 0" "''0123''"]
  obtain a1 request b1 answer a2 a3 greeting l k where run:
    "transport_inbound toy 64 (board_app toy (\<lambda>_. ret []) [1] [2]) 1 raw (Some 0) a = (Ret (), a1)" "queued request a1"
    "transport_inbound toy 64 (board_app toy (\<lambda>_. ret []) [3] [4]) 1 request (Some 0) b = (Ret (), b1)" "queued answer b1"
    "transport_inbound toy 64 (board_app toy (\<lambda>_. ret []) [1] [2]) 1 answer (Some 0) a1 = (Ret (), a2)"
    "bo_out_link a2 = Some l" "same_session (link_heap a2 ! l) (link_heap b1 ! k)"
    "turn_hello toy ''0123'' a2 = (Ret (), a3)" "queued greeting a3"
    "net_destinations b (lk_hash (link_heap b1 ! k)) = None \<longrightarrow>
      transport_inbound toy 64 (board_app toy (\<lambda>_. ret []) [3] [4]) 1 greeting (Some 0) b1 =
        (Ret (), if BOARD_LINKS = NODE_LINKS then b1 else b1\<lparr>bo_link_rx := bo_link_rx b1 + 1\<rparr>)"
    using greet by (elim exE conjE) (rule that)
  then have "transport_inbound toy 64 (board_app toy (\<lambda>_. ret []) [3] [4]) 1 greeting (Some 0) b1 = (Ret (), b1\<lparr>bo_link_rx := bo_link_rx b1 + 1\<rparr>) \<or>
      lk_hash (link_heap b1 ! k) \<in> dom (net_destinations b)" by (auto simp: BOARD_LINKS_def NODE_LINKS_def)
  with run show ?thesis by blast
qed

end
