(* ===== verification/Settings.thy ===== *)
theory Settings
  imports Identity
begin

text \<open>
  What the firmware keeps in flash (ESP-IDF's NVS, an external library): the identity (main.cpp), the Wi-Fi
  credentials (wifi_sta.cpp), and the address of updates (ota_update.cpp). NVS is a parameter: a record of the
  functions the code calls, on a store of its own. The Wi-Fi driver's calls are external; the configuration
  handed to it is the result.
\<close>

section \<open>The store\<close>

text \<open>\<open>nv_init\<close> is \<open>nvs_flash_init\<close>, with the store it leaves, \<open>nv_erase\<close> is \<open>nvs_flash_erase\<close>.
  \<open>nv_open name writable\<close> tells whether \<open>nvs_open\<close> succeeds on a namespace, \<open>nv_get\<close> what is stored
  under a key, \<open>nv_put\<close> the store after \<open>nvs_set_blob\<close> or \<open>nvs_set_str\<close> and \<open>nvs_commit\<close>, whose results the
  code does not look at.\<close>

datatype nvs_rc = Nvs_ok | Nvs_no_free_pages | Nvs_new_version | Nvs_failed

record 'n nvs =
  nv_init :: "'n \<Rightarrow> nvs_rc \<times> 'n"
  nv_erase :: "'n \<Rightarrow> 'n"
  nv_open :: "string \<Rightarrow> bool \<Rightarrow> 'n \<Rightarrow> bool"
  nv_get :: "string \<Rightarrow> string \<Rightarrow> 'n \<Rightarrow> bytes option"
  nv_put :: "string \<Rightarrow> string \<Rightarrow> bytes \<Rightarrow> 'n \<Rightarrow> 'n"

text \<open>The documented behaviour of a store with room: what is written can be read, other entries stay, and
  a namespace that was written exists.\<close>

definition nvs_law :: "'n nvs \<Rightarrow> 'n \<Rightarrow> bool" where
  "nvs_law N st \<longleftrightarrow> (\<forall>ns k v st'. st' = nv_put N ns k v st \<longrightarrow>
     nv_open N ns False st' \<and> nv_get N ns k st' = Some v \<and>
     (\<forall>ns2 k2. (ns2, k2) \<noteq> (ns, k) \<longrightarrow> nv_get N ns2 k2 st' = nv_get N ns2 k2 st))"

definition nv_write :: "'n nvs \<Rightarrow> string \<Rightarrow> (string \<times> bytes) list \<Rightarrow> 'n \<Rightarrow> bool \<times> 'n" where
  "nv_write N ns kvs st =
     (if nv_open N ns True st then (True, fold (\<lambda>(k, v). nv_put N ns k v) kvs st) else (False, st))"

definition nv_read :: "'n nvs \<Rightarrow> string \<Rightarrow> string \<Rightarrow> 'n \<Rightarrow> bytes option" where
  "nv_read N ns k st = (if nv_open N ns False st then nv_get N ns k st else None)"

text \<open>\<open>nvs_get_str\<close> into a zeroed buffer: it copies the string when it fits with its NUL, and leaves the buffer
  otherwise.\<close>

definition nv_str :: "'n nvs \<Rightarrow> string \<Rightarrow> string \<Rightarrow> nat \<Rightarrow> bytes \<Rightarrow> 'n \<Rightarrow> bytes" where
  "nv_str N ns k room old st =
     (case nv_read N ns k st of None \<Rightarrow> old | Some v \<Rightarrow> if length v < room then v else old)"

text \<open>The start of \<open>app_main\<close>: a store that has no free page, or one of a newer version, is erased.\<close>

definition nvs_up :: "'n nvs \<Rightarrow> 'n \<Rightarrow> 'n" where
  "nvs_up N st =
     (case nv_init N st of (rc, st1) \<Rightarrow>
        if rc = Nvs_no_free_pages \<or> rc = Nvs_new_version then snd (nv_init N (nv_erase N st1)) else st1)"

section \<open>Identity\<close>

definition create_keys :: "ext \<Rightarrow> identity \<Rightarrow> ('a hal_state_scheme, identity) prog" where
  "create_keys X i s = (case create_keys_steps X (i, s) of (r, (i', s')) \<Rightarrow> (map_res (\<lambda>_. i') r, s'))"

text \<open>The block of \<open>app_main\<close> that loads the identity or makes and stores one.\<close>

definition boot_identity :: "ext \<Rightarrow> 'n nvs \<Rightarrow> ('n \<times> 'a hal_state_scheme, identity) prog" where
  "boot_identity X N =
     bnd (gets (\<lambda>(st, s). nv_read N ''rtreticulum'' ''id_prv'' st)) (\<lambda>blob.
     bnd (case blob of
            None \<Rightarrow> ret (False, empty_identity)
          | Some key \<Rightarrow>
              if length key = 64 then on_snd (load_private_key X key empty_identity) else ret (False, empty_identity))
       (\<lambda>(loaded, i).
     if loaded then ret i
     else
       bnd (on_snd (create_keys X i)) (\<lambda>i.
       bnd (modify (\<lambda>(st, s). (snd (nv_write N ''rtreticulum'' [(''id_prv'', get_private_key i)] st), s))) (\<lambda>_.
       ret i))))"

section \<open>Wi-Fi\<close>

text \<open>The fields of the driver's configuration the code sets; \<open>sta_wpa2\<close>: networks weaker than WPA2 are
  refused (\<open>threshold.authmode\<close>).\<close>

record sta_cfg =
  sta_ssid :: bytes
  sta_password :: bytes
  sta_wpa2 :: bool

text \<open>\<open>g_connected\<close> and the bit \<open>init\<close> waits for, with the number of calls of \<open>esp_wifi_connect\<close>.\<close>

record wifi =
  wi_connected :: bool
  wi_bit :: bool
  wi_connects :: nat

definition on_wifi_event :: "bool \<Rightarrow> (wifi, unit) prog" where
  "on_wifi_event disconnected =
     (if disconnected
      then bnd (modify (\<lambda>s. s\<lparr>wi_connected := False, wi_bit := False\<rparr>)) (\<lambda>_.
        modify (\<lambda>s. s\<lparr>wi_connects := wi_connects s + 1\<rparr>))
      else ret ())"

definition on_ip_event :: "bool \<Rightarrow> (wifi, unit) prog" where
  "on_ip_event got_ip = (if got_ip then modify (\<lambda>s. s\<lparr>wi_connected := True, wi_bit := True\<rparr>) else ret ())"

text \<open>\<open>strncpy(to, from, n)\<close> into a zeroed field of \<open>size\<close> bytes, and \<open>memcpy(to, from, strlen(from))\<close>.\<close>

definition strncpy :: "nat \<Rightarrow> nat \<Rightarrow> bytes \<Rightarrow> bytes" where
  "strncpy room n from = take n from @ replicate (room - length (take n from)) 0"

definition memcpy_str :: "nat \<Rightarrow> bytes \<Rightarrow> bytes res" where
  "memcpy_str room from = (if length from \<le> room then Ret (from @ replicate (room - length from) 0) else Fault Overrun)"

text \<open>\<open>init\<close> up to the configuration; \<open>dssid\<close> and \<open>dpsk\<close> are the defaults of the build, empty when there are
  none; \<open>calls\<close> tells whether the driver's set-up succeeds.\<close>

definition wifi_init :: "'n nvs \<Rightarrow> bytes \<Rightarrow> bytes \<Rightarrow> bool \<Rightarrow> 'n \<Rightarrow> sta_cfg option" where
  "wifi_init N dssid dpsk calls st =
     (let ssid = nv_str N ''wifi'' ''ssid'' 33 [] st; psk = nv_str N ''wifi'' ''psk'' 65 [] st;
          ssid = (if ssid = [] then take (33 - 1) dssid else ssid); psk = (if psk = [] then take (65 - 1) dpsk else psk) in
      if ssid = [] then None
      else if \<not> calls then None
      else Some \<lparr>sta_ssid = strncpy 32 (32 - 1) ssid, sta_password = strncpy 64 (64 - 1) psk, sta_wpa2 = True\<rparr>)"

definition set_credentials :: "'n nvs \<Rightarrow> bytes \<Rightarrow> bytes \<Rightarrow> ('n, sta_cfg option) prog" where
  "set_credentials N ssid psk =
     bnd (gets (nv_write N ''wifi'' [(''ssid'', ssid), (''psk'', psk)])) (\<lambda>(ok, st).
     if \<not> ok then ret None
     else
       bnd (modify (\<lambda>_. st)) (\<lambda>_.
       bnd (lift (memcpy_str 32 ssid)) (\<lambda>s.
       bnd (lift (memcpy_str 64 psk)) (\<lambda>p.
       ret (Some \<lparr>sta_ssid = s, sta_password = p, sta_wpa2 = False\<rparr>)))))"

section \<open>Updates\<close>

text \<open>\<open>pull\<close> with the static buffer it keeps between calls; \<open>deflt\<close> is the address of the build, \<open>fetch\<close> what
  \<open>esp_https_ota\<close> gives for an address.\<close>

definition ota_pull :: "'n nvs \<Rightarrow> bytes \<Rightarrow> (bytes \<Rightarrow> bool) \<Rightarrow> bytes option \<Rightarrow> ('n \<times> bytes, bool) prog" where
  "ota_pull N deflt fetch url =
     bnd (case url of
            Some u \<Rightarrow> ret u
          | None \<Rightarrow>
              bnd (modify (\<lambda>(st, stored). (st, nv_str N ''ota'' ''url'' 256 stored st))) (\<lambda>_.
              bnd (modify (\<lambda>(st, stored). (st, if stored = [] then take (256 - 1) deflt else stored))) (\<lambda>_.
              gets snd))) (\<lambda>u.
     if u = [] then ret False else ret (fetch u))"

definition ota_set_url :: "'n nvs \<Rightarrow> bytes \<Rightarrow> ('n \<times> bytes, unit) prog" where
  "ota_set_url N url = modify (\<lambda>(st, stored). (snd (nv_write N ''ota'' [(''url'', url)] st), stored))"

section \<open>Properties\<close>

lemma nvs_lawD:
  assumes "nvs_law N st"
  shows "nv_open N ns False (nv_put N ns k v st)" "nv_get N ns k (nv_put N ns k v st) = Some v"
    "(ns2, k2) \<noteq> (ns, k) \<Longrightarrow> nv_get N ns2 k2 (nv_put N ns k v st) = nv_get N ns2 k2 st"
  using assms by (auto simp: nvs_law_def)

lemma create_keys_run:
  assumes "rng_law X"
  shows "\<exists>a e. create_keys X empty_identity s = (Ret (key_identity X a e []), s\<lparr>hal_calls := hal_calls s + 2\<rparr>) \<and>
    length a = 32 \<and> length e = 32"
proof -
  obtain a e where "create_identity X s = (Ret (key_identity X a e []), s\<lparr>hal_calls := hal_calls s + 2\<rparr>)"
    "length a = 32" "length e = 32"
    using create_identity_ok[OF assms, of s] by blast
  then show ?thesis
    by (intro exI[of _ a] exI[of _ e]) (auto simp: create_identity_def create_keys_def split: prod.splits res.splits)
qed

lemma load_blob:
  assumes "length blob = 64"
  shows "load_private_key X blob empty_identity s = (Ret (True, key_identity X (take 32 blob) (drop 32 blob) []), s)"
    "get_private_key (key_identity X (take 32 blob) (drop 32 blob) []) = blob"
  using load_private_key_ok[of "take 32 blob" "drop 32 blob" X empty_identity s] assms
  by (simp_all add: get_key_identity empty_identity_def)

lemma boot_again:
  assumes "nv_read N ''rtreticulum'' ''id_prv'' st = Some blob" "length blob = 64"
  shows "boot_identity X N (st, s) = (Ret (key_identity X (take 32 blob) (drop 32 blob) []), (st, s))"
  using assms load_blob(1)[OF assms(2), of X s] by (simp add: boot_identity_def on_snd_def bnd_def)

text \<open>
  C32: A board keeps its identity: the first start makes one with 64 key bytes when none of that size is stored, and
  stores it; every later start, with whatever entropy, loads the same one and leaves the store alone.
\<close>

theorem identity_boot:
  assumes "rng_law X" "nvs_law N st" "nv_open N ''rtreticulum'' True st"
  shows "\<exists>i st' s'. boot_identity X N (st, s) = (Ret i, (st', s')) \<and> length (get_private_key i) = 64 \<and>
    nv_read N ''rtreticulum'' ''id_prv'' st' = Some (get_private_key i) \<and>
    (\<forall>s2. boot_identity X N (st', s2) = (Ret i, (st', s2)))"
proof -
  let ?old = "nv_read N ''rtreticulum'' ''id_prv'' st"
  show ?thesis
  proof (cases "\<exists>blob. ?old = Some blob \<and> length blob = 64")
    case True
    then obtain blob where blob: "?old = Some blob" "length blob = 64" by blast
    show ?thesis
      by (intro exI[of _ "key_identity X (take 32 blob) (drop 32 blob) []"] exI[of _ st] exI[of _ s])
        (simp add: boot_again[OF blob] blob load_blob(2)[OF blob(2)])
  next
    case False
    obtain a e where new: "create_keys X empty_identity s = (Ret (key_identity X a e []), s\<lparr>hal_calls := hal_calls s + 2\<rparr>)"
      "length a = 32" "length e = 32"
      using create_keys_run[OF assms(1), of s] by blast
    let ?i = "key_identity X a e []" and ?st = "nv_put N ''rtreticulum'' ''id_prv'' (a @ e) st"
    have key: "get_private_key ?i = a @ e" by (simp add: get_key_identity)
    have "boot_identity X N (st, s) = (Ret ?i, (?st, s\<lparr>hal_calls := hal_calls s + 2\<rparr>))"
      using False new(1) assms(3) key
      by (cases ?old) (auto simp: boot_identity_def on_snd_def bnd_def nv_write_def)
    moreover have read: "nv_read N ''rtreticulum'' ''id_prv'' ?st = Some (a @ e)"
      using nvs_lawD(1,2)[OF assms(2)] by (simp add: nv_read_def)
    ultimately show ?thesis
      by (intro exI[of _ ?i] exI[of _ ?st] exI[of _ "s\<lparr>hal_calls := hal_calls s + 2\<rparr>"])
        (simp add: new(2,3) key boot_again[OF read])
  qed
qed

lemma strncpy_fits: "length b \<le> n \<Longrightarrow> strncpy room n b = b @ replicate (room - length b) 0"
  by (simp add: strncpy_def)

lemma strncpy_cut: "0 \<notin> set b \<Longrightarrow> length b = Suc n \<Longrightarrow> strncpy (Suc n) n b \<noteq> b"
proof
  assume b: "0 \<notin> set b" "length b = Suc n" "strncpy (Suc n) n b = b"
  have "0 \<in> set (strncpy (Suc n) n b)" using b(2) by (simp add: strncpy_def)
  then show False using b(1,3) by simp
qed

text \<open>
  C33: Credentials that fit the driver's fields, with a non-empty name, are what the next start connects with, apart
  from three cases. The last byte of a name of 32 bytes or of a key of 64 is cut off by \<open>init\<close>, so such a network is
  reached until the next start and never again; and the empty key of an open network is replaced by the build's
  default key. Longer credentials are copied past the end of the field. Until the next start the connection also
  accepts networks below WPA2, which \<open>init\<close> refuses. (NVS can be opened for writing and the calls of \<open>init\<close> succeed.)
\<close>

theorem wifi_credentials:
  assumes "\<forall>st. nvs_law N st" "nv_open N ''wifi'' True st" "ssid \<noteq> []" "0 \<notin> set ssid" "0 \<notin> set psk"
  shows "if length ssid \<le> 32 \<and> length psk \<le> 64
    then \<exists>now st' next. set_credentials N ssid psk st = (Ret (Some now), st') \<and> wifi_init N dssid dpsk True st' = Some next \<and>
      sta_ssid now = ssid @ replicate (32 - length ssid) 0 \<and> sta_password now = psk @ replicate (64 - length psk) 0 \<and>
      (sta_ssid next = sta_ssid now \<longleftrightarrow> length ssid < 32) \<and>
      (if psk = [] then sta_password next = strncpy 64 63 (take 64 dpsk) else sta_password next = sta_password now \<longleftrightarrow> length psk < 64) \<and>
      \<not> sta_wpa2 now \<and> sta_wpa2 next
    else fst (set_credentials N ssid psk st) = Fault Overrun"
proof (cases "length ssid \<le> 32 \<and> length psk \<le> 64")
  case True
  define st' where "st' = nv_put N ''wifi'' ''psk'' psk (nv_put N ''wifi'' ''ssid'' ssid st)"
  note law = nvs_lawD[OF spec[OF assms(1)]]
  have read: "nv_read N ''wifi'' ''ssid'' st' = Some ssid" "nv_read N ''wifi'' ''psk'' st' = Some psk"
    by (simp_all add: nv_read_def st'_def law)
  have str: "nv_str N ''wifi'' ''ssid'' 33 [] st' = ssid" "nv_str N ''wifi'' ''psk'' 65 [] st' = psk"
    using True by (simp_all add: nv_str_def read)
  have init: "wifi_init N dssid dpsk True st' =
      Some \<lparr>sta_ssid = strncpy 32 31 ssid, sta_password = strncpy 64 63 (if psk = [] then take 64 dpsk else psk), sta_wpa2 = True\<rparr>"
    using assms(3) by (simp add: wifi_init_def str Let_def)
  have "strncpy 32 31 ssid = ssid @ replicate (32 - length ssid) 0 \<longleftrightarrow> length ssid < 32"
    using True strncpy_cut[OF assms(4), of 31] strncpy_fits[of ssid 31 32] by (cases "length ssid = 32") auto
  moreover have "strncpy 64 63 psk = psk @ replicate (64 - length psk) 0 \<longleftrightarrow> length psk < 64"
    using True strncpy_cut[OF assms(5), of 63] strncpy_fits[of psk 63 64] by (cases "length psk = 64") auto
  moreover have "set_credentials N ssid psk st = (Ret (Some \<lparr>sta_ssid = ssid @ replicate (32 - length ssid) 0,
      sta_password = psk @ replicate (64 - length psk) 0, sta_wpa2 = False\<rparr>), st')"
    using True assms(2) by (simp add: set_credentials_def nv_write_def memcpy_str_def st'_def bnd_def)
  ultimately show ?thesis using True init by simp
next
  case False
  then show ?thesis using assms(2) by (auto simp: set_credentials_def nv_write_def memcpy_str_def bnd_def)
qed

text \<open>A stored address is the one pulled from, when it fits the buffer; a longer one is never read back, and the
  address pulled before, or the default, is used instead.\<close>

lemma ota_url:
  assumes "nvs_law N st" "nv_open N ''ota'' True st" "url \<noteq> []"
  shows "\<exists>st'. ota_set_url N url (st, stored) = (Ret (), (st', stored)) \<and>
    fst (ota_pull N deflt fetch None (st', stored)) =
      (let u = (if length url < 256 then url else if stored = [] then take 255 deflt else stored) in Ret (u \<noteq> [] \<and> fetch u))"
  using assms nvs_lawD(1,2)[OF assms(1)]
  by (auto simp: ota_set_url_def ota_pull_def nv_write_def nv_str_def nv_read_def bnd_def)

section \<open>Witnesses\<close>

definition toy_nvs :: "(string \<times> string \<Rightarrow> bytes option) nvs" where
  "toy_nvs = \<lparr>nv_init = Pair Nvs_ok, nv_erase = (\<lambda>_. Map.empty), nv_open = (\<lambda>ns w st. w \<or> (\<exists>k. st (ns, k) \<noteq> None)), nv_get = (\<lambda>ns k st. st (ns, k)),
     nv_put = (\<lambda>ns k v st. st((ns, k) \<mapsto> v))\<rparr>"

lemma toy_nvs_law: "nvs_law toy_nvs st"
  by (auto simp: nvs_law_def toy_nvs_def)

theorem identity_boot_witness:
  "\<exists>i st' s'. boot_identity toy toy_nvs (Map.empty, \<lparr>hal_calls = 3\<rparr>) = (Ret i, (st', s')) \<and>
    boot_identity toy toy_nvs (st', \<lparr>hal_calls = 9\<rparr>) = (Ret i, (st', \<lparr>hal_calls = 9\<rparr>))"
  using identity_boot[OF crypto_lawsD(7)[OF toy_laws] toy_nvs_law, of Map.empty "\<lparr>hal_calls = 3\<rparr>"]
  by (auto simp: toy_nvs_def)

theorem wifi_credentials_witness:
  "\<exists>now st' next. set_credentials toy_nvs (replicate 32 65) (replicate 8 66) Map.empty = (Ret (Some now), st') \<and>
    wifi_init toy_nvs [] [] True st' = Some next \<and> sta_ssid next \<noteq> sta_ssid now \<and> sta_password next = sta_password now"
  using wifi_credentials[of toy_nvs Map.empty "replicate 32 65" "replicate 8 66" "[]" "[]"] toy_nvs_law
  by (auto simp: toy_nvs_def)

end
