(* ===== verification/Lora.thy ===== *)
theory Lora
  imports Framing
begin

text \<open>
  The LoRa interface of the firmware (firmware/heltec_v3/main/lora_interface.cpp): the transmit queue,
  reception after an interrupt, raw sending for the bridge mode, and the radio settings. RadioLib and the
  random source are external: what their calls returned is an argument. The model keeps the frames handed
  to \<open>transmit\<close>. Delivering a packet is an argument, a program on the whole state.
\<close>

section \<open>State\<close>

text \<open>\<open>lo_queue\<close> is the FreeRTOS queue, absent before \<open>start\<close>; \<open>lo_pending\<close> is the flag the interrupt sets.\<close>

record lora =
  lo_radio :: bool
  lo_radio_on :: bool
  lo_online :: bool
  lo_txb :: nat
  lo_pending :: bool
  lo_queue :: "bytes list option"
  lo_raw_rx :: bool
  lo_air :: "bytes list"

definition MAX_FRAME :: nat where "MAX_FRAME = 500 + 32"
definition TX_QUEUE_LENGTH :: nat where "TX_QUEUE_LENGTH = 8"

definition on_dio1 :: "('a lora_scheme, unit) prog" where
  "on_dio1 = modify (\<lambda>s. s\<lparr>lo_pending := True\<rparr>)"

text \<open>\<open>begun\<close> and \<open>listening\<close>: whether \<open>begin\<close> and \<open>startReceive\<close> succeeded.\<close>

definition lora_start :: "bool \<Rightarrow> bool \<Rightarrow> ('a lora_scheme, bool) prog" where
  "lora_start begun listening =
     bnd (modify (\<lambda>s. if lo_queue s = None then s\<lparr>lo_queue := Some []\<rparr> else s)) (\<lambda>_.
     bnd (modify (\<lambda>s. s\<lparr>lo_radio := True\<rparr>)) (\<lambda>_.
     if \<not> begun then ret False
     else if \<not> listening then ret False
     else bnd (modify (\<lambda>s. s\<lparr>lo_online := True, lo_radio_on := True\<rparr>)) (\<lambda>_. ret True)))"

definition lora_stop :: "('a lora_scheme, unit) prog" where
  "lora_stop = modify (\<lambda>s. s\<lparr>lo_online := False, lo_radio_on := False\<rparr>)"

section \<open>Sending\<close>

text \<open>The header byte the RNode protocol puts before a packet: a random sequence number.\<close>

definition rnode_header :: "u8 \<Rightarrow> u8" where
  "rnode_header r = r AND 0xF0"

definition lora_send_outgoing :: "u8 \<Rightarrow> bytes \<Rightarrow> ('a lora_scheme, unit) prog" where
  "lora_send_outgoing r data =
     bnd (gets (\<lambda>s. (lo_radio s, lo_queue s))) (\<lambda>(radio, q).
     case q of
       None \<Rightarrow> ret ()
     | Some items \<Rightarrow>
         if \<not> radio then ret ()
         else
           let len = (if length data > MAX_FRAME - 1 then MAX_FRAME - 1 else length data);
               item = rnode_header r # take len data in
           bnd (modify (\<lambda>s. s\<lparr>lo_txb := lo_txb s + length data\<rparr>)) (\<lambda>_.
           if length items < TX_QUEUE_LENGTH then modify (\<lambda>s. s\<lparr>lo_queue := Some (items @ [item])\<rparr>)
           else ret ()))"

fun drain_items :: "bytes list \<Rightarrow> ('a lora_scheme, unit) prog" where
  "drain_items [] = ret ()"
| "drain_items (item # items) =
     bnd (modify (\<lambda>s. s\<lparr>lo_queue := Some items, lo_air := lo_air s @ [item], lo_pending := False\<rparr>)) (\<lambda>_.
     drain_items items)"

definition drain_tx_queue :: "('a lora_scheme, unit) prog" where
  "drain_tx_queue = bnd (gets lo_queue) (\<lambda>q. case q of None \<Rightarrow> fault Null_deref | Some items \<Rightarrow> drain_items items)"

definition send_raw :: "u8 \<Rightarrow> bytes \<Rightarrow> ('a lora_scheme, unit) prog" where
  "send_raw r data =
     bnd (gets (\<lambda>s. (lo_radio s, lo_radio_on s))) (\<lambda>(radio, on).
     if \<not> radio \<or> \<not> on then ret ()
     else
       let len = (if length data > MAX_FRAME - 1 then MAX_FRAME - 1 else length data) in
       bnd (modify (\<lambda>s. s\<lparr>lo_txb := lo_txb s + len\<rparr>)) (\<lambda>_.
       modify (\<lambda>s. s\<lparr>lo_air := lo_air s @ [rnode_header r # take len data], lo_pending := False\<rparr>)))"

section \<open>Receiving\<close>

text \<open>What the radio holds: the packet length it reports, whether reading succeeds, and the bytes read.\<close>

record reception =
  rx_length :: nat
  rx_ok :: bool
  rx_bytes :: bytes

definition lora_poll ::
  "(bytes \<Rightarrow> ('a lora_scheme, unit) prog) \<Rightarrow> (bytes \<Rightarrow> ('a lora_scheme, unit) prog) \<Rightarrow> reception \<Rightarrow>
   ('a lora_scheme, unit) prog" where
  "lora_poll raw_rx deliver r =
     bnd drain_tx_queue (\<lambda>_.
     bnd (gets lo_pending) (\<lambda>pending.
     if \<not> pending then ret ()
     else
       bnd (modify (\<lambda>s. s\<lparr>lo_pending := False\<rparr>)) (\<lambda>_.
       if rx_length r = 0 \<or> rx_length r > MAX_FRAME then ret ()
       else if rx_ok r \<and> rx_length r > 1 then
         bnd (gets lo_raw_rx) (\<lambda>raw.
         let packet = take (rx_length r - 1) (drop 1 (rx_bytes r)) in
         if raw then raw_rx packet else deliver packet)
       else ret ())))"

text \<open>\<open>loop()\<close>, which the Reticulum task and the bridge call, does nothing.\<close>

definition lora_loop :: "('a lora_scheme, unit) prog" where
  "lora_loop = ret ()"

section \<open>Settings\<close>

text \<open>The calls that change a setting; frequencies are in Hz, their conversion to float is external.\<close>

datatype radio_call =
  Set_frequency u32 | Set_bandwidth u32 | Set_spreading_factor u8 | Set_coding_rate u8 | Set_output_power u8
| Start_receive | Standby

definition lora_set :: "(radio_call \<Rightarrow> bool) \<Rightarrow> radio_call \<Rightarrow> ('a lora_scheme, bool) prog" where
  "lora_set accept c = bnd (gets lo_radio) (\<lambda>radio. if \<not> radio then ret False else ret (accept c))"

definition set_radio_online :: "(radio_call \<Rightarrow> bool) \<Rightarrow> bool \<Rightarrow> ('a lora_scheme, bool) prog" where
  "set_radio_online accept online =
     bnd (gets (\<lambda>s. (lo_radio s, lo_radio_on s))) (\<lambda>(radio, on).
     if \<not> radio then ret False
     else if online = on then ret True
     else if \<not> accept (if online then Start_receive else Standby) then ret False
     else bnd (modify (\<lambda>s. s\<lparr>lo_radio_on := online\<rparr>)) (\<lambda>_. ret True))"

section \<open>Properties\<close>

lemma drain_items_run:
  "drain_items items s = (Ret (), if items = [] then s
     else s\<lparr>lo_queue := Some [], lo_air := lo_air s @ items, lo_pending := False\<rparr>)"
  by (induction items arbitrary: s) simp_all

definition lora_item :: "u8 \<Rightarrow> bytes \<Rightarrow> bytes" where
  "lora_item r d = rnode_header r # take 531 d"

lemma queue_run:
  assumes "lo_radio s" "lo_queue s = Some q"
  shows "lora_send_outgoing r d s = (Ret (), s\<lparr>lo_txb := lo_txb s + length d,
    lo_queue := Some (if length q < 8 then q @ [lora_item r d] else q)\<rparr>)"
proof -
  have "take (if length d > MAX_FRAME - 1 then MAX_FRAME - 1 else length d) d = take 531 d"
    by (simp add: MAX_FRAME_def)
  then show ?thesis using assms
    by (simp add: lora_send_outgoing_def Let_def lora_item_def TX_QUEUE_LENGTH_def)
qed

lemma queue_all:
  assumes "lo_radio s" "lo_queue s = Some q"
  shows "\<exists>k. for_each ps (\<lambda>(r, d). lora_send_outgoing r d) s =
    (Ret (), s\<lparr>lo_txb := k, lo_queue := Some (q @ map (\<lambda>(r, d). lora_item r d) (take (8 - length q) ps))\<rparr>)"
  using assms
proof (induction ps arbitrary: s q)
  case Nil
  then show ?case by (intro exI[of _ "lo_txb s"]) simp
next
  case (Cons p ps)
  obtain r d where p: "p = (r, d)" by (cases p)
  let ?q = "if length q < 8 then q @ [lora_item r d] else q"
  let ?s = "s\<lparr>lo_txb := lo_txb s + length d, lo_queue := Some ?q\<rparr>"
  have "lo_radio ?s" "lo_queue ?s = Some ?q" using Cons.prems by simp_all
  from Cons.IH[OF this] obtain k where
    "for_each ps (\<lambda>(r, d). lora_send_outgoing r d) ?s =
      (Ret (), ?s\<lparr>lo_txb := k, lo_queue := Some (?q @ map (\<lambda>(r, d). lora_item r d) (take (8 - length ?q) ps))\<rparr>)" by blast
  moreover have "?q @ map (\<lambda>(r, d). lora_item r d) (take (8 - length ?q) ps) =
      q @ map (\<lambda>(r, d). lora_item r d) (take (8 - length q) (p # ps))"
  proof (cases "length q < 8")
    case True
    then have "8 - length q = Suc (7 - length q)" by simp
    then show ?thesis using True p by simp
  qed simp
  ultimately show ?case using queue_run[OF Cons.prems] p by (intro exI[of _ k]) (simp add: bnd_def)
qed

text \<open>A peer's radio that received the transmitted bytes.\<close>

definition heard :: "bytes \<Rightarrow> reception" where
  "heard b = \<lparr>rx_length = length b, rx_ok = True, rx_bytes = b\<rparr>"

text \<open>
  Packets sent between two polls leave in order, the first eight of them, each behind one header byte;
  a peer that hears such a frame delivers the packet cut to 531 bytes, an empty one not at all.
\<close>

theorem lora_transfer:
  assumes "lo_radio s" "lo_queue s = Some []" "\<not> lo_pending s" "lo_queue t = Some []" "lo_pending t" "\<not> lo_raw_rx t"
  shows "\<exists>s' s''. for_each ps (\<lambda>(r, d). lora_send_outgoing r d) s = (Ret (), s') \<and>
    lora_poll raw deliver rx s' = (Ret (), s'') \<and>
    lo_air s'' = lo_air s @ map (\<lambda>(r, d). lora_item r d) (take 8 ps) \<and>
    lora_poll raw deliver (heard (lora_item r d)) t =
      (if d = [] then ret () else deliver (take 531 d)) (t\<lparr>lo_pending := False\<rparr>)"
proof -
  obtain k where k: "for_each ps (\<lambda>(r, d). lora_send_outgoing r d) s =
      (Ret (), s\<lparr>lo_txb := k, lo_queue := Some (map (\<lambda>(r, d). lora_item r d) (take 8 ps))\<rparr>)"
    using queue_all[OF assms(1,2), of ps] by auto
  have cut: "take (min (length d) 531) d = take 531 d" by (simp add: min_def)
  have "lora_poll raw deliver (heard (lora_item r d)) t =
      (if d = [] then ret () else deliver (take 531 d)) (t\<lparr>lo_pending := False\<rparr>)"
    using assms(4-6)
    by (simp add: lora_poll_def drain_tx_queue_def bnd_def drain_items_run heard_def lora_item_def MAX_FRAME_def Let_def cut)
  moreover have "\<exists>s''. lora_poll raw deliver rx (s\<lparr>lo_txb := k, lo_queue := Some (map (\<lambda>(r, d). lora_item r d) (take 8 ps))\<rparr>) =
      (Ret (), s'') \<and> lo_air s'' = lo_air s @ map (\<lambda>(r, d). lora_item r d) (take 8 ps)"
    using assms(3) by (simp add: lora_poll_def drain_tx_queue_def bnd_def drain_items_run)
  ultimately show ?thesis using k by blast
qed

text \<open>
  A packet the radio has received but the loop has not read yet is lost when something waits to be
  sent: the poll transmits first, which clears the interrupt flag.
\<close>

theorem lora_pending_lost:
  assumes "lo_queue s = Some (item # items)"
  shows "lora_poll raw deliver rx s =
    (Ret (), s\<lparr>lo_queue := Some [], lo_air := lo_air s @ item # items, lo_pending := False\<rparr>)"
  using assms by (simp add: lora_poll_def drain_tx_queue_def bnd_def drain_items_run)


section \<open>Witnesses\<close>

definition toy_lora :: "bytes list \<Rightarrow> bool \<Rightarrow> lora" where
  "toy_lora q pending =
    \<lparr>lo_radio = True, lo_radio_on = True, lo_online = True, lo_txb = 0, lo_pending = pending, lo_queue = Some q,
     lo_raw_rx = False, lo_air = []\<rparr>"

theorem lora_transfer_witness:
  "\<exists>s' s''. for_each [(0x12, [1, 2]), (0x34, [3])] (\<lambda>(r, d). lora_send_outgoing r d) (toy_lora [] False) = (Ret (), s') \<and>
    lora_poll (\<lambda>_. ret ()) (\<lambda>d. ret ()) (heard []) s' = (Ret (), s'') \<and>
    lo_air s'' = lo_air (toy_lora [] False) @ map (\<lambda>(r, d). lora_item r d) (take 8 [(0x12, [1, 2]), (0x34, [3])]) \<and>
    lora_poll (\<lambda>_. ret ()) (\<lambda>d. ret ()) (heard (lora_item 0x12 [1, 2])) (toy_lora [] True) =
      (if [1, 2] = ([] :: bytes) then ret () else (\<lambda>d. ret ()) (take 531 [1, 2])) ((toy_lora [] True)\<lparr>lo_pending := False\<rparr>)"
  by (rule lora_transfer) (simp_all add: toy_lora_def)

theorem lora_pending_lost_witness:
  "lora_poll (\<lambda>_. ret ()) (\<lambda>d. ret ()) (heard [0, 9]) (toy_lora [[1]] True) = (Ret (), (toy_lora [] False)\<lparr>lo_air := [[1]]\<rparr>)"
proof -
  have "lo_queue (toy_lora [[1]] True) = Some ([1] # [])" by (simp add: toy_lora_def)
  from lora_pending_lost[OF this] show ?thesis by (simp add: toy_lora_def)
qed

end
