(* ===== verification/RNode.thy ===== *)
theory RNode
  imports Lora
begin

text \<open>
  The RNode bridge of the firmware (firmware/heltec_v3/main/rnode_bridge.cpp): the KISS parser and
  encoder, the command handlers over the LoRa interface, and the bridge's main loop. The sink that writes
  to the host is external: the model keeps the buffers given to it. Which settings RadioLib accepts and
  the random source are arguments.
\<close>

section \<open>Protocol constants\<close>

definition FEND :: u8 where "FEND = 0xC0"
definition FESC :: u8 where "FESC = 0xDB"
definition TFEND :: u8 where "TFEND = 0xDC"
definition TFESC :: u8 where "TFESC = 0xDD"

definition CMD_UNKNOWN :: u8 where "CMD_UNKNOWN = 0xFE"
definition CMD_DATA :: u8 where "CMD_DATA = 0x00"
definition CMD_FREQUENCY :: u8 where "CMD_FREQUENCY = 0x01"
definition CMD_BANDWIDTH :: u8 where "CMD_BANDWIDTH = 0x02"
definition CMD_TXPOWER :: u8 where "CMD_TXPOWER = 0x03"
definition CMD_SF :: u8 where "CMD_SF = 0x04"
definition CMD_CR :: u8 where "CMD_CR = 0x05"
definition CMD_RADIO_STATE :: u8 where "CMD_RADIO_STATE = 0x06"
definition CMD_DETECT :: u8 where "CMD_DETECT = 0x08"
definition CMD_READY :: u8 where "CMD_READY = 0x0F"
definition CMD_STAT_RSSI :: u8 where "CMD_STAT_RSSI = 0x23"
definition CMD_STAT_SNR :: u8 where "CMD_STAT_SNR = 0x24"
definition CMD_RANDOM :: u8 where "CMD_RANDOM = 0x40"
definition CMD_BOARD :: u8 where "CMD_BOARD = 0x47"
definition CMD_PLATFORM :: u8 where "CMD_PLATFORM = 0x48"
definition CMD_MCU :: u8 where "CMD_MCU = 0x49"
definition CMD_FW_VERSION :: u8 where "CMD_FW_VERSION = 0x50"
definition CMD_ERROR :: u8 where "CMD_ERROR = 0x90"

definition DETECT_REQ :: u8 where "DETECT_REQ = 0x73"
definition DETECT_RESP :: u8 where "DETECT_RESP = 0x46"
definition RADIO_STATE_OFF :: u8 where "RADIO_STATE_OFF = 0x00"
definition RADIO_STATE_ON :: u8 where "RADIO_STATE_ON = 0x01"
definition ERROR_INITRADIO :: u8 where "ERROR_INITRADIO = 0x01"
definition MAJ_VERS :: u8 where "MAJ_VERS = 0x01"
definition MIN_VERS :: u8 where "MIN_VERS = 0x55"
definition PLATFORM_ESP32 :: u8 where "PLATFORM_ESP32 = 0x80"
definition MCU_ESP32 :: u8 where "MCU_ESP32 = 0x81"
definition BOARD_HELTEC_V3 :: u8 where "BOARD_HELTEC_V3 = 0x3A"
definition FRAME_MAX :: nat where "FRAME_MAX = 600"

lemmas cmd_defs =
  CMD_UNKNOWN_def CMD_DATA_def CMD_FREQUENCY_def CMD_BANDWIDTH_def CMD_TXPOWER_def CMD_SF_def CMD_CR_def
  CMD_RADIO_STATE_def CMD_DETECT_def CMD_READY_def CMD_STAT_RSSI_def CMD_STAT_SNR_def CMD_RANDOM_def
  CMD_BOARD_def CMD_PLATFORM_def CMD_MCU_def CMD_FW_VERSION_def CMD_ERROR_def

section \<open>State\<close>

record radio_cfg =
  rc_freq_hz :: u32
  rc_bw_hz :: u32
  rc_sf :: u8
  rc_cr :: u8
  rc_txp :: u8
  rc_state :: u8

definition default_cfg :: radio_cfg where
  "default_cfg =
    \<lparr>rc_freq_hz = 915000000, rc_bw_hz = 125000, rc_sf = 9, rc_cr = 7, rc_txp = 14, rc_state = RADIO_STATE_ON\<rparr>"

record kiss =
  ks_in_frame :: bool
  ks_escape :: bool
  ks_cmd :: u8
  ks_buf :: bytes

text \<open>The parser at the start of the program: outside any frame.\<close>

definition kiss_boot :: kiss where
  "kiss_boot = \<lparr>ks_in_frame = False, ks_escape = False, ks_cmd = CMD_UNKNOWN, ks_buf = []\<rparr>"

text \<open>\<open>rn_lora\<close> and \<open>rn_tx\<close>: whether the pointers \<open>attach\<close> sets are set.\<close>

record rnode = lora +
  rn_lora :: bool
  rn_tx :: bool
  rn_cfg :: radio_cfg
  rn_kiss :: kiss
  rn_host :: "bytes list"

section \<open>Frames to the host\<close>

definition kiss_enc :: "u8 \<Rightarrow> bytes" where
  "kiss_enc b = (if b = FEND then [FESC, TFEND] else if b = FESC then [FESC, TFESC] else [b])"

definition kiss_frame :: "u8 \<Rightarrow> bytes \<Rightarrow> bytes" where
  "kiss_frame cmd data = [FEND, cmd] @ fill kiss_enc (FRAME_MAX * 2 + 4) 2 data @ [FEND]"

definition send_frame :: "u8 \<Rightarrow> bytes \<Rightarrow> ('a rnode_scheme, unit) prog" where
  "send_frame cmd data =
     bnd (gets rn_tx) (\<lambda>tx.
     if \<not> tx then ret () else modify (\<lambda>s. s\<lparr>rn_host := rn_host s @ [kiss_frame cmd data]\<rparr>))"

definition send_u8 :: "u8 \<Rightarrow> u8 \<Rightarrow> ('a rnode_scheme, unit) prog" where
  "send_u8 cmd v = send_frame cmd [v]"

definition send_error :: "u8 \<Rightarrow> ('a rnode_scheme, unit) prog" where
  "send_error code = send_u8 CMD_ERROR code"

definition split_u32 :: "u32 \<Rightarrow> bytes" where
  "split_u32 v =
     [ucast (drop_bit 24 v AND 0xFF), ucast (drop_bit 16 v AND 0xFF), ucast (drop_bit 8 v AND 0xFF), ucast (v AND 0xFF)]"

definition join_u32 :: "bytes \<Rightarrow> u32" where
  "join_u32 b =
     push_bit 24 (ucast (b ! 0)) OR push_bit 16 (ucast (b ! 1)) OR push_bit 8 (ucast (b ! 2)) OR ucast (b ! 3)"

definition send_freq :: "('a rnode_scheme, unit) prog" where
  "send_freq = bnd (gets rn_cfg) (\<lambda>c. send_frame CMD_FREQUENCY (split_u32 (rc_freq_hz c)))"

definition send_bw :: "('a rnode_scheme, unit) prog" where
  "send_bw = bnd (gets rn_cfg) (\<lambda>c. send_frame CMD_BANDWIDTH (split_u32 (rc_bw_hz c)))"

text \<open>The arguments are the float values converted to \<open>int32_t\<close>: dBm, and four times the dB.\<close>

definition send_stat_rssi :: "int \<Rightarrow> ('a rnode_scheme, unit) prog" where
  "send_stat_rssi dbm =
     (let v = dbm + 157; v = (if v < 0 then 0 else v); v = (if v > 255 then 255 else v)
      in send_u8 CMD_STAT_RSSI (word_of_int v))"

definition send_stat_snr :: "int \<Rightarrow> ('a rnode_scheme, unit) prog" where
  "send_stat_snr q =
     (let v = q; v = (if v < -128 then -128 else v); v = (if v > 127 then 127 else v)
      in send_u8 CMD_STAT_SNR (word_of_int v))"

definition indicate_ready :: "('a rnode_scheme, unit) prog" where
  "indicate_ready = send_u8 CMD_READY 0x01"

section \<open>Commands of the host\<close>

text \<open>\<open>g_lora && g_lora->set_...\<close>: false without an interface.\<close>

definition if_lora :: "('a rnode_scheme, bool) prog \<Rightarrow> ('a rnode_scheme, bool) prog" where
  "if_lora m = bnd (gets rn_lora) (\<lambda>l. if l then m else ret False)"

definition upd_cfg :: "(radio_cfg \<Rightarrow> radio_cfg) \<Rightarrow> ('a rnode_scheme, unit) prog" where
  "upd_cfg f = modify (\<lambda>s. s\<lparr>rn_cfg := f (rn_cfg s)\<rparr>)"

text \<open>Set a parameter unless the payload is the query value, then report it.\<close>

definition set_or_query ::
  "bool \<Rightarrow> ('a rnode_scheme, bool) prog \<Rightarrow> (radio_cfg \<Rightarrow> radio_cfg) \<Rightarrow> ('a rnode_scheme, unit) prog \<Rightarrow>
   ('a rnode_scheme, unit) prog" where
  "set_or_query query attempt f report =
     bnd (when_do (\<not> query)
       (bnd (if_lora attempt) (\<lambda>ok. if ok then upd_cfg f else send_error ERROR_INITRADIO))) (\<lambda>_. report)"

definition handle_frame :: "(radio_call \<Rightarrow> bool) \<Rightarrow> u8 \<Rightarrow> u8 \<Rightarrow> bytes \<Rightarrow> ('a rnode_scheme, unit) prog" where
  "handle_frame accept rnd cmd buf =
     (if cmd = CMD_DATA then
        (if length buf = 0 then ret ()
         else bnd (gets rn_lora) (\<lambda>l. when_do l (send_raw rnd buf)))
      else if cmd = CMD_FREQUENCY then
        when_do (length buf = 4)
          (let hz = join_u32 buf in
           set_or_query (hz = 0) (lora_set accept (Set_frequency hz)) (\<lambda>c. c\<lparr>rc_freq_hz := hz\<rparr>) send_freq)
      else if cmd = CMD_BANDWIDTH then
        when_do (length buf = 4)
          (let hz = join_u32 buf in
           set_or_query (hz = 0) (lora_set accept (Set_bandwidth hz)) (\<lambda>c. c\<lparr>rc_bw_hz := hz\<rparr>) send_bw)
      else if cmd = CMD_SF then
        when_do (length buf = 1)
          (set_or_query (buf ! 0 = 0xFF) (lora_set accept (Set_spreading_factor (buf ! 0)))
             (\<lambda>c. c\<lparr>rc_sf := buf ! 0\<rparr>) (bnd (gets rn_cfg) (\<lambda>c. send_u8 CMD_SF (rc_sf c))))
      else if cmd = CMD_CR then
        when_do (length buf = 1)
          (set_or_query (buf ! 0 = 0xFF) (lora_set accept (Set_coding_rate (buf ! 0)))
             (\<lambda>c. c\<lparr>rc_cr := buf ! 0\<rparr>) (bnd (gets rn_cfg) (\<lambda>c. send_u8 CMD_CR (rc_cr c))))
      else if cmd = CMD_TXPOWER then
        when_do (length buf = 1)
          (set_or_query (buf ! 0 = 0xFF) (lora_set accept (Set_output_power (buf ! 0)))
             (\<lambda>c. c\<lparr>rc_txp := buf ! 0\<rparr>) (bnd (gets rn_cfg) (\<lambda>c. send_u8 CMD_TXPOWER (rc_txp c))))
      else if cmd = CMD_RADIO_STATE then
        when_do (length buf = 1)
          (let want = (buf ! 0 = RADIO_STATE_ON) in
           set_or_query (buf ! 0 = 0xFF) (set_radio_online accept want)
             (\<lambda>c. c\<lparr>rc_state := (if want then RADIO_STATE_ON else RADIO_STATE_OFF)\<rparr>)
             (bnd (gets rn_cfg) (\<lambda>c. send_u8 CMD_RADIO_STATE (rc_state c))))
      else if cmd = CMD_DETECT then
        when_do (length buf = 1 \<and> buf ! 0 = DETECT_REQ) (send_u8 CMD_DETECT DETECT_RESP)
      else if cmd = CMD_READY then indicate_ready
      else if cmd = CMD_FW_VERSION then send_frame CMD_FW_VERSION [MAJ_VERS, MIN_VERS]
      else if cmd = CMD_PLATFORM then send_u8 CMD_PLATFORM PLATFORM_ESP32
      else if cmd = CMD_MCU then send_u8 CMD_MCU MCU_ESP32
      else if cmd = CMD_BOARD then send_u8 CMD_BOARD BOARD_HELTEC_V3
      else if cmd = CMD_RANDOM then send_u8 CMD_RANDOM (rnd AND 0xFF)
      else ret ())"

section \<open>Parser and main loop\<close>

definition kiss_feed :: "u8 \<Rightarrow> kiss \<Rightarrow> kiss \<times> (u8 \<times> bytes) option" where
  "kiss_feed b p =
     (if b = FEND then
        (p\<lparr>ks_in_frame := True, ks_escape := False, ks_cmd := CMD_UNKNOWN, ks_buf := []\<rparr>,
         if ks_in_frame p \<and> ks_cmd p \<noteq> CMD_UNKNOWN then Some (ks_cmd p, ks_buf p) else None)
      else if \<not> ks_in_frame p then (p, None)
      else if ks_cmd p = CMD_UNKNOWN then (p\<lparr>ks_cmd := b\<rparr>, None)
      else if b = FESC then (p\<lparr>ks_escape := True\<rparr>, None)
      else
        let b = (if ks_escape p then (if b = TFEND then FEND else if b = TFESC then FESC else b) else b);
            p = p\<lparr>ks_escape := False\<rparr> in
        (if length (ks_buf p) < FRAME_MAX then p\<lparr>ks_buf := ks_buf p @ [b]\<rparr> else p, None))"

definition feed_byte :: "(radio_call \<Rightarrow> bool) \<Rightarrow> u8 \<Rightarrow> u8 \<Rightarrow> ('a rnode_scheme, unit) prog" where
  "feed_byte accept rnd b =
     bnd (gets rn_kiss) (\<lambda>p.
     case kiss_feed b p of (p', f) \<Rightarrow>
       bnd (case f of None \<Rightarrow> ret () | Some (cmd, buf) \<Rightarrow> handle_frame accept rnd cmd buf) (\<lambda>_.
       modify (\<lambda>s. s\<lparr>rn_kiss := p'\<rparr>)))"

definition on_lora_rx :: "int \<Rightarrow> int \<Rightarrow> bytes \<Rightarrow> ('a rnode_scheme, unit) prog" where
  "on_lora_rx rssi snr data =
     bnd (send_stat_rssi rssi) (\<lambda>_. bnd (send_stat_snr snr) (\<lambda>_. send_frame CMD_DATA data))"

definition attach :: "bool \<Rightarrow> bool \<Rightarrow> ('a rnode_scheme, unit) prog" where
  "attach has_lora tx =
     bnd (modify (\<lambda>s. s\<lparr>rn_lora := has_lora, rn_tx := tx\<rparr>)) (\<lambda>_.
     when_do has_lora (modify (\<lambda>s. s\<lparr>lo_raw_rx := True\<rparr>)))"

definition poll_lora :: "('a rnode_scheme, unit) prog" where
  "poll_lora = bnd (gets rn_lora) (\<lambda>l. when_do l lora_loop)"

text \<open>One turn of the UART bridge's loop: the byte read, if any, then the radio.\<close>

definition bridge_turn :: "(radio_call \<Rightarrow> bool) \<Rightarrow> u8 \<Rightarrow> u8 option \<Rightarrow> ('a rnode_scheme, unit) prog" where
  "bridge_turn accept rnd b =
     bnd (case b of None \<Rightarrow> ret () | Some b \<Rightarrow> feed_byte accept rnd b) (\<lambda>_. poll_lora)"

text \<open>\<open>RNodeBridge::run\<close> up to the end of its first turns, the interrupt in between them.\<close>

datatype bridge_event = Turn "u8 option" u8 | Packet_received

definition bridge_event_run :: "(radio_call \<Rightarrow> bool) \<Rightarrow> bridge_event \<Rightarrow> ('a rnode_scheme, unit) prog" where
  "bridge_event_run accept e = (case e of Turn b rnd \<Rightarrow> bridge_turn accept rnd b | Packet_received \<Rightarrow> on_dio1)"

definition bridge_run :: "(radio_call \<Rightarrow> bool) \<Rightarrow> bridge_event list \<Rightarrow> ('a rnode_scheme, unit) prog" where
  "bridge_run accept es =
     bnd (attach True True) (\<lambda>_. bnd indicate_ready (\<lambda>_. for_each es (bridge_event_run accept)))"

section \<open>The KISS parser is a framing parser\<close>

definition kiss_holding :: "bytes \<Rightarrow> kiss \<Rightarrow> bool" where
  "kiss_holding c p \<longleftrightarrow> ks_in_frame p \<and> \<not> ks_escape p \<and>
     (case c of [] \<Rightarrow> ks_cmd p = CMD_UNKNOWN \<and> ks_buf p = []
      | k # d \<Rightarrow> ks_cmd p = k \<and> k \<noteq> CMD_UNKNOWN \<and> ks_buf p = take 600 d)"

text \<open>The command byte is not escaped, so three values cannot be one.\<close>

definition kiss_good :: "bytes \<Rightarrow> u8 \<Rightarrow> bool" where
  "kiss_good c b \<longleftrightarrow> (c = [] \<longrightarrow> b \<notin> {FEND, FESC, CMD_UNKNOWN})"

fun kiss_final :: "bytes \<Rightarrow> (u8 \<times> bytes) option" where
  "kiss_final [] = None"
| "kiss_final (k # d) = Some (k, take 600 d)"

lemma kiss_enc_length: "length (kiss_enc b) \<le> 2"
  by (simp add: kiss_enc_def)

lemma kiss_bytes: "FEND \<noteq> FESC" "TFEND \<noteq> FEND" "TFESC \<noteq> FEND" "TFEND \<noteq> FESC" "TFESC \<noteq> FESC" "TFEND \<noteq> TFESC"
  by (simp_all add: FEND_def FESC_def TFEND_def TFESC_def)

interpretation kiss: framing kiss_feed kiss_enc FEND kiss_holding kiss_good kiss_final
proof unfold_locales
  show "kiss_holding [] (fst (kiss_feed FEND p))" for p
    by (simp add: kiss_holding_def kiss_feed_def)
  show "snd (kiss_feed FEND p) = kiss_final c" if "kiss_holding c p" for c p
    using that by (cases c) (auto simp: kiss_holding_def kiss_feed_def)
  show "kiss_final [] = None" by simp
  show "snd (feed_all kiss_feed (kiss_enc b) p) = [] \<and> kiss_holding (c @ [b]) (fst (feed_all kiss_feed (kiss_enc b) p))"
    if h: "kiss_holding c p" and g: "kiss_good c b" for c b p
  proof (cases c)
    case Nil
    then show ?thesis using h g by (auto simp: kiss_good_def kiss_enc_def kiss_holding_def kiss_feed_def)
  next
    case (Cons k d)
    have p: "ks_in_frame p" "\<not> ks_escape p" "ks_cmd p = k" "k \<noteq> CMD_UNKNOWN" "ks_buf p = take 600 d"
      using h Cons by (simp_all add: kiss_holding_def)
    consider "b = FEND" | "b = FESC" | "b \<noteq> FEND" "b \<noteq> FESC" by blast
    then show ?thesis
      using p Cons kiss_bytes
      by cases (auto simp: kiss_enc_def kiss_holding_def kiss_feed_def Let_def FRAME_MAX_def)
  qed
qed

lemma kiss_good_content: "c \<noteq> [] \<Longrightarrow> kiss.good_after c d"
  by (induction d arbitrary: c) (simp_all add: kiss_good_def)

lemma kiss_good_frame: "k \<notin> {FEND, FESC, CMD_UNKNOWN} \<Longrightarrow> kiss.good_after [] (k # d)"
  by (simp add: kiss_good_def kiss_good_content)

lemma kiss_frame_content:
  assumes "length d \<le> 600" "k \<notin> {FEND, FESC, CMD_UNKNOWN}"
  shows "kiss_frame k d = FEND # concat (map kiss_enc (k # d)) @ [FEND]"
proof -
  have "fill kiss_enc 1204 2 d = concat (map kiss_enc d)"
    using assms(1) by (intro fill_all kiss_enc_length) simp
  then show ?thesis using assms(2) by (simp add: kiss_frame_def FRAME_MAX_def kiss_enc_def)
qed

section \<open>Command handlers and the parser state\<close>

text \<open>Programs that return, neither use nor change the parser.\<close>

definition aside :: "('a rnode_scheme, 'b) prog \<Rightarrow> bool" where
  "aside m \<longleftrightarrow> (\<forall>s. \<exists>a s'. m s = (Ret a, s') \<and> (\<forall>p. m (s\<lparr>rn_kiss := p\<rparr>) = (Ret a, s'\<lparr>rn_kiss := p\<rparr>)))"

lemma aside_ret [pres_intros]: "aside (ret a)"
  by (simp add: aside_def)

lemma aside_gets: "(\<And>s p. f (s\<lparr>rn_kiss := p\<rparr>) = f s) \<Longrightarrow> aside (gets f)"
  by (simp add: aside_def)

lemma aside_modify: "(\<And>s p. f (s\<lparr>rn_kiss := p\<rparr>) = (f s)\<lparr>rn_kiss := p\<rparr>) \<Longrightarrow> aside (modify f)"
  by (simp add: aside_def)

lemma aside_bnd [pres_intros]:
  assumes "aside m" "\<And>a. aside (f a)"
  shows "aside (bnd m f)"
  unfolding aside_def
proof
  fix s
  obtain a s' where 1: "m s = (Ret a, s')" "\<And>p. m (s\<lparr>rn_kiss := p\<rparr>) = (Ret a, s'\<lparr>rn_kiss := p\<rparr>)"
    using assms(1) unfolding aside_def by blast
  obtain b t where 2: "f a s' = (Ret b, t)" "\<And>p. f a (s'\<lparr>rn_kiss := p\<rparr>) = (Ret b, t\<lparr>rn_kiss := p\<rparr>)"
    using assms(2)[of a] unfolding aside_def by blast
  show "\<exists>b t. bnd m f s = (Ret b, t) \<and> (\<forall>p. bnd m f (s\<lparr>rn_kiss := p\<rparr>) = (Ret b, t\<lparr>rn_kiss := p\<rparr>))"
    using 1 2 by (intro exI[of _ b] exI[of _ t]) (simp add: bnd_Ret)
qed

lemma aside_if [pres_intros]: "aside m \<Longrightarrow> aside n \<Longrightarrow> aside (if b then m else n)"
  by simp

lemma aside_when [pres_intros]: "aside m \<Longrightarrow> aside (when_do b m)"
  by (cases b) (simp_all add: aside_ret)

lemma aside_pair [pres_intros]: "(\<And>a b. aside (f a b)) \<Longrightarrow> aside (case x of (a, b) \<Rightarrow> f a b)"
  by (cases x) simp

lemma aside_state [pres_intros]:
  "aside (gets rn_tx)" "aside (gets rn_lora)" "aside (gets rn_cfg)" "aside (gets lo_radio)"
  "aside (gets (\<lambda>s. (lo_radio s, lo_radio_on s)))" "aside (upd_cfg f)"
  "aside (modify (\<lambda>s. s\<lparr>rn_host := g (rn_host s)\<rparr>))" "aside (modify (\<lambda>s. s\<lparr>lo_radio_on := b\<rparr>))"
  "aside (modify (\<lambda>s. s\<lparr>lo_txb := h (lo_txb s)\<rparr>))"
  "aside (modify (\<lambda>s. s\<lparr>lo_air := k (lo_air s), lo_pending := b\<rparr>))"
  unfolding upd_cfg_def by (intro aside_gets aside_modify; simp)+

lemma aside_send [pres_intros]: "aside (send_frame c d)" "aside (send_u8 c v)" "aside (send_error v)"
  "aside send_freq" "aside send_bw" "aside indicate_ready"
  unfolding send_error_def send_freq_def send_bw_def indicate_ready_def send_u8_def send_frame_def
  by (intro pres_intros)+

lemma aside_radio [pres_intros]:
  "aside (lora_set accept c)" "aside (set_radio_online accept b)" "aside (send_raw r d)"
  unfolding lora_set_def set_radio_online_def send_raw_def Let_def by (intro pres_intros)+

lemma aside_query [pres_intros]: "aside m \<Longrightarrow> aside r \<Longrightarrow> aside (set_or_query b m f r)"
  unfolding set_or_query_def if_lora_def by (intro pres_intros)

lemma aside_handle: "aside (handle_frame accept rnd cmd buf)"
  unfolding handle_frame_def Let_def by (intro pres_intros)

lemma handle_run:
  obtains s' where "handle_frame accept rnd cmd buf s = (Ret (), s')"
    "\<And>p. handle_frame accept rnd cmd buf (s\<lparr>rn_kiss := p\<rparr>) = (Ret (), s'\<lparr>rn_kiss := p\<rparr>)"
  using aside_handle[of accept rnd cmd buf, unfolded aside_def, rule_format, of s] by auto

text \<open>Feeding bytes is parsing them all and handling the frames.\<close>

lemma feed_bytes:
  "\<exists>s'. for_each bs (feed_byte accept rnd) s = (Ret (), s'\<lparr>rn_kiss := fst (feed_all kiss_feed bs (rn_kiss s))\<rparr>) \<and>
    (\<forall>q. for_each (snd (feed_all kiss_feed bs (rn_kiss s))) (\<lambda>(c, d). handle_frame accept rnd c d) (s\<lparr>rn_kiss := q\<rparr>) =
      (Ret (), s'\<lparr>rn_kiss := q\<rparr>))"
proof (induction bs arbitrary: s)
  case Nil
  show ?case by (intro exI[of _ s]) simp
next
  case (Cons b bs)
  obtain p f where p: "kiss_feed b (rn_kiss s) = (p, f)" by fastforce
  show ?case
  proof (cases f)
    case None
    have "feed_byte accept rnd b s = (Ret (), s\<lparr>rn_kiss := p\<rparr>)" using p None by (simp add: feed_byte_def)
    then show ?thesis using Cons.IH[of "s\<lparr>rn_kiss := p\<rparr>"] p None
      by (auto simp: bnd_def Let_def split: prod.split)
  next
    case (Some cd)
    obtain c d where cd: "cd = (c, d)" by (cases cd)
    obtain s1 where s1: "handle_frame accept rnd c d s = (Ret (), s1)"
      "\<And>q. handle_frame accept rnd c d (s\<lparr>rn_kiss := q\<rparr>) = (Ret (), s1\<lparr>rn_kiss := q\<rparr>)"
      using handle_run[of accept rnd c d s] by blast
    have "feed_byte accept rnd b s = (Ret (), s1\<lparr>rn_kiss := p\<rparr>)"
      using p Some cd s1(1) by (simp add: feed_byte_def bnd_Ret)
    then show ?thesis using Cons.IH[of "s1\<lparr>rn_kiss := p\<rparr>"] p Some cd s1(2)
      by (auto simp: bnd_Ret Let_def split: prod.split)
  qed
qed

section \<open>What the bridge sends\<close>

text \<open>What feeding a byte keeps, from what its elementary steps keep.\<close>

lemma feed_preserves:
  assumes send: "\<And>c d. c \<notin> {CMD_DATA, CMD_STAT_RSSI, CMD_STAT_SNR} \<Longrightarrow> preserves P (send_frame c d)"
    and steps: "\<And>f. preserves P (upd_cfg f)" "\<And>b. preserves P (modify (\<lambda>s. s\<lparr>lo_radio_on := b\<rparr>))"
      "\<And>n. preserves P (modify (\<lambda>s. s\<lparr>lo_txb := lo_txb s + n\<rparr>))"
      "\<And>f b. preserves P (modify (\<lambda>s. s\<lparr>lo_air := lo_air s @ [f], lo_pending := b\<rparr>))"
      "\<And>p. preserves P (modify (\<lambda>s. s\<lparr>rn_kiss := p\<rparr>))"
  shows "preserves P (feed_byte accept rnd b)" "preserves P indicate_ready"
proof -
  have sends: "preserves P (send_error e)" "preserves P send_freq" "preserves P send_bw" "preserves P indicate_ready" for e
    unfolding send_error_def send_freq_def send_bw_def indicate_ready_def send_u8_def
    by (intro pres_intros send; simp add: cmd_defs)+
  have radio: "preserves P (lora_set accept c)" "preserves P (set_radio_online accept o1)" "preserves P (send_raw r d)" for c o1 r d
    unfolding lora_set_def set_radio_online_def send_raw_def Let_def by (intro pres_intros steps)+
  have query: "preserves P (set_or_query q m f r)" if "preserves P m" "preserves P r" for q m f r
    unfolding set_or_query_def if_lora_def by (intro pres_intros that sends steps)
  have "preserves P (handle_frame accept rnd cmd buf)" for cmd buf
    unfolding handle_frame_def send_u8_def Let_def
    by (intro pres_intros query radio sends send; simp add: cmd_defs)
  then show "preserves P (feed_byte accept rnd b)"
    unfolding feed_byte_def by (intro pres_intros steps)
  show "preserves P indicate_ready" by (rule sends)
qed

definition replies :: "'a rnode_scheme \<Rightarrow> bool" where
  "replies s \<longleftrightarrow>
     (\<forall>f\<in>set (rn_host s). \<exists>c d. f = kiss_frame c d \<and> c \<notin> {CMD_DATA, CMD_STAT_RSSI, CMD_STAT_SNR})"

lemma replies_other:
  assumes "\<And>s. rn_host (f s) = rn_host s"
  shows "preserves replies (modify f)"
  by (rule preserves_modify) (simp add: replies_def assms)

lemma replies_feed: "preserves replies (feed_byte accept rnd b)" "preserves replies indicate_ready"
proof -
  have send: "preserves replies (send_frame c d)" if "c \<notin> {CMD_DATA, CMD_STAT_RSSI, CMD_STAT_SNR}" for c d
    unfolding send_frame_def using that by (intro pres_intros preserves_modify) (auto simp: replies_def)
  show "preserves replies (feed_byte accept rnd b)" "preserves replies indicate_ready"
    by (rule feed_preserves; (rule send, assumption)?; (unfold upd_cfg_def)?; (rule replies_other, simp)?)+
qed

lemma replies_event: "preserves replies (bridge_event_run accept e)" "preserves replies (attach l t)"
proof -
  have poll: "preserves replies poll_lora" unfolding poll_lora_def lora_loop_def by (intro pres_intros)
  show "preserves replies (bridge_event_run accept e)"
    unfolding bridge_event_run_def bridge_turn_def on_dio1_def
    by (cases e; simp only: bridge_event.case) (intro pres_intros replies_feed poll replies_other; simp)+
  show "preserves replies (attach l t)"
    unfolding attach_def by (intro pres_intros replies_other; simp)
qed

section \<open>Parameters\<close>

lemma join_split: "join_u32 (split_u32 v) = v"
proof (rule bit_word_eqI)
  fix n assume "n < LENGTH(32)"
  then consider "n < 8" | "8 \<le> n" "n < 16" | "16 \<le> n" "n < 24" | "24 \<le> n" "n < 32" by fastforce
  then show "bit (join_u32 (split_u32 v)) n = bit v n"
    by cases (auto simp: join_u32_def split_u32_def bit_or_iff bit_and_iff bit_push_bit_iff bit_drop_bit_eq
        bit_ucast_iff and_0xFF bit_take_bit_iff less_diff_conv2)
qed

section \<open>Properties\<close>

text \<open>
  C19: the commands a host frames one after the other are handled one for one, in order and with their payloads, if no
  command byte is the flag, the escape or the parser's mark for "no command yet" (0xFE), and no payload exceeds 600
  bytes; the state they leave is that of the handlers alone. The parser may be in any state before: a command it had
  begun is handled first, and nothing else is; at the start of the bridge there is none.
\<close>

theorem kiss_stream:
  assumes "\<forall>(c, d)\<in>set fs. c \<notin> {FEND, FESC, CMD_UNKNOWN} \<and> length d \<le> 600" "fs \<noteq> []"
    "begun = (if ks_in_frame (rn_kiss s) \<and> ks_cmd (rn_kiss s) \<noteq> CMD_UNKNOWN then [(ks_cmd (rn_kiss s), ks_buf (rn_kiss s))] else [])"
  shows "\<exists>s'. for_each (begun @ fs) (\<lambda>(c, d). handle_frame accept rnd c d) s = (Ret (), s') \<and>
    (\<exists>p. kiss_holding [] p \<and>
      for_each (concat (map (\<lambda>(c, d). kiss_frame c d) fs)) (feed_byte accept rnd) s = (Ret (), s'\<lparr>rn_kiss := p\<rparr>))"
proof -
  let ?bs = "concat (map (\<lambda>(c, d). kiss_frame c d) fs)"
  have frames: "?bs = concat (map (\<lambda>d. FEND # concat (map kiss_enc d) @ [FEND]) (map (\<lambda>(c, d). c # d) fs))"
    using assms(1) by (induction fs) (auto simp: kiss_frame_content)
  have good: "\<forall>d\<in>set (map (\<lambda>(c, d). c # d) fs). kiss.good_after [] d"
    using assms(1) by (auto intro!: kiss_good_frame)
  have final: "List.map_filter kiss_final (map (\<lambda>(c, d). c # d) fs) = fs"
    using assms(1) by (induction fs) (auto simp: List.map_filter_simps)
  have "(case snd (kiss_feed FEND (rn_kiss s)) of None \<Rightarrow> [] | Some f \<Rightarrow> [f]) = begun"
    by (simp add: kiss_feed_def assms(3))
  then have all: "snd (feed_all kiss_feed ?bs (rn_kiss s)) = begun @ fs" "kiss_holding [] (fst (feed_all kiss_feed ?bs (rn_kiss s)))"
    using kiss.feed_resync[OF good, of "rn_kiss s"] assms(2) unfolding frames final by simp_all
  obtain s' where s': "for_each ?bs (feed_byte accept rnd) s = (Ret (), s'\<lparr>rn_kiss := fst (feed_all kiss_feed ?bs (rn_kiss s))\<rparr>)"
    "\<And>q. for_each (begun @ fs) (\<lambda>(c, d). handle_frame accept rnd c d) (s\<lparr>rn_kiss := q\<rparr>) = (Ret (), s'\<lparr>rn_kiss := q\<rparr>)"
    using feed_bytes[of ?bs accept rnd s] all(1) by auto
  then show ?thesis using s'(2)[of "rn_kiss s"] all(2)
    by (intro exI[of _ "s'\<lparr>rn_kiss := rn_kiss s\<rparr>"] conjI exI[of _ "fst (feed_all kiss_feed ?bs (rn_kiss s))"]) simp_all
qed

text \<open>
  Whatever the host sends and however often the radio signals a packet, the bridge never sends the host
  a data frame or signal statistics: its loop polls the interface's \<open>loop\<close>, which is empty, and nothing
  reads the packet.
\<close>

theorem rnode_deaf:
  assumes "rn_host s = []" "f \<in> set (rn_host (snd (bridge_run accept es s)))"
  shows "\<exists>c d. f = kiss_frame c d \<and> c \<notin> {CMD_DATA, CMD_STAT_RSSI, CMD_STAT_SNR}"
proof -
  have "preserves replies (bridge_run accept es)"
    unfolding bridge_run_def by (intro pres_intros replies_event replies_feed)
  from preservesD[OF this, of s] assms show ?thesis by (auto simp: replies_def)
qed
text \<open>The reply to a parameter command: an error first if the radio refused, then the value in force.\<close>

definition param_reply :: "bool \<Rightarrow> u8 \<Rightarrow> bytes \<Rightarrow> bytes list" where
  "param_reply refused cmd v = (if refused then [kiss_frame CMD_ERROR [ERROR_INITRADIO]] else []) @ [kiss_frame cmd v]"

lemma query_run:
  assumes "rn_lora s" "lo_radio s"
    "report (if \<not> query \<and> accept c then s\<lparr>rn_cfg := f (rn_cfg s)\<rparr>
      else if \<not> query then s\<lparr>rn_host := rn_host s @ (if rn_tx s then [kiss_frame CMD_ERROR [ERROR_INITRADIO]] else [])\<rparr> else s) = r"
  shows "set_or_query query (lora_set accept c) f report s = r"
  using assms(1,2)
  by (simp add: assms(3)[symmetric] set_or_query_def if_lora_def lora_set_def upd_cfg_def send_error_def send_u8_def
      send_frame_def bnd_def)

text \<open>
  A frequency command sets the cached frequency exactly when it is not the query value zero and the
  radio accepts it; the host gets an error if it was refused, and always the frequency in force. The
  spreading factor and the transmit power behave alike, with 0xFF as their query value.
\<close>

theorem rnode_parameters:
  assumes "rn_lora s" "lo_radio s" "rn_tx s"
  shows "(let new = (if hz \<noteq> 0 \<and> accept (Set_frequency hz) then hz else rc_freq_hz (rn_cfg s)) in
      handle_frame accept rnd CMD_FREQUENCY (split_u32 hz) s =
        (Ret (), s\<lparr>rn_cfg := (rn_cfg s)\<lparr>rc_freq_hz := new\<rparr>,
          rn_host := rn_host s @ param_reply (hz \<noteq> 0 \<and> \<not> accept (Set_frequency hz)) CMD_FREQUENCY (split_u32 new)\<rparr>)) \<and>
    (let new = (if v \<noteq> 0xFF \<and> accept (Set_spreading_factor v) then v else rc_sf (rn_cfg s)) in
      handle_frame accept rnd CMD_SF [v] s =
        (Ret (), s\<lparr>rn_cfg := (rn_cfg s)\<lparr>rc_sf := new\<rparr>,
          rn_host := rn_host s @ param_reply (v \<noteq> 0xFF \<and> \<not> accept (Set_spreading_factor v)) CMD_SF [new]\<rparr>)) \<and>
    (let new = (if v \<noteq> 0xFF \<and> accept (Set_output_power v) then v else rc_txp (rn_cfg s)) in
      handle_frame accept rnd CMD_TXPOWER [v] s =
        (Ret (), s\<lparr>rn_cfg := (rn_cfg s)\<lparr>rc_txp := new\<rparr>,
          rn_host := rn_host s @ param_reply (v \<noteq> 0xFF \<and> \<not> accept (Set_output_power v)) CMD_TXPOWER [new]\<rparr>))"
proof (intro conjI)
  have "length (split_u32 hz) = 4" by (simp add: split_u32_def)
  then have freq: "handle_frame accept rnd CMD_FREQUENCY (split_u32 hz) =
      set_or_query (hz = 0) (lora_set accept (Set_frequency hz)) (\<lambda>c. c\<lparr>rc_freq_hz := hz\<rparr>) send_freq"
    by (intro ext) (simp add: handle_frame_def cmd_defs join_split Let_def)
  have sf: "handle_frame accept rnd CMD_SF [v] =
      set_or_query (v = 0xFF) (lora_set accept (Set_spreading_factor v)) (\<lambda>c. c\<lparr>rc_sf := v\<rparr>)
        (bnd (gets rn_cfg) (\<lambda>c. send_u8 CMD_SF (rc_sf c)))"
    by (intro ext) (simp add: handle_frame_def cmd_defs)
  have txp: "handle_frame accept rnd CMD_TXPOWER [v] =
      set_or_query (v = 0xFF) (lora_set accept (Set_output_power v)) (\<lambda>c. c\<lparr>rc_txp := v\<rparr>)
        (bnd (gets rn_cfg) (\<lambda>c. send_u8 CMD_TXPOWER (rc_txp c)))"
    by (intro ext) (simp add: handle_frame_def cmd_defs)
  show "let new = (if hz \<noteq> 0 \<and> accept (Set_frequency hz) then hz else rc_freq_hz (rn_cfg s)) in
      handle_frame accept rnd CMD_FREQUENCY (split_u32 hz) s =
        (Ret (), s\<lparr>rn_cfg := (rn_cfg s)\<lparr>rc_freq_hz := new\<rparr>,
          rn_host := rn_host s @ param_reply (hz \<noteq> 0 \<and> \<not> accept (Set_frequency hz)) CMD_FREQUENCY (split_u32 new)\<rparr>)"
    unfolding Let_def freq
    by (rule query_run[OF assms(1,2)]) (simp add: assms(3) send_freq_def send_frame_def param_reply_def)
  show "let new = (if v \<noteq> 0xFF \<and> accept (Set_spreading_factor v) then v else rc_sf (rn_cfg s)) in
      handle_frame accept rnd CMD_SF [v] s =
        (Ret (), s\<lparr>rn_cfg := (rn_cfg s)\<lparr>rc_sf := new\<rparr>,
          rn_host := rn_host s @ param_reply (v \<noteq> 0xFF \<and> \<not> accept (Set_spreading_factor v)) CMD_SF [new]\<rparr>)"
    unfolding Let_def sf
    by (rule query_run[OF assms(1,2)]) (simp add: assms(3) send_u8_def send_frame_def param_reply_def)
  show "let new = (if v \<noteq> 0xFF \<and> accept (Set_output_power v) then v else rc_txp (rn_cfg s)) in
      handle_frame accept rnd CMD_TXPOWER [v] s =
        (Ret (), s\<lparr>rn_cfg := (rn_cfg s)\<lparr>rc_txp := new\<rparr>,
          rn_host := rn_host s @ param_reply (v \<noteq> 0xFF \<and> \<not> accept (Set_output_power v)) CMD_TXPOWER [new]\<rparr>)"
    unfolding Let_def txp
    by (rule query_run[OF assms(1,2)]) (simp add: assms(3) send_u8_def send_frame_def param_reply_def)
qed

section \<open>Witnesses\<close>

definition toy_bridge :: rnode where
  "toy_bridge =
    \<lparr>lo_radio = True, lo_radio_on = True, lo_online = True, lo_txb = 0, lo_pending = False, lo_queue = Some [],
     lo_raw_rx = True, lo_air = [], rn_lora = True, rn_tx = True, rn_cfg = default_cfg,
     rn_kiss = \<lparr>ks_in_frame = True, ks_escape = False, ks_cmd = CMD_UNKNOWN, ks_buf = []\<rparr>, rn_host = []\<rparr>"

theorem kiss_stream_witness:
  "\<exists>s' p. for_each (concat (map (\<lambda>(c, d). kiss_frame c d) [(CMD_DATA, [0xC0, 1]), (CMD_DETECT, [DETECT_REQ])]))
      (feed_byte (\<lambda>_. True) 0x35) (toy_bridge\<lparr>rn_kiss := kiss_boot\<rparr>) = (Ret (), s'\<lparr>rn_kiss := p\<rparr>) \<and>
    lo_air s' = [[0x30, 0xC0, 1]] \<and> rn_host s' = [kiss_frame CMD_DETECT [DETECT_RESP]]"
proof -
  let ?s = "toy_bridge\<lparr>rn_kiss := kiss_boot\<rparr>"
  have "\<exists>s'. for_each ([] @ [(CMD_DATA, [0xC0, 1]), (CMD_DETECT, [DETECT_REQ])])
      (\<lambda>(c, d). handle_frame (\<lambda>_. True) 0x35 c d) ?s = (Ret (), s') \<and>
    (\<exists>p. kiss_holding [] p \<and>
      for_each (concat (map (\<lambda>(c, d). kiss_frame c d) [(CMD_DATA, [0xC0, 1]), (CMD_DETECT, [DETECT_REQ])]))
        (feed_byte (\<lambda>_. True) 0x35) ?s = (Ret (), s'\<lparr>rn_kiss := p\<rparr>))"
    by (rule kiss_stream) (simp_all add: kiss_boot_def cmd_defs FEND_def FESC_def)
  moreover have "for_each [(CMD_DATA, [0xC0, 1]), (CMD_DETECT, [DETECT_REQ])]
      (\<lambda>(c, d). handle_frame (\<lambda>_. True) 0x35 c d) ?s = (Ret (), ?s
        \<lparr>lo_txb := 2, lo_air := [[0x30, 0xC0, 1]], rn_host := [kiss_frame CMD_DETECT [DETECT_RESP]]\<rparr>)"
    by (simp add: handle_frame_def cmd_defs send_raw_def toy_bridge_def MAX_FRAME_def rnode_header_def send_u8_def
        send_frame_def Let_def bnd_assoc)
  ultimately show ?thesis unfolding append_Nil by (elim exE conjE) (intro exI conjI, assumption, auto)
qed

theorem rnode_deaf_witness:
  "\<exists>f. f \<in> set (rn_host (snd (bridge_run (\<lambda>_. True) [Packet_received, Turn None 0] toy_bridge))) \<and>
    (\<exists>c d. f = kiss_frame c d \<and> c \<notin> {CMD_DATA, CMD_STAT_RSSI, CMD_STAT_SNR})"
proof -
  have "kiss_frame CMD_READY [1] \<in> set (rn_host (snd (bridge_run (\<lambda>_. True) [Packet_received, Turn None 0] toy_bridge)))"
    by (simp add: bridge_run_def attach_def indicate_ready_def send_u8_def send_frame_def bridge_event_run_def on_dio1_def
        bridge_turn_def poll_lora_def lora_loop_def toy_bridge_def bnd_def)
  from rnode_deaf[OF _ this] this show ?thesis by (auto simp: toy_bridge_def)
qed

theorem rnode_parameters_witness:
  "handle_frame (\<lambda>_. True) 0 CMD_SF [7] toy_bridge =
    (Ret (), toy_bridge\<lparr>rn_cfg := default_cfg\<lparr>rc_sf := 7\<rparr>, rn_host := [kiss_frame CMD_SF [7]]\<rparr>)"
proof -
  have "rn_lora toy_bridge" "lo_radio toy_bridge" "rn_tx toy_bridge" by (simp_all add: toy_bridge_def)
  from rnode_parameters[OF this, of 0 "\<lambda>_. True" 0 7] show ?thesis
    by (simp add: param_reply_def toy_bridge_def Let_def)
qed

end
