(* ===== verification/Ble.thy ===== *)
theory Ble
  imports RNode ByteBuf "HOL-Library.Sublist"
begin

text \<open>
  The BLE transport of the RNode bridge (firmware/heltec_v3/main/rnode_ble_bridge.cpp): the receive ring
  between the write callback and the bridge loop, the connection events, the notification sink and one turn
  of the loop. NimBLE is external: the events it reports and the results of its calls are arguments.
\<close>

section \<open>State\<close>

definition RX_RING_SIZE :: nat where "RX_RING_SIZE = 2048"
definition CONN_NONE :: u16 where "CONN_NONE = 0xFFFF"

record rx_ring =
  rg_bytes :: bytes
  rg_head :: nat
  rg_tail :: nat

text \<open>\<open>bl_adverts\<close> counts the calls of \<open>start_advertising\<close>.\<close>

record ble = rnode +
  bl_ring :: rx_ring
  bl_conn :: u16
  bl_mtu :: u16
  bl_pending_ready :: bool
  bl_adverts :: nat

section \<open>The receive ring\<close>

fun ring_write :: "bytes \<Rightarrow> rx_ring \<Rightarrow> rx_ring" where
  "ring_write [] r = r"
| "ring_write (b # bs) r =
     (let next = (rg_head r + 1) mod RX_RING_SIZE in
      if next = rg_tail r then r
      else ring_write bs (r\<lparr>rg_bytes := (rg_bytes r)[rg_head r := b], rg_head := next\<rparr>))"

definition ring_take :: "rx_ring \<Rightarrow> (u8 \<times> rx_ring) option" where
  "ring_take r =
     (if rg_tail r \<noteq> rg_head r
      then Some (rg_bytes r ! rg_tail r, r\<lparr>rg_tail := (rg_tail r + 1) mod RX_RING_SIZE\<rparr>) else None)"

text \<open>The write callback; \<open>flat\<close> is what copying the buffer out gave, \<open>write\<close> whether the access is one.\<close>

definition nus_access :: "bool \<Rightarrow> bytes option \<Rightarrow> ('a ble_scheme, bool) prog" where
  "nus_access write flat =
     (if write then
        bnd (case flat of None \<Rightarrow> ret () | Some bs \<Rightarrow> modify (\<lambda>s. s\<lparr>bl_ring := ring_write bs (bl_ring s)\<rparr>)) (\<lambda>_. ret True)
      else ret False)"

text \<open>The characteristic for notifications can be read (it is empty) and not written.\<close>

definition nus_tx_access :: "bool \<Rightarrow> bool" where
  "nus_tx_access read = read"

text \<open>The identifiers of the Nordic UART service and of its two characteristics, last byte first.\<close>

definition nus_uuid :: "u8 \<Rightarrow> bytes" where
  "nus_uuid k = [0x9e, 0xca, 0xdc, 0x24, 0x0e, 0xe5, 0xa9, 0xe0, 0x93, 0xf3, 0xa3, 0xb5, k, 0x00, 0x40, 0x6e]"

definition NUS_SERVICE_UUID :: bytes where "NUS_SERVICE_UUID = nus_uuid 1"
definition NUS_RX_CHAR_UUID :: bytes where "NUS_RX_CHAR_UUID = nus_uuid 2"
definition NUS_TX_CHAR_UUID :: bytes where "NUS_TX_CHAR_UUID = nus_uuid 3"

lemma nus_uuids:
  "to_hex True (rev NUS_SERVICE_UUID) = ''6E400001B5A3F393E0A9E50E24DCCA9E''"
  "to_hex True (rev NUS_RX_CHAR_UUID) = ''6E400002B5A3F393E0A9E50E24DCCA9E''"
  "to_hex True (rev NUS_TX_CHAR_UUID) = ''6E400003B5A3F393E0A9E50E24DCCA9E''"
  by code_simp+

section \<open>Connection events\<close>

datatype gap_event =
  Gap_connect bool u16 | Gap_disconnect | Gap_mtu u16 | Gap_repeat_pairing | Gap_subscribe bool | Gap_other

definition start_advertising :: "('a ble_scheme, unit) prog" where
  "start_advertising = modify (\<lambda>s. s\<lparr>bl_adverts := bl_adverts s + 1\<rparr>)"

text \<open>The result tells NimBLE to retry a pairing.\<close>

definition gap_event_cb :: "gap_event \<Rightarrow> ('a ble_scheme, bool) prog" where
  "gap_event_cb e =
     (case e of
        Gap_connect ok h \<Rightarrow>
          bnd (if ok then modify (\<lambda>s. s\<lparr>bl_conn := h, bl_mtu := 20\<rparr>) else start_advertising) (\<lambda>_. ret False)
      | Gap_disconnect \<Rightarrow>
          bnd (modify (\<lambda>s. s\<lparr>bl_conn := CONN_NONE, bl_mtu := 20\<rparr>)) (\<lambda>_. bnd start_advertising (\<lambda>_. ret False))
      | Gap_mtu v \<Rightarrow> bnd (when_do (v > 3) (modify (\<lambda>s. s\<lparr>bl_mtu := v - 3\<rparr>))) (\<lambda>_. ret False)
      | Gap_repeat_pairing \<Rightarrow> ret True
      | Gap_subscribe notify \<Rightarrow> bnd (when_do notify (modify (\<lambda>s. s\<lparr>bl_pending_ready := True\<rparr>))) (\<lambda>_. ret False)
      | Gap_other \<Rightarrow> ret False)"

definition gap_events :: "gap_event list \<Rightarrow> ('a ble_scheme, unit) prog" where
  "gap_events es = for_each es (\<lambda>e. bnd (gap_event_cb e) (\<lambda>_. ret ()))"

section \<open>Notifications\<close>

text \<open>The chunks notified from an offset on; \<open>ok\<close> tells which notifications succeed. Nothing when the loop
  does not end.\<close>

partial_function (option) ble_chunks :: "(nat \<Rightarrow> bool) \<Rightarrow> nat \<Rightarrow> bytes \<Rightarrow> nat \<Rightarrow> bytes list option" where
  "ble_chunks ok mtu data off =
     (if off < length data then
        (let chunk = length data - off; chunk = (if chunk > mtu then mtu else chunk) in
         if \<not> ok off then Some []
         else
           Option.bind (ble_chunks ok mtu data (off + chunk)) (\<lambda>cs. Some (take chunk (drop off data) # cs)))
      else Some [])"

definition ble_tx_sink :: "(nat \<Rightarrow> bool) \<Rightarrow> bytes \<Rightarrow> 'a ble_scheme \<Rightarrow> bytes list option" where
  "ble_tx_sink ok data s = (if bl_conn s = CONN_NONE then Some [] else ble_chunks ok (unat (bl_mtu s)) data 0)"

text \<open>The name the board advertises, from the last two bytes of its address.\<close>

definition device_name :: "u8 \<Rightarrow> u8 \<Rightarrow> string" where
  "device_name m4 m5 = ''RNode '' @ hex_from_byte m4 True @ hex_from_byte m5 True"

section \<open>One turn of the bridge loop\<close>

fun ble_drain :: "(radio_call \<Rightarrow> bool) \<Rightarrow> u8 \<Rightarrow> nat \<Rightarrow> ('a ble_scheme, unit) prog" where
  "ble_drain accept rnd 0 = fault Out_of_fuel"
| "ble_drain accept rnd (Suc n) =
     bnd (gets bl_ring) (\<lambda>r.
     case ring_take r of
       None \<Rightarrow> ret ()
     | Some (b, r') \<Rightarrow>
         bnd (modify (\<lambda>s. s\<lparr>bl_ring := r'\<rparr>)) (\<lambda>_. bnd (feed_byte accept rnd b) (\<lambda>_. ble_drain accept rnd n)))"

definition ble_turn :: "(radio_call \<Rightarrow> bool) \<Rightarrow> u8 \<Rightarrow> nat \<Rightarrow> ('a ble_scheme, unit) prog" where
  "ble_turn accept rnd n =
     bnd (gets (\<lambda>s. (bl_pending_ready s, bl_conn s))) (\<lambda>(ready, conn).
     bnd (when_do (ready \<and> conn \<noteq> CONN_NONE)
       (bnd (modify (\<lambda>s. s\<lparr>bl_pending_ready := False\<rparr>)) (\<lambda>_. indicate_ready))) (\<lambda>_.
     bnd (ble_drain accept rnd n) (\<lambda>_. poll_lora)))"

section \<open>The ring is a queue\<close>

definition ring_ok :: "rx_ring \<Rightarrow> bool" where
  "ring_ok r \<longleftrightarrow> length (rg_bytes r) = 2048 \<and> rg_head r < 2048 \<and> rg_tail r < 2048"

definition ring_count :: "rx_ring \<Rightarrow> nat" where
  "ring_count r = (rg_head r + 2048 - rg_tail r) mod 2048"

definition ring_contents :: "rx_ring \<Rightarrow> bytes" where
  "ring_contents r = map (\<lambda>i. rg_bytes r ! ((rg_tail r + i) mod 2048)) [0..<ring_count r]"

lemma wrap_2048: "(a :: nat) < 4096 \<Longrightarrow> a mod 2048 = (if a < 2048 then a else a - 2048)"
  by (simp add: mod_if)

lemma ring_count_cases:
  assumes "ring_ok r"
  shows "ring_count r = (if rg_tail r \<le> rg_head r then rg_head r - rg_tail r else rg_head r + 2048 - rg_tail r)"
    "ring_count r < 2048" "(rg_tail r + ring_count r) mod 2048 = rg_head r"
proof -
  show c: "ring_count r = (if rg_tail r \<le> rg_head r then rg_head r - rg_tail r else rg_head r + 2048 - rg_tail r)"
    using assms by (auto simp: ring_count_def ring_ok_def mod_if)
  show "ring_count r < 2048" by (simp add: ring_count_def)
  show "(rg_tail r + ring_count r) mod 2048 = rg_head r"
    using assms unfolding c by (auto simp: ring_ok_def mod_if)
qed

lemma ring_full: "ring_ok r \<Longrightarrow> (rg_head r + 1) mod 2048 = rg_tail r \<longleftrightarrow> ring_count r = 2047"
  using ring_count_cases(1)[of r] by (auto simp: ring_ok_def mod_if split: if_splits)

text \<open>The place at the head is none of the queue's.\<close>

lemma ring_head_free:
  assumes "ring_ok r" "i < ring_count r"
  shows "rg_head r \<noteq> (rg_tail r + i) mod 2048"
proof -
  have "rg_tail r + i < 4096" "rg_tail r < 2048" "rg_head r < 2048"
    using assms(2) ring_count_cases(2)[OF assms(1)] assms(1) by (simp_all add: ring_ok_def)
  moreover from this(1) have "(rg_tail r + i) mod 2048 = (if rg_tail r + i < 2048 then rg_tail r + i else rg_tail r + i - 2048)"
    by (rule wrap_2048)
  ultimately show ?thesis
    using assms(2) ring_count_cases(1)[OF assms(1)]
    by (cases "rg_tail r \<le> rg_head r"; cases "rg_tail r + i < 2048"; simp only: if_True if_False; linarith)
qed

lemma ring_store:
  assumes "ring_ok r"
  shows "ring_ok (r\<lparr>rg_bytes := (rg_bytes r)[rg_head r := b]\<rparr>)" "ring_count (r\<lparr>rg_bytes := (rg_bytes r)[rg_head r := b]\<rparr>) = ring_count r"
    "ring_contents (r\<lparr>rg_bytes := (rg_bytes r)[rg_head r := b]\<rparr>) = ring_contents r"
proof -
  show "ring_ok (r\<lparr>rg_bytes := (rg_bytes r)[rg_head r := b]\<rparr>)" using assms by (simp add: ring_ok_def)
  show c: "ring_count (r\<lparr>rg_bytes := (rg_bytes r)[rg_head r := b]\<rparr>) = ring_count r" by (simp add: ring_count_def)
  show "ring_contents (r\<lparr>rg_bytes := (rg_bytes r)[rg_head r := b]\<rparr>) = ring_contents r"
    unfolding ring_contents_def c by (rule map_cong) (simp_all add: ring_head_free[OF assms])
qed

lemma ring_put:
  assumes "ring_ok r" "ring_count r < 2047"
    "r' = r\<lparr>rg_bytes := (rg_bytes r)[rg_head r := b], rg_head := (rg_head r + 1) mod 2048\<rparr>"
  shows "ring_ok r'" "ring_count r' = Suc (ring_count r)" "ring_contents r' = ring_contents r @ [b]"
proof -
  show ok: "ring_ok r'" using assms(1,3) by (simp add: ring_ok_def)
  have h: "rg_head r' = (rg_head r + 1) mod 2048" "rg_tail r' = rg_tail r" using assms(3) by simp_all
  show c: "ring_count r' = Suc (ring_count r)"
    using ring_count_cases(1)[OF ok] ring_count_cases(1)[OF assms(1)] assms(1,2) h
    by (auto simp: ring_ok_def mod_if split: if_splits)
  have "map (\<lambda>i. rg_bytes r' ! ((rg_tail r' + i) mod 2048)) [0..<ring_count r] = ring_contents r"
    unfolding ring_contents_def by (rule map_cong) (simp_all add: assms(3) ring_head_free[OF assms(1)])
  moreover have "rg_bytes r' ! ((rg_tail r' + ring_count r) mod 2048) = b"
    using assms(1,3) ring_count_cases(3)[OF assms(1)] by (simp add: ring_ok_def)
  ultimately show "ring_contents r' = ring_contents r @ [b]" unfolding ring_contents_def[of r'] c by simp
qed

lemma ring_write_contents:
  assumes "ring_ok r"
  shows "ring_ok (ring_write bs r) \<and> ring_contents (ring_write bs r) = ring_contents r @ take (2047 - length (ring_contents r)) bs"
  using assms
proof (induction bs arbitrary: r)
  case (Cons b bs)
  have len: "length (ring_contents r) = ring_count r" by (simp add: ring_contents_def)
  have le: "ring_count r \<le> 2047" using ring_count_cases(2)[OF Cons.prems] by simp
  show ?case
  proof (cases "ring_count r = 2047")
    case True
    then show ?thesis using ring_full[OF Cons.prems] Cons.prems len by (simp add: RX_RING_SIZE_def)
  next
    case False
    let ?r = "r\<lparr>rg_bytes := (rg_bytes r)[rg_head r := b], rg_head := (rg_head r + 1) mod 2048\<rparr>"
    have put: "ring_ok ?r" "ring_contents ?r = ring_contents r @ [b]"
      using ring_put[OF Cons.prems, of ?r b] False le by simp_all
    have "length (ring_contents ?r) = Suc (ring_count r)" using put(2) len by simp
    then have "2047 - length (ring_contents r) = Suc (2047 - length (ring_contents ?r))"
      using False le len by linarith
    moreover have "ring_write (b # bs) r = ring_write bs ?r"
      using False ring_full[OF Cons.prems] by (simp add: RX_RING_SIZE_def)
    ultimately show ?thesis using Cons.IH[OF put(1)] put(2) by simp
  qed
qed simp

lemma ring_take_contents:
  assumes "ring_ok r"
  shows "case ring_contents r of [] \<Rightarrow> ring_take r = None
    | b # q \<Rightarrow> \<exists>r'. ring_take r = Some (b, r') \<and> ring_ok r' \<and> ring_contents r' = q"
proof (cases "rg_tail r = rg_head r")
  case True
  then have "ring_contents r = []" using ring_count_cases(1)[OF assms] by (simp add: ring_contents_def)
  then show ?thesis using True by (simp add: ring_take_def)
next
  case False
  let ?r = "r\<lparr>rg_tail := (rg_tail r + 1) mod 2048\<rparr>"
  have ok: "ring_ok ?r" using assms by (simp add: ring_ok_def)
  have c: "ring_count r = Suc (ring_count ?r)"
    using ring_count_cases(1)[OF assms] ring_count_cases(1)[OF ok] assms False
    by (auto simp: ring_ok_def mod_if split: if_splits)
  have "ring_contents r = rg_bytes r ! rg_tail r # ring_contents ?r"
    using assms unfolding ring_contents_def c
    by (simp add: upt_conv_Cons map_Suc_upt[symmetric] ring_ok_def mod_simps del: upt_Suc)
  then show ?thesis using False ok by (simp add: ring_take_def RX_RING_SIZE_def)
qed

text \<open>The ring and the queue it implements, under writes and takes in any order; taken bytes are kept.\<close>

datatype ring_op = Write bytes | Take

fun ring_step :: "ring_op \<Rightarrow> rx_ring \<times> bytes \<Rightarrow> (rx_ring \<times> bytes) res" where
  "ring_step (Write bs) (r, out) = Ret (ring_write bs r, out)"
| "ring_step Take (r, out) = Ret (case ring_take r of None \<Rightarrow> (r, out) | Some (b, r') \<Rightarrow> (r', out @ [b]))"

fun queue_step :: "ring_op \<Rightarrow> bytes \<times> bytes \<Rightarrow> (bytes \<times> bytes) res" where
  "queue_step (Write bs) (q, out) = Ret (q @ take (2047 - length q) bs, out)"
| "queue_step Take (q, out) = Ret (case q of [] \<Rightarrow> (q, out) | b # q' \<Rightarrow> (q', out @ [b]))"

definition queue_of :: "rx_ring \<times> bytes \<Rightarrow> bytes \<times> bytes" where
  "queue_of = (\<lambda>(r, out). (ring_contents r, out))"

interpretation ring: simulation ring_step queue_step queue_of "\<lambda>(r, out). ring_ok r" "\<lambda>_. True"
proof unfold_locales
  fix c c' :: "rx_ring \<times> bytes" and op
  assume ok: "case c of (r, out) \<Rightarrow> ring_ok r"
  obtain r out where c: "c = (r, out)" "ring_ok r" using ok by (cases c) auto
  note w = ring_write_contents[OF c(2)] and t = ring_take_contents[OF c(2)]
  show "queue_step op (queue_of c) = map_res queue_of (ring_step op c)"
    using w t c(1) by (cases op) (auto simp: queue_of_def split: list.splits)
  assume "ring_step op c = Ret c'"
  then show "case c' of (r, out) \<Rightarrow> ring_ok r"
    using w t c by (cases op) (auto split: list.splits option.splits)
qed

section \<open>The loop's programs\<close>

lemma feed_returns:
  obtains s' where "feed_byte accept rnd b s = (Ret (), s')" "rn_kiss s' = fst (kiss_feed b (rn_kiss s))"
proof -
  obtain p f where p: "kiss_feed b (rn_kiss s) = (p, f)" by fastforce
  show thesis
  proof (cases f)
    case None
    then show ?thesis using p that by (simp add: feed_byte_def)
  next
    case (Some cd)
    obtain c d where "cd = (c, d)" by (cases cd)
    moreover obtain s1 where "handle_frame accept rnd c d s = (Ret (), s1)" using handle_run[of accept rnd c d s] by blast
    ultimately show ?thesis using p Some that by (simp add: feed_byte_def bnd_Ret)
  qed
qed

lemma feed_keeps_ring: "preserves (\<lambda>s. bl_ring s = R) (feed_byte accept rnd b)"
  by (rule feed_preserves(1)) (unfold send_frame_def upd_cfg_def, (intro pres_intros preserves_modify; simp)+)

lemma drain_run:
  assumes "ring_ok (bl_ring s)" "length (ring_contents (bl_ring s)) < n"
  shows "\<exists>s'. ble_drain accept rnd n s = (Ret (), s') \<and> ring_ok (bl_ring s') \<and> ring_contents (bl_ring s') = [] \<and>
    rn_kiss s' = fst (feed_all kiss_feed (ring_contents (bl_ring s)) (rn_kiss s))"
  using assms
proof (induction n arbitrary: s)
  case (Suc n)
  note t = ring_take_contents[OF Suc.prems(1)]
  show ?case
  proof (cases "ring_contents (bl_ring s)")
    case Nil
    then show ?thesis using t Suc.prems(1) by simp
  next
    case (Cons b q)
    then obtain r' where r': "ring_take (bl_ring s) = Some (b, r')" "ring_ok r'" "ring_contents r' = q" using t by auto
    obtain s1 where s1: "feed_byte accept rnd b (s\<lparr>bl_ring := r'\<rparr>) = (Ret (), s1)"
      "rn_kiss s1 = fst (kiss_feed b (rn_kiss s))"
      by (rule feed_returns[of accept rnd b "s\<lparr>bl_ring := r'\<rparr>"]) simp
    have ring: "bl_ring s1 = r'" using preservesD[OF feed_keeps_ring[of r' accept rnd b], of "s\<lparr>bl_ring := r'\<rparr>"] s1 by simp
    have "length (ring_contents (bl_ring s1)) < n" using Suc.prems(2) Cons ring r'(3) by simp
    with Suc.IH[of s1] ring r'(2) obtain s2 where s2: "ble_drain accept rnd n s1 = (Ret (), s2)" "ring_ok (bl_ring s2)"
      "ring_contents (bl_ring s2) = []" "rn_kiss s2 = fst (feed_all kiss_feed q (rn_kiss s1))"
      using r'(3) by auto
    have "ble_drain accept rnd (Suc n) s = (Ret (), s2)"
      using r'(1) s1(1) s2(1) by (simp add: bnd_Ret)
    then show ?thesis using s1(2) s2(2-4) Cons by (auto simp: Let_def split: prod.split)
  qed
qed simp

lemma chunks_run:
  assumes "0 < mtu" "off \<le> length data"
  shows "\<exists>cs. ble_chunks ok mtu data off = Some cs \<and> (\<forall>c\<in>set cs. c \<noteq> [] \<and> length c \<le> mtu) \<and>
    prefix (concat cs) (drop off data) \<and> ((\<forall>i. ok i) \<longrightarrow> concat cs = drop off data)"
  using assms(2)
proof (induction "length data - off" arbitrary: off rule: less_induct)
  case less
  show ?case
  proof (cases "off < length data \<and> ok off")
    case False
    then show ?thesis using less.prems by (subst ble_chunks.simps) (auto simp: Let_def)
  next
    case True
    define k where "k = (if length data - off > mtu then mtu else length data - off)"
    have k: "0 < k" "k \<le> mtu" "off + k \<le> length data" using True assms(1) by (auto simp: k_def)
    then have "length data - (off + k) < length data - off" using True by linarith
    from less.hyps[OF this k(3)] obtain cs where cs: "ble_chunks ok mtu data (off + k) = Some cs"
      "\<forall>c\<in>set cs. c \<noteq> [] \<and> length c \<le> mtu" "prefix (concat cs) (drop (off + k) data)"
      "(\<forall>i. ok i) \<longrightarrow> concat cs = drop (off + k) data" by blast
    have "ble_chunks ok mtu data off = Some (take k (drop off data) # cs)"
      using True cs(1) by (subst ble_chunks.simps) (simp add: Let_def k_def)
    moreover have "drop off data = take k (drop off data) @ drop (off + k) data"
      using append_take_drop_id[of k "drop off data"] by (simp add: add.commute)
    moreover have "take k (drop off data) \<noteq> []" "length (take k (drop off data)) \<le> mtu" using k True by auto
    ultimately show ?thesis using cs(2-4)
      by (intro exI[of _ "take k (drop off data) # cs"]) (metis concat.simps(2) same_prefix_prefix set_ConsD)
  qed
qed

section \<open>Properties\<close>

text \<open>
  Under writes and takes in any order the receive ring is a queue of at most 2047 bytes: a write
  appends what fits and drops the rest, a take removes the oldest byte.
\<close>

theorem ble_ring_fifo:
  assumes "ring_ok r"
  shows "run_ops queue_step ops (ring_contents r, out) = map_res queue_of (run_ops ring_step ops (r, out))"
  using ring.run_abs[of "(r, out)" ops] assms by (simp add: queue_of_def list_all_iff)

theorem ble_ring_fifo_witness:
  "run_ops queue_step [Write [1, 2], Take, Write [3], Take]
      (ring_contents \<lparr>rg_bytes = replicate 2048 0, rg_head = 2047, rg_tail = 2047\<rparr>, []) =
    map_res queue_of (run_ops ring_step [Write [1, 2], Take, Write [3], Take]
      (\<lparr>rg_bytes = replicate 2048 0, rg_head = 2047, rg_tail = 2047\<rparr>, []))"
  by (rule ble_ring_fifo) (simp add: ring_ok_def)

text \<open>
  Whatever connection events came before, notifying a frame ends: it is cut into non-empty pieces no
  longer than the negotiated limit, which together are the frame or, when a notification failed, its
  beginning.
\<close>

theorem ble_notify:
  assumes "bl_mtu s = 20" "s' = snd (gap_events es s)"
  shows "\<exists>cs. ble_tx_sink ok data s' = Some cs \<and> (\<forall>c\<in>set cs. c \<noteq> [] \<and> length c \<le> unat (bl_mtu s')) \<and>
    prefix (concat cs) data \<and> (bl_conn s' \<noteq> CONN_NONE \<and> (\<forall>i. ok i) \<longrightarrow> concat cs = data)"
proof -
  have "preserves (\<lambda>s. 0 < bl_mtu s) (bnd (gap_event_cb e) (\<lambda>_. ret ()))" for e
  proof (cases e)
    case (Gap_mtu v)
    have "0 < v - 3" if "3 < v" using that by (simp add: word_less_nat_alt unat_sub_if_size word_neq_0_conv[symmetric])
    then show ?thesis unfolding gap_event_cb_def Gap_mtu gap_event.case
      by (cases "3 < v") (auto simp: preserves_def bnd_def)
  qed (auto simp: gap_event_cb_def start_advertising_def preserves_def when_do_def bnd_def)
  then have "preserves (\<lambda>s. 0 < bl_mtu s) (gap_events es)" unfolding gap_events_def by (intro preserves_for_each)
  from preservesD[OF this, of s] have "0 < unat (bl_mtu s')" using assms by (simp add: word_less_nat_alt)
  from chunks_run[OF this, of 0 data ok] show ?thesis
    by (cases "bl_conn s' = CONN_NONE") (simp_all add: ble_tx_sink_def)
qed

text \<open>
  A turn of the bridge loop ends: with a sound ring it takes every byte the ring holds, feeds them to
  the parser in order, and leaves the ring empty; 2048 steps are enough.
\<close>

theorem ble_turn_total:
  assumes "ring_ok (bl_ring s)"
  shows "\<exists>s'. ble_turn accept rnd 2048 s = (Ret (), s') \<and> ring_ok (bl_ring s') \<and> ring_contents (bl_ring s') = [] \<and>
    rn_kiss s' = fst (feed_all kiss_feed (ring_contents (bl_ring s)) (rn_kiss s))"
proof -
  let ?m = "when_do (bl_pending_ready s \<and> bl_conn s \<noteq> CONN_NONE)
       (bnd (modify (\<lambda>s. s\<lparr>bl_pending_ready := False\<rparr>)) (\<lambda>_. indicate_ready))"
  obtain s1 where s1: "?m s = (Ret (), s1)" "bl_ring s1 = bl_ring s" "rn_kiss s1 = rn_kiss s"
    by (cases "bl_pending_ready s \<and> bl_conn s \<noteq> CONN_NONE"; cases "rn_tx s")
      (auto simp: indicate_ready_def send_u8_def send_frame_def)
  have "length (ring_contents (bl_ring s1)) < 2048"
    using ring_count_cases(2)[OF assms] s1(2) by (simp add: ring_contents_def)
  then obtain s2 where "ble_drain accept rnd 2048 s1 = (Ret (), s2)" "ring_ok (bl_ring s2)" "ring_contents (bl_ring s2) = []"
    "rn_kiss s2 = fst (feed_all kiss_feed (ring_contents (bl_ring s)) (rn_kiss s))"
    using drain_run[of s1 2048 accept rnd] assms s1(2,3) by auto
  then show ?thesis using s1(1)
    by (simp add: ble_turn_def bnd_Ret poll_lora_def lora_loop_def when_do_def del: ble_drain.simps)
qed

definition toy_ble :: ble where
  "toy_ble = \<lparr>lo_radio = True, lo_radio_on = True, lo_online = True, lo_txb = 0, lo_pending = False, lo_queue = Some [],
     lo_raw_rx = True, lo_air = [], rn_lora = True, rn_tx = True, rn_cfg = default_cfg,
     rn_kiss = \<lparr>ks_in_frame = False, ks_escape = False, ks_cmd = CMD_UNKNOWN, ks_buf = []\<rparr>, rn_host = [],
     bl_ring = \<lparr>rg_bytes = FEND # CMD_DETECT # DETECT_REQ # FEND # replicate 2044 0, rg_head = 4, rg_tail = 0\<rparr>,
     bl_conn = CONN_NONE, bl_mtu = 20, bl_pending_ready = False, bl_adverts = 0\<rparr>"

theorem ble_notify_witness:
  "\<exists>cs. ble_tx_sink (\<lambda>_. True) (replicate 45 7) (snd (gap_events [Gap_connect True 1, Gap_mtu 23, Gap_mtu 3] toy_ble)) = Some cs \<and>
    (\<forall>c\<in>set cs. c \<noteq> [] \<and> length c \<le> 20) \<and> concat cs = replicate 45 7"
proof -
  let ?s = "snd (gap_events [Gap_connect True 1, Gap_mtu 23, Gap_mtu 3] toy_ble)"
  have "\<exists>cs. ble_tx_sink (\<lambda>_. True) (replicate 45 7) ?s = Some cs \<and> (\<forall>c\<in>set cs. c \<noteq> [] \<and> length c \<le> unat (bl_mtu ?s)) \<and>
    prefix (concat cs) (replicate 45 7) \<and> (bl_conn ?s \<noteq> CONN_NONE \<and> (\<forall>i :: nat. (\<lambda>_. True) i) \<longrightarrow> concat cs = replicate 45 7)"
    by (rule ble_notify[where s = toy_ble and es = "[Gap_connect True 1, Gap_mtu 23, Gap_mtu 3]" and ok = "\<lambda>_. True" and s' = ?s]) (simp_all add: toy_ble_def)
  moreover have "bl_mtu ?s = 20" "bl_conn ?s \<noteq> CONN_NONE"
    by (simp_all add: toy_ble_def gap_events_def gap_event_cb_def CONN_NONE_def bnd_def)
  ultimately show ?thesis by auto
qed

theorem ble_turn_total_witness:
  "\<exists>s'. ble_turn (\<lambda>_. True) 0 2048 toy_ble = (Ret (), s') \<and> ring_ok (bl_ring s') \<and> ring_contents (bl_ring s') = [] \<and>
    rn_kiss s' = fst (feed_all kiss_feed (ring_contents (bl_ring toy_ble)) (rn_kiss toy_ble))"
  by (rule ble_turn_total) (simp add: toy_ble_def ring_ok_def)

end
