(* ===== verification/Runtime.thy ===== *)
theory Runtime
  imports Transport
begin

text \<open>
  The task of the library (src/reticulum.cpp, include/rtreticulum/reticulum.h). \<open>start\<close> and the task's loop
  are broken into their accesses to the two atomic flags, and a step relation interleaves any number of
  callers of \<open>start\<close> and \<open>stop\<close> with the tasks; whether spawning a task succeeds is open.
\<close>

section \<open>One iteration\<close>

text \<open>\<open>loop\<close> is the hook of an interface, empty for a loopback one.\<close>

definition run_once :: "(nat \<Rightarrow> ('a net_state_scheme, unit) prog) \<Rightarrow> ('a net_state_scheme, unit) prog" where
  "run_once loop = bnd (gets net_interfaces) (\<lambda>is. for_each is loop)"

section \<open>Program points\<close>

text \<open>A call of \<open>start\<close>: entered with its tick, has set \<open>_running\<close>, has cleared \<open>_stop_requested\<close>, has
  stored the tick, could not spawn a task, has returned.\<close>

datatype start_pc = Entered nat | Won nat | Cleared nat | Ticked | Failed | Returned bool

text \<open>A task: at the loop's test, in an iteration, behind the loop, ended.\<close>

datatype task_pc = Test | Body | Leaving | Gone

record rt_state =
  rt_running :: bool
  rt_stop :: bool
  rt_tick :: nat
  rt_starts :: "start_pc list"
  rt_tasks :: "task_pc list"
  rt_rounds :: nat

definition rt_init :: rt_state where
  "rt_init = \<lparr>rt_running = False, rt_stop = False, rt_tick = 100, rt_starts = [], rt_tasks = [], rt_rounds = 0\<rparr>"

section \<open>Steps\<close>

text \<open>One access of a caller of \<open>start\<close>; \<open>spawned\<close> is what \<open>rt_hal_task_spawn\<close> gives.\<close>

definition start_access :: "bool \<Rightarrow> start_pc \<Rightarrow> rt_state \<Rightarrow> start_pc \<times> rt_state" where
  "start_access spawned pc s =
     (case pc of
        Entered tick \<Rightarrow> (if rt_running s then Returned False else Won tick, s\<lparr>rt_running := True\<rparr>)
      | Won tick \<Rightarrow> (Cleared tick, s\<lparr>rt_stop := False\<rparr>)
      | Cleared tick \<Rightarrow> (Ticked, s\<lparr>rt_tick := tick\<rparr>)
      | Ticked \<Rightarrow> if spawned then (Returned True, s\<lparr>rt_tasks := rt_tasks s @ [Test]\<rparr>) else (Failed, s)
      | Failed \<Rightarrow> (Returned False, s\<lparr>rt_running := False\<rparr>)
      | Returned b \<Rightarrow> (Returned b, s))"

text \<open>One access of a task; the iteration is \<open>run_once\<close> and the delay.\<close>

definition task_access :: "task_pc \<Rightarrow> rt_state \<Rightarrow> task_pc \<times> rt_state" where
  "task_access pc s =
     (case pc of
        Test \<Rightarrow> (if rt_stop s then Leaving else Body, s)
      | Body \<Rightarrow> (Test, s\<lparr>rt_rounds := rt_rounds s + 1\<rparr>)
      | Leaving \<Rightarrow> (Gone, s\<lparr>rt_running := False\<rparr>)
      | Gone \<Rightarrow> (Gone, s))"

definition rt_stop_call :: "rt_state \<Rightarrow> rt_state" where
  "rt_stop_call s = s\<lparr>rt_stop := True\<rparr>"

text \<open>A whole call of \<open>start\<close> with nobody in between; five accesses are the longest way through it.\<close>

definition rt_start :: "bool \<Rightarrow> nat \<Rightarrow> rt_state \<Rightarrow> bool \<times> rt_state" where
  "rt_start spawned tick s =
     (case ((\<lambda>(pc, s). start_access spawned pc s) ^^ 5) (Entered tick, s) of (pc, s') \<Rightarrow> (pc = Returned True, s'))"

lemma rt_start_result:
  "rt_start spawned tick s =
     (if rt_running s then (False, s)
      else (spawned, s\<lparr>rt_stop := False, rt_tick := tick, rt_running := spawned, rt_tasks := rt_tasks s @ (if spawned then [Test] else [])\<rparr>))"
  by (simp add: rt_start_def start_access_def numeral_eq_Suc)

definition start_moves :: "bool \<Rightarrow> nat \<Rightarrow> rt_state \<Rightarrow> rt_state" where
  "start_moves spawned k s =
     (case start_access spawned (rt_starts s ! k) s of (pc, s') \<Rightarrow> s'\<lparr>rt_starts := (rt_starts s')[k := pc]\<rparr>)"

definition task_moves :: "nat \<Rightarrow> rt_state \<Rightarrow> rt_state" where
  "task_moves j s = (case task_access (rt_tasks s ! j) s of (pc, s') \<Rightarrow> s'\<lparr>rt_tasks := (rt_tasks s')[j := pc]\<rparr>)"

inductive rt_step :: "rt_state \<Rightarrow> rt_state \<Rightarrow> bool" where
  enter: "rt_step s (s\<lparr>rt_starts := rt_starts s @ [Entered tick]\<rparr>)"
| start: "k < length (rt_starts s) \<Longrightarrow> rt_step s (start_moves spawned k s)"
| stop: "rt_step s (rt_stop_call s)"
| task: "j < length (rt_tasks s) \<Longrightarrow> rt_step s (task_moves j s)"

inductive_cases rt_stepE: "rt_step s s'"

lemma rt_step_cases:
  assumes "rt_step s s'"
  obtains (enter) tick where "s' = s\<lparr>rt_starts := rt_starts s @ [Entered tick]\<rparr>"
    | (start) k spawned where "s' = start_moves spawned k s" "k < length (rt_starts s)"
    | (stop) "s' = rt_stop_call s"
    | (task) j where "s' = task_moves j s" "j < length (rt_tasks s)"
  using assms by (auto elim: rt_stepE)

section \<open>One owner\<close>

text \<open>The owners of \<open>_running\<close>: callers that have set it and not yet spawned a task or given up, and the
  tasks that have not ended.\<close>

fun owns_start :: "start_pc \<Rightarrow> bool" where
  "owns_start (Won tick) = True"
| "owns_start (Cleared tick) = True"
| "owns_start Ticked = True"
| "owns_start Failed = True"
| "owns_start (Entered tick) = False"
| "owns_start (Returned b) = False"

fun live :: "task_pc \<Rightarrow> bool" where
  "live Gone = False"
| "live Test = True"
| "live Body = True"
| "live Leaving = True"

definition number :: "('a \<Rightarrow> bool) \<Rightarrow> 'a list \<Rightarrow> nat" where
  "number P xs = length (filter P xs)"

definition owners :: "rt_state \<Rightarrow> nat" where
  "owners s = number owns_start (rt_starts s) + number live (rt_tasks s)"

lemma number_append [simp]: "number P (xs @ [x]) = number P xs + (if P x then 1 else 0)"
  by (simp add: number_def)

lemma number_update [simp]:
  "k < length xs \<Longrightarrow> number P (xs[k := y]) = number P xs - (if P (xs ! k) then 1 else 0) + (if P y then 1 else 0)"
  unfolding number_def
proof (induction xs arbitrary: k)
  case (Cons x xs)
  have "0 < length (filter P xs)" if "j < length xs" "P (xs ! j)" for j
    using that by (metis length_greater_0_conv nth_mem filter_empty_conv)
  then show ?case using Cons by (cases k) auto
qed simp

lemma number_member: "k < length xs \<Longrightarrow> P (xs ! k) \<Longrightarrow> 0 < number P xs"
  unfolding number_def by (metis length_greater_0_conv nth_mem filter_empty_conv)

lemma number_exists: "0 < number P xs \<longleftrightarrow> (\<exists>x\<in>set xs. P x)"
  by (auto simp: number_def filter_empty_conv)

lemma owner_step:
  assumes "rt_step s s'" "owners s = (if rt_running s then 1 else 0)"
  shows "owners s' = (if rt_running s' then 1 else 0)"
  using assms(1)
proof (cases rule: rt_step_cases)
  case (enter tick)
  then show ?thesis using assms(2) by (simp add: owners_def)
next
  case (start k spawned)
  show ?thesis
    using start(1) assms(2) number_member[of k "rt_starts s" owns_start] start(2)
    by (cases "rt_starts s ! k") (auto simp: start_moves_def start_access_def owners_def split: if_splits)
next
  case stop
  then show ?thesis using assms(2) by (simp add: owners_def rt_stop_call_def)
next
  case (task j)
  show ?thesis
    using task(1) assms(2) number_member[of j "rt_tasks s" live] task(2)
    by (cases "rt_tasks s ! j") (auto simp: task_moves_def task_access_def owners_def split: if_splits)
qed

lemma one_owner: "rt_step\<^sup>*\<^sup>* s s' \<Longrightarrow> owners s = (if rt_running s then 1 else 0) \<Longrightarrow> owners s' = (if rt_running s' then 1 else 0)"
  by (induction rule: rtranclp_induct) (auto dest: owner_step)
text \<open>While a task lives nobody has won a start, so a stop request stays.\<close>

fun steps_left :: "task_pc \<Rightarrow> nat" where
  "steps_left Body = 3"
| "steps_left Test = 2"
| "steps_left Leaving = 1"
| "steps_left Gone = 0"

definition stopping :: "nat \<Rightarrow> nat \<Rightarrow> nat \<Rightarrow> rt_state \<Rightarrow> bool" where
  "stopping j n r s \<longleftrightarrow> j < length (rt_tasks s) \<and> steps_left (rt_tasks s ! j) \<le> n \<and>
     (live (rt_tasks s ! j) \<longrightarrow> rt_stop s \<and> rt_rounds s + (if rt_tasks s ! j = Body then 1 else 0) \<le> r)"

lemma two_owners:
  assumes "owners s = (if rt_running s then 1 else 0)" "j < length (rt_tasks s)" "live (rt_tasks s ! j)"
  shows "rt_running s" "k < length (rt_starts s) \<Longrightarrow> \<not> owns_start (rt_starts s ! k)"
    "i < length (rt_tasks s) \<Longrightarrow> live (rt_tasks s ! i) \<Longrightarrow> i = j"
proof -
  have l: "0 < number live (rt_tasks s)" by (rule number_member[where P = live, OF assms(2,3)])
  then show r: "rt_running s" using assms(1) by (auto simp: owners_def split: if_splits)
  have o: "number owns_start (rt_starts s) = 0" "number live (rt_tasks s) = 1"
    using assms(1) l r by (auto simp: owners_def)
  show "\<not> owns_start (rt_starts s ! k)" if "k < length (rt_starts s)"
    using o(1) number_member[of k "rt_starts s" owns_start] that by auto
  show "i = j" if "i < length (rt_tasks s)" "live (rt_tasks s ! i)"
  proof (rule ccontr)
    assume "i \<noteq> j"
    then have "0 < number live ((rt_tasks s)[j := Gone])"
      using that by (intro number_member[of i]) simp_all
    then show False using assms(2,3) o(2) by simp
  qed
qed

lemma stopping_step:
  assumes "rt_step s s'" "owners s = (if rt_running s then 1 else 0)" "stopping j n r s"
  shows "stopping j n r s'"
  using assms(1)
proof (cases rule: rt_step_cases)
  case (start k spawned)
  show ?thesis
  proof (cases "live (rt_tasks s ! j)")
    case True
    then show ?thesis using start two_owners(1)[OF assms(2), of j] two_owners(2)[OF assms(2), of j k] assms(3)
      by (cases "rt_starts s ! k") (auto simp: start_moves_def start_access_def stopping_def nth_append split: if_splits)
  next
    case False
    then show ?thesis using start assms(3)
      by (cases "rt_starts s ! k") (auto simp: start_moves_def start_access_def stopping_def nth_append split: if_splits)
  qed
next
  case (task i)
  show ?thesis
  proof (cases "i = j")
    case True
    then show ?thesis using task assms(3)
      by (cases "rt_tasks s ! j") (auto simp: task_moves_def task_access_def stopping_def split: if_splits)
  next
    case False
    then have "live (rt_tasks s ! j) \<Longrightarrow> rt_tasks s ! i = Gone"
      using two_owners(3)[OF assms(2), of j i] task(2) assms(3) by (cases "rt_tasks s ! i") (auto simp: stopping_def)
    then show ?thesis using task assms(3) False
      by (cases "rt_tasks s ! i") (auto simp: task_moves_def task_access_def stopping_def split: if_splits)
  qed
qed (use assms(3) in \<open>auto simp: stopping_def rt_stop_call_def\<close>)

lemma stopping_steps:
  "rt_step\<^sup>*\<^sup>* s s' \<Longrightarrow> owners s = (if rt_running s then 1 else 0) \<Longrightarrow> stopping j n r s \<Longrightarrow> stopping j n r s'"
  by (induction rule: rtranclp_induct) (auto dest: stopping_step one_owner)

section \<open>Properties\<close>

text \<open>
  C27: however calls of \<open>start\<close> and \<open>stop\<close> interleave, and whether or not tasks can be spawned, at most one
  task is alive, \<open>is_running\<close> tells exactly whether there is one or one is being started, and a call of
  \<open>start\<close> that succeeded has spawned it.
\<close>

theorem one_task:
  assumes "rt_step\<^sup>*\<^sup>* rt_init s"
  shows "number live (rt_tasks s) \<le> 1 \<and>
    (rt_running s \<longleftrightarrow> (\<exists>t\<in>set (rt_tasks s). live t) \<or> (\<exists>c\<in>set (rt_starts s). owns_start c)) \<and>
    number ((=) (Returned True)) (rt_starts s) = length (rt_tasks s)"
proof -
  have "owners s = (if rt_running s then 1 else 0)"
    by (rule one_owner[OF assms]) (simp add: rt_init_def owners_def number_def)
  moreover have "number ((=) (Returned True)) (rt_starts s) = length (rt_tasks s)"
    using assms
  proof (induction rule: rtranclp_induct)
    case (step s s')
    show ?case using step.hyps(2)
    proof (cases rule: rt_step_cases)
      case (start k spawned)
      then show ?thesis using step.IH number_member[of k "rt_starts s" "(=) (Returned True)"]
        by (cases "rt_starts s ! k") (auto simp: start_moves_def start_access_def split: if_splits)
    next
      case (task j)
      then show ?thesis using step.IH
        by (cases "rt_tasks s ! j") (auto simp: task_moves_def task_access_def)
    qed (use step.IH in \<open>simp_all add: rt_stop_call_def\<close>)
  qed (simp add: rt_init_def number_def)
  moreover have "rt_running s \<longleftrightarrow> 0 < number live (rt_tasks s) \<or> 0 < number owns_start (rt_starts s)"
    using calculation(1) by (auto simp: owners_def split: if_splits)
  ultimately show ?thesis unfolding number_exists by (auto simp: owners_def split: if_splits)
qed

text \<open>
  C28: a stop request reaches the task: from then on, whatever else is called, the task ends within three steps
  of its own, which finish the iteration it is in and begin no other; no step of anybody else sets it back.
\<close>

theorem stop_ends:
  assumes "rt_step\<^sup>*\<^sup>* rt_init s" "j < length (rt_tasks s)" "rt_step\<^sup>*\<^sup>* (rt_stop_call s) s'"
  shows "steps_left (rt_tasks s' ! j) \<le> 3 \<and>
    (rt_tasks s' ! j \<noteq> Gone \<longrightarrow>
      rt_rounds s' \<le> rt_rounds s + 1 \<and> steps_left (rt_tasks (task_moves j s') ! j) < steps_left (rt_tasks s' ! j)) \<and>
    (\<forall>s2. rt_step\<^sup>*\<^sup>* s' s2 \<longrightarrow> steps_left (rt_tasks s2 ! j) \<le> steps_left (rt_tasks s' ! j))"
proof -
  have own: "owners s = (if rt_running s then 1 else 0)"
    by (rule one_owner[OF assms(1)]) (simp add: rt_init_def owners_def number_def)
  have "stopping j 3 (rt_rounds s + 1) (rt_stop_call s)"
    using assms(2) by (cases "rt_tasks s ! j") (auto simp: stopping_def rt_stop_call_def)
  moreover have own': "owners (rt_stop_call s) = (if rt_running (rt_stop_call s) then 1 else 0)"
    using own by (simp add: owners_def rt_stop_call_def)
  ultimately have st: "stopping j 3 (rt_rounds s + 1) s'" by (intro stopping_steps[OF assms(3)])
  have "steps_left (rt_tasks s2 ! j) \<le> steps_left (rt_tasks s' ! j)" if "rt_step\<^sup>*\<^sup>* s' s2" for s2
    using stopping_steps[OF that one_owner[OF assms(3) own'], of j "steps_left (rt_tasks s' ! j)" "rt_rounds s + 1"] st
    by (auto simp: stopping_def)
  with st show ?thesis
    by (cases "rt_tasks s' ! j") (auto simp: stopping_def task_moves_def task_access_def)
qed

text \<open>
  A stop request can be lost: called after \<open>start\<close> has set \<open>_running\<close> but before it clears
  \<open>_stop_requested\<close>, when \<open>is_running\<close> already tells the caller that there is something to stop, it has
  no effect, and the task runs.
\<close>

theorem stop_lost:
  "\<exists>s1 s2 s3. rt_step\<^sup>*\<^sup>* rt_init s1 \<and> rt_running s1 \<and> s2 = rt_stop_call s1 \<and> rt_step\<^sup>*\<^sup>* s2 s3 \<and>
    rt_tasks s3 = [Body] \<and> \<not> rt_stop s3 \<and> rt_starts s3 = [Returned True]"
proof -
  define s0 where "s0 = rt_init\<lparr>rt_starts := rt_starts rt_init @ [Entered 5]\<rparr>"
  define s1 where "s1 = start_moves True 0 s0"
  define s2 where "s2 = rt_stop_call s1"
  define s3 where "s3 = task_moves 0 (start_moves True 0 (start_moves True 0 (start_moves True 0 s2)))"
  have e: "rt_step rt_init s0" unfolding s0_def by (rule rt_step.enter)
  have 1: "rt_step s0 s1" unfolding s1_def by (rule rt_step.start) (simp add: s0_def rt_init_def)
  note defs = s2_def s1_def s0_def rt_init_def start_moves_def start_access_def rt_stop_call_def
  have "rt_step s2 (start_moves True 0 s2)" by (rule rt_step.start) (simp add: defs)
  moreover have "rt_step (start_moves True 0 s2) (start_moves True 0 (start_moves True 0 s2))"
    by (rule rt_step.start) (simp add: defs)
  moreover have "rt_step (start_moves True 0 (start_moves True 0 s2)) (start_moves True 0 (start_moves True 0 (start_moves True 0 s2)))"
    by (rule rt_step.start) (simp add: defs)
  moreover have "rt_step (start_moves True 0 (start_moves True 0 (start_moves True 0 s2))) s3"
    unfolding s3_def by (rule rt_step.task) (simp add: defs)
  ultimately have "rt_step\<^sup>*\<^sup>* s2 s3" by (meson converse_rtranclp_into_rtranclp rtranclp.rtrancl_refl)
  moreover have "rt_step\<^sup>*\<^sup>* rt_init s1" using e 1 by (meson converse_rtranclp_into_rtranclp rtranclp.rtrancl_refl)
  moreover have "rt_running s1" by (simp add: defs)
  moreover have "rt_tasks s3 = [Body]" "\<not> rt_stop s3" "rt_starts s3 = [Returned True]"
    by (simp_all add: s3_def defs task_moves_def task_access_def)
  ultimately show ?thesis using s2_def by blast
qed

theorem one_task_witness:
  "number live (rt_tasks (rt_init\<lparr>rt_starts := rt_starts rt_init @ [Entered 5]\<rparr>)) \<le> 1"
  using one_task[of "rt_init\<lparr>rt_starts := rt_starts rt_init @ [Entered 5]\<rparr>"] rt_step.enter[of rt_init 5] by auto

definition toy_running :: rt_state where
  "toy_running = start_moves True 0 (start_moves True 0 (start_moves True 0 (start_moves True 0
     (rt_init\<lparr>rt_starts := rt_starts rt_init @ [Entered 5]\<rparr>))))"

lemma toy_running_reached: "rt_step\<^sup>*\<^sup>* rt_init toy_running"
proof -
  have step: "rt_step\<^sup>*\<^sup>* rt_init s \<Longrightarrow> 0 < length (rt_starts s) \<Longrightarrow> rt_step\<^sup>*\<^sup>* rt_init (start_moves True 0 s)" for s
    by (rule rtranclp.rtrancl_into_rtrancl) (auto intro: rt_step.start)
  have len: "length (rt_starts (start_moves b k s)) = length (rt_starts s)" for b k s
    by (cases "rt_starts s ! k") (simp_all add: start_moves_def start_access_def)
  show ?thesis unfolding toy_running_def
    by (intro step) (simp_all add: len rt_step.enter r_into_rtranclp rt_init_def[symmetric])
qed

theorem stop_ends_witness:
  "steps_left (rt_tasks (task_moves 0 (rt_stop_call toy_running)) ! 0) \<le> 3 \<and> rt_rounds (task_moves 0 (rt_stop_call toy_running)) \<le> 1"
proof -
  have t: "rt_tasks toy_running = [Test]" "rt_rounds toy_running = 0"
    by (simp_all add: toy_running_def rt_init_def start_moves_def start_access_def)
  have "rt_step\<^sup>*\<^sup>* (rt_stop_call toy_running) (task_moves 0 (rt_stop_call toy_running))"
    using t by (intro r_into_rtranclp rt_step.task) (simp add: rt_stop_call_def)
  from stop_ends[OF toy_running_reached _ this, of 0] t show ?thesis
    by (auto simp: task_moves_def task_access_def rt_stop_call_def)
qed
end
