(* ===== verification/Boot.thy ===== *)
theory Boot
  imports Peers Settings Ble Runtime
begin

text \<open>
  The start of the firmware (firmware/heltec_v3/main/main.cpp): \<open>app_main\<close> of the three builds, up to the loop of
  \<open>Board\<close> or to the bridges of \<open>RNode\<close> and \<open>Ble\<close>. Power management, the button's pin set-up, the log lines and the
  delays have no effect on the modelled state. A flash store that cannot be used as it is is erased first. The
  Reticulum task starts in the middle of it; what it does from then on (\<open>Runtime\<close>) is not interleaved here.
\<close>

unbundle bit_operations_syntax

section \<open>Power-on\<close>

text \<open>What a start meets: the display's I2C set-up, whether the LoRa interface starts, whether Wi-Fi connects in
  time, the configured TCP peer (empty: none), whether the task is spawned, and the time of the first screen.\<close>

record boot_env =
  bt_bus :: bool
  bt_dev :: bool
  bt_lora :: bool
  bt_wifi :: bool
  bt_host :: string
  bt_task :: bool
  bt_now :: nat

text \<open>The static objects before \<open>app_main\<close>.\<close>

definition power_on :: "board \<Rightarrow> bool" where
  "power_on s \<longleftrightarrow> length (od_fb (bo_oled s)) = 1024 \<and> \<not> od_ready (bo_oled s) \<and> \<not> od_suspended (bo_oled s) \<and>
     dest_heap s = [] \<and> link_heap s = [] \<and> net_heap s = [] \<and> net_interfaces s = [] \<and>
     net_destinations s = Map.empty \<and> net_seen s = {} \<and> bo_out_link s = None \<and> counts s = (0, 0, 0, False, 0)"

section \<open>Steps\<close>

definition boot_display :: "(nat \<Rightarrow> bool) \<Rightarrow> bool \<Rightarrow> bool \<Rightarrow> ('a board_scheme, bool) prog" where
  "boot_display A bus dev =
     bnd (\<lambda>s. case oled_init A bus dev (bo_oled s) of (r, o1) \<Rightarrow> (r, s\<lparr>bo_oled := o1\<rparr>)) (\<lambda>up.
     bnd (when_do up (display A [Clear, Print 0 0 ''RTReticulum'', Hline 9, Print 2 0 ''Booting...'', Flush])) (\<lambda>_.
     ret up))"

text \<open>A started interface: a new object, a device, online once \<open>start\<close> has succeeded.\<close>

definition device_create :: "('a net_state_scheme, nat) prog" where
  "device_create s = (Ret (length (net_heap s)), s\<lparr>net_heap := net_heap s @
     [\<lparr>if_kind = Device, if_online = False, if_rxb = 0, if_txb = 0, if_out = []\<rparr>]\<rparr>)"

definition device_up :: "nat \<Rightarrow> ('a net_state_scheme, unit) prog" where
  "device_up i = bnd (set_iface i (\<lambda>f. f\<lparr>if_online := True\<rparr>)) (\<lambda>_. register_interface i)"

definition boot_lora :: "(nat \<Rightarrow> bool) \<Rightarrow> bool \<Rightarrow> bool \<Rightarrow> ('a board_scheme, bool) prog" where
  "boot_lora A up started =
     bnd device_create (\<lambda>i.
     if \<not> started then bnd (when_do up (display A [Set_line 4 ''LoRa init FAIL'', Flush])) (\<lambda>_. ret False)
     else
       bnd (device_up i) (\<lambda>_.
       bnd (when_do up (display A [Set_line 4 ''LoRa online'', Flush])) (\<lambda>_. ret True)))"

definition boot_net :: "(nat \<Rightarrow> bool) \<Rightarrow> bool \<Rightarrow> bool \<Rightarrow> string \<Rightarrow> ('a board_scheme, unit) prog" where
  "boot_net A up wifi_up host =
     bnd (when_do up (display A [Set_line 5 (if wifi_up then ''WiFi connected'' else ''WiFi off''), Flush])) (\<lambda>_.
     if wifi_up \<and> host \<noteq> '''' then
       bnd device_create (\<lambda>i.
       bnd (device_up i) (\<lambda>_.
       when_do up (display A [Set_line 5 ''WiFi+TCP bridge'', Flush])))
     else ret ())"

text \<open>The destination and the callbacks; the result is what the loop uses.\<close>

definition boot_dest :: "ext \<Rightarrow> identity \<Rightarrow> ('a board_scheme, nat \<times> string \<times> string) prog" where
  "boot_dest X i =
     bnd (destination_new X (Some i) IN SINGLE ''rtreticulum'' ''heltec_v3'') (\<lambda>own.
     bnd (register_destination own) (\<lambda>_.
     bnd (get_dest own) (\<lambda>d.
     let id_hex = to_hex False (id_hash i); dst_hex = to_hex False (dst_hash d) in
     bnd (set_link_request_handler (Some BOARD_LINKS)) (\<lambda>_.
     bnd (on_announce (Some BOARD_HEARD)) (\<lambda>_. ret (own, id_hex, dst_hex))))))"

text \<open>\<open>Reticulum::start\<close> on the flags; the other parts of the state are not touched.\<close>

definition boot_task :: "bool \<Rightarrow> nat \<Rightarrow> (rt_state \<times> 'w, bool) prog" where
  "boot_task spawned tick p = (case rt_start spawned tick (fst p) of (b, t) \<Rightarrow> (Ret b, (t, snd p)))"

text \<open>The node, and the first status screen.\<close>

definition boot_node ::
  "ext \<Rightarrow> (nat \<Rightarrow> bool) \<Rightarrow> bool \<Rightarrow> nat \<Rightarrow> identity \<Rightarrow> string \<Rightarrow> string \<Rightarrow> ('a board_scheme, unit) prog" where
  "boot_node X A up now i id_hex dst_hex =
     bnd (node_start X board_broadcast i ''RTReticulum Heltec V3'') (\<lambda>_.
     when_do up (bnd (render_status A id_hex dst_hex 0) (\<lambda>_.
       modify (\<lambda>s. s\<lparr>bo_off_at := now + DISPLAY_ON_MS\<rparr>))))"

text \<open>\<open>app_main\<close> up to the loop; \<open>None\<close>: it stops for good, because the LoRa interface did not start.\<close>

definition app_main ::
  "ext \<Rightarrow> 'n nvs \<Rightarrow> (nat \<Rightarrow> bool) \<Rightarrow> boot_env \<Rightarrow>
   (rt_state \<times> 'n \<times> 'a board_scheme, (bool \<times> nat \<times> string \<times> string) option) prog" where
  "app_main X N A e =
     bnd (on_snd (on_fst (modify (nvs_up N)))) (\<lambda>_.
     bnd (on_snd (on_snd (boot_display A (bt_bus e) (bt_dev e)))) (\<lambda>up.
     bnd (on_snd (on_snd (boot_lora A up (bt_lora e)))) (\<lambda>ok.
     if \<not> ok then ret None
     else
       bnd (on_snd (on_snd (boot_net A up (bt_wifi e) (bt_host e)))) (\<lambda>_.
       bnd (on_snd (boot_identity X N)) (\<lambda>i.
       bnd (on_snd (on_snd (boot_dest X i))) (\<lambda>(own, id_hex, dst_hex).
       bnd (boot_task (bt_task e) 100) (\<lambda>_.
       bnd (on_snd (on_snd (boot_node X A up (bt_now e) i id_hex dst_hex))) (\<lambda>_.
       ret (Some (up, own, id_hex, dst_hex))))))))))"

section \<open>The parts of a start\<close>

lemma identity_ready:
  assumes "rng_law X"
  obtains a e st' c where "boot_identity X N (st, s) = (Ret (key_identity X a e []), (st', s\<lparr>hal_calls := c\<rparr>))"
    "\<forall>key. nv_read N ''rtreticulum'' ''id_prv'' st = Some key \<and> length key = 64 \<longrightarrow> a = take 32 key \<and> e = drop 32 key"
proof (cases "\<exists>blob. nv_read N ''rtreticulum'' ''id_prv'' st = Some blob \<and> length blob = 64")
  case True
  then obtain blob where blob: "nv_read N ''rtreticulum'' ''id_prv'' st = Some blob" "length blob = 64" by blast
  show ?thesis by (rule that[of "take 32 blob" "drop 32 blob" st "hal_calls s"]) (simp_all add: boot_again[OF blob] blob(1))
next
  case False
  obtain a e where new: "create_keys X empty_identity s = (Ret (key_identity X a e []), s\<lparr>hal_calls := hal_calls s + 2\<rparr>)"
    using create_keys_run[OF assms, of s] by blast
  have "boot_identity X N (st, s) = (Ret (key_identity X a e []),
    (snd (nv_write N ''rtreticulum'' [(''id_prv'', get_private_key (key_identity X a e []))] st), s\<lparr>hal_calls := hal_calls s + 2\<rparr>))"
    using False new by (cases "nv_read N ''rtreticulum'' ''id_prv'' st") (auto simp: boot_identity_def on_snd_def bnd_def)
  then show ?thesis by (rule that) (use False in blast)
qed

lemma display_ready:
  assumes "length (od_fb (bo_oled s)) = 1024" "\<not> od_ready (bo_oled s)" "\<not> od_suspended (bo_oled s)"
  shows "\<exists>up d. boot_display A bus dev s = (Ret up, s\<lparr>bo_oled := d\<rparr>) \<and> oled_ok d"
proof -
  obtain up d where d: "oled_init A bus dev (bo_oled s) = (Ret up, d)" "oled_ok d"
    using init_run[OF assms(1,2), of A bus dev] assms by (auto simp: oled_ok_def split: if_splits)
  obtain d' where "when_do up (display A [Clear, Print 0 0 ''RTReticulum'', Hline 9, Print 2 0 ''Booting...'', Flush]) (s\<lparr>bo_oled := d\<rparr>) =
      (Ret (), s\<lparr>bo_oled := d'\<rparr>)" "oled_ok d'"
    using maybe_display_run[of "s\<lparr>bo_oled := d\<rparr>" up A "[Clear, Print 0 0 ''RTReticulum'', Hline 9, Print 2 0 ''Booting...'', Flush]"] d(2)
    by auto
  then show ?thesis using d(1) by (auto simp: boot_display_def bnd_def)
qed

definition fresh_device :: iface where
  "fresh_device = \<lparr>if_kind = Device, if_online = True, if_rxb = 0, if_txb = 0, if_out = []\<rparr>"

definition attached :: "'a board_scheme \<Rightarrow> oled \<Rightarrow> 'a board_scheme" where
  "attached s d = s\<lparr>net_heap := net_heap s @ [fresh_device], net_interfaces := net_interfaces s @ [length (net_heap s)], bo_oled := d\<rparr>"

lemma device_ready:
  "bnd device_create (\<lambda>i. bnd (device_up i) (\<lambda>_. f)) s = f (attached s (bo_oled s))"
  by (simp add: device_create_def device_up_def set_iface_def register_interface_def bnd_def attached_def fresh_device_def)

lemma lora_ready:
  assumes "oled_ok (bo_oled s)"
  shows "\<exists>s' d. boot_lora A up started s = (Ret started, s') \<and> oled_ok d \<and>
    (if started then s' = attached s d else net_interfaces s' = net_interfaces s)"
proof (cases started)
  case True
  obtain d where d: "when_do up (display A [Set_line 4 ''LoRa online'', Flush]) (attached s (bo_oled s)) = (Ret (), attached s d)"
    "oled_ok d"
    using maybe_display_run[of "attached s (bo_oled s)" up A "[Set_line 4 ''LoRa online'', Flush]"] assms by (auto simp: attached_def)
  have "boot_lora A up started s =
      bnd (when_do up (display A [Set_line 4 ''LoRa online'', Flush])) (\<lambda>_. ret True) (attached s (bo_oled s))"
    unfolding device_ready[symmetric] using True by (simp add: boot_lora_def)
  also have "\<dots> = (Ret True, attached s d)"
    by (simp add: bnd_Ret[where m = "when_do up (display A [Set_line 4 ''LoRa online'', Flush])", OF d(1)])
  finally show ?thesis using d(2) True by (intro exI[of _ "attached s d"] exI[of _ d]) simp
next
  case False
  define t where "t = s\<lparr>net_heap := net_heap s @ [\<lparr>if_kind = Device, if_online = False, if_rxb = 0, if_txb = 0, if_out = []\<rparr>]\<rparr>"
  have ok: "oled_ok (bo_oled t)" using assms by (simp add: t_def)
  obtain d where d: "when_do up (display A [Set_line 4 ''LoRa init FAIL'', Flush]) t = (Ret (), t\<lparr>bo_oled := d\<rparr>)" "oled_ok d"
    using maybe_display_run[OF ok] by blast
  have new: "device_create s = (Ret (length (net_heap s)), t)" by (simp add: device_create_def t_def)
  have "boot_lora A up started s = (Ret False, t\<lparr>bo_oled := d\<rparr>)"
    unfolding boot_lora_def bnd_Ret[where m = device_create, OF new] if_P[OF False]
      bnd_Ret[where m = "when_do up (display A [Set_line 4 ''LoRa init FAIL'', Flush])", OF d(1)] by simp
  then show ?thesis using False d(2) by (intro exI[of _ "t\<lparr>bo_oled := d\<rparr>"] exI[of _ d]) (simp add: t_def)
qed

lemma net_ready:
  assumes "oled_ok (bo_oled s)"
  shows "\<exists>d. oled_ok d \<and> boot_net A up wifi_up host s =
    (Ret (), if wifi_up \<and> host \<noteq> '''' then attached s d else s\<lparr>bo_oled := d\<rparr>)"
proof -
  let ?ops = "[Set_line 5 (if wifi_up then ''WiFi connected'' else ''WiFi off''), Flush]"
  obtain d where d: "when_do up (display A ?ops) s = (Ret (), s\<lparr>bo_oled := d\<rparr>)" "oled_ok d"
    using maybe_display_run[OF assms] by blast
  show ?thesis
  proof (cases "wifi_up \<and> host \<noteq> ''''")
    case False
    have "boot_net A up wifi_up host s = (Ret (), s\<lparr>bo_oled := d\<rparr>)"
      unfolding boot_net_def bnd_Ret[where m = "when_do up (display A ?ops)", OF d(1)] if_not_P[OF False] by simp
    then show ?thesis using d(2) False by (simp only: if_False) blast
  next
    case True
    let ?s = "s\<lparr>bo_oled := d\<rparr>"
    have put: "attached ?s x = attached s x" for x by (simp add: attached_def)
    obtain d2 where d2: "when_do up (display A [Set_line 5 ''WiFi+TCP bridge'', Flush]) (attached s d) = (Ret (), attached s d2)" "oled_ok d2"
      using maybe_display_run[of "attached s d" up A "[Set_line 5 ''WiFi+TCP bridge'', Flush]"] d(2) by (auto simp: attached_def)
    have "boot_net A up wifi_up host s = bnd device_create (\<lambda>i. bnd (device_up i)
        (\<lambda>_. when_do up (display A [Set_line 5 ''WiFi+TCP bridge'', Flush]))) ?s"
      unfolding boot_net_def bnd_Ret[where m = "when_do up (display A ?ops)", OF d(1)] using True by simp
    also have "\<dots> = (Ret (), attached s d2)"
      unfolding device_ready using d2(1) by (simp add: put)
    finally show ?thesis using True d2(2) by auto
  qed
qed

lemma announceableI:
  assumes "r < length (dest_heap s)" "dst_type (dest_heap s ! r) = SINGLE" "dst_direction (dest_heap s ! r) = IN"
    "dst_identity (dest_heap s ! r) = Some (key_identity X a e ap)" "length (dst_name_hash (dest_heap s ! r)) = 10"
    "dst_hash (dest_heap s ! r) = truncated_hash X (dst_name_hash (dest_heap s ! r) @ id_hash (key_identity X a e ap))"
  shows "announceable X s r"
  using assms by (auto simp: announceable_def Let_def)

text \<open>The first status screen, which the loop's timeout counts from.\<close>

lemma screen_ready:
  assumes "oled_ok (bo_oled s)" "bo_out_link s = None"
  shows "\<exists>s'. when_do up (bnd (render_status A ih dh 0) (\<lambda>_. modify (\<lambda>s. s\<lparr>bo_off_at := now + DISPLAY_ON_MS\<rparr>))) s = (Ret (), s') \<and>
    kept s s' \<and> counts s' = counts s \<and> net_heap s' = net_heap s \<and> net_destinations s' = net_destinations s \<and>
    net_on_announce s' = net_on_announce s \<and> net_on_link_request s' = net_on_link_request s \<and> net_seen s' = net_seen s"
proof (cases up)
  case False
  then show ?thesis by simp
next
  case True
  have st: "out_status s = (Ret None, s)" using assms(2) by (simp add: out_status_def)
  obtain d where "render_status A ih dh 0 s = (Ret (), s\<lparr>bo_oled := d\<rparr>)" "oled_ok d"
    using display_run[OF assms(1), of A] unfolding render_status_def bnd_Ret[where m = out_status, OF st] bnd_gets prod.case by blast
  then show ?thesis using True by (simp add: bnd_def kept_def counts_def)
qed

lemma announce_queues:
  fixes s :: "'a board_scheme"
  assumes "crypto_laws X" "announceable X s r" "length app \<le> 316" "devices s"
  obtains raw u c h where "announce X board_broadcast (Some r) app True s = (Ret raw, s\<lparr>hal_calls := c, net_heap := h\<rparr>)"
    "grows (net_heap s) h" "queued raw (s\<lparr>net_heap := h\<rparr>)" "packet_unpack X (packet_of_raw raw) = (True, u)" "valid_announce X u"
    "pk_destination_hash u = dst_hash (dest_heap s ! r)" "pk_packet_type u = ANNOUNCE"
    "\<forall>i. dst_identity (dest_heap s ! r) = Some i \<longrightarrow> take 64 (pk_data u) = get_public_key i"
proof -
  obtain a e ap where d: "r < length (dest_heap s)" "dst_type (dest_heap s ! r) = SINGLE" "dst_direction (dest_heap s ! r) = IN"
    "dst_identity (dest_heap s ! r) = Some (key_identity X a e ap)" "length (dst_name_hash (dest_heap s ! r)) = 10"
    "dst_hash (dest_heap s ! r) = truncated_hash X (dst_name_hash (dest_heap s ! r) @ id_hash (key_identity X a e ap))"
    using assms(2) by (auto simp: announceable_def Let_def)
  obtain raw u rh where raw: "announce X board_broadcast (Some r) app False s = (Ret raw, s\<lparr>hal_calls := hal_calls s + 1\<rparr>)"
    "packet_unpack X (packet_of_raw raw) = (True, u)" "pk_packet_type u = ANNOUNCE" "pk_hops u = 0"
    "pk_destination_hash u = dst_hash (dest_heap s ! r)" "pk_data u = announce_payload X (dest_heap s ! r) a e rh app"
    "announce_of X (dst_hash (dest_heap s ! r)) (announce_payload X (dest_heap s ! r) a e rh app) (x_x25519_pub X a @ x_ed_pub X e) app"
    "valid_announce X u"
    by (rule announce_frame[OF assms(1) d(1) refl d(2-5) assms(3) d(6)])
  have key: "\<forall>i. dst_identity (dest_heap s ! r) = Some i \<longrightarrow> take 64 (pk_data u) = get_public_key i"
    unfolding d(4) raw(6) announce_of_unique(1)[OF raw(7), symmetric] by (simp add: get_key_identity)
  define t where "t = s\<lparr>hal_calls := hal_calls s + 1\<rparr>"
  have "devices t" using assms(4) by (simp add: t_def devices_def)
  then obtain h where h: "board_broadcast raw t = (Ret (), t\<lparr>net_heap := h\<rparr>)" "grows (net_heap t) h" "queued raw (t\<lparr>net_heap := h\<rparr>)"
    using board_queues by blast
  have "announce X board_broadcast (Some r) app True s = (Ret raw, t\<lparr>net_heap := h\<rparr>)"
    unfolding announce_send
    by (simp add: bnd_Ret[where m = "announce X board_broadcast (Some r) app False", OF raw(1)[folded t_def]]
        bnd_Ret[where m = "board_broadcast raw", OF h(1)])
  then show ?thesis using h(2,3) raw(2,3,5,8) key
    by (intro that[where raw = raw and c = "hal_calls s + 1" and h = h and u = u]) (simp_all add: t_def queued_def)
qed

text \<open>The state \<open>node_start\<close> meets: the board's own destination \<open>d\<close> is registered and the callbacks are set.\<close>

definition own_up :: "dest \<Rightarrow> 'a board_scheme \<Rightarrow> 'a board_scheme" where
  "own_up d s = s\<lparr>dest_heap := dest_heap s @ [d], net_destinations := (net_destinations s)(dst_hash d \<mapsto> length (dest_heap s)),
     net_on_link_request := Some BOARD_LINKS, net_on_announce := Some BOARD_HEARD\<rparr>"

lemma own_ready:
  assumes "hash_law X"
  obtains d where "boot_dest X i s = (Ret (length (dest_heap s), to_hex False (id_hash i), to_hex False (dst_hash d)), own_up d s)"
    "dst_type d = SINGLE" "dst_direction d = IN" "dst_identity d = Some i" "length (dst_name_hash d) = 10"
    "dst_hash d = truncated_hash X (dst_name_hash d @ id_hash i)" "name_hash X ''rtreticulum'' ''heltec_v3'' = Ret (dst_name_hash d)"
proof -
  let ?own = "length (dest_heap s)"
  obtain d where d: "destination_new X (Some i) IN SINGLE ''rtreticulum'' ''heltec_v3'' s = (Ret ?own, s\<lparr>dest_heap := dest_heap s @ [d]\<rparr>)"
    "dst_type d = SINGLE" "dst_direction d = IN" "dst_identity d = Some i" "length (dst_name_hash d) = 10"
    "dst_hash d = truncated_hash X (dst_name_hash d @ id_hash i)" "name_hash X ''rtreticulum'' ''heltec_v3'' = Ret (dst_name_hash d)"
    by (rule destination_new_run[OF assms, of "''rtreticulum''" i IN "''heltec_v3''" s]) auto
  define s1 where "s1 = s\<lparr>dest_heap := dest_heap s @ [d], net_destinations := (net_destinations s)(dst_hash d \<mapsto> ?own)\<rparr>"
  have reg: "register_destination ?own (s\<lparr>dest_heap := dest_heap s @ [d]\<rparr>) = (Ret (), s1)"
    and got: "get_dest ?own s1 = (Ret d, s1)"
    by (simp_all add: register_destination_def get_dest_def heap_get_def bnd_def s1_def)
  have up: "s1\<lparr>net_on_link_request := Some BOARD_LINKS, net_on_announce := Some BOARD_HEARD\<rparr> = own_up d s"
    by (simp add: s1_def own_up_def)
  have "boot_dest X i s = (Ret (?own, to_hex False (id_hash i), to_hex False (dst_hash d)), own_up d s)"
    unfolding boot_dest_def bnd_Ret[where m = "destination_new X (Some i) IN SINGLE ''rtreticulum'' ''heltec_v3''", OF d(1)]
      bnd_Ret[where m = "register_destination ?own", OF reg] bnd_Ret[where m = "get_dest ?own", OF got] Let_def
      set_link_request_handler_def on_announce_def bnd_modify by (simp add: up)
  then show ?thesis using d(2-7) by (rule that)
qed

text \<open>The announce of the node's destination \<open>n\<close>, as \<open>node_start\<close> queues it.\<close>

definition node_announced :: "ext \<Rightarrow> identity \<Rightarrow> nat \<Rightarrow> bytes \<Rightarrow> packet \<Rightarrow> 'a board_scheme \<Rightarrow> bool" where
  "node_announced X i n raw u s \<longleftrightarrow> queued raw s \<and> packet_unpack X (packet_of_raw raw) = (True, u) \<and>
     pk_packet_type u = ANNOUNCE \<and> valid_announce X u \<and> take 64 (pk_data u) = get_public_key i \<and>
     pk_destination_hash u = dst_hash (dest_heap s ! n) \<and> n < length (dest_heap s) \<and> dst_identity (dest_heap s ! n) = Some i"

lemma node_ready:
  fixes s :: "'a board_scheme"
  assumes "crypto_laws X" "i = key_identity X a e []" "oled_ok (bo_oled s)" "devices s" "bo_out_link s = None" "link_heap s = []"
    and d: "dst_type d = SINGLE" "dst_direction d = IN" "dst_identity d = Some i" "length (dst_name_hash d) = 10"
    "dst_hash d = truncated_hash X (dst_name_hash d @ id_hash i)"
  obtains s' n raw u where "boot_node X A up now i ih dh (own_up d s) = (Ret (), s')"
    "dest_heap s' ! length (dest_heap s) = d"
    "board_ok X (length (dest_heap s)) s'" "counts s' = counts s" "devices s'" "net_interfaces s' = net_interfaces s"
    "net_on_announce s' = Some BOARD_HEARD" "net_on_link_request s' = Some NODE_LINKS" "nn_dest s' = Some n"
    "net_destinations s' = (net_destinations s)(dst_hash d \<mapsto> length (dest_heap s), dst_hash (dest_heap s' ! n) \<mapsto> n)"
    "destination_hash X (Some i) ''nomadnetwork'' ''node'' = Ret (dst_hash (dest_heap s' ! n))"
    "net_seen s' = net_seen s" "node_announced X i n raw u s'" "bo_out_link s' = None" "length (dest_heap s) < length (dest_heap s')"
proof -
  note laws = crypto_lawsD[OF assms(1)]
  let ?own = "length (dest_heap s)" and ?node = "Suc (length (dest_heap s))"
  obtain g where run: "node_start X board_broadcast i ''RTReticulum Heltec V3'' (own_up d s) =
      bnd (announce X board_broadcast (Some (length (dest_heap (own_up d s)))) (str_bytes ''RTReticulum Heltec V3'') True) (\<lambda>_. ret ())
        (node_up X g ''RTReticulum Heltec V3'' (own_up d s))"
    and g: "dst_type g = SINGLE" "dst_direction g = IN" "dst_identity g = Some i" "length (dst_name_hash g) = 10"
      "dst_hash g = truncated_hash X (dst_name_hash g @ id_hash i)" "name_hash X ''nomadnetwork'' ''node'' = Ret (dst_name_hash g)"
    by (rule node_start_run[OF laws(1), of board_broadcast i "''RTReticulum Heltec V3''" "own_up d s"])
  define s3 where "s3 = node_up X g ''RTReticulum Heltec V3'' (own_up d s)"
  note s3_eq = s3_def[unfolded own_up_def node_up_def]
  have heap: "dest_heap s3 ! ?own = d" "dst_hash (dest_heap s3 ! ?node) = dst_hash g" "length (dest_heap (own_up d s)) = ?node"
    by (simp_all add: s3_eq own_up_def nth_append)
  have ann: "announceable X s3 ?own" "announceable X s3 ?node"
    by (rule announceableI[where a = a and e = e and ap = "[]"]; use d g assms(2) in \<open>simp add: s3_eq nth_append\<close>)+
  have dev: "devices s3" using assms(4) by (simp add: s3_eq devices_def)
  obtain raw u c h where sent: "announce X board_broadcast (Some ?node) (str_bytes ''RTReticulum Heltec V3'') True s3 =
      (Ret raw, s3\<lparr>hal_calls := c, net_heap := h\<rparr>)" "grows (net_heap s3) h"
    and raw: "queued raw (s3\<lparr>net_heap := h\<rparr>)" "packet_unpack X (packet_of_raw raw) = (True, u)" "valid_announce X u"
      "pk_destination_hash u = dst_hash (dest_heap s3 ! ?node)" "pk_packet_type u = ANNOUNCE"
      "\<forall>i. dst_identity (dest_heap s3 ! ?node) = Some i \<longrightarrow> take 64 (pk_data u) = get_public_key i"
    by (rule announce_queues[OF assms(1) ann(2) _ dev, of "str_bytes ''RTReticulum Heltec V3''"]) simp
  define s4 where "s4 = s3\<lparr>hal_calls := c, net_heap := h\<rparr>"
  have node: "node_start X board_broadcast i ''RTReticulum Heltec V3'' (own_up d s) = (Ret (), s4)"
    unfolding run heap(3) s3_def[symmetric] s4_def
      bnd_Ret[where m = "announce X board_broadcast (Some ?node) (str_bytes ''RTReticulum Heltec V3'') True", OF sent(1)] by simp
  have s4: "oled_ok (bo_oled s4)" "bo_out_link s4 = None" "counts s4 = counts s" "net_interfaces s4 = net_interfaces s"
    "length (nn_name s4) \<le> 316" "nn_dest s4 = Some ?node" "devices s4" "dest_heap s4 = dest_heap s3"
    "net_destinations s4 = (net_destinations s)(dst_hash d \<mapsto> ?own, dst_hash g \<mapsto> ?node)"
    "net_on_announce s4 = Some BOARD_HEARD" "net_on_link_request s4 = Some NODE_LINKS" "net_seen s4 = net_seen s" "link_heap s4 = []"
    using assms(3,5,6) grows_devices[OF dev sent(2)] by (simp_all add: s4_def s3_eq counts_def devices_def)
  obtain s5 where s5: "boot_node X A up now i ih dh (own_up d s) = (Ret (), s5)" "kept s4 s5" "counts s5 = counts s4"
    "net_heap s5 = net_heap s4" "net_destinations s5 = net_destinations s4" "net_on_announce s5 = net_on_announce s4"
    "net_on_link_request s5 = net_on_link_request s4" "net_seen s5 = net_seen s4"
    unfolding boot_node_def bnd_Ret[where m = "node_start X board_broadcast i ''RTReticulum Heltec V3''", OF node]
    using screen_ready[OF s4(1,2)] by blast
  have s5': "dest_heap s5 = dest_heap s3" "net_interfaces s5 = net_interfaces s" "nn_dest s5 = Some ?node" "devices s5"
    "nn_name s5 = nn_name s4" "bo_out_link s5 = None" "oled_ok (bo_oled s5)" "link_heap s5 = []"
    using s5(2,4) s4 by (simp_all add: kept_def devices_def)
  have "board_ok X ?own s5"
    using s5' s4(5) ann by (simp add: board_ok_def announceable_def devices_def)
  moreover have node_dest: "dst_identity (dest_heap s3 ! ?node) = Some i" "?node < length (dest_heap s3)"
    using g(3) by (simp_all add: s3_eq nth_append)
  moreover have "node_announced X i ?node raw u s5"
    using raw s5(4) s5'(1,2) s4(4) node_dest by (simp add: node_announced_def queued_def s4_def s3_eq)
  moreover have "destination_hash X (Some i) ''nomadnetwork'' ''node'' = Ret (dst_hash (dest_heap s5 ! ?node))"
    using g(5,6) s5'(1) heap(2) by (simp add: destination_hash_def)
  ultimately show ?thesis using s5 s5' s4 heap by (intro that[where s' = s5 and n = ?node and raw = raw and u = u]) simp_all
qed

text \<open>The state before the identity is loaded.\<close>

definition equipped :: "boot_env \<Rightarrow> board \<Rightarrow> bool" where
  "equipped e s \<longleftrightarrow> oled_ok (bo_oled s) \<and> devices s \<and> bo_out_link s = None \<and> counts s = (0, 0, 0, False, 0) \<and>
     dest_heap s = [] \<and> net_destinations s = Map.empty \<and> net_seen s = {} \<and>
     link_heap s = [] \<and> length (net_interfaces s) = (if bt_wifi e \<and> bt_host e \<noteq> '''' then 2 else 1)"

text \<open>What follows from there.\<close>

definition boot_rest ::
  "ext \<Rightarrow> 'n nvs \<Rightarrow> (nat \<Rightarrow> bool) \<Rightarrow> boot_env \<Rightarrow> bool \<Rightarrow>
   (rt_state \<times> 'n \<times> 'a board_scheme, (bool \<times> nat \<times> string \<times> string) option) prog" where
  "boot_rest X N A e up =
     bnd (on_snd (boot_identity X N)) (\<lambda>i.
     bnd (on_snd (on_snd (boot_dest X i))) (\<lambda>(own, id_hex, dst_hex).
     bnd (boot_task (bt_task e) 100) (\<lambda>_.
     bnd (on_snd (on_snd (boot_node X A up (bt_now e) i id_hex dst_hex))) (\<lambda>_.
     ret (Some (up, own, id_hex, dst_hex))))))"

lemma boot_halts:
  assumes "power_on s" "\<not> bt_lora e"
  shows "\<exists>s'. app_main X N A e (t, st, s) = (Ret None, (t, nvs_up N st, s')) \<and> net_interfaces s' = []"
proof -
  note on = assms(1)[unfolded power_on_def]
  obtain up d where 1: "boot_display A (bt_bus e) (bt_dev e) s = (Ret up, s\<lparr>bo_oled := d\<rparr>)" "oled_ok d"
    using display_ready[where s = s and A = A and bus = "bt_bus e" and dev = "bt_dev e"] on by blast
  have "oled_ok (bo_oled (s\<lparr>bo_oled := d\<rparr>))" using 1(2) by simp
  from lora_ready[OF this, of A up False] obtain s2 where
    2: "boot_lora A up False (s\<lparr>bo_oled := d\<rparr>) = (Ret False, s2)" "net_interfaces s2 = net_interfaces s" by auto
  then show ?thesis using 1(1) assms(2) on by (intro exI[of _ s2]) (simp add: app_main_def on_snd_def on_fst_def bnd_def)
qed

lemma boot_equipped:
  assumes "power_on s" "bt_lora e"
  obtains up s' where "app_main X N A e (t, st, s) = boot_rest X N A e up (t, nvs_up N st, s')" "equipped e s'"
proof -
  note on = assms(1)[unfolded power_on_def]
  obtain up d where 1: "boot_display A (bt_bus e) (bt_dev e) s = (Ret up, s\<lparr>bo_oled := d\<rparr>)" "oled_ok d"
    using display_ready[where s = s and A = A and bus = "bt_bus e" and dev = "bt_dev e"] on by blast
  have "oled_ok (bo_oled (s\<lparr>bo_oled := d\<rparr>))" using 1(2) by simp
  from lora_ready[OF this, of A up True] obtain d2 where
    2: "boot_lora A up True (s\<lparr>bo_oled := d\<rparr>) = (Ret True, attached (s\<lparr>bo_oled := d\<rparr>) d2)" "oled_ok d2" by auto
  define s2 where "s2 = attached (s\<lparr>bo_oled := d\<rparr>) d2"
  have "oled_ok (bo_oled s2)" using 2(2) by (simp add: s2_def attached_def)
  from net_ready[OF this, of A up "bt_wifi e" "bt_host e"] obtain d3 where 3: "oled_ok d3"
    "boot_net A up (bt_wifi e) (bt_host e) s2 =
      (Ret (), if bt_wifi e \<and> bt_host e \<noteq> '''' then attached s2 d3 else s2\<lparr>bo_oled := d3\<rparr>)" by blast
  define s3 where "s3 = (if bt_wifi e \<and> bt_host e \<noteq> '''' then attached s2 d3 else s2\<lparr>bo_oled := d3\<rparr>)"
  have "app_main X N A e (t, st, s) = boot_rest X N A e up (t, nvs_up N st, s3)"
    using 1(1) 2(1)[folded s2_def] 3(2)[folded s3_def] assms(2) by (simp add: app_main_def boot_rest_def on_snd_def on_fst_def bnd_def)
  moreover have "equipped e s3"
    using 3(1) on by (auto simp: equipped_def s3_def s2_def attached_def fresh_device_def devices_def counts_def nth_append)
  ultimately show ?thesis by (rule that)
qed

text \<open>A start whose LoRa interface starts: the state the loop is entered in, with the board's identity \<open>i\<close>, its own
  destination \<open>0\<close> and the node's destination \<open>n\<close>, whose announce is in every queue.\<close>

definition booted :: "ext \<Rightarrow> boot_env \<Rightarrow> identity \<Rightarrow> nat \<Rightarrow> board \<Rightarrow> bool" where
  "booted X e i n s \<longleftrightarrow> (\<exists>a b. i = key_identity X a b []) \<and> board_ok X 0 s \<and> counts s = (0, 0, 0, False, 0) \<and> devices s \<and>
     bo_out_link s = None \<and> net_seen s = {} \<and> length (net_interfaces s) = (if bt_wifi e \<and> bt_host e \<noteq> '''' then 2 else 1) \<and>
     0 < length (dest_heap s) \<and> dst_identity (dest_heap s ! 0) = Some i \<and> nn_dest s = Some n \<and>
     net_destinations s = [dst_hash (dest_heap s ! 0) \<mapsto> 0, dst_hash (dest_heap s ! n) \<mapsto> n] \<and>
     net_on_announce s = Some BOARD_HEARD \<and> net_on_link_request s = Some NODE_LINKS \<and>
     name_hash X ''rtreticulum'' ''heltec_v3'' = Ret (dst_name_hash (dest_heap s ! 0)) \<and>
     dst_hash (dest_heap s ! 0) = truncated_hash X (dst_name_hash (dest_heap s ! 0) @ id_hash i) \<and>
     destination_hash X (Some i) ''nomadnetwork'' ''node'' = Ret (dst_hash (dest_heap s ! n)) \<and>
     (\<exists>raw u. node_announced X i n raw u s)"

lemma boot_run:
  assumes "crypto_laws X" "power_on s" "bt_lora e"
  obtains up n i st' s' where
    "app_main X N A e (t, st, s) =
      (Ret (Some (up, 0, to_hex False (id_hash i), to_hex False (dst_hash (dest_heap s' ! 0)))), (snd (rt_start (bt_task e) 100 t), st', s'))"
    "\<forall>key. nv_read N ''rtreticulum'' ''id_prv'' (nvs_up N st) = Some key \<and> length key = 64 \<longrightarrow> i = key_identity X (take 32 key) (drop 32 key) []"
    "booted X e i n s'"
proof -
  note laws = crypto_lawsD[OF assms(1)]
  obtain up s3 where 3: "app_main X N A e (t, st, s) = boot_rest X N A e up (t, nvs_up N st, s3)" "equipped e s3"
    by (rule boot_equipped[OF assms(2,3)])
  obtain a b st' c where 4: "boot_identity X N (nvs_up N st, s3) = (Ret (key_identity X a b []), (st', s3\<lparr>hal_calls := c\<rparr>))"
    "\<forall>key. nv_read N ''rtreticulum'' ''id_prv'' (nvs_up N st) = Some key \<and> length key = 64 \<longrightarrow> a = take 32 key \<and> b = drop 32 key"
    by (rule identity_ready[OF laws(7)])
  define i where "i = key_identity X a b []"
  define s4 where "s4 = s3\<lparr>hal_calls := c\<rparr>"
  have s4: "oled_ok (bo_oled s4)" "devices s4" "bo_out_link s4 = None" "counts s4 = (0, 0, 0, False, 0)" "dest_heap s4 = []"
    "net_destinations s4 = Map.empty" "length (net_interfaces s4) = (if bt_wifi e \<and> bt_host e \<noteq> '''' then 2 else 1)" "net_seen s4 = {}"
    "link_heap s4 = []"
    using 3(2) by (simp_all add: equipped_def s4_def devices_def counts_def)
  obtain d where d: "boot_dest X i s4 = (Ret (length (dest_heap s4), to_hex False (id_hash i), to_hex False (dst_hash d)), own_up d s4)"
    "dst_type d = SINGLE" "dst_direction d = IN" "dst_identity d = Some i" "length (dst_name_hash d) = 10"
    "dst_hash d = truncated_hash X (dst_name_hash d @ id_hash i)" "name_hash X ''rtreticulum'' ''heltec_v3'' = Ret (dst_name_hash d)"
    by (rule own_ready[OF laws(1)])
  let ?ih = "to_hex False (id_hash i)" and ?dh = "to_hex False (dst_hash d)"
  obtain s5 n raw u where 5: "boot_node X A up (bt_now e) i ?ih ?dh (own_up d s4) = (Ret (), s5)"
    "dest_heap s5 ! length (dest_heap s4) = d"
    "board_ok X (length (dest_heap s4)) s5" "counts s5 = counts s4" "devices s5" "net_interfaces s5 = net_interfaces s4"
    "net_on_announce s5 = Some BOARD_HEARD" "net_on_link_request s5 = Some NODE_LINKS" "nn_dest s5 = Some n"
    "net_destinations s5 = (net_destinations s4)(dst_hash d \<mapsto> length (dest_heap s4), dst_hash (dest_heap s5 ! n) \<mapsto> n)"
    "destination_hash X (Some i) ''nomadnetwork'' ''node'' = Ret (dst_hash (dest_heap s5 ! n))"
    "net_seen s5 = net_seen s4" "node_announced X i n raw u s5" "bo_out_link s5 = None" "length (dest_heap s4) < length (dest_heap s5)"
    by (rule node_ready[OF assms(1) i_def s4(1-3,9) d(2-6), where A = A and up = up and now = "bt_now e"])
  have own: "dest_heap s5 ! 0 = d" using 5(2) s4(5) by simp
  have "app_main X N A e (t, st, s) = (Ret (Some (up, 0, ?ih, ?dh)), (snd (rt_start (bt_task e) 100 t), st', s5))"
    unfolding 3(1) using 4(1)[folded i_def s4_def] d(1) 5(1) s4(5)
    by (simp add: boot_rest_def boot_task_def on_snd_def bnd_def split: prod.split)
  moreover have "\<forall>key. nv_read N ''rtreticulum'' ''id_prv'' (nvs_up N st) = Some key \<and> length key = 64 \<longrightarrow> i = key_identity X (take 32 key) (drop 32 key) []"
    using 4(2) unfolding i_def by blast
  moreover have "booted X e i n s5" unfolding booted_def using 5(3-15) d(4,6,7) s4(4-8) own i_def by auto
  ultimately show ?thesis unfolding own[symmetric] by (rule that)
qed

section \<open>The bridge variants\<close>

text \<open>\<open>app_main\<close> of the other two builds: without a radio they stop for good (\<open>False\<close>), else they become the
  bridge. The BLE bridge's loop, its writes and its connection events come from two tasks.\<close>

definition app_main_rnode :: "(radio_call \<Rightarrow> bool) \<Rightarrow> bool \<Rightarrow> bool \<Rightarrow> bridge_event list \<Rightarrow> ('a rnode_scheme, bool) prog" where
  "app_main_rnode accept begun listening es =
     bnd (lora_start begun listening) (\<lambda>ok.
     if \<not> ok then ret False else bnd (bridge_run accept es) (\<lambda>_. ret True))"

datatype ble_event = Ble_turn u8 | Ble_gap gap_event | Ble_write bool "bytes option" | Ble_packet

definition ble_event_run :: "(radio_call \<Rightarrow> bool) \<Rightarrow> ble_event \<Rightarrow> ('a ble_scheme, unit) prog" where
  "ble_event_run accept e =
     (case e of
        Ble_turn rnd \<Rightarrow> ble_turn accept rnd RX_RING_SIZE
      | Ble_gap g \<Rightarrow> bnd (gap_event_cb g) (\<lambda>_. ret ())
      | Ble_write w om \<Rightarrow> bnd (nus_access w om) (\<lambda>_. ret ())
      | Ble_packet \<Rightarrow> on_dio1)"

text \<open>\<open>on_sync\<close>: nothing without an address.\<close>

definition on_sync :: "bool \<Rightarrow> ('a ble_scheme, unit) prog" where
  "on_sync addr = when_do addr start_advertising"

definition ble_run :: "(radio_call \<Rightarrow> bool) \<Rightarrow> bool \<Rightarrow> ble_event list \<Rightarrow> ('a ble_scheme, unit) prog" where
  "ble_run accept addr es =
     bnd (on_sync addr) (\<lambda>_. bnd (attach True True) (\<lambda>_. for_each es (ble_event_run accept)))"

definition app_main_ble :: "(radio_call \<Rightarrow> bool) \<Rightarrow> bool \<Rightarrow> bool \<Rightarrow> bool \<Rightarrow> ble_event list \<Rightarrow> ('a ble_scheme, bool) prog" where
  "app_main_ble accept begun listening addr es =
     bnd (lora_start begun listening) (\<lambda>ok.
     if \<not> ok then ret False else bnd (ble_run accept addr es) (\<lambda>_. ret True))"

section \<open>The BLE bridge as a queue in front of the parser\<close>

fun ble_spec :: "ble_event \<Rightarrow> kiss \<times> bytes \<Rightarrow> kiss \<times> bytes" where
  "ble_spec (Ble_turn rnd) (p, q) = (fst (feed_all kiss_feed q p), [])"
| "ble_spec (Ble_write w om) (p, q) =
     (p, case om of Some bs \<Rightarrow> if w then q @ take (2047 - length q) bs else q | None \<Rightarrow> q)"
| "ble_spec (Ble_gap g) s = s"
| "ble_spec Ble_packet s = s"

definition ble_queue :: "'a ble_scheme \<Rightarrow> kiss \<times> bytes" where
  "ble_queue s = (rn_kiss s, ring_contents (bl_ring s))"

lemma ble_event_refines:
  assumes "ring_ok (bl_ring s)"
  shows "\<exists>s'. ble_event_run accept e s = (Ret (), s') \<and> ring_ok (bl_ring s') \<and> ble_queue s' = ble_spec e (ble_queue s)"
proof (cases e)
  case (Ble_turn rnd)
  then show ?thesis using ble_turn_total[OF assms, of accept rnd] by (auto simp: ble_event_run_def RX_RING_SIZE_def ble_queue_def)
next
  case (Ble_gap g)
  then show ?thesis using assms
    by (cases g) (auto simp: ble_event_run_def gap_event_cb_def ble_queue_def start_advertising_def when_do_def bnd_def)
next
  case (Ble_write w om)
  then show ?thesis using assms ring_write_contents[OF assms]
    by (cases om) (auto simp: ble_event_run_def nus_access_def ble_queue_def bnd_def ret_def modify_def)
next
  case Ble_packet
  then show ?thesis using assms by (auto simp: ble_event_run_def on_dio1_def ble_queue_def)
qed

section \<open>Properties\<close>

text \<open>
  C7: A start either stops for good with no interface registered, when the LoRa interface does not start, or reaches
  the loop in a state of the runs the loop's properties are about: the display, both destinations, the interfaces
  and the task (if it could be spawned) are there, and nothing has been counted. It keeps an identity that is stored
  once the flash store is initialised, which erases a store without free pages or of a newer version; both
  destinations are registered, and the node's link-request handler has replaced the one set before.
\<close>

theorem boot_ready:
  assumes "crypto_laws X" "power_on s"
  shows "\<exists>st' s'. if bt_lora e
    then \<exists>up own ih dh n i. app_main X N A e (rt_init, st, s) = (Ret (Some (up, own, ih, dh)), (snd (rt_start (bt_task e) 100 rt_init), st', s')) \<and>
      board_run X receive own A up ih dh 0 s' \<and> devices s' \<and>
      length (net_interfaces s') = (if bt_wifi e \<and> bt_host e \<noteq> '''' then 2 else 1) \<and>
      dst_identity (dest_heap s' ! own) = Some i \<and> ih = to_hex False (id_hash i) \<and> dh = to_hex False (dst_hash (dest_heap s' ! own)) \<and>
      (\<forall>key. nv_read N ''rtreticulum'' ''id_prv'' (nvs_up N st) = Some key \<and> length key = 64 \<longrightarrow> get_private_key i = key) \<and>
      nn_dest s' = Some n \<and>
      net_destinations s' = [dst_hash (dest_heap s' ! own) \<mapsto> own, dst_hash (dest_heap s' ! n) \<mapsto> n] \<and>
      net_on_announce s' = Some BOARD_HEARD \<and> net_on_link_request s' = Some NODE_LINKS
    else app_main X N A e (rt_init, st, s) = (Ret None, (rt_init, st', s')) \<and> st' = nvs_up N st \<and> net_interfaces s' = []"
proof (cases "bt_lora e")
  case False
  then show ?thesis using boot_halts[OF assms(2), of e X N A rt_init st] by auto
next
  case True
  obtain up n i st' s' where run:
    "app_main X N A e (rt_init, st, s) =
      (Ret (Some (up, 0, to_hex False (id_hash i), to_hex False (dst_hash (dest_heap s' ! 0)))), (snd (rt_start (bt_task e) 100 rt_init), st', s'))"
    "\<forall>key. nv_read N ''rtreticulum'' ''id_prv'' (nvs_up N st) = Some key \<and> length key = 64 \<longrightarrow> i = key_identity X (take 32 key) (drop 32 key) []"
    "booted X e i n s'"
    by (rule boot_run[OF assms True, where N = N and A = A and st = st and t = rt_init])
  have key: "get_private_key i = k" if "nv_read N ''rtreticulum'' ''id_prv'' (nvs_up N st) = Some k" "length k = 64" for k
    using run(2) that by (simp add: get_key_identity)
  have "board_run X receive 0 A up ih dh 0 s'" for ih dh using run(3) by (intro board_run.start) (simp_all add: booted_def)
  then show ?thesis unfolding if_P[OF True] using run(1) run(3)[unfolded booted_def] key
    by (intro exI[of _ st'] exI[of _ s'] exI[of _ up] exI[of _ 0] exI[of _ "to_hex False (id_hash i)"]
        exI[of _ "to_hex False (dst_hash (dest_heap s' ! 0))"] exI[of _ n] exI[of _ i]) simp
qed

text \<open>
  What two boards say to each other, from the announce \<open>raw\<close> the first hears to the greeting the second gets;
  \<open>rx\<close> and \<open>rx'\<close> receive a frame.
\<close>

definition greeted ::
  "ext \<Rightarrow> (bytes \<Rightarrow> (board, unit) prog) \<Rightarrow> string \<Rightarrow> board \<Rightarrow> bytes \<Rightarrow> (bytes \<Rightarrow> (board, unit) prog) \<Rightarrow> board \<Rightarrow> bool" where
  "greeted X rx id_hex a raw rx' b \<longleftrightarrow> (\<exists>a1 request b1 answer a2 a3 greeting l k.
     rx raw a = (Ret (), a1) \<and> queued request a1 \<and>
     rx' request b = (Ret (), b1) \<and> queued answer b1 \<and>
     rx answer a1 = (Ret (), a2) \<and> bo_out_link a2 = Some l \<and> same_session (link_heap a2 ! l) (link_heap b1 ! k) \<and>
     turn_hello X id_hex a2 = (Ret (), a3) \<and> bo_hello a3 \<and> queued greeting a3 \<and>
     (net_destinations b (lk_hash (link_heap b1 ! k)) = None \<longrightarrow> rx' greeting b1 = (Ret (), b1)))"

lemma booted_greet:
  assumes "crypto_laws X" "booted X ea ia na a" "booted X eb ib nb b" "id_hash ib \<noteq> id_hash ia"
    "destination_hash X (Some ib) ''nomadnetwork'' ''node'' \<noteq> destination_hash X (Some ia) ''rtreticulum'' ''heltec_v3''" "node_announced X ib nb raw u b"
  shows "greeted X (\<lambda>f. transport_inbound X W (board_app X serve (dst_hash (dest_heap a ! 0)) (id_hash ia)) m f via) id_hex a raw
    (\<lambda>f. transport_inbound X W' (board_app X serve' dst' id') m' f via') b"
proof -
  note a = assms(2)[unfolded booted_def] and b = assms(3)[unfolded booted_def] and an = assms(6)[unfolded node_announced_def]
  obtain xb yb where ib: "ib = key_identity X xb yb []" using b by blast
  define r where "r = (if dst_hash (dest_heap b ! 0) = dst_hash (dest_heap b ! nb) then nb else 0)"
  have own: "net_destinations b (dst_hash (dest_heap b ! 0)) = Some r" using b by (simp add: r_def)
  have r: "net_destinations b (truncated_hash X (dst_name_hash (dest_heap b ! 0) @ id_hash ib)) = Some r" "r < length (dest_heap b)"
    "dst_identity (dest_heap b ! r) = Some ib"
    using own b an by (simp, simp_all add: r_def)
  have ready: "pk_packet_hash u \<notin> net_seen a" "net_on_announce a = Some BOARD_HEARD" "pk_destination_hash u \<noteq> dst_hash (dest_heap a ! 0)"
    "bo_out_link a = None" "\<not> bo_hello a" "devices a"
    using a an assms(5) b by (auto simp: counts_def destination_hash_def)
  have name: "name_hash X ''rtreticulum'' ''heltec_v3'' = Ret (dst_name_hash (dest_heap b ! 0))"
    and peer: "net_on_link_request b = Some NODE_LINKS" "devices b"
    and frame: "packet_unpack X (packet_of_raw raw) = (True, u)" "pk_packet_type u = ANNOUNCE" "valid_announce X u"
      "take 64 (pk_data u) = get_public_key ib"
    using b an by simp_all
  show ?thesis
    unfolding greeted_def
    using boards_meet[OF assms(1) ib frame ready(1-3) assms(4) ready(4-6) name r peer, of W serve m via W' serve' dst' id' m' via' id_hex]
    by (simp only: refl if_True)
qed

text \<open>
  C6: From power-on to the greeting. Two boards whose LoRa interfaces start reach their loops with the identities their
  initialised stores hold, if they hold one, and the second has the announce of its node in every queue. If that announce reaches the first, and the identities
  and the two destinations differ, a link request leaves it; the second answers, the first holds the session the second
  holds, and its next turn greets. What the second does with the greeting is nothing: the node's link-request handler,
  which the start left in place, sets no packet callback.
\<close>

theorem powered_on_greet:
  assumes "crypto_laws X" "power_on a0" "power_on b0" "bt_lora ea" "bt_lora eb"
  shows "\<exists>sta' stb' a b upa upb iha ihb dha dhb ia ib nb raw.
    app_main X N A ea (rt_init, sta, a0) = (Ret (Some (upa, 0, iha, dha)), (snd (rt_start (bt_task ea) 100 rt_init), sta', a)) \<and>
    app_main X N A eb (rt_init, stb, b0) = (Ret (Some (upb, 0, ihb, dhb)), (snd (rt_start (bt_task eb) 100 rt_init), stb', b)) \<and>
    dst_identity (dest_heap a ! 0) = Some ia \<and> dst_identity (dest_heap b ! 0) = Some ib \<and> nn_dest b = Some nb \<and> queued raw b \<and>
    (\<forall>key. nv_read N ''rtreticulum'' ''id_prv'' (nvs_up N sta) = Some key \<and> length key = 64 \<longrightarrow> ia = key_identity X (take 32 key) (drop 32 key) []) \<and>
    (\<forall>key. nv_read N ''rtreticulum'' ''id_prv'' (nvs_up N stb) = Some key \<and> length key = 64 \<longrightarrow> ib = key_identity X (take 32 key) (drop 32 key) []) \<and>
    (id_hash ib \<noteq> id_hash ia \<and>
      destination_hash X (Some ib) ''nomadnetwork'' ''node'' \<noteq> destination_hash X (Some ia) ''rtreticulum'' ''heltec_v3'' \<longrightarrow>
      greeted X (\<lambda>f. transport_inbound X W (board_app X serve (dst_hash (dest_heap a ! 0)) (id_hash ia)) m f via) iha a raw
        (\<lambda>f. transport_inbound X W' (board_app X serve' (dst_hash (dest_heap b ! 0)) (id_hash ib)) m' f via') b)"
proof -
  obtain upa na ia sta' a where A:
    "app_main X N A ea (rt_init, sta, a0) = (Ret (Some (upa, 0, to_hex False (id_hash ia), to_hex False (dst_hash (dest_heap a ! 0)))),
      (snd (rt_start (bt_task ea) 100 rt_init), sta', a))"
    "\<forall>key. nv_read N ''rtreticulum'' ''id_prv'' (nvs_up N sta) = Some key \<and> length key = 64 \<longrightarrow> ia = key_identity X (take 32 key) (drop 32 key) []"
    "booted X ea ia na a"
    by (rule boot_run[OF assms(1,2,4), where N = N and A = A and st = sta and t = rt_init])
  obtain upb nb ib stb' b where B:
    "app_main X N A eb (rt_init, stb, b0) = (Ret (Some (upb, 0, to_hex False (id_hash ib), to_hex False (dst_hash (dest_heap b ! 0)))),
      (snd (rt_start (bt_task eb) 100 rt_init), stb', b))"
    "\<forall>key. nv_read N ''rtreticulum'' ''id_prv'' (nvs_up N stb) = Some key \<and> length key = 64 \<longrightarrow> ib = key_identity X (take 32 key) (drop 32 key) []"
    "booted X eb ib nb b"
    by (rule boot_run[OF assms(1,3,5), where N = N and A = A and st = stb and t = rt_init])
  obtain raw u where an: "node_announced X ib nb raw u b" using B(3) by (auto simp: booted_def)
  have parts: "dst_identity (dest_heap a ! 0) = Some ia" "dst_identity (dest_heap b ! 0) = Some ib" "nn_dest b = Some nb" "queued raw b"
    using A(3) B(3) an by (simp_all add: booted_def node_announced_def)
  note greet = booted_greet[OF assms(1) A(3) B(3) _ _ an, of W serve m via "to_hex False (id_hash ia)" W' serve'
    "dst_hash (dest_heap b ! 0)" "id_hash ib" m' via']
  show ?thesis
    by (rule exI[of _ sta'], rule exI[of _ stb'], rule exI[of _ a], rule exI[of _ b], rule exI[of _ upa], rule exI[of _ upb],
        rule exI[of _ "to_hex False (id_hash ia)"], rule exI[of _ "to_hex False (id_hash ib)"],
        rule exI[of _ "to_hex False (dst_hash (dest_heap a ! 0))"], rule exI[of _ "to_hex False (dst_hash (dest_heap b ! 0))"],
        rule exI[of _ ia], rule exI[of _ ib], rule exI[of _ nb], rule exI[of _ raw],
        intro conjI impI A(1,2) B(1,2) parts greet; elim conjE)
qed

text \<open>
  C20: The BLE bridge never stops by a fault, whatever the radio, the host and the connection do: it is a queue of at
  most 2047 bytes in front of the KISS parser. What a write brings beyond that is dropped, a turn feeds all that is
  queued, and connection events do not touch it.
\<close>

theorem ble_refines:
  assumes "ring_ok (bl_ring s)"
  shows "\<exists>s'. ble_run accept addr es s = (Ret (), s') \<and> ring_ok (bl_ring s') \<and> ble_queue s' = fold ble_spec es (ble_queue s)"
proof -
  define s1 where "s1 = (if addr then s\<lparr>bl_adverts := bl_adverts s + 1\<rparr> else s)\<lparr>rn_lora := True, rn_tx := True, lo_raw_rx := True\<rparr>"
  have start: "ble_run accept addr es s = for_each es (ble_event_run accept) s1"
    by (simp add: ble_run_def on_sync_def start_advertising_def attach_def when_do_def s1_def bnd_def)
  have s1: "ring_ok (bl_ring s1)" "ble_queue s1 = ble_queue s" using assms by (simp_all add: s1_def ble_queue_def)
  have "\<exists>s'. for_each es (ble_event_run accept) t = (Ret (), s') \<and> ring_ok (bl_ring s') \<and> ble_queue s' = fold ble_spec es (ble_queue t)"
    if "ring_ok (bl_ring t)" for t :: "'a ble_scheme"
    using that
  proof (induction es arbitrary: t)
    case (Cons e es)
    obtain t1 where t1: "ble_event_run accept e t = (Ret (), t1)" "ring_ok (bl_ring t1)" "ble_queue t1 = ble_spec e (ble_queue t)"
      using ble_event_refines[OF Cons.prems] by blast
    with Cons.IH[OF t1(2)] show ?case by (auto simp: bnd_Ret[where m = "ble_event_run accept e", OF t1(1)])
  qed simp
  from this[OF s1(1)] show ?thesis unfolding start s1(2) .
qed

section \<open>Witnesses\<close>

definition toy_off :: board where
  "toy_off = toy_board\<lparr>dest_heap := [], net_heap := [], net_interfaces := [], nn_dest := None, nn_name := ''''\<rparr>"

definition toy_env :: boot_env where
  "toy_env = \<lparr>bt_bus = True, bt_dev = True, bt_lora = True, bt_wifi = True,
     bt_host = ''rnsd'', bt_task = True, bt_now = 900\<rparr>"

lemma toy_power_on: "power_on toy_off"
  unfolding power_on_def by (simp add: toy_off_def counts_def) (simp add: toy_board_def)

theorem boot_ready_witness:
  "\<exists>st' s' n. app_main toy toy_nvs (\<lambda>_. True) toy_env (rt_init, Map.empty, toy_off) =
    (Ret (Some n), (snd (rt_start True 100 rt_init), st', s')) \<and> length (net_interfaces s') = 2"
proof -
  from boot_ready[OF toy_laws toy_power_on, of toy_env toy_nvs "\<lambda>_. True" Map.empty]
  show ?thesis by (simp only: toy_env_def boot_env.simps if_True simp_thms list.simps) blast
qed

theorem powered_on_greet_witness:
  "\<exists>sta' stb' a b ra rb (ia :: identity) (ib :: identity) raw.
    app_main toy toy_nvs (\<lambda>_. True) toy_env (rt_init, [(''rtreticulum'', ''id_prv'') \<mapsto> replicate 64 1], toy_off) =
      (Ret (Some ra), (snd (rt_start True 100 rt_init), sta', a)) \<and>
    app_main toy toy_nvs (\<lambda>_. True) toy_env (rt_init, [(''rtreticulum'', ''id_prv'') \<mapsto> replicate 64 2], toy_off) =
      (Ret (Some rb), (snd (rt_start True 100 rt_init), stb', b)) \<and> queued raw b \<and>
    id_hash ia = replicate 16 1 \<and> id_hash ib = replicate 16 2 \<and>
    greeted toy (\<lambda>f. transport_inbound toy 64 (board_app toy (\<lambda>_. ret []) (dst_hash (dest_heap a ! 0)) (id_hash ia)) 1 f (Some 0))
      (fst (snd (snd ra))) a raw
      (\<lambda>f. transport_inbound toy 64 (board_app toy (\<lambda>_. ret []) (dst_hash (dest_heap b ! 0)) (id_hash ib)) 1 f (Some 0)) b"
proof -
  let ?sta = "[(''rtreticulum'', ''id_prv'') \<mapsto> replicate 64 1]" and ?stb = "[(''rtreticulum'', ''id_prv'') \<mapsto> replicate 64 2]"
  let ?i = "\<lambda>k. key_identity toy (take 32 (replicate 64 k)) (drop 32 (replicate 64 k)) []"
  have stored: "nv_read toy_nvs ''rtreticulum'' ''id_prv'' (nvs_up toy_nvs ?sta) = Some (replicate 64 1)"
    "nv_read toy_nvs ''rtreticulum'' ''id_prv'' (nvs_up toy_nvs ?stb) = Some (replicate 64 2)"
    by (simp_all add: nv_read_def nvs_up_def toy_nvs_def)
  have ids: "id_hash (?i k) = replicate 16 k" for k
    by (simp add: get_key_identity truncated_hash_def full_hash_def sha256_def bytes_left_def toy_def fit_def size_values take_replicate
        drop_replicate rev_append rev_replicate)
  have hash: "truncated_hash toy (n @ replicate 16 k) = replicate 16 k" for n k
    by (simp add: truncated_hash_def full_hash_def sha256_def bytes_left_def toy_def fit_def size_values)
  have dst: "destination_hash toy (Some (?i 2)) ''nomadnetwork'' ''node'' \<noteq> destination_hash toy (Some (?i 1)) ''rtreticulum'' ''heltec_v3''"
    unfolding destination_hash_def option.case ids hash by (simp add: name_hash_def expand_name_def Let_def replicate_eq_replicate)
  have on: "bt_lora toy_env" and task: "bt_task toy_env = True" by (simp_all add: toy_env_def)
  obtain sta' stb' a b upa upb iha ihb dha dhb ia ib raw where run:
    "app_main toy toy_nvs (\<lambda>_. True) toy_env (rt_init, ?sta, toy_off) = (Ret (Some (upa, 0, iha, dha)), (snd (rt_start True 100 rt_init), sta', a))"
    "app_main toy toy_nvs (\<lambda>_. True) toy_env (rt_init, ?stb, toy_off) = (Ret (Some (upb, 0, ihb, dhb)), (snd (rt_start True 100 rt_init), stb', b))"
    "queued raw b" and key: "\<forall>key. Some (replicate 64 1) = Some key \<and> length key = 64 \<longrightarrow> ia = key_identity toy (take 32 key) (drop 32 key) []"
      "\<forall>key. Some (replicate 64 2) = Some key \<and> length key = 64 \<longrightarrow> ib = key_identity toy (take 32 key) (drop 32 key) []"
    and greet: "id_hash ib \<noteq> id_hash ia \<and>
      destination_hash toy (Some ib) ''nomadnetwork'' ''node'' \<noteq> destination_hash toy (Some ia) ''rtreticulum'' ''heltec_v3'' \<longrightarrow>
      greeted toy (\<lambda>f. transport_inbound toy 64 (board_app toy (\<lambda>_. ret []) (dst_hash (dest_heap a ! 0)) (id_hash ia)) 1 f (Some 0)) iha a raw
        (\<lambda>f. transport_inbound toy 64 (board_app toy (\<lambda>_. ret []) (dst_hash (dest_heap b ! 0)) (id_hash ib)) 1 f (Some 0)) b"
    using powered_on_greet[OF toy_laws toy_power_on toy_power_on on on, of toy_nvs "\<lambda>_. True" ?sta ?stb 64 "\<lambda>_. ret []" 1 "Some 0"
      64 "\<lambda>_. ret []" 1 "Some 0"] unfolding task stored by (elim exE conjE) (rule that)
  have same: "ia = ?i 1" "ib = ?i 2" using key by simp_all
  have ia: "id_hash ia = replicate 16 1" and ib: "id_hash ib = replicate 16 2"
    and ne: "destination_hash toy (Some ib) ''nomadnetwork'' ''node'' \<noteq> destination_hash toy (Some ia) ''rtreticulum'' ''heltec_v3''"
    unfolding same by (rule ids, rule ids, rule dst)
  have "greeted toy (\<lambda>f. transport_inbound toy 64 (board_app toy (\<lambda>_. ret []) (dst_hash (dest_heap a ! 0)) (id_hash ia)) 1 f (Some 0)) iha a raw
      (\<lambda>f. transport_inbound toy 64 (board_app toy (\<lambda>_. ret []) (dst_hash (dest_heap b ! 0)) (id_hash ib)) 1 f (Some 0)) b"
    by (rule greet[rule_format]) (simp add: ia ib ne replicate_eq_replicate)
  then have "greeted toy (\<lambda>f. transport_inbound toy 64 (board_app toy (\<lambda>_. ret []) (dst_hash (dest_heap a ! 0)) (id_hash ia)) 1 f (Some 0))
      (fst (snd (snd (upa, 0 :: nat, iha, dha)))) a raw
      (\<lambda>f. transport_inbound toy 64 (board_app toy (\<lambda>_. ret []) (dst_hash (dest_heap b ! 0)) (id_hash ib)) 1 f (Some 0)) b"
    by (simp only: fst_conv snd_conv)
  note all = conjI[OF run(1) conjI[OF run(2) conjI[OF run(3) conjI[OF ia conjI[OF ib this]]]]]
  show ?thesis
    by (rule exI[of _ sta'], rule exI[of _ stb'], rule exI[of _ a], rule exI[of _ b], rule exI[of _ "(upa, 0, iha, dha)"],
        rule exI[of _ "(upb, 0, ihb, dhb)"], rule exI[of _ ia], rule exI[of _ ib], rule exI[of _ raw], rule all)
qed

theorem ble_refines_witness:
  "\<exists>s'. ble_run (\<lambda>_. True) True [Ble_gap (Gap_connect True 1), Ble_write True (Some [FEND, 8]), Ble_turn 0] toy_ble = (Ret (), s') \<and>
    ring_ok (bl_ring s') \<and>
    ble_queue s' = fold ble_spec [Ble_gap (Gap_connect True 1), Ble_write True (Some [FEND, 8]), Ble_turn 0] (ble_queue toy_ble)"
  by (rule ble_refines) (simp add: toy_ble_def ring_ok_def)

end
