(* ===== verification/Flood.thy ===== *)
theory Flood
  imports Peers
begin

text \<open>
  The flood of announces, for any node whose announce callback keeps to the contract \<open>reports\<close> of the theory
  Announce, and for the firmware's board, whose callback opens a link (firmware/heltec_v3/main/main.cpp).
\<close>

section \<open>The board's announce callback\<close>

text \<open>Sending on the board's interfaces does not change what they are.\<close>

lemma broadcast_kinds: "preserves (\<lambda>s :: 'a board_scheme. map if_kind (net_heap s) = K) (board_broadcast raw)"
proof -
  have "preserves (\<lambda>s :: 'a board_scheme. map if_kind (net_heap s) = K) (board_send i raw)" for i
  proof (rule preservesI)
    fix s :: "'a board_scheme" assume K: "map if_kind (net_heap s) = K"
    show "map if_kind (net_heap (snd (board_send i raw s))) = K"
    proof (cases "i < length (net_heap s)")
      case True
      then have "(map if_kind (net_heap s))[i := if_kind (net_heap s ! i)] = map if_kind (net_heap s)"
        using list_update_id[of "map if_kind (net_heap s)" i] by simp
      then show ?thesis using K True by (simp add: board_send_def set_iface_def map_update)
    qed (use K in \<open>simp add: board_send_def set_iface_def\<close>)
  qed
  then show ?thesis unfolding board_broadcast_def broadcast_def by (intro pres_intros)
qed

text \<open>Whether the board answers an announce with a link request, and the request.\<close>

definition asks :: "bytes \<Rightarrow> bytes \<Rightarrow> bytes \<Rightarrow> bytes \<Rightarrow> 'a board_scheme \<Rightarrow> bool" where
  "asks our_dst our_id dh ih s \<longleftrightarrow> dh \<noteq> our_dst \<and> ih \<noteq> our_id \<and> bo_out_link s = None"

definition asking :: "ext \<Rightarrow> bytes \<Rightarrow> bytes \<Rightarrow> bool" where
  "asking X ih f \<longleftrightarrow> (\<exists>p nh. packet_unpack X (packet_of_raw f) = (True, p) \<and> pk_packet_type p = LINKREQUEST \<and>
     name_hash X ''rtreticulum'' ''heltec_v3'' = Ret nh \<and> pk_destination_hash p = truncated_hash X (nh @ ih))"

lemma board_orderly:
  fixes s :: "'a board_scheme"
  assumes "crypto_laws X" "set (net_interfaces s) \<subseteq> {..<length (net_heap s)}"
  shows "\<exists>s' fs. board_heard X our_dst our_id dh peer s = (Ret (), s') \<and> orderly fs s s' \<and>
    (if asks our_dst our_id dh (id_hash peer) s then \<exists>f. fs = [f] \<and> asking X (id_hash peer) f else fs = [])"
proof (cases "asks our_dst our_id dh (id_hash peer) s")
  case False
  then show ?thesis
    by (intro exI[of _ "s\<lparr>bo_rx := bo_rx s + 1\<rparr>"] exI[of _ "[]"]) (auto simp: asks_def board_heard_def orderly_def)
next
  case True
  define s1 where "s1 = s\<lparr>bo_rx := bo_rx s + 1\<rparr>"
  have ifs: "\<forall>i\<in>set (net_interfaces s1). i < length (net_heap s1)" using assms(2) by (auto simp: s1_def)
  obtain d nh x e h k raw hp p where
    req: "bnd (destination_new X (Some peer) OUT SINGLE ''rtreticulum'' ''heltec_v3'')
       (\<lambda>d. link_request X (\<lambda>l. register_link (Some l)) board_broadcast (Some d) None None 0) s1 =
      (Ret (length (link_heap s1)), asked d k hp s1)"
    and p: "name_hash X ''rtreticulum'' ''heltec_v3'' = Ret nh" "dst_hash d = truncated_hash X (nh @ id_hash peer)"
      "packet_unpack X (packet_of_raw raw) = (True, p)" "pk_packet_type p = LINKREQUEST" "pk_destination_hash p = dst_hash d"
    and bc: "board_broadcast raw (asked d k (net_heap s1) s1) = (Ret (), asked d k hp s1)"
    and out: "\<forall>i<length hp. if_out (hp ! i) = if_out (net_heap s1 ! i) @ replicate (count_list (net_interfaces s1) i) raw"
    by (rule peer_link[OF assms(1) ifs, of peer])
  have "map if_kind hp = map if_kind (net_heap s)"
    using preservesD[OF broadcast_kinds[where K = "map if_kind (net_heap s)" and raw = raw], of "asked d k (net_heap s1) s1"] bc
    by (simp add: asked_def s1_def)
  then have kinds: "length hp = length (net_heap s)" "\<And>i. i < length hp \<Longrightarrow> if_kind (hp ! i) = if_kind (net_heap s ! i)"
    by (auto dest: map_eq_imp_length_eq simp: list_eq_iff_nth_eq)
  let ?s = "(asked d k hp s1)\<lparr>bo_out_link := Some (length (link_heap s1))\<rparr>"
  have "board_heard X our_dst our_id dh peer s = (Ret (), ?s)"
    using True req by (intro board_heard_run) (simp_all add: s1_def asks_def)
  moreover have "orderly [raw] s ?s"
    using kinds out by (simp add: orderly_def sent_each_def asked_def s1_def)
  moreover have "asking X (id_hash peer) raw" using p by (simp add: asking_def)
  ultimately show ?thesis using True by (intro exI[of _ ?s] exI[of _ "[raw]"]) simp
qed

lemma board_reports:
  fixes s :: "'a board_scheme"
  assumes "crypto_laws X" "set (net_interfaces s) \<subseteq> {..<length (net_heap s)}"
  shows "reports (board_app X serve our_dst our_id bc) s"
  unfolding reports_def
proof (intro allI impI)
  fix c h i d and t :: "'a board_scheme" assume "net_interfaces t = net_interfaces s \<and> net_heap t = net_heap s"
  then have "set (net_interfaces t) \<subseteq> {..<length (net_heap t)}" using assms(2) by simp
  from board_orderly[OF assms(1) this, of our_dst our_id h i]
  show "\<exists>t' fs. app_announce (board_app X serve our_dst our_id bc) c h i d t = (Ret (), t') \<and> orderly fs t t'"
    by (auto simp: board_app_def)
qed

section \<open>Properties\<close>

text \<open>A copy of the announce that comes back is dropped.\<close>

lemma flooded_again:
  assumes "packet_unpack X (packet_of_raw raw) = (True, u)" "pk_packet_type u = ANNOUNCE" "flooded_once u fs via s s'"
  shows "transport_inbound X W A m (raw[1 := h]) v s' = (Ret (), s')"
proof -
  obtain u' where u': "packet_unpack X (packet_of_raw (raw[1 := h])) = (True, u')" "pk_packet_hash u' = pk_packet_hash u"
    "pk_packet_type u' = ANNOUNCE"
    using unpack_hops[OF assms(1), of h] assms(2) by auto
  have "pk_packet_hash u' \<in> net_seen s'" using assms(3) u'(2) by (simp add: flooded_once_def)
  then show ?thesis
    using u' by (simp add: transport_inbound_def inbound_with_def Let_def bnd_def announce_reject insert_absorb)
qed

text \<open>
  C12: a valid new announce is flooded once. Every registered device interface other than the one it came from
  gets one copy per registration with the hop count incremented, none at 128 hops, after the frames \<open>fs\<close> the
  announce callback sent of its own; two nested calls are enough, because the copies that come back over loopback
  interfaces are dropped, as any later copy is. That holds of every node whose callback returns and leaves the
  tables and the interfaces alone but for sending (\<open>reports\<close>), and of the firmware's board, whose
  interfaces are devices: its callback sends nothing, or one link request to the announced identity, which it does
  exactly if the handler is set, neither the destination nor the identity is its own, and no link was opened before.
\<close>

theorem announce_flood:
  fixes s :: "'a board_scheme"
  assumes "crypto_laws X" "packet_unpack X (packet_of_raw raw) = (True, u)" "pk_packet_type u = ANNOUNCE"
    "pk_packet_hash u \<notin> net_seen s" "valid_announce X u"
    "set (net_interfaces s) \<subseteq> {..<length (net_heap s)}" "wired (net_heap s)"
  shows "(\<forall>A. reports (A (\<lambda>f. broadcast (send_outgoing X W A (Suc n)) f None)) s \<longrightarrow>
      (\<exists>s' fs. transport_inbound X W A (Suc n) raw via s = (Ret (), s') \<and> flooded_once u fs via s s' \<and>
        (\<forall>m h v. transport_inbound X W A m (raw[1 := h]) v s' = (Ret (), s')))) \<and>
    (devices s \<longrightarrow>
      (\<exists>s' fs. transport_inbound X W (board_app X serve our_dst our_id) (Suc n) raw via s = (Ret (), s') \<and>
        flooded_once u fs via s s' \<and>
        (\<forall>m h v. transport_inbound X W (board_app X serve our_dst our_id) m (raw[1 := h]) v s' = (Ret (), s')) \<and>
        (if net_on_announce s \<noteq> None \<and> asks our_dst our_id (pk_destination_hash u) (truncated_hash X (take 64 (pk_data u))) s
         then \<exists>f. fs = [f] \<and> asking X (truncated_hash X (take 64 (pk_data u))) f else fs = [])))"
proof (rule conjI; intro allI impI)
  fix A :: "(bytes \<Rightarrow> ('a board_scheme, unit) prog) \<Rightarrow> 'a board_scheme app"
  assume "reports (A (\<lambda>f. broadcast (send_outgoing X W A (Suc n)) f None)) s"
  from inbound_announce_run[where A = A and W = W and n = n and via = via, OF assms(2-5) this assms(6,7)]
  obtain s' fs where "transport_inbound X W A (Suc n) raw via s = (Ret (), s')" "flooded_once u fs via s s'" by blast
  then show "\<exists>s' fs. transport_inbound X W A (Suc n) raw via s = (Ret (), s') \<and> flooded_once u fs via s s' \<and>
      (\<forall>m h v. transport_inbound X W A m (raw[1 := h]) v s' = (Ret (), s'))"
    using flooded_again[OF assms(2,3)] by blast
next
  let ?A = "board_app X serve our_dst our_id" and ?id = "truncated_hash X (take 64 (pk_data u))"
  let ?app = "?A (\<lambda>f. broadcast (send_outgoing X W ?A (Suc n)) f None)"
  obtain k t t' where run: "\<And>s1. reported X ?app u (net_on_announce s) (announced_state u via k t t' s) = (Ret (), s1) \<Longrightarrow>
      pk_packet_hash u \<in> net_seen s1 \<Longrightarrow> set (net_interfaces s1) \<subseteq> {..<length (net_heap s1)} \<Longrightarrow> wired (net_heap s1) \<Longrightarrow>
      transport_inbound X W ?A (Suc n) raw via s = (Ret (), s1\<lparr>net_heap := flooded u via s1\<rparr>)"
    using inbound_reported[where A = ?A and W = W and n = n and via = via, OF assms(2-5)] by blast
  let ?s = "announced_state u via k t t' s" and ?peer = "load_public_key X (take 64 (pk_data u)) empty_identity"
  have id: "id_hash ?peer = ?id" "asks our_dst our_id (pk_destination_hash u) ?id ?s \<longleftrightarrow> asks our_dst our_id (pk_destination_hash u) ?id s"
    by (simp_all add: loaded_public_key asks_def announced_state_def)
  have "set (net_interfaces ?s) \<subseteq> {..<length (net_heap ?s)}" using assms(6) by simp
  from board_orderly[OF assms(1) this, of our_dst our_id "pk_destination_hash u" ?peer, unfolded id] obtain s1 fs where
    heard: "board_heard X our_dst our_id (pk_destination_hash u) ?peer ?s = (Ret (), s1)" "orderly fs ?s s1"
      "if asks our_dst our_id (pk_destination_hash u) ?id s then \<exists>f. fs = [f] \<and> asking X ?id f else fs = []"
    by blast
  define s2 where "s2 = (if net_on_announce s = None then ?s else s1)"
  define gs where "gs = (if net_on_announce s = None then [] else fs)"
  have rep: "reported X ?app u (net_on_announce s) ?s = (Ret (), s2)" "orderly gs ?s s2"
    using heard(1,2) by (auto simp: reported_def board_app_def s2_def gs_def)
  note f = flood_reported[OF assms(6,7) rep(2)]
  have "transport_inbound X W ?A (Suc n) raw via s = (Ret (), s2\<lparr>net_heap := flooded u via s2\<rparr>)"
    by (rule run[OF rep(1) f(2-4)])
  moreover note f(1)
  moreover have "if net_on_announce s \<noteq> None \<and> asks our_dst our_id (pk_destination_hash u) ?id s
      then \<exists>f. gs = [f] \<and> asking X ?id f else gs = []"
    using heard(3) by (simp add: gs_def split: if_splits)
  ultimately show "\<exists>s' fs. transport_inbound X W ?A (Suc n) raw via s = (Ret (), s') \<and> flooded_once u fs via s s' \<and>
      (\<forall>m h v. transport_inbound X W ?A m (raw[1 := h]) v s' = (Ret (), s')) \<and>
      (if net_on_announce s \<noteq> None \<and> asks our_dst our_id (pk_destination_hash u) ?id s
       then \<exists>f. fs = [f] \<and> asking X ?id f else fs = [])"
    using flooded_again[OF assms(2,3)] by blast
qed

section \<open>Witnesses\<close>

text \<open>The board hears the announce of a stranger on its first interface: the request and the copy leave on the other.\<close>

theorem announce_flood_witness:
  "\<exists>raw s' f. transport_inbound toy 64 (board_app toy (\<lambda>_. ret []) [1] [2]) (Suc 0) raw (Some 0)
      (toy_board\<lparr>net_on_announce := Some BOARD_HEARD\<rparr>) = (Ret (), s') \<and>
    if_out (net_heap s' ! 0) = [f] \<and> if_out (net_heap s' ! 1) = [f, raw[1 := 1]] \<and>
    transport_inbound toy 64 (board_app toy (\<lambda>_. ret []) [1] [2]) 1 raw (Some 1) s' = (Ret (), s')"
proof -
  define s where "s = toy_board\<lparr>net_on_announce := Some BOARD_HEARD\<rparr>"
  obtain raw u where u: "packet_unpack toy (packet_of_raw raw) = (True, u)" "pk_packet_type u = ANNOUNCE" "pk_hops u = 0"
    "valid_announce toy u" using toy_announce by blast
  have s: "pk_packet_hash u \<notin> net_seen s" "set (net_interfaces s) \<subseteq> {..<length (net_heap s)}" "wired (net_heap s)" "devices s"
    "net_heap s = [toy_iface Device, toy_iface Device]" "net_interfaces s = [0, 1]" "net_on_announce s \<noteq> None" "bo_out_link s = None"
    by (auto simp: s_def toy_board_def devices_def toy_iface_def wired_def less_Suc_eq)
  note r = unpack_received[OF u(1)]
  have len: "length (truncated_hash toy x) = 16" for x by (rule length_truncated_hash[OF crypto_lawsD(1)[OF toy_laws]])
  have "length (pk_destination_hash u) = 16" using u(4) len by (auto simp: valid_announce_def announce_of_def)
  then have asks: "asks [1] [2] (pk_destination_hash u) (truncated_hash toy (take 64 (pk_data u))) s"
    using len[of "take 64 (pk_data u)"] s(8) by (auto simp: asks_def)
  from announce_flood[OF toy_laws u(1,2) s(1) u(4) s(2,3), THEN conjunct2, rule_format, OF s(4), where W = 64 and
      serve = "\<lambda>_. ret []" and our_dst = "[1]" and our_id = "[2]" and n = 0 and via = "Some 0"]
  obtain s' f where s': "transport_inbound toy 64 (board_app toy (\<lambda>_. ret []) [1] [2]) (Suc 0) raw (Some 0) s = (Ret (), s')"
    "flooded_once u [f] (Some 0) s s'"
    and again: "\<And>m h v. transport_inbound toy 64 (board_app toy (\<lambda>_. ret []) [1] [2]) m (raw[1 := h]) v s' = (Ret (), s')"
    using asks s(7) by auto
  have "raw[1 := raw ! 1] = raw" by simp
  then have "transport_inbound toy 64 (board_app toy (\<lambda>_. ret []) [1] [2]) 1 raw (Some 1) s' = (Ret (), s')"
    using again[of 1 "raw ! 1" "Some 1"] by simp
  moreover have "if_out (net_heap s' ! 0) = [f]" "if_out (net_heap s' ! 1) = [f, raw[1 := 1]]"
    using s'(2) s(5,6) u(3) r(2) by (auto simp: flooded_once_def toy_iface_def)
  ultimately show ?thesis using s'(1) unfolding s_def by blast
qed

end
