(* ===== verification/MainLoop.thy ===== *)
theory MainLoop
  imports Peers
begin

text \<open>
  The main loop of the firmware with its receiver (firmware/heltec_v3/main/main.cpp, lines 371 to 478): what receiving
  any frame over the board's callbacks keeps of the state the loop needs, and so how a turn can end. Nothing in the loop
  catches what receiving a frame throws.
\<close>

section \<open>Receiving keeps what the loop needs\<close>

definition loop_ok :: "ext \<Rightarrow> nat \<Rightarrow> u32 \<times> u32 \<times> u32 \<times> bool \<times> u32 \<Rightarrow> 'a board_scheme \<Rightarrow> bool" where
  "loop_ok X own c s \<longleftrightarrow> board_ok X own s \<and> counts s = c"

text \<open>A step beside the loop: it leaves the fields the loop needs as they are.\<close>

definition aside :: "'a board_scheme \<Rightarrow> 'a board_scheme \<Rightarrow> bool" where
  "aside s s' \<longleftrightarrow> bo_oled s' = bo_oled s \<and> net_interfaces s' = net_interfaces s \<and> length (net_heap s') = length (net_heap s) \<and>
     dest_heap s' = dest_heap s \<and> nn_dest s' = nn_dest s \<and> nn_name s' = nn_name s \<and> bo_out_link s' = bo_out_link s \<and>
     link_heap s' = link_heap s \<and> counts s' = counts s"

lemma loop_aside: "(\<And>s. aside s (snd (m s))) \<Longrightarrow> preserves (loop_ok X own c) m"
  by (rule preservesI) (simp add: aside_def loop_ok_def board_ok_def announceable_def)

lemma loop_modify: "(\<And>s. aside s (f s)) \<Longrightarrow> preserves (loop_ok X own c) (modify f)"
  by (rule loop_aside) simp

lemma loop_basic [pres_intros]:
  "preserves (loop_ok X own c) (get_dest r)" "preserves (loop_ok X own c) (get_link r)"
  "preserves (loop_ok X own c) (get_iface i)" "preserves (loop_ok X own c) hal_tick"
  "preserves (loop_ok X own c) (set_iface i f)"
  by (rule loop_aside; simp add: aside_def counts_def get_dest_def get_link_def get_iface_def heap_get_def hal_tick_def
      set_iface_def split: prod.split)+

lemma loop_crypto [pres_intros]:
  "preserves (loop_ok X own c) (random_bytes Y n)" "preserves (loop_ok X own c) (os_time Y)"
  "preserves (loop_ok X own c) (token_encrypt Y t d)" "preserves (loop_ok X own c) (dest_identity ro)"
  "preserves (loop_ok X own c) (dest_decrypt Y ro d)"
  "preserves (loop_ok X own c) (x25519_generate Y)" "preserves (loop_ok X own c) (ed25519_generate Y)"
  unfolding token_encrypt_def random_bytes_def os_time_def dest_identity_def dest_decrypt_def Let_def
    x25519_generate_def ed25519_generate_def x25519_private_key_def ed25519_private_key_def
  by (intro pres_intros)+

lemma loop_tables [pres_intros]:
  "preserves (loop_ok X own c) (register_link lo)" "preserves (loop_ok X own c) (board_broadcast raw)"
  "preserves (loop_ok X own c) board_link_rx" "preserves (loop_ok X own c) (remember Y ph dh pk app)"
  unfolding register_link_def board_broadcast_def broadcast_def board_send_def board_link_rx_def remember_def
  by (intro pres_intros loop_modify; simp add: aside_def counts_def)+

text \<open>Steps on links: no link gets a broken session key.\<close>

definition sealed :: "link \<Rightarrow> bool" where
  "sealed l \<longleftrightarrow> (\<forall>t. lk_token l = Some t \<longrightarrow> token_ok t)"

lemma loop_with_link:
  assumes "preserves sealed m"
  shows "preserves (loop_ok X own c :: 'a board_scheme \<Rightarrow> bool) (with_link r m)"
proof (rule preservesI)
  fix s :: "'a board_scheme" assume s: "loop_ok X own c s"
  show "loop_ok X own c (snd (with_link r m s))"
  proof (cases "r < length (link_heap s)")
    case True
    obtain x l where m: "m (link_heap s ! r) = (x, l)" by fastforce
    have "sealed (link_heap s ! r)" using s nth_mem[OF True] by (simp add: loop_ok_def board_ok_def sealed_def)
    then have "sealed l" using preservesD[OF assms] m by (metis snd_conv)
    then have "\<forall>k\<in>set ((link_heap s)[r := l]). \<forall>t. lk_token k = Some t \<longrightarrow> token_ok t"
      using s set_update_subset_insert[of "link_heap s" r l] by (auto simp: loop_ok_def board_ok_def sealed_def)
    then show ?thesis using s True m by (simp add: with_link_def loop_ok_def board_ok_def announceable_def counts_def)
  qed (use s in \<open>simp add: with_link_def\<close>)
qed

lemma loop_alloc: "sealed l \<Longrightarrow> preserves (loop_ok X own c) (alloc_link l)"
  by (rule preservesI) (auto simp: alloc_link_def loop_ok_def board_ok_def announceable_def counts_def sealed_def)

lemma sealed_open: "preserves sealed (open_session_from_peer_pub X p)"
proof -
  have m: "preserves sealed (modify f)" if "\<And>l. lk_token (f l) = lk_token l" for f
    by (rule preserves_modify) (simp add: sealed_def that)
  have t: "preserves sealed (bnd (lift (token_new key MODE_AES)) (\<lambda>t. bnd (modify (\<lambda>l. l\<lparr>lk_token := Some t\<rparr>)) (\<lambda>_. ret True)))" for key
    by (rule preservesI) (auto simp: bnd_def sealed_def dest: token_new_ok split: res.split)
  show ?thesis unfolding open_session_from_peer_pub_def by (intro pres_intros t m) simp_all
qed

lemma loop_set_callback [pres_intros]: "preserves (loop_ok X own c) (set_link_packet_callback r cb)"
  unfolding set_link_packet_callback_def by (intro loop_with_link preserves_modify) (simp add: sealed_def)

lemma loop_local:
  assumes "sealed l" "\<And>b l'. sealed l' \<Longrightarrow> preserves (loop_ok X own c) (f (b, l'))"
  shows "preserves (loop_ok X own c) (bnd (on_local l (open_session_from_peer_pub Y q)) f)"
proof (rule preservesI)
  fix s :: "'a board_scheme" assume s: "loop_ok X own c s"
  obtain x l' where op: "open_session_from_peer_pub Y q l = (x, l')" by fastforce
  have "sealed l'" using preservesD[OF sealed_open assms(1), of Y q] op by simp
  then show "loop_ok X own c (snd (bnd (on_local l (open_session_from_peer_pub Y q)) f s))"
    using s preservesD[OF assms(2) s] by (cases x) (simp_all add: bnd_def on_local_def op)
qed

lemma loop_validate [pres_intros]:
  "preserves (loop_ok X own c) (link_validate_request Y (\<lambda>l. register_link (Some l)) board_broadcast ro d p)"
  unfolding link_validate_request_def link_new_def bnd_assoc bnd_eqs Let_def
  by (intro preserves_if preserves_ret preserves_bnd[OF loop_crypto(6)] preserves_bnd[OF loop_crypto(7)] loop_local)
    (simp_all only: prod.case, simp add: sealed_def, intro pres_intros loop_alloc, simp add: sealed_def)

lemma loop_proof:
  assumes "\<And>k r. preserves (loop_ok X own c) (app_established app k r)"
  shows "preserves (loop_ok X own c) (link_on_proof Y app r p)"
proof -
  have m: "preserves sealed (modify (\<lambda>l. l\<lparr>lk_mtu := k\<rparr>))" "preserves sealed (modify (\<lambda>l. l\<lparr>lk_status := st\<rparr>))" for k st
    by (rule preserves_modify, simp add: sealed_def)+
  show ?thesis unfolding link_on_proof_def Let_def by (intro pres_intros loop_with_link sealed_open m assms)
qed

text \<open>The board's announce handler, which may open the outgoing link.\<close>

lemma loop_heard:
  assumes "crypto_laws X"
  shows "preserves (loop_ok X own c) (board_heard X our_dst our_id dh peer)"
proof (rule preservesI)
  fix s :: "'a board_scheme" assume s: "loop_ok X own c s"
  show "loop_ok X own c (snd (board_heard X our_dst our_id dh peer s))"
  proof (cases "dh = our_dst \<or> id_hash peer = our_id \<or> bo_out_link s \<noteq> None")
    case True
    then have "board_heard X our_dst our_id dh peer s = (Ret (), s\<lparr>bo_rx := bo_rx s + 1\<rparr>)" by (auto simp: board_heard_def)
    then show ?thesis using s by (simp add: loop_ok_def board_ok_def announceable_def counts_def)
  next
    case False
    define s1 where "s1 = s\<lparr>bo_rx := bo_rx s + 1\<rparr>"
    have ifs: "\<forall>i\<in>set (net_interfaces s1). i < length (net_heap s1)" using s by (simp add: s1_def loop_ok_def board_ok_def)
    obtain d nh x e h k raw hp p where
      req: "bnd (destination_new X (Some peer) OUT SINGLE ''rtreticulum'' ''heltec_v3'')
         (\<lambda>d. link_request X (\<lambda>l. register_link (Some l)) board_broadcast (Some d) None None 0) s1 =
        (Ret (length (link_heap s1)), asked d k hp s1)"
      and k: "k = request_link X (length (dest_heap s1)) None None 0 x e h"
      and bc: "board_broadcast raw (asked d k (net_heap s1) s1) = (Ret (), asked d k hp s1)"
      by (rule peer_link[OF assms(1) ifs, of peer])
    have run: "board_heard X our_dst our_id dh peer s = (Ret (), (asked d k hp s1)\<lparr>bo_out_link := Some (length (link_heap s1))\<rparr>)"
      using False req by (intro board_heard_run) (simp_all add: s1_def)
    have "\<forall>r<length (dest_heap s). (dest_heap s @ [d]) ! r = dest_heap s ! r" by (simp add: nth_append)
    then have ann: "dest_heap t = dest_heap s @ [d] \<Longrightarrow> announceable X s r \<Longrightarrow> announceable X t r" for r and t :: "'a board_scheme"
      by (auto simp: announceable_def Let_def)
    have "lk_token k = None" by (simp add: k request_link_def fresh_link_def)
    then have "loop_ok X own c (asked d k (net_heap s1) s1)"
      using s by (auto simp: loop_ok_def board_ok_def asked_def s1_def counts_def intro!: ann)
    then have "loop_ok X own c (asked d k hp s1)" using preservesD[OF loop_tables(2), of X own c _ raw] bc by (metis snd_conv)
    then show ?thesis unfolding run
      by (simp add: loop_ok_def board_ok_def announceable_def counts_def) (simp add: asked_def)
  qed
qed

section \<open>The receiver\<close>

text \<open>A page generator that leaves the board's state alone, as \<open>serve_index\<close> does, which prints into its own buffer.\<close>

lemma board_app_safe:
  assumes "crypto_laws X" "\<And>path (s :: 'a board_scheme). snd (serve path s) = s"
  shows "preserves (loop_ok X own c) (app_packet (board_app X serve our_dst our_id bc) k d p)"
    "preserves (loop_ok X own c) (app_generator (board_app X serve our_dst our_id bc) g b d j h t)"
    "preserves (loop_ok X own c) (app_established (board_app X serve our_dst our_id bc) k n)"
    "preserves (loop_ok X own c) (app_link_packet (board_app X serve our_dst our_id bc) cb d n)"
    "preserves (loop_ok X own c) (app_announce (board_app X serve our_dst our_id bc) k dh i d)"
    "preserves (loop_ok X own c) (app_link_request (board_app X serve our_dst our_id bc) k r d p)"
proof -
  have serve: "preserves (loop_ok X own c) (serve path)" for path by (rule preservesI) (simp add: assms(2))
  show "preserves (loop_ok X own c) (app_packet (board_app X serve our_dst our_id bc) k d p)"
    "preserves (loop_ok X own c) (app_generator (board_app X serve our_dst our_id bc) g b d j h t)"
    "preserves (loop_ok X own c) (app_established (board_app X serve our_dst our_id bc) k n)"
    "preserves (loop_ok X own c) (app_link_packet (board_app X serve our_dst our_id bc) cb d n)"
    "preserves (loop_ok X own c) (app_announce (board_app X serve our_dst our_id bc) k dh i d)"
    by (simp_all add: board_app_def serve pres_intros loop_heard[OF assms(1)])
  have "preserves (loop_ok X own c :: 'a board_scheme \<Rightarrow> bool) (node_link_request X r d p)"
    "preserves (loop_ok X own c :: 'a board_scheme \<Rightarrow> bool) (board_link_request X r d p)"
    unfolding node_link_request_def board_link_request_def by (intro pres_intros)+
  then show "preserves (loop_ok X own c) (app_link_request (board_app X serve our_dst our_id bc) k r d p)"
    by (simp add: board_app_def)
qed

lemma loop_inbound:
  assumes "crypto_laws X" "\<And>path (s :: 'a board_scheme). snd (serve path s) = s"
    "\<And>i f. preserves (loop_ok X own c) (send i f)"
  shows "preserves (loop_ok X own c) (inbound_with X W (board_app X serve our_dst our_id) send raw via)"
proof -
  note app = board_app_safe[where own = own and c = c and our_dst = our_dst and our_id = our_id, OF assms(1,2)]
  have bc: "preserves (loop_ok X own c) (broadcast send f v)" for f v
    unfolding broadcast_def by (intro pres_intros assms(3))
  have reply: "preserves (loop_ok X own c) (link_send_with_context X (\<lambda>f. broadcast send f None) r d k)" for r d k
    unfolding link_send_with_context_def by (intro pres_intros bc)
  have link: "preserves (loop_ok X own c) (link_on_inbound X W (board_app X serve our_dst our_id (\<lambda>f. broadcast send f None))
      (\<lambda>f. broadcast send f None) r p)" for r p
    unfolding link_on_inbound_def link_handle_request_def Let_def by (intro pres_intros reply app)
  have recv: "preserves (loop_ok X own c) (dest_receive (board_app X serve our_dst our_id b) ro d p)" for b ro d p
    unfolding dest_receive_def by (intro pres_intros app)
  have ann: "preserves (loop_ok X own c) (process_announce X (board_app X serve our_dst our_id b) (broadcast send) u via)" for b u
    unfolding process_announce_def Let_def
    by (intro pres_intros app bc loop_modify) (simp_all add: aside_def counts_def)
  show ?thesis
    unfolding inbound_with_def Let_def
    by (intro pres_intros ann recv link loop_proof app bc assms(3) loop_modify) (simp_all add: aside_def counts_def)
qed

lemma loop_send:
  assumes "\<And>i f. preserves (loop_ok X own c) (rec i f)"
  shows "preserves (loop_ok X own c) (send_via rec i raw)"
proof -
  have "preserves (loop_ok X own c) (case k of
      Loopback peer \<Rightarrow> bnd (set_iface i g) (\<lambda>_. case peer of None \<Rightarrow> ret () | Some j \<Rightarrow> rec j raw)
    | Device \<Rightarrow> set_iface i g')" for k g g'
    by (cases k) (auto intro!: pres_intros assms)
  then show ?thesis unfolding send_via_def by (intro pres_intros)
qed

lemma receiver_safe:
  assumes "crypto_laws X" "\<And>path (s :: 'a board_scheme). snd (serve path s) = s"
  shows "loop_safe X own (handle_incoming X W (board_app X serve our_dst our_id) n)"
proof -
  have "preserves (loop_ok X own c) (handle_incoming X W (board_app X serve our_dst our_id) n i raw)" for c i raw
  proof (induction n arbitrary: i raw)
    case (Suc n)
    show ?case
      unfolding handle_incoming.simps by (intro pres_intros loop_inbound[OF assms] loop_send Suc)
  qed (simp add: pres_intros)
  then show ?thesis unfolding loop_safe_def loop_ok_def by blast
qed

section \<open>How a turn ends\<close>

text \<open>Receiving a list of frames either goes through or stops at one of them.\<close>

lemma polls_split:
  assumes "loop_safe X own receive" "board_ok X own s"
  shows "(\<exists>s'. turn_polls receive e s = (Ret (), s')) \<or>
    (\<exists>pre i raw post s1. tn_heard e = pre @ (i, raw) # post \<and> board_ok X own s1 \<and> fst (receive i raw s1) \<noteq> Ret () \<and>
       turn_polls receive e s = receive i raw s1)"
proof -
  have "(\<exists>s'. for_each fs (\<lambda>(i, raw). receive i raw) s = (Ret (), s')) \<or>
    (\<exists>pre i raw post s1. fs = pre @ (i, raw) # post \<and> board_ok X own s1 \<and> fst (receive i raw s1) \<noteq> Ret () \<and>
       for_each fs (\<lambda>(i, raw). receive i raw) s = receive i raw s1)" for fs
    using assms(2)
  proof (induction fs arbitrary: s)
    case (Cons f fs)
    obtain i raw where f: "f = (i, raw)" by fastforce
    obtain x s1 where run: "receive i raw s = (x, s1)" by fastforce
    show ?case
    proof (cases "x = Ret ()")
      case True
      have step: "for_each (f # fs) (\<lambda>(i, raw). receive i raw) s = for_each fs (\<lambda>(i, raw). receive i raw) s1"
        using run True by (simp add: f bnd_Ret[where m = "receive i raw"])
      have "preserves (\<lambda>t. board_ok X own t \<and> counts t = counts s) (receive i raw)"
        using assms(1) unfolding loop_safe_def by (elim allE)
      from preservesD[OF this, of s] have "board_ok X own s1" using run Cons.prems by simp
      from Cons.IH[OF this] show ?thesis unfolding step by (metis append_Cons)
    next
      case False
      then have "for_each (f # fs) (\<lambda>(i, raw). receive i raw) s = receive i raw s"
        using run by (cases x) (simp_all add: f bnd_def)
      then show ?thesis using f run False Cons.prems by (metis append_Nil fst_conv)
    qed
  qed simp
  then show ?thesis unfolding turn_polls_def .
qed

text \<open>Data for an active link of the board that its session did not encrypt.\<close>

definition forged_for :: "ext \<Rightarrow> bytes \<Rightarrow> 'a net_state_scheme \<Rightarrow> bool" where
  "forged_for X raw s \<longleftrightarrow> (\<exists>u l t. packet_unpack X (packet_of_raw raw) = (True, u) \<and> pk_packet_type u = DATA \<and>
     net_destinations s (pk_destination_hash u) = None \<and> net_links s (pk_destination_hash u) = Some l \<and>
     l < length (link_heap s) \<and> lk_status (link_heap s ! l) = ACTIVE \<and> lk_token (link_heap s ! l) = Some t \<and>
     (length (pk_data u) < 48 \<or> drop (length (pk_data u) - 32) (pk_data u) \<noteq>
        x_hmac X DIGEST_SHA256 (tk_signing_key t) (take (length (pk_data u) - 32) (pk_data u))))"

lemma forged_received:
  assumes "hmac_law X" "forged_for X raw s" "i < length (net_heap s)" "\<forall>k\<in>set (link_heap s). sealed k"
  shows "\<exists>w s'. handle_incoming X W A (Suc m) i raw s = (Raise (Invalid_argument w), s')"
proof -
  obtain u l t where u: "packet_unpack X (packet_of_raw raw) = (True, u)" "pk_packet_type u = DATA"
    "net_destinations s (pk_destination_hash u) = None" "net_links s (pk_destination_hash u) = Some l"
    and l: "l < length (link_heap s)" "lk_status (link_heap s ! l) = ACTIVE" "lk_token (link_heap s ! l) = Some t"
    and bad: "length (pk_data u) < 48 \<or> drop (length (pk_data u) - 32) (pk_data u) \<noteq>
        x_hmac X DIGEST_SHA256 (tk_signing_key t) (take (length (pk_data u) - 32) (pk_data u))"
    using assms(2) unfolding forged_for_def by (elim exE conjE) (rule that)
  have "token_ok t" using assms(4) nth_mem[OF l(1)] l(3) by (auto simp: sealed_def)
  then obtain w where w: "token_decrypt X t (pk_data u) = Raise (Invalid_argument w)"
    using forged_token[OF assms(1) _ bad] by blast
  let ?s = "s\<lparr>net_heap := (net_heap s)[i := (net_heap s ! i)\<lparr>if_rxb := if_rxb (net_heap s ! i) + length raw\<rparr>]\<rparr>"
  have heap: "link_heap ?s = link_heap s" by simp
  have "handle_incoming X W A (Suc m) i raw s = (Raise (Invalid_argument w), ?s)"
    using u w assms(3) l inbound_run[of l ?s t u, unfolded heap, OF l u(2)]
    by (simp add: bnd_def set_iface_def inbound_with_def Let_def)
  then show ?thesis by blast
qed

section \<open>Properties\<close>

text \<open>
  C31: how a turn of the main loop ends, in any run of turns between which the other tasks change anything but the
  loop's own counters, as long as the objects the loop works on stay in place (\<open>board_run\<close>). It completes, or restarts the board after an update that a long press with Wi-Fi asked for, or ends by
  exactly what receiving one of the frames its polls hand on fails with: its other parts do not fail, and it never leaves
  the state a further turn needs. The greeting is sent at most once, and only in a turn that finds the outgoing link
  active. The last case is real: nothing in the loop catches an exception, so one frame of data for an active link of the
  board that its session did not encrypt ends the loop. The time of the idle sample, multiplied by the number of idle tasks, is
  taken to fit 32 bits (\<open>turn_ok\<close>; otherwise a division by zero is possible), and the page generator to leave
  the board's state alone.
\<close>

theorem main_loop_turn:
  fixes s :: board
  assumes "crypto_laws X" "\<And>path (t :: board). snd (serve path t) = t"
    "receive = handle_incoming X W (board_app X serve our_dst our_id) (Suc m)"
    "board_run X receive own A up ih dh n s" "turn_ok e s"
  shows "bo_link_tx s = (if bo_hello s then 1 else 0) \<and>
    ((\<exists>restart s'. main_turn X receive own A up ih dh e s = (Ret restart, s') \<and> board_ok X own s' \<and>
        (restart \<longleftrightarrow> bo_button s \<and> tn_held e \<ge> 3000 \<and> tn_wifi e \<and> tn_ota e) \<and>
        (\<not> restart \<longrightarrow> bo_tick s' = bo_tick s + 1 \<and> (bo_hello s \<longrightarrow> bo_hello s') \<and>
          (bo_hello s' \<longrightarrow> \<not> bo_hello s \<longrightarrow> (\<exists>r. bo_out_link s = Some r \<and> lk_status (link_heap s ! r) = ACTIVE)))) \<or>
     (\<exists>pre i raw post s1. tn_heard e = pre @ (i, raw) # post \<and> board_ok X own s1 \<and> fst (receive i raw s1) \<noteq> Ret () \<and>
        main_turn X receive own A up ih dh e s = bnd (receive i raw) (\<lambda>_. ret False) s1)) \<and>
    (\<forall>i raw post. tn_heard e = (i, raw) # post \<and> i \<in> set (net_interfaces s) \<and> forged_for X raw s \<and>
        \<not> (bo_button s \<and> tn_held e \<ge> 3000 \<and> tn_wifi e \<and> tn_ota e) \<longrightarrow>
      (\<exists>w s'. main_turn X receive own A up ih dh e s = (Raise (Invalid_argument w), s')))"
proof -
  have safe: "loop_safe X own receive" unfolding assms(3) by (rule receiver_safe[OF assms(1,2)])
  have inv: "board_ok X own s" "bo_link_tx s = (if bo_hello s then 1 else 0)"
    using board_run_inv[OF assms(1) safe assms(4)] by simp_all
  let ?turn = "main_turn X receive own A up ih dh e s"
  let ?rest = "bnd (turn_polls receive e) (\<lambda>_. bnd (modify (\<lambda>s. s\<lparr>bo_tick := bo_tick s + 1\<rparr>)) (\<lambda>_. ret False))"
  obtain restart s1 sent where run: "?turn = (if restart then (Ret True, s1) else ?rest s1)"
    and s1: "board_ok X own s1" "link_heap s1 = link_heap s" "net_links s1 = net_links s" "net_destinations s1 = net_destinations s"
      "net_interfaces s1 = net_interfaces s"
    and restart: "restart \<longleftrightarrow> bo_button s \<and> tn_held e \<ge> 3000 \<and> tn_wifi e \<and> tn_ota e"
    using main_turn_run[OF assms(1) inv(1) assms(5), of receive A up ih dh] by blast
  have whole: "(\<exists>restart s'. ?turn = (Ret restart, s') \<and> board_ok X own s' \<and>
        (restart \<longleftrightarrow> bo_button s \<and> tn_held e \<ge> 3000 \<and> tn_wifi e \<and> tn_ota e) \<and>
        (\<not> restart \<longrightarrow> bo_tick s' = bo_tick s + 1 \<and> (bo_hello s \<longrightarrow> bo_hello s') \<and>
          (bo_hello s' \<longrightarrow> \<not> bo_hello s \<longrightarrow> (\<exists>r. bo_out_link s = Some r \<and> lk_status (link_heap s ! r) = ACTIVE)))) \<or>
     (\<exists>pre i raw post s1. tn_heard e = pre @ (i, raw) # post \<and> board_ok X own s1 \<and> fst (receive i raw s1) \<noteq> Ret () \<and>
        ?turn = bnd (receive i raw) (\<lambda>_. ret False) s1)"
  proof (cases restart)
    case True
    then show ?thesis using run s1(1) restart by auto
  next
    case False
    from polls_split[OF safe s1(1), of e] show ?thesis
    proof (elim disjE exE conjE)
      fix s2 assume "turn_polls receive e s1 = (Ret (), s2)"
      then have "?turn = (Ret False, s2\<lparr>bo_tick := bo_tick s2 + 1\<rparr>)"
        unfolding run by (simp add: False bnd_Ret[where m = "turn_polls receive e"])
      moreover from turn_done[OF assms(1) inv(1) assms(5) safe this] obtain sent where
        "board_ok X own (s2\<lparr>bo_tick := bo_tick s2 + 1\<rparr>)" "counts (s2\<lparr>bo_tick := bo_tick s2 + 1\<rparr>) = counted sent e s"
        "sent \<longrightarrow> \<not> bo_hello s \<and> (\<exists>r. bo_out_link s = Some r \<and> lk_status (link_heap s ! r) = ACTIVE)" by blast
      ultimately show ?thesis using restart False by (auto simp: counts_def counted_def Let_def)
    next
      fix pre i raw post s2
      assume "tn_heard e = pre @ (i, raw) # post" "board_ok X own s2" "fst (receive i raw s2) \<noteq> Ret ()"
        "turn_polls receive e s1 = receive i raw s2"
      moreover then have "?turn = bnd (receive i raw) (\<lambda>_. ret False) s2"
        unfolding run using False by (cases "receive i raw s2"; cases "fst (receive i raw s2)") (simp_all add: bnd_def)
      ultimately show ?thesis by blast
    qed
  qed
  have ends: "\<exists>w s'. ?turn = (Raise (Invalid_argument w), s')"
    if "tn_heard e = (i, raw) # post" "i \<in> set (net_interfaces s)" "forged_for X raw s" "\<not> restart" for i raw post
  proof -
    have "forged_for X raw s1" using that(3) s1(2-4) by (simp add: forged_for_def)
    moreover have "i < length (net_heap s1)" "\<forall>k\<in>set (link_heap s1). sealed k"
      using s1(1,5) that(2) by (auto simp: board_ok_def sealed_def)
    ultimately obtain w s2 where "receive i raw s1 = (Raise (Invalid_argument w), s2)"
      unfolding assms(3) using forged_received[OF crypto_lawsD(2)[OF assms(1)]] by blast
    then have "turn_polls receive e s1 = (Raise (Invalid_argument w), s2)"
      by (simp add: turn_polls_def that(1) bnd_Raise[where m = "receive i raw"])
    then show ?thesis unfolding run by (simp add: that(4) bnd_Raise[where m = "turn_polls receive e"])
  qed
  show ?thesis using inv(2) whole ends restart by blast
qed

text \<open>
  Announces keep their pace: after \<open>n\<close> completed turns, about \<open>n\<close> seconds, the board has announced itself more than
  \<open>n / 330\<close> and at most \<open>n / 270 + 1\<close> times, whatever the random numbers, as long as the tick counter has not
  wrapped.
\<close>

theorem announce_pace:
  assumes "crypto_laws X" "\<And>path (t :: board). snd (serve path t) = t"
    "board_run X (handle_incoming X W (board_app X serve our_dst our_id) m) own A up ih dh n s" "0 < n" "n + 329 < 2 ^ 32"
  shows "270 * (unat (bo_announces s) - 1) < n \<and> n \<le> 329 * unat (bo_announces s)"
  using board_run_inv[OF assms(1) receiver_safe[OF assms(1,2)] assms(3)] assms(4,5) by (auto simp: paced_def)

section \<open>Witnesses\<close>

definition toy_turn :: "(nat \<times> bytes) list \<Rightarrow> turn" where
  "toy_turn fs = \<lparr>tn_now = 20000, tn_held = 0, tn_released = 0, tn_wifi = True, tn_ota = False, tn_rnd = 42,
     tn_tasks = [(Some ''IDLE0'', 400), (Some ''main'', 50), (Some ''IDLE1'', 450)], tn_total = 1000, tn_heard = fs\<rparr>"

definition toy_linked :: board where
  "toy_linked = toy_board\<lparr>link_heap := [toy_link ACTIVE], net_links := [lk_hash (toy_link ACTIVE) \<mapsto> 0]\<rparr>"

abbreviation toy_receive :: "nat \<Rightarrow> bytes \<Rightarrow> (board, unit) prog" where
  "toy_receive \<equiv> handle_incoming toy 64 (board_app toy (\<lambda>_. ret []) [1] [2]) (Suc 0)"

lemma toy_board_run:
  "board_run toy rx 0 A True ih dh 0 toy_board" "board_run toy rx 0 A True ih dh 0 toy_linked"
proof -
  have a: "announceable toy s 0" if "dest_heap s = [toy_own]" for s :: board
    unfolding announceable_def that
    by (intro conjI exI[of _ "replicate 32 1"] exI[of _ "replicate 32 2"] exI[of _ "[]"])
      (simp_all add: toy_own_def toy_dest_def toy_id_def)
  have o: "oled_ok (bo_oled toy_board)" by (simp add: toy_board_def toy_oled_def oled_ok_def)
  have t: "token_ok toy_token" using toy_token_new by (rule token_new_ok)
  have b: "board_ok toy 0 toy_board" "board_ok toy 0 toy_linked"
    using a[of toy_board] a[of toy_linked] o t
    by (simp_all add: board_ok_def toy_board_def toy_linked_def)
  have c: "counts toy_board = (0, 0, 0, False, 0)" "counts toy_linked = (0, 0, 0, False, 0)"
    by (simp_all add: counts_def toy_board_def toy_linked_def)
  show "board_run toy rx 0 A True ih dh 0 toy_board" "board_run toy rx 0 A True ih dh 0 toy_linked"
    by (rule board_run.start[OF b(1) c(1)], rule board_run.start[OF b(2) c(2)])
qed

lemma toy_turn_ok: "turn_ok (toy_turn fs) toy_board" "turn_ok (toy_turn fs) toy_linked"
  by (simp_all add: turn_ok_def toy_turn_def toy_board_def toy_linked_def IDLE_NAMES_def)

lemma toy_forged_for: "forged_for toy (frame 0x0C 0 [] (lk_hash (toy_link ACTIVE)) CONTEXT_NONE (replicate 19 0)) toy_linked"
proof -
  have "length (lk_hash (toy_link ACTIVE)) = 16" by simp
  from unpack_narrow[OF narrow_flags(2) this, where X = toy and h = 0 and c = CONTEXT_NONE] obtain u where
    u: "packet_unpack toy (packet_of_raw (frame 0x0C 0 [] (lk_hash (toy_link ACTIVE)) CONTEXT_NONE (replicate 19 0))) = (True, u)"
      "pk_destination_hash u = lk_hash (toy_link ACTIVE)" "pk_data u = replicate 19 0"
      "pk_packet_type u = packet_type_of (0x0C AND 0b00000011)" by blast
  then show ?thesis
    by (auto simp: forged_for_def toy_linked_def toy_board_def packet_type_of_def)
qed

text \<open>A quiet turn completes; one frame of 19 bytes for an active link ends the loop.\<close>

theorem main_loop_turn_witness:
  "(\<exists>s'. main_turn toy toy_receive 0 (\<lambda>_. True) True ''ab'' ''cd'' (toy_turn []) toy_board = (Ret False, s') \<and>
     bo_tick s' = 1 \<and> \<not> bo_hello s') \<and>
   (\<exists>w s'. main_turn toy toy_receive 0 (\<lambda>_. True) True ''ab'' ''cd''
      (toy_turn [(0, frame 0x0C 0 [] (lk_hash (toy_link ACTIVE)) CONTEXT_NONE (replicate 19 0))]) toy_linked = (Raise (Invalid_argument w), s'))"
proof -
  let ?f = "frame 0x0C 0 [] (lk_hash (toy_link ACTIVE)) CONTEXT_NONE (replicate 19 0)"
  have serve: "snd ((\<lambda>_. ret [] :: (board, bytes) prog) path t) = t" for path t by simp
  note run = toy_board_run[of toy_receive "\<lambda>_. True" "''ab''" "''cd''"]
  note turn = main_loop_turn[where serve = "\<lambda>_. ret []" and W = 64 and our_dst = "[1]" and our_id = "[2]" and m = 0, OF toy_laws serve refl]
  have quiet: "tn_heard (toy_turn []) = []" "\<not> bo_button toy_board" "bo_tick toy_board = 0" "bo_out_link toy_board = None" "\<not> bo_hello toy_board"
    by (simp_all add: toy_turn_def toy_board_def)
  have 1: "\<exists>s'. main_turn toy toy_receive 0 (\<lambda>_. True) True ''ab'' ''cd'' (toy_turn []) toy_board = (Ret False, s') \<and>
     bo_tick s' = 1 \<and> \<not> bo_hello s'"
    using turn[OF run(1) toy_turn_ok(1), of "[]"] quiet by auto
  have loud: "tn_heard (toy_turn [(0, ?f)]) = [(0, ?f)]" "0 \<in> set (net_interfaces toy_linked)" "\<not> bo_button toy_linked"
    by (simp_all add: toy_turn_def toy_linked_def toy_board_def)
  have 2: "\<exists>w s'. main_turn toy toy_receive 0 (\<lambda>_. True) True ''ab'' ''cd'' (toy_turn [(0, ?f)]) toy_linked = (Raise (Invalid_argument w), s')"
    using turn[OF run(2) toy_turn_ok(2), of "[(0, ?f)]", THEN conjunct2, THEN conjunct2, rule_format, of 0 ?f "[]"] loud toy_forged_for by blast
  from 1 2 show ?thesis by blast
qed

theorem announce_pace_witness:
  "\<exists>s. board_run toy toy_receive 0 (\<lambda>_. True) True ''ab'' ''cd'' 1 s \<and> 270 * (unat (bo_announces s) - 1) < 1 \<and> 1 \<le> 329 * unat (bo_announces s)"
proof -
  have serve: "snd ((\<lambda>_. ret [] :: (board, bytes) prog) path t) = t" for path t by simp
  note run = toy_board_run(1)[of toy_receive "\<lambda>_. True" "''ab''" "''cd''"]
  have "board_ok toy 0 toy_board" using board_run_inv[OF toy_laws receiver_safe[OF toy_laws serve] run] by simp
  from main_turn_run[OF toy_laws this toy_turn_ok(1)[of "[]"], of toy_receive "\<lambda>_. True" True "''ab''" "''cd''"]
  obtain s' where "main_turn toy toy_receive 0 (\<lambda>_. True) True ''ab'' ''cd'' (toy_turn []) toy_board = (Ret False, s')"
    by (auto simp: turn_polls_def toy_turn_def toy_board_def)
  from board_run.turn[OF run toy_turn_ok(1) this] have "board_run toy toy_receive 0 (\<lambda>_. True) True ''ab'' ''cd'' (Suc 0) s'" .
  moreover from announce_pace[OF toy_laws serve this]
  have "270 * (unat (bo_announces s') - 1) < 1 \<and> 1 \<le> 329 * unat (bo_announces s')" by simp
  ultimately show ?thesis unfolding One_nat_def[symmetric] by blast
qed

end
