(* ===== verification/BleRing.thy ===== *)
theory BleRing
  imports Ble
begin

text \<open>
  The receive ring of the BLE bridge between its two tasks (firmware/heltec_v3/main/rnode_ble_bridge.cpp): the write
  callback moves the head, the bridge loop the tail, and nothing locks. Their single accesses to the shared
  variables are interleaved in any order (one after the other, as the cores of the board see them for volatile
  words; the bytes themselves are assumed to be stored in program order).
\<close>

section \<open>Accesses\<close>

text \<open>The write callback, on NimBLE's task: at the test whether the next place is taken, at the store of the byte, at
  the store of the head, each with the bytes not yet queued (none: it is not running). The bridge loop: at the test,
  at the load of the byte, at the store of the tail.\<close>

datatype ring_writer = W_test bytes | W_store u8 bytes | W_head u8 bytes
datatype ring_reader = R_test | R_load | R_tail u8

text \<open>\<open>rs_in\<close>: the bytes made visible, \<open>rs_out\<close>: those taken out, \<open>rs_lost\<close>: those dropped.\<close>

record ring_state =
  rs_ring :: rx_ring
  rs_writer :: ring_writer
  rs_reader :: ring_reader
  rs_in :: bytes
  rs_out :: bytes
  rs_lost :: bytes

definition writer_access :: "ring_state \<Rightarrow> ring_state" where
  "writer_access s =
     (let r = rs_ring s; next = (rg_head r + 1) mod RX_RING_SIZE in
      case rs_writer s of
        W_test [] \<Rightarrow> s
      | W_test (b # bs) \<Rightarrow>
          if next = rg_tail r then s\<lparr>rs_writer := W_test [], rs_lost := rs_lost s @ b # bs\<rparr> else s\<lparr>rs_writer := W_store b bs\<rparr>
      | W_store b bs \<Rightarrow> s\<lparr>rs_ring := r\<lparr>rg_bytes := (rg_bytes r)[rg_head r := b]\<rparr>, rs_writer := W_head b bs\<rparr>
      | W_head b bs \<Rightarrow> s\<lparr>rs_ring := r\<lparr>rg_head := next\<rparr>, rs_writer := W_test bs, rs_in := rs_in s @ [b]\<rparr>)"

definition reader_access :: "ring_state \<Rightarrow> ring_state" where
  "reader_access s =
     (let r = rs_ring s in
      case rs_reader s of
        R_test \<Rightarrow> if rg_tail r \<noteq> rg_head r then s\<lparr>rs_reader := R_load\<rparr> else s
      | R_load \<Rightarrow> s\<lparr>rs_reader := R_tail (rg_bytes r ! rg_tail r)\<rparr>
      | R_tail b \<Rightarrow> s\<lparr>rs_ring := r\<lparr>rg_tail := (rg_tail r + 1) mod RX_RING_SIZE\<rparr>, rs_reader := R_test, rs_out := rs_out s @ [b]\<rparr>)"

text \<open>A write of the host arrives when the callback is free.\<close>

inductive share_step :: "ring_state \<Rightarrow> ring_state \<Rightarrow> bool" where
  arrive: "rs_writer s = W_test [] \<Longrightarrow> share_step s (s\<lparr>rs_writer := W_test bs\<rparr>)"
| writes: "share_step s (writer_access s)"
| reads: "share_step s (reader_access s)"

section \<open>The invariant\<close>

fun writing :: "rx_ring \<Rightarrow> ring_writer \<Rightarrow> bool" where
  "writing r (W_test bs) = True"
| "writing r (W_store b bs) = (ring_count r < 2047)"
| "writing r (W_head b bs) = (ring_count r < 2047 \<and> rg_bytes r ! rg_head r = b)"

fun reading :: "rx_ring \<Rightarrow> ring_reader \<Rightarrow> bool" where
  "reading r R_test = True"
| "reading r R_load = (0 < ring_count r)"
| "reading r (R_tail b) = (0 < ring_count r \<and> b = rg_bytes r ! rg_tail r)"

definition share_ok :: "ring_state \<Rightarrow> bool" where
  "share_ok s \<longleftrightarrow> ring_ok (rs_ring s) \<and> rs_in s = rs_out s @ ring_contents (rs_ring s) \<and>
     writing (rs_ring s) (rs_writer s) \<and> reading (rs_ring s) (rs_reader s)"

lemma ring_nonempty: "ring_ok r \<Longrightarrow> rg_tail r \<noteq> rg_head r \<longleftrightarrow> 0 < ring_count r"
  using ring_count_cases(1)[of r] by (auto simp: ring_ok_def split: if_splits)

lemma ring_get:
  assumes "ring_ok r" "0 < ring_count r"
  shows "ring_ok (r\<lparr>rg_tail := (rg_tail r + 1) mod 2048\<rparr>)"
    "ring_contents r = rg_bytes r ! rg_tail r # ring_contents (r\<lparr>rg_tail := (rg_tail r + 1) mod 2048\<rparr>)"
    "ring_count (r\<lparr>rg_tail := (rg_tail r + 1) mod 2048\<rparr>) = ring_count r - 1"
proof -
  let ?r = "r\<lparr>rg_tail := (rg_tail r + 1) mod 2048\<rparr>"
  have "ring_take r = Some (rg_bytes r ! rg_tail r, ?r)"
    using ring_nonempty[OF assms(1)] assms(2) by (simp add: ring_take_def RX_RING_SIZE_def)
  then show ok: "ring_ok ?r" and c: "ring_contents r = rg_bytes r ! rg_tail r # ring_contents ?r"
    using ring_take_contents[OF assms(1)] by (auto split: list.splits)
  have "length (ring_contents q) = ring_count q" for q by (simp add: ring_contents_def)
  then show "ring_count ?r = ring_count r - 1" using arg_cong[OF c, of length] by simp
qed

lemma writer_ok:
  assumes "share_ok s"
  shows "share_ok (writer_access s)"
proof -
  let ?r = "rs_ring s"
  have ok: "ring_ok ?r" "rs_in s = rs_out s @ ring_contents ?r" "reading ?r (rs_reader s)" "writing ?r (rs_writer s)"
    using assms by (simp_all add: share_ok_def)
  show ?thesis
  proof (cases "rs_writer s")
    case (W_test bs)
    then show ?thesis
      using ok ring_full[OF ok(1)] ring_count_cases(2)[OF ok(1)]
      by (cases bs) (auto simp: writer_access_def share_ok_def RX_RING_SIZE_def Let_def)
  next
    case (W_store b bs)
    have "rg_tail ?r \<noteq> rg_head ?r" if "0 < ring_count ?r" using that ring_nonempty[OF ok(1)] by simp
    then have "reading (?r\<lparr>rg_bytes := (rg_bytes ?r)[rg_head ?r := b]\<rparr>) (rs_reader s)"
      using ok(3) by (cases "rs_reader s") (auto simp: ring_store(2)[OF ok(1)])
    then show ?thesis
      using ok W_store ring_store[OF ok(1), of b]
      by (simp add: writer_access_def share_ok_def Let_def) (simp add: ring_ok_def)
  next
    case (W_head b bs)
    let ?q = "?r\<lparr>rg_head := (rg_head ?r + 1) mod 2048\<rparr>"
    have w: "ring_count ?r < 2047" "rg_bytes ?r ! rg_head ?r = b" using ok(4) W_head by simp_all
    have "?q = ?r\<lparr>rg_bytes := (rg_bytes ?r)[rg_head ?r := b], rg_head := (rg_head ?r + 1) mod 2048\<rparr>"
      unfolding w(2)[symmetric] list_update_id by simp
    note put = ring_put[OF ok(1) w(1) this]
    have "reading ?q (rs_reader s)" using ok(3) put(2) by (cases "rs_reader s") auto
    then show ?thesis using W_head ok(2) put by (simp add: writer_access_def share_ok_def Let_def RX_RING_SIZE_def)
  qed
qed

lemma reader_ok:
  assumes "share_ok s"
  shows "share_ok (reader_access s)"
proof -
  let ?r = "rs_ring s"
  have ok: "ring_ok ?r" "rs_in s = rs_out s @ ring_contents ?r" "reading ?r (rs_reader s)" "writing ?r (rs_writer s)"
    using assms by (simp_all add: share_ok_def)
  show ?thesis
  proof (cases "rs_reader s")
    case (R_tail b)
    then have c: "0 < ring_count ?r" "b = rg_bytes ?r ! rg_tail ?r" using ok(3) by simp_all
    note get = ring_get[OF ok(1) c(1)]
    have "writing (?r\<lparr>rg_tail := (rg_tail ?r + 1) mod 2048\<rparr>) (rs_writer s)"
      using ok(4) get(3) by (cases "rs_writer s") auto
    then show ?thesis
      using R_tail ok(2) get c(2) by (simp add: reader_access_def share_ok_def Let_def RX_RING_SIZE_def)
  qed (use ok ring_nonempty[OF ok(1)] in \<open>auto simp: reader_access_def share_ok_def Let_def\<close>)
qed

lemma share_arrive: "share_ok s \<Longrightarrow> share_ok (s\<lparr>rs_writer := W_test bs\<rparr>)"
  by (simp add: share_ok_def)

lemma share_steps: "share_step\<^sup>*\<^sup>* s s' \<Longrightarrow> share_ok s \<Longrightarrow> share_ok s'"
  by (induction rule: rtranclp_induct) (auto elim!: share_step.cases intro: writer_ok reader_ok share_arrive)

section \<open>Property\<close>

definition ring_start :: "rx_ring \<Rightarrow> ring_state" where
  "ring_start r = \<lparr>rs_ring = r, rs_writer = W_test [], rs_reader = R_test, rs_in = [], rs_out = [], rs_lost = []\<rparr>"

text \<open>
  C14: However the accesses of the write callback and of the bridge loop to the receive ring interleave, without a lock,
  the loop takes out the bytes that were queued, in order, each once and none that was not written yet; a byte
  is dropped only at a moment when 2047 are waiting, and a loop that runs gets the next byte with three accesses.
\<close>

theorem ring_interleaved:
  assumes "ring_ok r" "rg_head r = rg_tail r" "share_step\<^sup>*\<^sup>* (ring_start r) s"
  shows "rs_in s = rs_out s @ ring_contents (rs_ring s) \<and> length (ring_contents (rs_ring s)) \<le> 2047 \<and>
    (rs_lost (writer_access s) \<noteq> rs_lost s \<longrightarrow> length (ring_contents (rs_ring s)) = 2047) \<and>
    (rs_reader s = R_test \<and> ring_contents (rs_ring s) \<noteq> [] \<longrightarrow>
      rs_out ((reader_access ^^ 3) s) = rs_out s @ [hd (ring_contents (rs_ring s))])"
proof (intro conjI impI; (elim conjE)?)
  have "ring_contents r = []" using ring_nonempty[OF assms(1)] assms(2) by (simp add: ring_contents_def)
  then have "share_ok (ring_start r)" using assms(1) by (simp add: share_ok_def ring_start_def)
  then have inv: "share_ok s" using share_steps[OF assms(3)] by blast
  then have ok: "ring_ok (rs_ring s)" by (simp add: share_ok_def)
  have len: "length (ring_contents (rs_ring s)) = ring_count (rs_ring s)" by (simp add: ring_contents_def)
  show "rs_in s = rs_out s @ ring_contents (rs_ring s)" using inv by (simp add: share_ok_def)
  show "length (ring_contents (rs_ring s)) \<le> 2047" using ring_count_cases(2)[OF ok] len by simp
  show "length (ring_contents (rs_ring s)) = 2047" if "rs_lost (writer_access s) \<noteq> rs_lost s"
    using that ring_full[OF ok] len
    by (auto simp: writer_access_def Let_def RX_RING_SIZE_def split: ring_writer.splits list.splits if_splits)
  show "rs_out ((reader_access ^^ 3) s) = rs_out s @ [hd (ring_contents (rs_ring s))]"
    if "rs_reader s = R_test" "ring_contents (rs_ring s) \<noteq> []"
  proof -
    have c: "0 < ring_count (rs_ring s)" using that(2) len by (metis length_greater_0_conv)
    then have "hd (ring_contents (rs_ring s)) = rg_bytes (rs_ring s) ! rg_tail (rs_ring s)"
      using ring_get(2)[OF ok c] by (metis list.sel(1))
    then show ?thesis
      using that(1) c ring_nonempty[OF ok] by (simp add: numeral_eq_Suc reader_access_def Let_def)
  qed
qed

section \<open>Witness\<close>

definition toy_ring :: rx_ring where
  "toy_ring = \<lparr>rg_bytes = replicate 2048 0, rg_head = 5, rg_tail = 5\<rparr>"

theorem ring_interleaved_witness:
  "\<exists>s. share_step\<^sup>*\<^sup>* (ring_start toy_ring) s \<and> rs_writer s = W_test [] \<and> ring_contents (rs_ring s) = [7]"
proof -
  let ?begun = "(ring_start toy_ring)\<lparr>rs_writer := W_test [7]\<rparr>"
  let ?s = "writer_access (writer_access (writer_access ?begun))"
  have "share_step (ring_start toy_ring) ?begun" by (rule share_step.arrive) (simp add: ring_start_def)
  then have s0: "share_step\<^sup>*\<^sup>* (ring_start toy_ring) ?begun" by simp
  have more: "share_step\<^sup>*\<^sup>* a (writer_access b)" if "share_step\<^sup>*\<^sup>* a b" for a b
    using that share_step.writes by (rule rtranclp.rtrancl_into_rtrancl)
  have run: "share_step\<^sup>*\<^sup>* (ring_start toy_ring) ?s" by (intro more s0)
  have s: "rs_in ?s = [7]" "rs_out ?s = []" "rs_writer ?s = W_test []"
    by (simp_all add: writer_access_def ring_start_def toy_ring_def RX_RING_SIZE_def Let_def)
  have "rs_in ?s = rs_out ?s @ ring_contents (rs_ring ?s)"
    by (rule ring_interleaved[OF _ _ run, THEN conjunct1]) (simp_all add: toy_ring_def ring_ok_def)
  then show ?thesis using run s by auto
qed

end
