(* ===== verification/Locking.thy ===== *)
theory Locking
  imports Prelude
begin

text \<open>
  The transport's lock (src/transport.cpp): the mutex that \<open>mutex()\<close> makes when it is first asked for, and the
  \<open>Lock\<close> object every guarded operation starts with. Tasks are numbers; their accesses to \<open>_mutex\<close> and to the
  mutex are steps that interleave. A guarded operation may call others (delivery through a loopback interface
  does), so a task holds a stack of locks.
\<close>

section \<open>The mutex\<close>

text \<open>The HAL's recursive mutex: a new one, locking by a task (\<open>None\<close>: it has to wait), unlocking. hal.h
  documents that the task that holds it can lock it again; \<open>holders\<close> lists who has locked it and not yet unlocked
  it, latest first.\<close>

record 'm mutex_api =
  mx_new :: 'm
  mx_lock :: "nat \<Rightarrow> 'm \<Rightarrow> 'm option"
  mx_unlock :: "nat \<Rightarrow> 'm \<Rightarrow> 'm"

definition mutex_law :: "'m mutex_api \<Rightarrow> ('m \<Rightarrow> nat list) \<Rightarrow> bool" where
  "mutex_law M holders \<longleftrightarrow> holders (mx_new M) = [] \<and>
     (\<forall>t m. if \<forall>u\<in>set (holders m). u = t then \<exists>m'. mx_lock M t m = Some m' \<and> holders m' = t # holders m
        else mx_lock M t m = None) \<and>
     (\<forall>t m hs. holders m = t # hs \<longrightarrow> holders (mx_unlock M t m) = hs)"

lemma mutex_lawD:
  assumes "mutex_law M holders"
  shows "holders (mx_new M) = []"
    "\<forall>u\<in>set (holders m). u = t \<Longrightarrow> \<exists>m'. mx_lock M t m = Some m' \<and> holders m' = t # holders m"
    "mx_lock M t m = Some m' \<Longrightarrow> (\<forall>u\<in>set (holders m). u = t) \<and> holders m' = t # holders m"
    "holders m = t # hs \<Longrightarrow> holders (mx_unlock M t m) = hs"
  using assms by (auto simp: mutex_law_def split: if_splits) (metis option.distinct(1) option.inject)+

section \<open>State and accesses\<close>

text \<open>Where a task is: in no constructor of \<open>Lock\<close>; at the test of \<open>_mutex\<close>, at the creation, at the store of what
  it gave, at the read that \<open>mutex()\<close> returns, at the lock; or in the lock of a null mutex.\<close>

datatype lock_pc = At_rest | At_test | At_create | At_store "nat option" | At_fetch | At_take nat | At_null

text \<open>\<open>lk_held\<close>: the \<open>_m\<close> of the \<open>Lock\<close> objects on the task's stack, innermost first.\<close>

record 'm locks =
  lk_mutex :: "nat option"
  lk_heap :: "'m list"
  lk_pc :: "nat \<Rightarrow> lock_pc"
  lk_held :: "nat \<Rightarrow> nat list"

definition locks_init :: "'m locks" where
  "locks_init = \<lparr>lk_mutex = None, lk_heap = [], lk_pc = (\<lambda>_. At_rest), lk_held = (\<lambda>_. [])\<rparr>"

abbreviation goto :: "nat \<Rightarrow> lock_pc \<Rightarrow> 'm locks \<Rightarrow> 'm locks" where
  "goto t pc s \<equiv> s\<lparr>lk_pc := (lk_pc s)(t := pc)\<rparr>"

text \<open>The next access of a task on its way into a guarded operation; \<open>made\<close>: whether a creation succeeds.\<close>

definition lock_access :: "'m mutex_api \<Rightarrow> bool \<Rightarrow> nat \<Rightarrow> 'm locks \<Rightarrow> 'm locks option" where
  "lock_access M made t s =
     (case lk_pc s t of
        At_rest \<Rightarrow> Some (goto t At_test s)
      | At_test \<Rightarrow> Some (goto t (if lk_mutex s = None then At_create else At_fetch) s)
      | At_create \<Rightarrow>
          Some (if made then goto t (At_store (Some (length (lk_heap s)))) (s\<lparr>lk_heap := lk_heap s @ [mx_new M]\<rparr>)
                else goto t (At_store None) s)
      | At_store v \<Rightarrow> Some (goto t At_fetch (s\<lparr>lk_mutex := v\<rparr>))
      | At_fetch \<Rightarrow> Some (goto t (case lk_mutex s of None \<Rightarrow> At_null | Some m \<Rightarrow> At_take m) s)
      | At_take m \<Rightarrow>
          (case mx_lock M t (lk_heap s ! m) of
             None \<Rightarrow> None
           | Some x \<Rightarrow> Some (goto t At_rest (s\<lparr>lk_heap := (lk_heap s)[m := x], lk_held := (lk_held s)(t := m # lk_held s t)\<rparr>)))
      | At_null \<Rightarrow> None)"

text \<open>The destructor.\<close>

definition lock_leave :: "'m mutex_api \<Rightarrow> nat \<Rightarrow> 'm locks \<Rightarrow> 'm locks option" where
  "lock_leave M t s =
     (case (lk_pc s t, lk_held s t) of
        (At_rest, m # ms) \<Rightarrow>
          Some (s\<lparr>lk_heap := (lk_heap s)[m := mx_unlock M t (lk_heap s ! m)], lk_held := (lk_held s)(t := ms)\<rparr>)
      | _ \<Rightarrow> None)"

inductive lock_step :: "'m mutex_api \<Rightarrow> 'm locks \<Rightarrow> 'm locks \<Rightarrow> bool" for M where
  access: "lock_access M made t s = Some s' \<Longrightarrow> lock_step M s s'"
| leave: "lock_leave M t s = Some s' \<Longrightarrow> lock_step M s s'"

text \<open>A task inside a guarded operation; and one that runs alone for some accesses.\<close>

definition inside :: "nat \<Rightarrow> 'm locks \<Rightarrow> bool" where
  "inside t s \<longleftrightarrow> lk_held s t \<noteq> []"

fun lock_alone :: "'m mutex_api \<Rightarrow> bool \<Rightarrow> nat \<Rightarrow> nat \<Rightarrow> 'm locks \<Rightarrow> 'm locks option" where
  "lock_alone M made t 0 s = Some s"
| "lock_alone M made t (Suc n) s =
     (case lock_access M made t s of None \<Rightarrow> None | Some s' \<Rightarrow> lock_alone M made t n s')"

lemma alone_steps: "lock_alone M made t n s = Some s' \<Longrightarrow> (lock_step M)\<^sup>*\<^sup>* s s'"
  by (induction n arbitrary: s) (auto split: option.splits intro: converse_rtranclp_into_rtranclp lock_step.access)

section \<open>One mutex\<close>

text \<open>The mutex is there, nobody is about to make another, and the holders are the tasks inside.\<close>

fun settled :: "nat \<Rightarrow> lock_pc \<Rightarrow> bool" where
  "settled m At_rest = True"
| "settled m At_test = True"
| "settled m At_fetch = True"
| "settled m (At_take k) = (k = m)"
| "settled m At_create = False"
| "settled m (At_store v) = False"
| "settled m At_null = False"

definition guarded :: "('m \<Rightarrow> nat list) \<Rightarrow> nat \<Rightarrow> 'm locks \<Rightarrow> bool" where
  "guarded holders m s \<longleftrightarrow> lk_mutex s = Some m \<and> m < length (lk_heap s) \<and>
     (\<forall>t. settled m (lk_pc s t)) \<and>
     (\<forall>t. lk_held s t = replicate (count_list (holders (lk_heap s ! m)) t) m) \<and>
     (\<forall>t\<in>set (holders (lk_heap s ! m)). \<forall>u\<in>set (holders (lk_heap s ! m)). t = u)"

lemma guarded_inside: "guarded holders m s \<Longrightarrow> inside t s \<longleftrightarrow> t \<in> set (holders (lk_heap s ! m))"
  by (auto simp: guarded_def inside_def count_list_0_iff)

lemma guarded_goto: "guarded holders m s \<Longrightarrow> settled m pc \<Longrightarrow> guarded holders m (goto t pc s)"
  by (simp add: guarded_def)

lemma guarded_access:
  assumes "mutex_law M holders" "guarded holders m s" "lock_access M made t s = Some s'"
  shows "guarded holders m s'"
proof -
  have g: "settled m (lk_pc s t)" "lk_mutex s = Some m" "m < length (lk_heap s)"
    "\<And>t. lk_held s t = replicate (count_list (holders (lk_heap s ! m)) t) m"
    using assms(2) by (simp_all add: guarded_def)
  show ?thesis
  proof (cases "lk_pc s t = At_take m")
    case False
    then show ?thesis using assms(3) g(1,2)
      by (cases "lk_pc s t") (auto simp: lock_access_def simp del: fun_upd_apply intro: guarded_goto[OF assms(2)])
  next
    case True
    then obtain x where x: "mx_lock M t (lk_heap s ! m) = Some x"
      "s' = goto t At_rest (s\<lparr>lk_heap := (lk_heap s)[m := x], lk_held := (lk_held s)(t := m # lk_held s t)\<rparr>)"
      using assms(3) by (auto simp: lock_access_def split: option.splits)
    have "\<forall>u\<in>set (holders (lk_heap s ! m)). u = t" "holders x = t # holders (lk_heap s ! m)"
      using mutex_lawD(3)[OF assms(1) x(1)] by auto
    then have "guarded holders m (s\<lparr>lk_heap := (lk_heap s)[m := x], lk_held := (lk_held s)(t := m # lk_held s t)\<rparr>)"
      using assms(2) by (simp add: guarded_def)
    from guarded_goto[OF this, of At_rest t] show ?thesis by (simp add: x(2))
  qed
qed

lemma guarded_leave:
  assumes "mutex_law M holders" "guarded holders m s" "lock_leave M t s = Some s'"
  shows "guarded holders m s'"
proof -
  let ?hs = "holders (lk_heap s ! m)"
  have g: "m < length (lk_heap s)" "\<And>t. lk_held s t = replicate (count_list ?hs t) m"
    "\<And>t u. t \<in> set ?hs \<Longrightarrow> u \<in> set ?hs \<Longrightarrow> t = u"
    using assms(2) by (auto simp: guarded_def)
  obtain k ms where ms: "lk_held s t = k # ms"
    "s' = s\<lparr>lk_heap := (lk_heap s)[k := mx_unlock M t (lk_heap s ! k)], lk_held := (lk_held s)(t := ms)\<rparr>"
    using assms(3) by (auto simp: lock_leave_def split: lock_pc.splits list.splits)
  have km: "k = m" using ms(1) g(2)[of t] by (cases "count_list ?hs t") auto
  have "t \<in> set ?hs" using guarded_inside[OF assms(2), of t] ms(1) by (simp add: inside_def)
  then obtain hs where hs: "?hs = t # hs" using g(3)[of t "hd ?hs"] by (cases ?hs) auto
  then have un: "holders (mx_unlock M t (lk_heap s ! m)) = hs" using mutex_lawD(4)[OF assms(1)] by blast
  have "ms = replicate (count_list hs t) m" using g(2)[of t] ms(1) hs by simp
  moreover have "lk_held s u = replicate (count_list hs u) m" if "u \<noteq> t" for u using g(2)[of u] hs that by simp
  ultimately show ?thesis using assms(2) g(1) un hs by (auto simp: guarded_def ms(2) km)
qed

lemma guarded_steps: "(lock_step M)\<^sup>*\<^sup>* s s' \<Longrightarrow> mutex_law M holders \<Longrightarrow> guarded holders m s \<Longrightarrow> guarded holders m s'"
  by (induction rule: rtranclp_induct) (auto elim: lock_step.cases intro: guarded_access guarded_leave)

lemma guarded_exclusive: "guarded holders m s \<Longrightarrow> inside a s \<Longrightarrow> inside b s \<Longrightarrow> a = b"
  by (simp add: guarded_inside) (simp add: guarded_def)

lemma guarded_enters:
  assumes "mutex_law M holders" "guarded holders m s" "\<And>u. inside u s \<Longrightarrow> u = t"
  shows "\<exists>s'. lock_access M made t s = Some s'"
proof -
  have "\<forall>u\<in>set (holders (lk_heap s ! m)). u = t" using assms(3) guarded_inside[OF assms(2)] by blast
  then obtain x where "mx_lock M t (lk_heap s ! m) = Some x" using mutex_lawD(2)[OF assms(1)] by blast
  moreover have "settled m (lk_pc s t)" using assms(2) by (simp add: guarded_def)
  ultimately show ?thesis by (cases "lk_pc s t") (auto simp: lock_access_def)
qed

lemma first_lock:
  assumes "mutex_law M holders"
  obtains s where "lock_alone M True t 6 locks_init = Some s" "inside t s" "guarded holders 0 s"
proof -
  obtain x where x: "mx_lock M t (mx_new M) = Some x" "holders x = [t]"
    using mutex_lawD(1)[OF assms] mutex_lawD(2)[OF assms, of "mx_new M" t] by auto
  then show ?thesis
    by (intro that) (auto simp: numeral_eq_Suc lock_access_def locks_init_def inside_def guarded_def)
qed

section \<open>Properties\<close>

text \<open>
  C9: When the first guarded operation is entered before another task enters one, the lock does what the model of
  the transport takes for granted: whatever tasks do from then on, no two are inside guarded operations at once, and
  no lock of a null mutex is reached; a task inside enters further ones without waiting, and when none is inside,
  every task gets in.
\<close>

theorem lock_exclusive:
  assumes "mutex_law M holders"
  shows "\<exists>s1. lock_alone M True t 6 locks_init = Some s1 \<and> inside t s1 \<and>
    (\<forall>s. (lock_step M)\<^sup>*\<^sup>* s1 s \<longrightarrow>
       (\<forall>a b. inside a s \<and> inside b s \<longrightarrow> a = b) \<and> (\<forall>a. lk_pc s a \<noteq> At_null) \<and>
       (\<forall>a. inside a s \<or> (\<forall>b. \<not> inside b s) \<longrightarrow> (\<exists>s'. lock_access M made a s = Some s')))"
proof -
  obtain s1 where s1: "lock_alone M True t 6 locks_init = Some s1" "inside t s1" "guarded holders 0 s1"
    by (rule first_lock[OF assms])
  have "(\<forall>a b. inside a s \<and> inside b s \<longrightarrow> a = b) \<and> (\<forall>a. lk_pc s a \<noteq> At_null) \<and>
      (\<forall>a. inside a s \<or> (\<forall>b. \<not> inside b s) \<longrightarrow> (\<exists>s'. lock_access M made a s = Some s'))"
    if "(lock_step M)\<^sup>*\<^sup>* s1 s" for s
  proof (intro conjI allI impI)
    have g: "guarded holders 0 s" by (rule guarded_steps[OF that assms s1(3)])
    fix a b
    show "a = b" if "inside a s \<and> inside b s" using that guarded_exclusive[OF g] by blast
    show "lk_pc s a \<noteq> At_null" using g by (auto simp: guarded_def dest: spec[of _ a])
    show "\<exists>s'. lock_access M made a s = Some s'" if "inside a s \<or> (\<forall>b. \<not> inside b s)"
      using that guarded_enters[OF assms g, of a made] guarded_exclusive[OF g] by blast
  qed
  then show ?thesis using s1(1,2) by blast
qed

text \<open>
  Without that, \<open>mutex()\<close> does not protect: two tasks whose first operations overlap can both find no mutex, make
  one each, and be inside at the same time, and when making one fails, the task goes on to lock a null mutex.
\<close>

theorem lock_race:
  assumes "mutex_law M holders"
  shows "(\<exists>s. (lock_step M)\<^sup>*\<^sup>* locks_init s \<and> inside 0 s \<and> inside 1 s \<and> lk_held s 0 \<noteq> lk_held s 1) \<and>
    (\<exists>s. lock_alone M False 0 5 locks_init = Some s \<and> lk_pc s 0 = At_null)"
proof
  obtain s0 where s0: "lock_alone M True 0 2 locks_init = Some s0" "s0 = goto 0 At_create locks_init"
    by (simp add: numeral_eq_Suc lock_access_def locks_init_def)
  obtain x where x: "mx_lock M 1 (mx_new M) = Some x"
    using mutex_lawD(1)[OF assms] mutex_lawD(2)[OF assms, of "mx_new M" 1] by auto
  obtain y where y: "mx_lock M 0 (mx_new M) = Some y"
    using mutex_lawD(1)[OF assms] mutex_lawD(2)[OF assms, of "mx_new M" 0] by auto
  define s1 where "s1 = \<lparr>lk_mutex = Some 0, lk_heap = [x], lk_pc = (\<lambda>_. At_rest)(0 := At_create), lk_held = (\<lambda>_. [])(1 := [0])\<rparr>"
  have s1: "lock_alone M True 1 6 s0 = Some s1"
    by (simp add: s0(2) s1_def numeral_eq_Suc lock_access_def locks_init_def x[unfolded One_nat_def] fun_eq_iff)
  define s2 where "s2 = \<lparr>lk_mutex = Some 1, lk_heap = [x, y], lk_pc = (\<lambda>_. At_rest), lk_held = (\<lambda>_. [])(1 := [0], 0 := [1])\<rparr>"
  have s2: "lock_alone M True 0 4 s1 = Some s2"
    by (simp add: s1_def s2_def numeral_eq_Suc lock_access_def y fun_eq_iff)
  have "(lock_step M)\<^sup>*\<^sup>* locks_init s2"
    using alone_steps[OF s0(1)] alone_steps[OF s1] alone_steps[OF s2] by simp
  then show "\<exists>s. (lock_step M)\<^sup>*\<^sup>* locks_init s \<and> inside 0 s \<and> inside 1 s \<and> lk_held s 0 \<noteq> lk_held s 1"
    by (intro exI[of _ s2]) (simp add: s2_def inside_def)
  show "\<exists>s. lock_alone M False 0 5 locks_init = Some s \<and> lk_pc s 0 = At_null"
    by (simp add: numeral_eq_Suc lock_access_def locks_init_def)
qed

section \<open>Witnesses\<close>

definition toy_mutex :: "nat list mutex_api" where
  "toy_mutex = \<lparr>mx_new = [], mx_lock = (\<lambda>t m. if list_all (\<lambda>u. u = t) m then Some (t # m) else None), mx_unlock = (\<lambda>t. tl)\<rparr>"

lemma toy_mutex_law: "mutex_law toy_mutex id"
  by (auto simp: mutex_law_def toy_mutex_def list_all_iff)

theorem lock_exclusive_witness:
  "\<exists>s1. lock_alone toy_mutex True 3 6 locks_init = Some s1 \<and> lk_held s1 3 = [0]"
  using lock_exclusive[OF toy_mutex_law, of 3]
  by (auto simp: toy_mutex_def numeral_eq_Suc lock_access_def locks_init_def)

theorem lock_race_witness:
  "\<exists>s. (lock_step toy_mutex)\<^sup>*\<^sup>* locks_init s \<and> inside 0 s \<and> inside 1 s \<and> lk_held s 0 \<noteq> lk_held s 1"
  using lock_race[OF toy_mutex_law] by blast

end
