(* ===== verification/Hal.thy ===== *)
theory Hal
  imports Crypto
begin

text \<open>
  The three ports of the hardware layer (port/posix, port/esp_idf, port/freertos): clocks, entropy, mutex and task
  handles, delays and the log. Readings of clocks, delivered bytes and the success of system calls are arguments.
  Locking and unlocking a mutex and feeding the watchdog are single system calls; what the transport makes of the
  former is in \<open>Locking\<close>.
\<close>

section \<open>Uptime\<close>

text \<open>POSIX: the monotonic clock in milliseconds, and the time since the first call, which \<open>boot\<close> keeps (zero: no
  call yet). \<open>now\<close> is the reading the call took: calls of other threads may come between it and the rest, since
  nothing guards the start. ESP-IDF: the timer in microseconds. FreeRTOS: the tick counter, 32 bits wide, and the tick rate.\<close>

definition posix_now :: "u64 \<Rightarrow> u64 \<Rightarrow> u64" where
  "posix_now sec nsec = sec * 1000 + nsec div 1000000"

definition posix_millis :: "u64 \<Rightarrow> u64 \<Rightarrow> u64 \<times> u64" where
  "posix_millis now boot = (let boot' = (if boot = 0 then now else boot) in (now - boot', boot'))"

definition esp_millis :: "u64 \<Rightarrow> u64" where
  "esp_millis us = us div 1000"

definition freertos_millis :: "u32 \<Rightarrow> u32 \<Rightarrow> u64" where
  "freertos_millis rate ticks = ucast ticks * ucast (1000 div rate)"

text \<open>Wall clock: microseconds on POSIX; zero where there is none.\<close>

definition posix_unix_micros :: "u64 \<Rightarrow> u64 \<Rightarrow> u64" where
  "posix_unix_micros sec usec = sec * 1000000 + usec"

definition esp_unix_micros :: u64 where "esp_unix_micros = 0"

text \<open>What hal.h asks of a clock: over times that do not go back, neither do the readings.\<close>

fun readings :: "('c \<Rightarrow> 's \<Rightarrow> u64 \<times> 's) \<Rightarrow> 'c list \<Rightarrow> 's \<Rightarrow> u64 list" where
  "readings tick [] s = []"
| "readings tick (c # cs) s = fst (tick c s) # readings tick cs (snd (tick c s))"

locale uptime =
  fixes tick :: "'c \<Rightarrow> 's \<Rightarrow> u64 \<times> 's"
    and before :: "'c \<Rightarrow> 'c \<Rightarrow> bool"
    and ready :: "'s \<Rightarrow> 'c \<Rightarrow> bool"
  assumes tick_ready: "ready s c \<Longrightarrow> ready (snd (tick c s)) c"
    and ready_later: "ready s c \<Longrightarrow> before c d \<Longrightarrow> ready s d"
    and tick_mono: "ready s c \<Longrightarrow> before c d \<Longrightarrow> fst (tick c s) \<le> fst (tick d (snd (tick c s)))"
begin

lemma readings_sorted:
  "sorted_wrt before cs \<Longrightarrow> (cs \<noteq> [] \<longrightarrow> ready s (hd cs)) \<Longrightarrow> sorted (readings tick cs s)"
proof (induction cs arbitrary: s)
  case (Cons c cs)
  have c: "ready s c" using Cons.prems(2) by simp
  let ?s = "snd (tick c s)"
  have rest: "cs \<noteq> [] \<longrightarrow> ready ?s (hd cs)" and first: "cs \<noteq> [] \<longrightarrow> fst (tick c s) \<le> fst (tick (hd cs) ?s)"
    using Cons.prems(1) ready_later[OF tick_ready[OF c]] tick_mono[OF c] by (cases cs; simp)+
  have "sorted (readings tick cs ?s)" using Cons rest by simp
  then show ?case using first by (cases cs) auto
qed simp

end

interpretation posix_clock: uptime posix_millis "(\<le>)" "(\<le>)"
proof
  show "snd (posix_millis c s) \<le> c" if "s \<le> c" for s c :: u64
    using that by (simp add: posix_millis_def Let_def)
  show "s \<le> d" if "s \<le> c" "c \<le> d" for s c d :: u64
    using that by (rule order_trans)
  show "fst (posix_millis c s) \<le> fst (posix_millis d (snd (posix_millis c s)))" if "s \<le> c" "c \<le> d" for s c d :: u64
    using that by (auto simp: posix_millis_def Let_def word_le_minus_mono_left)
qed

lemma esp_millis_mono: "c \<le> d \<Longrightarrow> esp_millis c \<le> esp_millis d"
  by (simp add: esp_millis_def word_le_nat_alt unat_div div_le_mono)

interpretation esp_clock: uptime "\<lambda>us s. (esp_millis us, s)" "(\<le>)" "\<lambda>_ _. True"
  by unfold_locales (simp_all add: esp_millis_mono)

section \<open>Entropy\<close>

text \<open>The result and the buffer afterwards; \<open>buf = None\<close> is a null pointer. POSIX: what \<open>fopen\<close> and \<open>fread\<close>
  deliver (\<open>None\<close>: the device cannot be opened). ESP-IDF: the generator's bytes. FreeRTOS: the weak default.\<close>

definition posix_random :: "bytes option \<Rightarrow> bytes option \<Rightarrow> int \<times> bytes option" where
  "posix_random dev buf =
     (case buf of
        None \<Rightarrow> (0, None)
      | Some b \<Rightarrow>
          if b = [] then (0, buf)
          else (case dev of
                  None \<Rightarrow> (-1, buf)
                | Some d \<Rightarrow>
                    let n = min (length b) (length d) in
                    (if n = length b then 0 else -1, Some (take n d @ drop n b))))"

definition esp_random :: "(nat \<Rightarrow> bytes) \<Rightarrow> bytes option \<Rightarrow> int \<times> bytes option" where
  "esp_random gen buf = (case buf of None \<Rightarrow> (0, None) | Some b \<Rightarrow> if b = [] then (0, buf) else (0, Some (gen (length b))))"

definition freertos_random :: "bytes option \<Rightarrow> int \<times> bytes option" where
  "freertos_random buf = (-1, buf)"

text \<open>The answer the library's cryptography sees, which gives a fresh buffer of zeros.\<close>

definition entropy :: "(bytes option \<Rightarrow> int \<times> bytes option) \<Rightarrow> nat \<Rightarrow> bytes option" where
  "entropy rb len = (case rb (Some (replicate len 0)) of (rc, b) \<Rightarrow> if rc = 0 then b else None)"

lemma posix_entropy:
  "entropy (posix_random dev) len =
     (if len = 0 then Some [] else case dev of None \<Rightarrow> None | Some d \<Rightarrow> if len \<le> length d then Some (take len d) else None)"
  by (auto simp: entropy_def posix_random_def Let_def split: option.splits)

lemma freertos_entropy: "entropy freertos_random len = None"
  by (simp add: entropy_def freertos_random_def)

section \<open>Handles\<close>

text \<open>What is held of the system: heap blocks and objects of the operating system (mutexes, semaphores, attributes,
  tasks), each with a number of its own.\<close>

datatype item = Block nat | Object nat

fun item_number :: "item \<Rightarrow> nat" where
  "item_number (Block n) = n"
| "item_number (Object n) = n"

record ledger =
  ld_items :: "item set"
  ld_next :: nat

definition tidy :: "ledger \<Rightarrow> bool" where
  "tidy s \<longleftrightarrow> (\<forall>i\<in>ld_items s. item_number i < ld_next s)"

definition acquire :: "(nat \<Rightarrow> item) \<Rightarrow> bool \<Rightarrow> ledger \<Rightarrow> item option \<times> ledger" where
  "acquire k ok s =
     (if ok then (Some (k (ld_next s)), s\<lparr>ld_items := insert (k (ld_next s)) (ld_items s), ld_next := ld_next s + 1\<rparr>)
      else (None, s))"

definition release :: "item \<Rightarrow> ledger \<Rightarrow> ledger" where
  "release i s = s\<lparr>ld_items := ld_items s - {i}\<rparr>"

text \<open>POSIX: a block, then the mutex in it. The recursive one needs an attribute object for a while, whose set-up
  does not fail. The arguments say which calls succeed.\<close>

definition posix_mutex_create :: "bool \<times> bool \<Rightarrow> ledger \<Rightarrow> (item \<times> item) option \<times> ledger" where
  "posix_mutex_create e s =
     (case acquire Block (fst e) s of
        (None, s1) \<Rightarrow> (None, s1)
      | (Some b, s1) \<Rightarrow>
          (case acquire Object (snd e) s1 of
             (None, s2) \<Rightarrow> (None, release b s2)
           | (Some m, s2) \<Rightarrow> (Some (b, m), s2)))"

text \<open>The attribute object is taken to be made (\<open>pthread_mutexattr_init\<close>, whose result the code does not look at).\<close>

definition posix_recursive_create :: "bool \<times> bool \<Rightarrow> ledger \<Rightarrow> (item \<times> item) option \<times> ledger" where
  "posix_recursive_create e s =
     (case acquire Block (fst e) s of
        (None, s1) \<Rightarrow> (None, s1)
      | (Some b, s1) \<Rightarrow>
          (case acquire Object True s1 of (attr, s2) \<Rightarrow>
           case acquire Object (snd e) s2 of (m, s3) \<Rightarrow>
           let s4 = (case attr of None \<Rightarrow> s3 | Some a \<Rightarrow> release a s3)
           in case m of None \<Rightarrow> (None, release b s4) | Some m \<Rightarrow> (Some (b, m), s4)))"

text \<open>ESP-IDF and FreeRTOS, which have the same code: the semaphore first, plain or recursive.\<close>

definition esp_mutex_create :: "bool \<times> bool \<Rightarrow> ledger \<Rightarrow> (item \<times> item) option \<times> ledger" where
  "esp_mutex_create e s =
     (case acquire Object (fst e) s of
        (None, s1) \<Rightarrow> (None, s1)
      | (Some h, s1) \<Rightarrow>
          (case acquire Block (snd e) s1 of
             (None, s2) \<Rightarrow> (None, release h s2)
           | (Some b, s2) \<Rightarrow> (Some (b, h), s2)))"

definition esp_recursive_create :: "bool \<times> bool \<Rightarrow> ledger \<Rightarrow> (item \<times> item) option \<times> ledger" where
  "esp_recursive_create = esp_mutex_create"

definition freertos_mutex_create :: "bool \<times> bool \<Rightarrow> ledger \<Rightarrow> (item \<times> item) option \<times> ledger" where
  "freertos_mutex_create = esp_mutex_create"

definition freertos_recursive_create :: "bool \<times> bool \<Rightarrow> ledger \<Rightarrow> (item \<times> item) option \<times> ledger" where
  "freertos_recursive_create = esp_mutex_create"

definition mutex_destroy :: "(item \<times> item) option \<Rightarrow> ledger \<Rightarrow> ledger" where
  "mutex_destroy m s = (case m of None \<Rightarrow> s | Some (b, h) \<Rightarrow> release b (release h s))"

text \<open>What the HAL's owner does with them: creations that may fail, and destructions of any of the open handles.\<close>

datatype 'e handle_op = Create 'e | Destroy nat

fun handle_run ::
  "('e \<Rightarrow> ledger \<Rightarrow> (item \<times> item) option \<times> ledger) \<Rightarrow> ((item \<times> item) option \<Rightarrow> ledger \<Rightarrow> ledger) \<Rightarrow> 'e handle_op list \<Rightarrow>
   ledger \<times> (item \<times> item) list \<Rightarrow> ledger \<times> (item \<times> item) list" where
  "handle_run create destroy [] p = p"
| "handle_run create destroy (Create e # ops) (s, hs) =
     (case create e s of
        (None, s') \<Rightarrow> handle_run create destroy ops (s', hs)
      | (Some h, s') \<Rightarrow> handle_run create destroy ops (s', hs @ [h]))"
| "handle_run create destroy (Destroy k # ops) (s, hs) =
     (if k < length hs then handle_run create destroy ops (destroy (Some (hs ! k)) s, take k hs @ drop (Suc k) hs)
      else handle_run create destroy ops (destroy None s, hs))"

definition parts :: "(item \<times> item) list \<Rightarrow> item list" where
  "parts hs = concat (map (\<lambda>(a, b). [a, b]) hs)"

lemma parts_simps [simp]: "parts [] = []" "parts (h # hs) = fst h # snd h # parts hs" "parts (hs @ ks) = parts hs @ parts ks"
  by (auto simp: parts_def split: prod.split)

lemma parts_remove:
  assumes "k < length hs"
  shows "parts hs = parts (take k hs) @ [fst (hs ! k), snd (hs ! k)] @ parts (drop (Suc k) hs)"
  by (subst id_take_nth_drop[OF assms]) simp

locale handles =
  fixes create :: "'e \<Rightarrow> ledger \<Rightarrow> (item \<times> item) option \<times> ledger"
    and destroy :: "(item \<times> item) option \<Rightarrow> ledger \<Rightarrow> ledger"
  assumes create_none: "tidy s \<Longrightarrow> create e s = (None, s') \<Longrightarrow> tidy s' \<and> ld_items s' = ld_items s"
    and create_some: "tidy s \<Longrightarrow> create e s = (Some (a, b), s') \<Longrightarrow>
      tidy s' \<and> ld_items s' = insert a (insert b (ld_items s)) \<and> a \<noteq> b \<and> a \<notin> ld_items s \<and> b \<notin> ld_items s"
    and destroy_none: "destroy None s = s"
    and destroy_some: "tidy s \<Longrightarrow> tidy (destroy (Some (a, b)) s) \<and> ld_items (destroy (Some (a, b)) s) = ld_items s - {a, b}"
begin

text \<open>The system's items are those of before and those of the open handles, without overlap.\<close>

definition accounted :: "item set \<Rightarrow> ledger \<Rightarrow> (item \<times> item) list \<Rightarrow> bool" where
  "accounted base s hs \<longleftrightarrow> tidy s \<and> ld_items s = base \<union> set (parts hs) \<and> distinct (parts hs) \<and> set (parts hs) \<inter> base = {}"

lemma accounted_destroy:
  assumes "accounted base s hs" "k < length hs"
  shows "accounted base (destroy (Some (hs ! k)) s) (take k hs @ drop (Suc k) hs)"
proof -
  obtain a b where ab: "hs ! k = (a, b)" by force
  have split: "parts hs = parts (take k hs) @ [a, b] @ parts (drop (Suc k) hs)" using parts_remove[OF assms(2)] ab by simp
  have acc: "tidy s" "ld_items s = base \<union> set (parts hs)" "distinct (parts hs)" "set (parts hs) \<inter> base = {}"
    using assms(1) by (auto simp: accounted_def)
  have "base \<union> set (parts hs) - {a, b} = base \<union> set (parts (take k hs @ drop (Suc k) hs))"
    using acc(3,4) unfolding split by auto
  moreover have "distinct (parts (take k hs @ drop (Suc k) hs))" "set (parts (take k hs @ drop (Suc k) hs)) \<inter> base = {}"
    using acc(3,4) unfolding split by auto
  ultimately show ?thesis using destroy_some[OF acc(1), of a b] acc(2) by (simp add: accounted_def ab)
qed

lemma accounted_run:
  "accounted base s hs \<Longrightarrow> handle_run create destroy ops (s, hs) = (s', hs') \<Longrightarrow> accounted base s' hs'"
proof (induction ops arbitrary: s hs)
  case (Cons op ops)
  show ?case
  proof (cases op)
    case (Create e)
    show ?thesis
    proof (cases "create e s")
      case (Pair r s1)
      show ?thesis
      proof (cases r)
        case None
        have "accounted base s1 hs" using create_none[of s e s1] Cons.prems(1) Pair None by (simp add: accounted_def)
        then show ?thesis using Cons Create Pair None by simp
      next
        case (Some h)
        obtain a b where "h = (a, b)" by force
        then have "accounted base s1 (hs @ [h])"
          using create_some[of s e a b s1] Cons.prems(1) Pair Some by (auto simp: accounted_def)
        then show ?thesis using Cons Create Pair Some by simp
      qed
    qed
  next
    case (Destroy k)
    then show ?thesis
      using Cons.IH[OF Cons.prems(1)] Cons.IH[OF accounted_destroy[OF Cons.prems(1), of k]] Cons.prems(2)
      by (cases "k < length hs") (simp_all add: destroy_none)
  qed
qed simp

lemma no_leak:
  assumes "tidy s" "handle_run create destroy ops (s, []) = (s', hs)"
  shows "ld_items s' = ld_items s \<union> set (parts hs)" "set (parts hs) \<inter> ld_items s = {}"
  using accounted_run[of "ld_items s" s "[]" ops s' hs] assms by (auto simp: accounted_def)

end

lemmas handle_defs = acquire_def release_def tidy_def posix_mutex_create_def posix_recursive_create_def esp_mutex_create_def
  mutex_destroy_def

lemma item_fresh:
  assumes "\<forall>i\<in>ld_items s. item_number i < ld_next s"
  shows "Block (ld_next s) \<notin> ld_items s" "Object (ld_next s) \<notin> ld_items s"
    "Block (Suc (ld_next s)) \<notin> ld_items s" "Object (Suc (ld_next s)) \<notin> ld_items s"
    "Object (Suc (Suc (ld_next s))) \<notin> ld_items s"
    "i \<in> ld_items s \<Longrightarrow> item_number i < Suc (ld_next s)" "i \<in> ld_items s \<Longrightarrow> item_number i < Suc (Suc (ld_next s))"
    "i \<in> ld_items s \<Longrightarrow> item_number i < Suc (Suc (Suc (ld_next s)))"
  using assms by (fastforce dest: bspec[where x = i] bspec)+

interpretation posix_mutex: handles posix_mutex_create mutex_destroy
  by unfold_locales (auto simp: handle_defs item_fresh split: if_splits)

interpretation posix_recursive: handles posix_recursive_create mutex_destroy
  by unfold_locales (auto simp: handle_defs item_fresh Let_def split: if_splits)

interpretation esp_mutex: handles esp_mutex_create mutex_destroy
  by unfold_locales (auto simp: handle_defs item_fresh split: if_splits)

section \<open>Tasks\<close>

text \<open>The handle is the block; the thread or task is an object that the system frees when the task ends. The arguments
  say whether the block and the thread could be made. The ports for FreeRTOS pass the stack size as 16 bits, and
  the task's function itself, which FreeRTOS does not allow to return (\<open>returned\<close> is what it then does); POSIX
  has a trampoline.\<close>

definition posix_task_spawn :: "bool \<Rightarrow> bool \<Rightarrow> ledger \<Rightarrow> (item \<times> item) option \<times> ledger" where
  "posix_task_spawn alloc made s =
     (case acquire Block alloc s of
        (None, s1) \<Rightarrow> (None, s1)
      | (Some b, s1) \<Rightarrow>
          (case acquire Object made s1 of
             (None, s2) \<Rightarrow> (None, release b s2)
           | (Some t, s2) \<Rightarrow> (Some (b, t), s2)))"

definition rtos_stack :: "nat \<Rightarrow> u16" where
  "rtos_stack words = of_nat words"

definition esp_task_spawn :: "bool \<Rightarrow> (u16 \<Rightarrow> bool) \<Rightarrow> nat \<Rightarrow> ledger \<Rightarrow> (item \<times> item) option \<times> ledger" where
  "esp_task_spawn alloc made words = posix_task_spawn alloc (made (rtos_stack words))"

definition freertos_task_spawn :: "bool \<Rightarrow> (u16 \<Rightarrow> bool) \<Rightarrow> nat \<Rightarrow> ledger \<Rightarrow> (item \<times> item) option \<times> ledger" where
  "freertos_task_spawn = esp_task_spawn"

definition task_ended :: "item \<times> item \<Rightarrow> ledger \<Rightarrow> ledger" where
  "task_ended h = release (snd h)"

definition posix_task :: "('s, unit) prog \<Rightarrow> ('s, unit) prog" where
  "posix_task fn = bnd fn (\<lambda>_. ret ())"

definition rtos_task :: "('s, unit) prog \<Rightarrow> ('s, unit) prog \<Rightarrow> ('s, unit) prog" where
  "rtos_task returned fn = bnd fn (\<lambda>_. returned)"

lemma rtos_stack_size: "unat (rtos_stack words) = words mod 65536"
  by (simp add: rtos_stack_def unat_of_nat)

lemma task_block_stays:
  assumes "tidy s" "posix_task_spawn alloc made s = (Some h, s')"
  shows "ld_items (task_ended h s') = insert (fst h) (ld_items s)" "fst h \<notin> ld_items s"
  using assms by (auto simp: posix_task_spawn_def task_ended_def handle_defs item_fresh split: if_splits)

section \<open>Delays and log lines\<close>

text \<open>\<open>nanosleep\<close> writes what is left into its argument when a signal ends it, here after \<open>e\<close> nanoseconds. The
  result is the time slept; \<open>None\<close>: still asleep.\<close>

datatype nap = Nap_done | Nap_signal nat | Nap_error

definition posix_timespec :: "u32 \<Rightarrow> u32 \<times> u32" where
  "posix_timespec ms = (ms div 1000, (ms mod 1000) * 1000000)"

fun posix_nap :: "nat \<Rightarrow> nap list \<Rightarrow> nat option" where
  "posix_nap left [] = None"
| "posix_nap left (Nap_done # naps) = Some left"
| "posix_nap left (Nap_error # naps) = Some 0"
| "posix_nap left (Nap_signal e # naps) = map_option ((+) (min e left)) (posix_nap (left - e) naps)"

definition posix_delay :: "u32 \<Rightarrow> nap list \<Rightarrow> nat option" where
  "posix_delay ms naps = (case posix_timespec ms of (sec, nsec) \<Rightarrow> posix_nap (unat sec * 10 ^ 9 + unat nsec) naps)"

lemma timespec_value:
  "unat (snd (posix_timespec ms)) < 10 ^ 9" "unat (fst (posix_timespec ms)) * 10 ^ 9 + unat (snd (posix_timespec ms)) = unat ms * 10 ^ 6"
proof -
  have m: "unat ms mod 1000 * 1000000 < 2 ^ 32" using mod_less_divisor[of 1000 "unat ms"] by simp
  have u: "unat (snd (posix_timespec ms)) = unat ms mod 1000 * 1000000"
    using m by (simp add: posix_timespec_def unat_mult_lem[THEN iffD1] unat_mod unat_word_ariths)
  have f: "unat (fst (posix_timespec ms)) = unat ms div 1000" by (simp add: posix_timespec_def unat_div)
  show "unat (snd (posix_timespec ms)) < 10 ^ 9" using u mod_less_divisor[of 1000 "unat ms"] by simp
  define q r where "q = unat ms div 1000" "r = unat ms mod 1000"
  have "q * 1000 + r = unat ms" by (simp add: q_r_def)
  then show "unat (fst (posix_timespec ms)) * 10 ^ 9 + unat (snd (posix_timespec ms)) = unat ms * 10 ^ 6"
    unfolding u f q_r_def[symmetric] by simp
qed

lemma nap_time: "posix_nap left naps = Some t \<Longrightarrow> Nap_error \<notin> set naps \<Longrightarrow> t = left"
  by (induction left naps arbitrary: t rule: posix_nap.induct) auto

text \<open>The log: bytes on the standard output, or a line of the ESP-IDF log, which ends lines itself.\<close>

definition posix_log_write :: "bytes \<Rightarrow> bytes \<Rightarrow> bytes" where
  "posix_log_write line out = out @ line"

definition freertos_log_write :: "bytes \<Rightarrow> bytes \<Rightarrow> bytes" where
  "freertos_log_write line out = out @ line"

definition esp_log_write :: "bytes \<Rightarrow> bytes list \<Rightarrow> bytes list" where
  "esp_log_write line out = out @ [if line \<noteq> [] \<and> last line = 10 then butlast line else line]"

section \<open>Properties\<close>

lemma freertos_millis_value:
  assumes "rate \<noteq> 0"
  shows "unat (freertos_millis rate (of_nat n)) = n mod 2 ^ 32 * (1000 div unat rate)"
proof -
  have "1000 div unat rate < 1001" by (rule le_less_trans[OF div_le_dividend]) simp
  then have "n mod 2 ^ 32 * (1000 div unat rate) < 2 ^ 32 * 1001"
    using mod_less_divisor[of "2 ^ 32" n] by (intro mult_strict_mono') auto
  then have "n mod 2 ^ 32 * (1000 div unat rate) < 2 ^ 64" by simp
  moreover have "unat (1000 div rate) = 1000 div unat rate" by (simp add: unat_div)
  moreover have "unat (ucast w :: u64) = unat w" for w :: u32 
    by (simp add: unsigned_ucast_eq take_bit_nat_eq_self less_le_trans[OF unsigned_less])
  ultimately show ?thesis
    unfolding freertos_millis_def unat_word_ariths by (simp add: unat_of_nat unat_div)
qed

lemma posix_race:
  assumes "0 < a" "a < b"
  shows "unat (fst (posix_millis a (snd (posix_millis b 0)))) = 2 ^ 64 - unat (b - a)"
proof -
  have n: "unat a < unat b" "unat b < 2 ^ 64" using assms(2) unsigned_less[of b] by (simp_all add: word_less_nat_alt)
  have "b \<noteq> 0" using assms(2) by auto
  then have "fst (posix_millis a (snd (posix_millis b 0))) = a - b" by (simp add: posix_millis_def)
  moreover have "unat (a - b) = unat a + 2 ^ 64 - unat b" using n(1) by (simp add: unat_sub_if_size word_size)
  moreover have "unat (b - a) = unat b - unat a" using n(1) by (simp add: unat_sub word_le_nat_alt)
  moreover have "unat a + 2 ^ 64 - unat b = 2 ^ 64 - (unat b - unat a)" using n by linarith
  ultimately show ?thesis by simp
qed

lemma esp_entropy: "entropy (esp_random gen) len = Some (if len = 0 then [] else gen len)"
  by (simp add: entropy_def esp_random_def)

text \<open>
  C36: Over calls that do not overlap, the clocks of the POSIX and ESP-IDF ports never go back while the clocks they read
  do not. On POSIX the first calls of two threads may overlap: when the later reading is stored as the start, the
  call with the earlier one wraps to nearly \<open>2 ^ 64\<close> milliseconds, from which every later call goes back. The clock for
  FreeRTOS does not keep what hal.h asks for: it starts again from zero after \<open>2 ^ 32\<close> ticks, and stands still at zero
  when the tick rate is above 1000.
\<close>

theorem hal_uptime:
  assumes "sorted_wrt (\<le>) cs" "rate \<noteq> 0"
  shows "sorted (readings posix_millis cs 0) \<and> sorted (map esp_millis cs) \<and>
    (\<forall>a b. 0 < a \<and> a < b \<longrightarrow> unat (fst (posix_millis a (snd (posix_millis b 0)))) = 2 ^ 64 - unat (b - a)) \<and>
    unat (freertos_millis rate (of_nat n)) = n mod 2 ^ 32 * (1000 div unat rate)"
proof (intro conjI)
  show "sorted (readings posix_millis cs 0)" by (rule posix_clock.readings_sorted[OF assms(1)]) simp
  have "readings (\<lambda>us s. (esp_millis us, s)) cs s = map esp_millis cs" for s :: unit by (induction cs) auto
  then show "sorted (map esp_millis cs)" using esp_clock.readings_sorted[OF assms(1), of "()"] by simp
  show "\<forall>a b. 0 < a \<and> a < b \<longrightarrow> unat (fst (posix_millis a (snd (posix_millis b 0)))) = 2 ^ 64 - unat (b - a)"
    using posix_race by blast
  show "unat (freertos_millis rate (of_nat n)) = n mod 2 ^ 32 * (1000 div unat rate)" by (rule freertos_millis_value[OF assms(2)])
qed

text \<open>
  Over the ports, the library's random bytes are as many as asked for and all from the port's source, or there are
  none: a device that cannot be opened or delivers less is an exception, and so is every request to the default for
  FreeRTOS.
\<close>

theorem port_entropy:
  "random_bytes (X\<lparr>x_random := \<lambda>n len. entropy (posix_random (dev n len)) len\<rparr>) len s =
     (case dev (hal_calls s) len of
        Some d \<Rightarrow> if len \<le> length d then Ret (take len d) else if len = 0 then Ret [] else Raise (Runtime_error (Msg ''rt_hal_random_bytes failed''))
      | None \<Rightarrow> if len = 0 then Ret [] else Raise (Runtime_error (Msg ''rt_hal_random_bytes failed'')),
      s\<lparr>hal_calls := hal_calls s + 1\<rparr>) \<and>
   random_bytes (X\<lparr>x_random := \<lambda>n len. entropy (esp_random (gen n)) len\<rparr>) len s =
     (Ret (if len = 0 then [] else gen (hal_calls s) len), s\<lparr>hal_calls := hal_calls s + 1\<rparr>) \<and>
   random_bytes (X\<lparr>x_random := \<lambda>n len. entropy freertos_random len\<rparr>) len s =
     (Raise (Runtime_error (Msg ''rt_hal_random_bytes failed'')), s\<lparr>hal_calls := hal_calls s + 1\<rparr>)"
  by (auto simp: random_bytes_def hal_tick_def bnd_def posix_entropy freertos_entropy esp_entropy raise_def ret_def split: option.splits)

text \<open>
  C35: Whatever fails while a port's mutexes are made, nothing of it stays behind, and what was made is given back by
  the destruction: after any sequence of creations and destructions, a port holds what it held before and the parts
  of the open handles.
\<close>

theorem hal_no_leak:
  assumes "tidy s" "handle_run create mutex_destroy ops (s, []) = (s', hs)"
    "create = posix_mutex_create \<or> create = posix_recursive_create \<or> create = esp_mutex_create \<or> create = esp_recursive_create \<or>
      create = freertos_mutex_create \<or> create = freertos_recursive_create"
  shows "ld_items s' = ld_items s \<union> set (parts hs) \<and> set (parts hs) \<inter> ld_items s = {}"
proof -
  from assms(3) consider "create = posix_mutex_create" | "create = posix_recursive_create" | "create = esp_mutex_create"
    by (auto simp: esp_recursive_create_def freertos_mutex_create_def freertos_recursive_create_def)
  then show ?thesis
    using posix_mutex.no_leak[OF assms(1)] posix_recursive.no_leak[OF assms(1)] esp_mutex.no_leak[OF assms(1)] assms(2)
    by cases auto
qed

text \<open>A delay on POSIX sleeps its time in full, however often a signal ends the sleep.\<close>

lemma posix_delay_time:
  assumes "posix_delay ms naps = Some t" "Nap_error \<notin> set naps"
  shows "t = unat ms * 10 ^ 6"
  using assms nap_time timespec_value(2)[of ms] by (auto simp: posix_delay_def split: prod.splits)

section \<open>Witnesses\<close>

theorem hal_uptime_witness:
  "sorted (readings posix_millis [700, 700, 1900] 0) \<and> unat (freertos_millis 1000 (of_nat (2 ^ 32))) = 0"
  using hal_uptime[of "[700, 700, 1900]" 1000 "2 ^ 32"] by simp

theorem hal_no_leak_witness:
  "\<exists>s' hs. handle_run posix_recursive_create mutex_destroy
       [Create (True, False), Create (True, True), Create (False, True), Create (True, True), Destroy 0] (\<lparr>ld_items = {}, ld_next = 0\<rparr>, []) =
     (s', hs) \<and> length hs = 1 \<and> ld_items s' = set (parts hs)"
proof -
  let ?ops = "[Create (True, False), Create (True, True), Create (False, True), Create (True, True), Destroy 0]"
  let ?s = "\<lparr>ld_items = {}, ld_next = 0\<rparr>"
  obtain s' hs where run: "handle_run posix_recursive_create mutex_destroy ?ops (?s, []) = (s', hs)" by force
  have "tidy ?s" by (simp add: tidy_def)
  then have "ld_items s' = set (parts hs)" using hal_no_leak[OF _ run] by simp
  moreover have "length hs = 1" using run by (auto simp: handle_defs)
  ultimately show ?thesis using run by blast
qed

end
