(* ===== verification/RadioPort.thy ===== *)
theory RadioPort
  imports Prelude
begin

text \<open>
  RadioLib's hardware layer on ESP-IDF (firmware/heltec_v3/main/radiolib_esp_idf_hal.cpp): pins, interrupts, the SPI
  bus and busy waiting. RadioLib decides which of these it calls, and when; the drivers' results and the readings of
  the timer are arguments.
\<close>

unbundle bit_operations_syntax

section \<open>Driver state\<close>

text \<open>A pin's direction, level and interrupt (its edge and handler); the SPI bus, the devices added to it and what was
  sent to which device. \<open>rp_device\<close> is \<open>_spi_device\<close>.\<close>

datatype pin_dir = Pin_input | Pin_output

record radio_port =
  rp_device :: "nat option"
  rp_bus :: bool
  rp_devices :: "nat set"
  rp_sent :: "(nat option \<times> bytes) list"
  rp_mode :: "nat \<Rightarrow> pin_dir option"
  rp_level :: "nat \<Rightarrow> bool"
  rp_edge :: "nat \<Rightarrow> nat option"
  rp_handler :: "nat \<Rightarrow> nat option"

definition GPIO_MODE_OUTPUT :: nat where "GPIO_MODE_OUTPUT = 2"

section \<open>Pins\<close>

text \<open>The driver configures every pin whose bit is set in a mask of 64 bits; a pin number of 64 or more would be an
  undefined shift.\<close>

definition gpio_config :: "u64 \<Rightarrow> pin_dir \<Rightarrow> radio_port \<Rightarrow> radio_port" where
  "gpio_config pins m s =
     s\<lparr>rp_mode := (\<lambda>p. if bit pins p then Some m else rp_mode s p), rp_edge := (\<lambda>p. if bit pins p then None else rp_edge s p)\<rparr>"

definition pin_mode :: "nat \<Rightarrow> nat \<Rightarrow> radio_port \<Rightarrow> radio_port" where
  "pin_mode pin m = gpio_config (push_bit pin 1) (if m = GPIO_MODE_OUTPUT then Pin_output else Pin_input)"

definition digital_write :: "nat \<Rightarrow> u32 \<Rightarrow> radio_port \<Rightarrow> radio_port" where
  "digital_write pin v s = s\<lparr>rp_level := (rp_level s)(pin := v \<noteq> 0)\<rparr>"

definition digital_read :: "nat \<Rightarrow> radio_port \<Rightarrow> u32" where
  "digital_read pin s = (if rp_level s pin then 1 else 0)"

definition attach_interrupt :: "nat \<Rightarrow> nat \<Rightarrow> nat \<Rightarrow> radio_port \<Rightarrow> radio_port" where
  "attach_interrupt pin handler edge s =
     s\<lparr>rp_edge := (rp_edge s)(pin := Some edge), rp_handler := (rp_handler s)(pin := Some handler)\<rparr>"

definition detach_interrupt :: "nat \<Rightarrow> radio_port \<Rightarrow> radio_port" where
  "detach_interrupt pin s = s\<lparr>rp_handler := (rp_handler s)(pin := None)\<rparr>"

text \<open>An edge on a pin runs the handler only when both are set.\<close>

definition fires :: "nat \<Rightarrow> radio_port \<Rightarrow> bool" where
  "fires pin s \<longleftrightarrow> rp_edge s pin \<noteq> None \<and> rp_handler s pin \<noteq> None"

lemma pin_bit: "pin < 64 \<Longrightarrow> bit (push_bit pin 1 :: u64) p \<longleftrightarrow> p = pin"
  by (auto simp: bit_simps)

lemma pin_mode_only:
  "pin < 64 \<Longrightarrow> pin_mode pin m s = s\<lparr>rp_mode := (rp_mode s)(pin \<mapsto> if m = GPIO_MODE_OUTPUT then Pin_output else Pin_input),
     rp_edge := (rp_edge s)(pin := None)\<rparr>"
  by (simp add: pin_mode_def gpio_config_def pin_bit fun_upd_def del: push_bit_of_1)

text \<open>A pin's interrupt must be attached after the pin is configured, which clears its edge.\<close>

lemma pin_mode_mutes: "pin < 64 \<Longrightarrow> \<not> fires pin (pin_mode pin m s)" "fires pin (attach_interrupt pin h edge s)"
  by (simp_all add: pin_mode_only fires_def attach_interrupt_def)

section \<open>The SPI bus\<close>

text \<open>\<open>spiBegin\<close>: the results of the two driver calls are not looked at. \<open>bus_ok\<close>: the bus could be set up;
  \<open>handle\<close>: the device the driver added, if it did; \<open>junk\<close>: what the variable held.\<close>

definition spi_begin :: "bool \<Rightarrow> nat option \<Rightarrow> nat option \<Rightarrow> radio_port \<Rightarrow> radio_port" where
  "spi_begin bus_ok handle junk s =
     (if rp_device s \<noteq> None then s
      else
        let s1 = s\<lparr>rp_bus := rp_bus s \<or> bus_ok\<rparr>
        in case handle of
             Some h \<Rightarrow> s1\<lparr>rp_devices := insert h (rp_devices s1), rp_device := Some h\<rparr>
           | None \<Rightarrow> s1\<lparr>rp_device := junk\<rparr>)"

definition spi_transfer :: "bytes \<Rightarrow> bytes \<Rightarrow> radio_port \<Rightarrow> bytes \<times> radio_port" where
  "spi_transfer out answer s = (answer, s\<lparr>rp_sent := rp_sent s @ [(rp_device s, out)]\<rparr>)"

definition spi_end :: "radio_port \<Rightarrow> radio_port" where
  "spi_end s =
     (case rp_device s of
        None \<Rightarrow> s
      | Some h \<Rightarrow> s\<lparr>rp_devices := rp_devices s - {h}, rp_device := None, rp_bus := False\<rparr>)"

datatype spi_op = Spi_begin nat | Spi_end | Spi_transfer bytes bytes

text \<open>What RadioLib does through \<open>init\<close>, \<open>term\<close> and the transfers, with a driver that adds devices.\<close>

fun spi_run :: "spi_op \<Rightarrow> radio_port \<Rightarrow> radio_port" where
  "spi_run (Spi_begin h) s = spi_begin True (Some h) None s"
| "spi_run Spi_end s = spi_end s"
| "spi_run (Spi_transfer out answer) s = snd (spi_transfer out answer s)"

definition spi_ok :: "radio_port \<Rightarrow> bool" where
  "spi_ok s \<longleftrightarrow> rp_devices s = set_option (rp_device s) \<and> (rp_bus s \<longleftrightarrow> rp_device s \<noteq> None)"

lemma spi_run_ok: "spi_ok s \<Longrightarrow> spi_ok (spi_run op s)"
  by (cases op) (auto simp: spi_ok_def spi_begin_def spi_end_def spi_transfer_def Let_def split: option.splits)

section \<open>Busy waiting\<close>

text \<open>\<open>clock n\<close>: the \<open>n\<close>-th reading of the timer. The loop may not end, which is the value \<open>None\<close>.\<close>

partial_function (option) spin :: "(nat \<Rightarrow> int) \<Rightarrow> int \<Rightarrow> int \<Rightarrow> nat \<Rightarrow> nat option" where
  "spin clock start us n = (if clock n - start < us then spin clock start us (Suc n) else Some n)"

definition delay_microseconds :: "(nat \<Rightarrow> int) \<Rightarrow> u32 \<Rightarrow> nat \<Rightarrow> nat option" where
  "delay_microseconds clock us n = spin clock (clock n) (uint us) (Suc n)"

text \<open>The times RadioLib is given have 32 bits; a difference of two is right as long as it fits.\<close>

definition radio_millis :: "u64 \<Rightarrow> u32" where
  "radio_millis us = ucast (us div 1000)"

definition radio_micros :: "u64 \<Rightarrow> u32" where
  "radio_micros us = ucast us"

lemma radio_elapsed: "radio_micros (us + d) - radio_micros us = ucast d"
  unfolding radio_micros_def
  by transfer (simp add: take_bit_eq_mod, subst mod_diff_eq[symmetric], simp add: mod_mod_cancel mod_diff_eq)

definition pulse_in :: int where "pulse_in = 0"

lemma spin_early:
  assumes "spin clock start us n = Some m"
  shows "n \<le> m \<and> us \<le> clock m - start \<and> (\<forall>k. n \<le> k \<and> k < m \<longrightarrow> clock k - start < us)"
  using assms
proof (rule spin.raw_induct[rotated, where P = "\<lambda>clock start us n m. n \<le> m \<and> us \<le> clock m - start \<and> (\<forall>k. n \<le> k \<and> k < m \<longrightarrow> clock k - start < us)"])
  fix spin' and clock :: "nat \<Rightarrow> int" and start us n m
  assume IH: "\<And>clock start us n m. spin' clock start us n = Some m \<Longrightarrow>
      n \<le> m \<and> us \<le> clock m - start \<and> (\<forall>k. n \<le> k \<and> k < m \<longrightarrow> clock k - start < us)"
    and run: "(if clock n - start < us then spin' clock start us (Suc n) else Some n) = Some m"
  show "n \<le> m \<and> us \<le> clock m - start \<and> (\<forall>k. n \<le> k \<and> k < m \<longrightarrow> clock k - start < us)"
  proof (cases "clock n - start < us")
    case True
    then have r: "Suc n \<le> m \<and> us \<le> clock m - start \<and> (\<forall>k. Suc n \<le> k \<and> k < m \<longrightarrow> clock k - start < us)" using IH run by simp
    have "clock k - start < us" if "n \<le> k" "k < m" for k using True r that by (cases "k = n") auto
    then show ?thesis using r by auto
  qed (use run in auto)
qed

lemma spin_ends: "us \<le> clock (n + k) - start \<Longrightarrow> \<exists>m. spin clock start us n = Some m"
proof (induction k arbitrary: n)
  case 0
  then show ?case by (subst spin.simps) simp
next
  case (Suc k)
  then show ?case by (subst spin.simps) auto
qed

section \<open>Properties\<close>

text \<open>
  The busy wait of the radio's port ends exactly when the timer gets as far as the time asked for, with the first
  reading that has; it is never short.
\<close>

theorem delay_exact:
  "(delay_microseconds clock us n = None \<longleftrightarrow> (\<forall>k. clock (Suc n + k) - clock n < uint us)) \<and>
   (\<forall>m. delay_microseconds clock us n = Some m \<longrightarrow> n < m \<and> uint us \<le> clock m - clock n \<and>
      (\<forall>k. n < k \<and> k < m \<longrightarrow> clock k - clock n < uint us))"
proof
  show "\<forall>m. delay_microseconds clock us n = Some m \<longrightarrow> n < m \<and> uint us \<le> clock m - clock n \<and>
      (\<forall>k. n < k \<and> k < m \<longrightarrow> clock k - clock n < uint us)"
    using spin_early[of clock "clock n" "uint us" "Suc n"] unfolding delay_microseconds_def by (auto simp: Suc_le_eq)
  show "delay_microseconds clock us n = None \<longleftrightarrow> (\<forall>k. clock (Suc n + k) - clock n < uint us)"
  proof
    assume "delay_microseconds clock us n = None"
    then show "\<forall>k. clock (Suc n + k) - clock n < uint us"
      using spin_ends[of "uint us" clock "Suc n" _ "clock n"] by (auto simp: delay_microseconds_def not_le[symmetric])
  next
    assume never: "\<forall>k. clock (Suc n + k) - clock n < uint us"
    show "delay_microseconds clock us n = None"
    proof (cases "delay_microseconds clock us n")
      case (Some m)
      then have "Suc n \<le> m" "uint us \<le> clock m - clock n" using spin_early unfolding delay_microseconds_def by blast+
      then show ?thesis using never[rule_format, of "m - Suc n"] by simp
    qed
  qed
qed

text \<open>
  Whatever order RadioLib sets the bus up, ends it and transfers in, at most one device is on it, the bus is up
  exactly while there is one, and a transfer meets it there or none at all.
\<close>

theorem spi_once:
  assumes "spi_ok s"
  shows "spi_ok (fold spi_run ops s)" "finite (rp_devices (fold spi_run ops s)) \<and> card (rp_devices (fold spi_run ops s)) \<le> 1"
    "rp_sent (snd (spi_transfer out answer (fold spi_run ops s))) =
       rp_sent (fold spi_run ops s) @ [(if rp_bus (fold spi_run ops s) then Some (the_elem (rp_devices (fold spi_run ops s))) else None, out)]"
proof -
  show ok: "spi_ok (fold spi_run ops s)" using assms by (induction ops arbitrary: s) (auto intro: spi_run_ok)
  then show "finite (rp_devices (fold spi_run ops s)) \<and> card (rp_devices (fold spi_run ops s)) \<le> 1"
    by (cases "rp_device (fold spi_run ops s)") (simp_all add: spi_ok_def)
  show "rp_sent (snd (spi_transfer out answer (fold spi_run ops s))) =
       rp_sent (fold spi_run ops s) @ [(if rp_bus (fold spi_run ops s) then Some (the_elem (rp_devices (fold spi_run ops s))) else None, out)]"
    using ok by (cases "rp_device (fold spi_run ops s)") (simp_all add: spi_ok_def spi_transfer_def)
qed

section \<open>Witnesses\<close>

definition toy_port :: radio_port where
  "toy_port = \<lparr>rp_device = None, rp_bus = False, rp_devices = {}, rp_sent = [], rp_mode = (\<lambda>_. None), rp_level = (\<lambda>_. False),
     rp_edge = (\<lambda>_. None), rp_handler = (\<lambda>_. None)\<rparr>"

theorem delay_exact_witness:
  "\<exists>m. delay_microseconds (\<lambda>n. 10 * int n) 25 0 = Some m \<and> 25 \<le> 10 * int m"
proof -
  have "\<not> (\<forall>k. 10 * int (Suc 0 + k) - 10 * int 0 < uint (25 :: u32))" by (simp add: not_all) (rule exI[of _ 5], simp)
  then obtain m where m: "delay_microseconds (\<lambda>n. 10 * int n) 25 0 = Some m"
    using delay_exact[of "\<lambda>n. 10 * int n" 25 0] by blast
  then have "uint (25 :: u32) \<le> 10 * int m - 10 * int 0" using delay_exact[of "\<lambda>n. 10 * int n" 25 0] by blast
  then show ?thesis using m by simp
qed

theorem spi_once_witness:
  "spi_ok (fold spi_run [Spi_begin 4, Spi_begin 5, Spi_transfer [1, 2] [0, 0]] toy_port) \<and>
    rp_devices (fold spi_run [Spi_begin 4, Spi_begin 5, Spi_transfer [1, 2] [0, 0]] toy_port) = {4}"
proof
  show "spi_ok (fold spi_run [Spi_begin 4, Spi_begin 5, Spi_transfer [1, 2] [0, 0]] toy_port)"
    by (rule spi_once(1)) (simp add: spi_ok_def toy_port_def)
  show "rp_devices (fold spi_run [Spi_begin 4, Spi_begin 5, Spi_transfer [1, 2] [0, 0]] toy_port) = {4}"
    by (simp add: spi_begin_def spi_transfer_def toy_port_def)
qed

end
