(* ===== verification/Constants.thy ===== *)
theory Constants
  imports Types
begin

text \<open>
  The constants and enumerations of include/rtreticulum/type.h that no code uses yet, at their widths: names carry
  their namespace. Constants with a floating-point value are left out.
\<close>

section \<open>Constants\<close>

definition Persistence_DOCUMENT_MAXSIZE :: u16 where "Persistence_DOCUMENT_MAXSIZE = 8192"
definition Persistence_BUFFER_MAXSIZE :: u16 where "Persistence_BUFFER_MAXSIZE = of_nat (unat Persistence_DOCUMENT_MAXSIZE * 3 div 2)"

definition Fernet_FERNET_OVERHEAD :: u8 where "Fernet_FERNET_OVERHEAD = 48"

definition Reticulum_MAX_QUEUED_ANNOUNCES :: u16 where "Reticulum_MAX_QUEUED_ANNOUNCES = 20"
definition Reticulum_QUEUED_ANNOUNCE_LIFE :: u32 where "Reticulum_QUEUED_ANNOUNCE_LIFE = of_nat (60 * 60 * 24)"
definition Reticulum_ANNOUNCE_CAP :: u8 where "Reticulum_ANNOUNCE_CAP = 2"
definition Reticulum_MINIMUM_BITRATE :: u16 where "Reticulum_MINIMUM_BITRATE = 5"
definition Reticulum_DEFAULT_PER_HOP_TIMEOUT :: u8 where "Reticulum_DEFAULT_PER_HOP_TIMEOUT = 6"
definition Reticulum_HASHLENGTH :: u16 where "Reticulum_HASHLENGTH = 256"
definition Reticulum_RESOURCE_CACHE :: u32 where "Reticulum_RESOURCE_CACHE = of_nat (60 * 60 * 24)"
definition Reticulum_JOB_INTERVAL :: u16 where "Reticulum_JOB_INTERVAL = 60"
definition Reticulum_CLEAN_INTERVAL :: u16 where "Reticulum_CLEAN_INTERVAL = of_nat (60 * 15)"
definition Reticulum_PERSIST_INTERVAL :: u16 where "Reticulum_PERSIST_INTERVAL = of_nat (60 * 60)"
definition Reticulum_GRACIOUS_PERSIST_INTERVAL :: u16 where "Reticulum_GRACIOUS_PERSIST_INTERVAL = of_nat (60 * 5)"
definition Reticulum_FILEPATH_MAXSIZE :: u8 where "Reticulum_FILEPATH_MAXSIZE = 96"

definition Identity_RATCHETSIZE :: u16 where "Identity_RATCHETSIZE = 256"
definition Identity_RATCHET_EXPIRY :: u32 where "Identity_RATCHET_EXPIRY = of_nat (60 * 60 * 24 * 30)"
definition Identity_FERNET_OVERHEAD :: u8 where "Identity_FERNET_OVERHEAD = of_nat (unat Fernet_FERNET_OVERHEAD)"
definition Identity_HASHLENGTH :: u16 where "Identity_HASHLENGTH = of_nat (unat Reticulum_HASHLENGTH)"
definition Identity_DERIVED_KEY_LENGTH_LEGACY :: u16 where "Identity_DERIVED_KEY_LENGTH_LEGACY = of_nat (256 div 8)"

definition Destination_PR_TAG_WINDOW :: u8 where "Destination_PR_TAG_WINDOW = 30"

definition Link_ESTABLISHMENT_TIMEOUT_PER_HOP :: u8 where "Link_ESTABLISHMENT_TIMEOUT_PER_HOP = of_nat (unat Reticulum_DEFAULT_PER_HOP_TIMEOUT)"
definition Link_TRAFFIC_TIMEOUT_MIN_MS :: u8 where "Link_TRAFFIC_TIMEOUT_MIN_MS = 5"
definition Link_TRAFFIC_TIMEOUT_FACTOR :: u8 where "Link_TRAFFIC_TIMEOUT_FACTOR = 6"
definition Link_KEEPALIVE_TIMEOUT_FACTOR :: u8 where "Link_KEEPALIVE_TIMEOUT_FACTOR = 4"
definition Link_STALE_GRACE :: u8 where "Link_STALE_GRACE = 5"
definition Link_KEEPALIVE :: u16 where "Link_KEEPALIVE = 360"
definition Link_STALE_FACTOR :: u8 where "Link_STALE_FACTOR = 2"
definition Link_STALE_TIME :: u16 where "Link_STALE_TIME = of_nat (2 * unat Link_KEEPALIVE)"
definition Link_WATCHDOG_MAX_SLEEP :: u8 where "Link_WATCHDOG_MAX_SLEEP = 5"

definition Packet_PLAIN_MDU :: u16 where "Packet_PLAIN_MDU = of_nat (MDU)"
definition Packet_TIMEOUT_PER_HOP :: u8 where "Packet_TIMEOUT_PER_HOP = of_nat (unat Reticulum_DEFAULT_PER_HOP_TIMEOUT)"

definition PacketReceipt_EXPL_LENGTH :: u16 where "PacketReceipt_EXPL_LENGTH = of_nat (unat Identity_HASHLENGTH div 8 + SIGLENGTH div 8)"
definition PacketReceipt_IMPL_LENGTH :: u16 where "PacketReceipt_IMPL_LENGTH = of_nat (SIGLENGTH div 8)"

definition Transport_PATHFINDER_R :: u8 where "Transport_PATHFINDER_R = 1"
definition Transport_PATHFINDER_G :: u8 where "Transport_PATHFINDER_G = 5"
definition Transport_LOCAL_REBROADCASTS_MAX :: u8 where "Transport_LOCAL_REBROADCASTS_MAX = 2"
definition Transport_PATH_REQUEST_TIMEOUT :: u8 where "Transport_PATH_REQUEST_TIMEOUT = 15"
definition Transport_PATH_REQUEST_RW :: u8 where "Transport_PATH_REQUEST_RW = 2"
definition Transport_PATH_REQUEST_MI :: u8 where "Transport_PATH_REQUEST_MI = 5"
definition Transport_REVERSE_TIMEOUT :: u16 where "Transport_REVERSE_TIMEOUT = of_nat (8 * 60)"
definition Transport_MAX_RECEIPTS :: u16 where "Transport_MAX_RECEIPTS = 20"
definition Transport_MAX_RATE_TIMESTAMPS :: u8 where "Transport_MAX_RATE_TIMESTAMPS = 16"
definition Transport_PERSIST_RANDOM_BLOBS :: u8 where "Transport_PERSIST_RANDOM_BLOBS = 16"
definition Transport_MAX_RANDOM_BLOBS :: u8 where "Transport_MAX_RANDOM_BLOBS = 32"
definition Transport_DESTINATION_TIMEOUT :: u32 where "Transport_DESTINATION_TIMEOUT = of_nat (60 * 60 * 24 * 1)"
definition Transport_PATHFINDER_E :: u32 where "Transport_PATHFINDER_E = of_nat (60 * 60 * 24 * 1)"
definition Transport_AP_PATH_TIME :: u32 where "Transport_AP_PATH_TIME = of_nat (60 * 60 * 6)"
definition Transport_ROAMING_PATH_TIME :: u32 where "Transport_ROAMING_PATH_TIME = of_nat (60 * 60 * 1)"
definition Transport_LOCAL_CLIENT_CACHE_MAXSIZE :: u16 where "Transport_LOCAL_CLIENT_CACHE_MAXSIZE = 512"

definition Resource_WINDOW :: u8 where "Resource_WINDOW = 4"
definition Resource_WINDOW_MIN :: u8 where "Resource_WINDOW_MIN = 1"
definition Resource_WINDOW_MAX_SLOW :: u8 where "Resource_WINDOW_MAX_SLOW = 10"
definition Resource_WINDOW_MAX_FAST :: u8 where "Resource_WINDOW_MAX_FAST = 75"
definition Resource_WINDOW_MAX :: u8 where "Resource_WINDOW_MAX = of_nat (unat Resource_WINDOW_MAX_FAST)"
definition Resource_FAST_RATE_THRESHOLD :: u8 where "Resource_FAST_RATE_THRESHOLD = of_nat (unat Resource_WINDOW_MAX_SLOW - unat Resource_WINDOW - 2)"
definition Resource_RATE_FAST :: u16 where "Resource_RATE_FAST = of_nat ((50 * 1000) div 8)"
definition Resource_WINDOW_FLEXIBILITY :: u8 where "Resource_WINDOW_FLEXIBILITY = 4"
definition Resource_MAPHASH_LEN :: u8 where "Resource_MAPHASH_LEN = 4"
definition Resource_SDU :: u16 where "Resource_SDU = of_nat (MDU)"
definition Resource_RANDOM_HASH_SIZE :: u8 where "Resource_RANDOM_HASH_SIZE = 4"
definition Resource_MAX_EFFICIENT_SIZE :: u32 where "Resource_MAX_EFFICIENT_SIZE = of_nat (16 * 1024 * 1024 - 1)"
definition Resource_RESPONSE_MAX_GRACE_TIME :: u8 where "Resource_RESPONSE_MAX_GRACE_TIME = 10"
definition Resource_AUTO_COMPRESS_MAX_SIZE :: u32 where "Resource_AUTO_COMPRESS_MAX_SIZE = of_nat (unat Resource_MAX_EFFICIENT_SIZE)"
definition Resource_PART_TIMEOUT_FACTOR :: u8 where "Resource_PART_TIMEOUT_FACTOR = 4"
definition Resource_PART_TIMEOUT_FACTOR_AFTER_RTT :: u8 where "Resource_PART_TIMEOUT_FACTOR_AFTER_RTT = 2"
definition Resource_MAX_RETRIES :: u8 where "Resource_MAX_RETRIES = 8"
definition Resource_MAX_ADV_RETRIES :: u8 where "Resource_MAX_ADV_RETRIES = 4"
definition Resource_SENDER_GRACE_TIME :: u8 where "Resource_SENDER_GRACE_TIME = 10"
definition Resource_WATCHDOG_MAX_SLEEP :: u8 where "Resource_WATCHDOG_MAX_SLEEP = 1"
definition Resource_HASHMAP_IS_NOT_EXHAUSTED :: u8 where "Resource_HASHMAP_IS_NOT_EXHAUSTED = 0x00"
definition Resource_HASHMAP_IS_EXHAUSTED :: u8 where "Resource_HASHMAP_IS_EXHAUSTED = 0xFF"

definition Advertisement_OVERHEAD :: u8 where "Advertisement_OVERHEAD = 134"
definition Advertisement_HASHMAP_MAX_LEN :: u16 where "Advertisement_HASHMAP_MAX_LEN = of_nat ((LINK_MDU - unat Advertisement_OVERHEAD) div unat Resource_MAPHASH_LEN)"
definition Advertisement_COLLISION_GUARD_SIZE :: u16 where "Advertisement_COLLISION_GUARD_SIZE = of_nat (2 * unat Resource_WINDOW_MAX + unat Advertisement_HASHMAP_MAX_LEN)"

lemmas constant_defs =
  Persistence_DOCUMENT_MAXSIZE_def Persistence_BUFFER_MAXSIZE_def Fernet_FERNET_OVERHEAD_def Reticulum_MAX_QUEUED_ANNOUNCES_def Reticulum_QUEUED_ANNOUNCE_LIFE_def
  Reticulum_ANNOUNCE_CAP_def Reticulum_MINIMUM_BITRATE_def Reticulum_DEFAULT_PER_HOP_TIMEOUT_def Reticulum_HASHLENGTH_def Reticulum_RESOURCE_CACHE_def
  Reticulum_JOB_INTERVAL_def Reticulum_CLEAN_INTERVAL_def Reticulum_PERSIST_INTERVAL_def Reticulum_GRACIOUS_PERSIST_INTERVAL_def Reticulum_FILEPATH_MAXSIZE_def
  Identity_RATCHETSIZE_def Identity_RATCHET_EXPIRY_def Identity_FERNET_OVERHEAD_def Identity_HASHLENGTH_def Identity_DERIVED_KEY_LENGTH_LEGACY_def
  Destination_PR_TAG_WINDOW_def Link_ESTABLISHMENT_TIMEOUT_PER_HOP_def Link_TRAFFIC_TIMEOUT_MIN_MS_def Link_TRAFFIC_TIMEOUT_FACTOR_def Link_KEEPALIVE_TIMEOUT_FACTOR_def
  Link_STALE_GRACE_def Link_KEEPALIVE_def Link_STALE_FACTOR_def Link_STALE_TIME_def Link_WATCHDOG_MAX_SLEEP_def
  Packet_PLAIN_MDU_def Packet_TIMEOUT_PER_HOP_def PacketReceipt_EXPL_LENGTH_def PacketReceipt_IMPL_LENGTH_def Transport_PATHFINDER_R_def
  Transport_PATHFINDER_G_def Transport_LOCAL_REBROADCASTS_MAX_def Transport_PATH_REQUEST_TIMEOUT_def Transport_PATH_REQUEST_RW_def Transport_PATH_REQUEST_MI_def
  Transport_REVERSE_TIMEOUT_def Transport_MAX_RECEIPTS_def Transport_MAX_RATE_TIMESTAMPS_def Transport_PERSIST_RANDOM_BLOBS_def Transport_MAX_RANDOM_BLOBS_def
  Transport_DESTINATION_TIMEOUT_def Transport_PATHFINDER_E_def Transport_AP_PATH_TIME_def Transport_ROAMING_PATH_TIME_def Transport_LOCAL_CLIENT_CACHE_MAXSIZE_def
  Resource_WINDOW_def Resource_WINDOW_MIN_def Resource_WINDOW_MAX_SLOW_def Resource_WINDOW_MAX_FAST_def Resource_WINDOW_MAX_def
  Resource_FAST_RATE_THRESHOLD_def Resource_RATE_FAST_def Resource_WINDOW_FLEXIBILITY_def Resource_MAPHASH_LEN_def Resource_SDU_def
  Resource_RANDOM_HASH_SIZE_def Resource_MAX_EFFICIENT_SIZE_def Resource_RESPONSE_MAX_GRACE_TIME_def Resource_AUTO_COMPRESS_MAX_SIZE_def Resource_PART_TIMEOUT_FACTOR_def
  Resource_PART_TIMEOUT_FACTOR_AFTER_RTT_def Resource_MAX_RETRIES_def Resource_MAX_ADV_RETRIES_def Resource_SENDER_GRACE_TIME_def Resource_WATCHDOG_MAX_SLEEP_def
  Resource_HASHMAP_IS_NOT_EXHAUSTED_def Resource_HASHMAP_IS_EXHAUSTED_def Advertisement_OVERHEAD_def Advertisement_HASHMAP_MAX_LEN_def Advertisement_COLLISION_GUARD_SIZE_def

text \<open>None of the computed ones is cut to its width, and they have the values the comments give.\<close>

lemma constant_values:
  "unat Persistence_BUFFER_MAXSIZE = 12288"
  "unat Reticulum_QUEUED_ANNOUNCE_LIFE = 86400"
  "unat Reticulum_RESOURCE_CACHE = 86400"
  "unat Reticulum_CLEAN_INTERVAL = 900"
  "unat Reticulum_PERSIST_INTERVAL = 3600"
  "unat Reticulum_GRACIOUS_PERSIST_INTERVAL = 300"
  "unat Identity_RATCHET_EXPIRY = 2592000"
  "unat Identity_FERNET_OVERHEAD = 48"
  "unat Identity_HASHLENGTH = 256"
  "unat Identity_DERIVED_KEY_LENGTH_LEGACY = 32"
  "unat Link_ESTABLISHMENT_TIMEOUT_PER_HOP = 6"
  "unat Link_STALE_TIME = 720"
  "unat Packet_PLAIN_MDU = 464"
  "unat Packet_TIMEOUT_PER_HOP = 6"
  "unat PacketReceipt_EXPL_LENGTH = 96"
  "unat PacketReceipt_IMPL_LENGTH = 64"
  "unat Transport_REVERSE_TIMEOUT = 480"
  "unat Transport_DESTINATION_TIMEOUT = 86400"
  "unat Transport_PATHFINDER_E = 86400"
  "unat Transport_AP_PATH_TIME = 21600"
  "unat Transport_ROAMING_PATH_TIME = 3600"
  "unat Resource_WINDOW_MAX = 75"
  "unat Resource_FAST_RATE_THRESHOLD = 4"
  "unat Resource_RATE_FAST = 6250"
  "unat Resource_SDU = 464"
  "unat Resource_MAX_EFFICIENT_SIZE = 16777215"
  "unat Resource_AUTO_COMPRESS_MAX_SIZE = 16777215"
  "unat Advertisement_HASHMAP_MAX_LEN = 74"
  "unat Advertisement_COLLISION_GUARD_SIZE = 224"
  by (simp_all add: constant_defs size_consts)

section \<open>Enumerations\<close>

datatype proof_strategy =
    PROVE_NONE | PROVE_APP | PROVE_ALL

fun proof_strategy_num :: "proof_strategy \<Rightarrow> u8" where
  "proof_strategy_num PROVE_NONE = 0x21"
| "proof_strategy_num PROVE_APP = 0x22"
| "proof_strategy_num PROVE_ALL = 0x23"

datatype request_policy =
    ALLOW_NONE | ALLOW_ALL | ALLOW_LIST

fun request_policy_num :: "request_policy \<Rightarrow> u8" where
  "request_policy_num ALLOW_NONE = 0x00"
| "request_policy_num ALLOW_ALL = 0x01"
| "request_policy_num ALLOW_LIST = 0x02"

datatype teardown_reason =
    TEARDOWN_NONE | TIMEOUT | INITIATOR_CLOSED | DESTINATION_CLOSED

fun teardown_reason_num :: "teardown_reason \<Rightarrow> u8" where
  "teardown_reason_num TEARDOWN_NONE = 0x00"
| "teardown_reason_num TIMEOUT = 0x01"
| "teardown_reason_num INITIATOR_CLOSED = 0x02"
| "teardown_reason_num DESTINATION_CLOSED = 0x03"

datatype resource_strategy =
    ACCEPT_NONE | ACCEPT_APP | ACCEPT_ALL

fun resource_strategy_num :: "resource_strategy \<Rightarrow> u8" where
  "resource_strategy_num ACCEPT_NONE = 0x00"
| "resource_strategy_num ACCEPT_APP = 0x01"
| "resource_strategy_num ACCEPT_ALL = 0x02"

datatype request_status =
    Req_FAILED | Req_SENT | Req_DELIVERED | Req_RECEIVING | Req_READY

fun request_status_num :: "request_status \<Rightarrow> u8" where
  "request_status_num Req_FAILED = 0x00"
| "request_status_num Req_SENT = 0x01"
| "request_status_num Req_DELIVERED = 0x02"
| "request_status_num Req_RECEIVING = 0x03"
| "request_status_num Req_READY = 0x04"

datatype iface_mode =
    Iface_MODE_NONE | Iface_MODE_FULL | Iface_MODE_POINT_TO_POINT | Iface_MODE_ACCESS_POINT | Iface_MODE_ROAMING | Iface_MODE_BOUNDARY
  | Iface_MODE_GATEWAY

fun iface_mode_num :: "iface_mode \<Rightarrow> u8" where
  "iface_mode_num Iface_MODE_NONE = 0x00"
| "iface_mode_num Iface_MODE_FULL = 0x01"
| "iface_mode_num Iface_MODE_POINT_TO_POINT = 0x04"
| "iface_mode_num Iface_MODE_ACCESS_POINT = 0x08"
| "iface_mode_num Iface_MODE_ROAMING = 0x10"
| "iface_mode_num Iface_MODE_BOUNDARY = 0x20"
| "iface_mode_num Iface_MODE_GATEWAY = 0x40"

datatype receipt_status =
    Rcpt_FAILED | Rcpt_SENT | Rcpt_DELIVERED | Rcpt_CULLED

fun receipt_status_num :: "receipt_status \<Rightarrow> u8" where
  "receipt_status_num Rcpt_FAILED = 0x00"
| "receipt_status_num Rcpt_SENT = 0x01"
| "receipt_status_num Rcpt_DELIVERED = 0x02"
| "receipt_status_num Rcpt_CULLED = 0xFF"

datatype reachability =
    REACHABILITY_UNREACHABLE | REACHABILITY_DIRECT | REACHABILITY_TRANSPORT

fun reachability_num :: "reachability \<Rightarrow> u8" where
  "reachability_num REACHABILITY_UNREACHABLE = 0x00"
| "reachability_num REACHABILITY_DIRECT = 0x01"
| "reachability_num REACHABILITY_TRANSPORT = 0x02"

datatype path_state =
    STATE_UNKNOWN | STATE_UNRESPONSIVE | STATE_RESPONSIVE

fun path_state_num :: "path_state \<Rightarrow> u8" where
  "path_state_num STATE_UNKNOWN = 0x00"
| "path_state_num STATE_UNRESPONSIVE = 0x01"
| "path_state_num STATE_RESPONSIVE = 0x02"

datatype resource_phase =
    Res_NONE | Res_QUEUED | Res_ADVERTISED | Res_TRANSFERRING | Res_AWAITING_PROOF | Res_ASSEMBLING
  | Res_COMPLETE | Res_FAILED | Res_CORRUPT

fun resource_phase_num :: "resource_phase \<Rightarrow> u8" where
  "resource_phase_num Res_NONE = 0x00"
| "resource_phase_num Res_QUEUED = 0x01"
| "resource_phase_num Res_ADVERTISED = 0x02"
| "resource_phase_num Res_TRANSFERRING = 0x03"
| "resource_phase_num Res_AWAITING_PROOF = 0x04"
| "resource_phase_num Res_ASSEMBLING = 0x05"
| "resource_phase_num Res_COMPLETE = 0x06"
| "resource_phase_num Res_FAILED = 0x07"
| "resource_phase_num Res_CORRUPT = 0x08"

datatype context_type =
    Ctx_CONTEXT_NONE | Ctx_RESOURCE | Ctx_RESOURCE_ADV | Ctx_RESOURCE_REQ | Ctx_RESOURCE_HMU | Ctx_RESOURCE_PRF
  | Ctx_RESOURCE_ICL | Ctx_RESOURCE_RCL | Ctx_CACHE_REQUEST | Ctx_REQUEST | Ctx_RESPONSE | Ctx_PATH_RESPONSE
  | Ctx_COMMAND | Ctx_COMMAND_STATUS | Ctx_CHANNEL | Ctx_KEEPALIVE | Ctx_LINKIDENTIFY | Ctx_LINKCLOSE
  | Ctx_LINKPROOF | Ctx_LRRTT | Ctx_LRPROOF

fun context_type_num :: "context_type \<Rightarrow> u8" where
  "context_type_num Ctx_CONTEXT_NONE = 0x00"
| "context_type_num Ctx_RESOURCE = 0x01"
| "context_type_num Ctx_RESOURCE_ADV = 0x02"
| "context_type_num Ctx_RESOURCE_REQ = 0x03"
| "context_type_num Ctx_RESOURCE_HMU = 0x04"
| "context_type_num Ctx_RESOURCE_PRF = 0x05"
| "context_type_num Ctx_RESOURCE_ICL = 0x06"
| "context_type_num Ctx_RESOURCE_RCL = 0x07"
| "context_type_num Ctx_CACHE_REQUEST = 0x08"
| "context_type_num Ctx_REQUEST = 0x09"
| "context_type_num Ctx_RESPONSE = 0x0A"
| "context_type_num Ctx_PATH_RESPONSE = 0x0B"
| "context_type_num Ctx_COMMAND = 0x0C"
| "context_type_num Ctx_COMMAND_STATUS = 0x0D"
| "context_type_num Ctx_CHANNEL = 0x0E"
| "context_type_num Ctx_KEEPALIVE = 0xFA"
| "context_type_num Ctx_LINKIDENTIFY = 0xFB"
| "context_type_num Ctx_LINKCLOSE = 0xFC"
| "context_type_num Ctx_LINKPROOF = 0xFD"
| "context_type_num Ctx_LRRTT = 0xFE"
| "context_type_num Ctx_LRPROOF = 0xFF"

text \<open>No two constructors of an enumeration share a number.\<close>

lemma enumeration_codes:
  "proof_strategy_num x0 = proof_strategy_num y0 \<longleftrightarrow> x0 = y0"
  "request_policy_num x1 = request_policy_num y1 \<longleftrightarrow> x1 = y1"
  "teardown_reason_num x2 = teardown_reason_num y2 \<longleftrightarrow> x2 = y2"
  "resource_strategy_num x3 = resource_strategy_num y3 \<longleftrightarrow> x3 = y3"
  "request_status_num x4 = request_status_num y4 \<longleftrightarrow> x4 = y4"
  "iface_mode_num x5 = iface_mode_num y5 \<longleftrightarrow> x5 = y5"
  "receipt_status_num x6 = receipt_status_num y6 \<longleftrightarrow> x6 = y6"
  "reachability_num x7 = reachability_num y7 \<longleftrightarrow> x7 = y7"
  "path_state_num x8 = path_state_num y8 \<longleftrightarrow> x8 = y8"
  "resource_phase_num x9 = resource_phase_num y9 \<longleftrightarrow> x9 = y9"
  by ((cases x0; cases y0; simp),
    (cases x1; cases y1; simp),
    (cases x2; cases y2; simp),
    (cases x3; cases y3; simp),
    (cases x4; cases y4; simp),
    (cases x5; cases y5; simp),
    (cases x6; cases y6; simp),
    (cases x7; cases y7; simp),
    (cases x8; cases y8; simp),
    (cases x9; cases y9; simp))

lemma context_codes: "context_type_num x = context_type_num y \<longleftrightarrow> x = y"
  by (cases x; cases y; simp)

text \<open>The contexts that the code uses have the same bytes here.\<close>

lemma contexts_used:
  "context_type_num Ctx_CONTEXT_NONE = CONTEXT_NONE" "context_type_num Ctx_RESOURCE = RESOURCE"
  "context_type_num Ctx_RESOURCE_ADV = RESOURCE_ADV" "context_type_num Ctx_REQUEST = REQUEST"
  "context_type_num Ctx_RESPONSE = RESPONSE" "context_type_num Ctx_KEEPALIVE = KEEPALIVE"
  "context_type_num Ctx_LINKCLOSE = LINKCLOSE" "context_type_num Ctx_LRRTT = LRRTT" "context_type_num Ctx_LRPROOF = LRPROOF"
  by (simp_all add: CONTEXT_NONE_def RESOURCE_def RESOURCE_ADV_def REQUEST_def RESPONSE_def KEEPALIVE_def LINKCLOSE_def
    LRRTT_def LRPROOF_def)

end
