(* ===== verification/Log.thy ===== *)
theory Log
  imports Decimal
begin

text \<open>
  The log (src/log.cpp, include/rtreticulum/log.h): levels, time stamps, lines. Messages are bytes; the
  clock is an argument (milliseconds since start), and the lines handed to the port are kept, as are the
  calls of the callback, which is named by a number.
\<close>

section \<open>Levels\<close>

datatype log_level =
    LOG_NONE | LOG_CRITICAL | LOG_ERROR | LOG_WARNING | LOG_NOTICE | LOG_INFO | LOG_VERBOSE | LOG_DEBUG | LOG_TRACE | LOG_MEM

fun level_num :: "log_level \<Rightarrow> nat" where
  "level_num LOG_NONE = 0"
| "level_num LOG_CRITICAL = 1"
| "level_num LOG_ERROR = 2"
| "level_num LOG_WARNING = 3"
| "level_num LOG_NOTICE = 4"
| "level_num LOG_INFO = 5"
| "level_num LOG_VERBOSE = 6"
| "level_num LOG_DEBUG = 7"
| "level_num LOG_TRACE = 8"
| "level_num LOG_MEM = 9"

lemma level_num_inj: "level_num a = level_num b \<Longrightarrow> a = b"
  by (cases a; cases b) simp_all

instantiation log_level :: linorder
begin

definition less_eq_log_level :: "log_level \<Rightarrow> log_level \<Rightarrow> bool" where
  "less_eq_log_level a b \<longleftrightarrow> level_num a \<le> level_num b"

definition less_log_level :: "log_level \<Rightarrow> log_level \<Rightarrow> bool" where
  "less_log_level a b \<longleftrightarrow> level_num a < level_num b"

instance
  by standard (auto simp: less_eq_log_level_def less_log_level_def level_num_inj)

end

fun level_name :: "log_level \<Rightarrow> string" where
  "level_name LOG_CRITICAL = ''!!!''"
| "level_name LOG_ERROR = ''ERR''"
| "level_name LOG_WARNING = ''WRN''"
| "level_name LOG_NOTICE = ''NOT''"
| "level_name LOG_INFO = ''INF''"
| "level_name LOG_VERBOSE = ''VRB''"
| "level_name LOG_DEBUG = ''DBG''"
| "level_name LOG_TRACE = ''---''"
| "level_name LOG_MEM = ''...''"
| "level_name LOG_NONE = ''   ''"

section \<open>State and lines\<close>

record log_state =
  lg_level :: log_level
  lg_callback :: "nat option"
  lg_calls :: "(nat \<times> bytes \<times> log_level) list"
  lg_written :: "bytes list"

text \<open>The time stamp, before it is cut to the 24 bytes of its buffer; \<open>(unsigned)\<close> cuts to 32 bits.\<close>

definition time_text :: "nat \<Rightarrow> bytes" where
  "time_text t =
     (if t < 86400000
      then dec02 (t div 3600000 mod 2 ^ 32) @ str_bytes '':'' @ dec02 (t div 60000 mod 60) @ str_bytes '':'' @
        dec02 (t div 1000 mod 60) @ str_bytes ''.'' @ dec03 (t mod 1000)
      else dec02 (t div 86400000 mod 2 ^ 32) @ str_bytes ''-'' @ dec02 (t div 3600000 mod 24) @ str_bytes '':'' @
        dec02 (t div 60000 mod 60) @ str_bytes '':'' @ dec02 (t div 1000 mod 60) @ str_bytes ''.'' @ dec03 (t mod 1000))"

definition time_string :: "nat \<Rightarrow> bytes" where
  "time_string t = take (24 - 1) (time_text t)"

definition RNS_LOG_BUFFER_SIZE :: nat where "RNS_LOG_BUFFER_SIZE = 512"

definition set_loglevel :: "log_level \<Rightarrow> ('a log_state_scheme, unit) prog" where
  "set_loglevel l = modify (\<lambda>s. s\<lparr>lg_level := l\<rparr>)"

definition set_log_callback :: "nat option \<Rightarrow> ('a log_state_scheme, unit) prog" where
  "set_log_callback cb = modify (\<lambda>s. s\<lparr>lg_callback := cb\<rparr>)"

definition log_write :: "bytes \<Rightarrow> ('a log_state_scheme, unit) prog" where
  "log_write line = modify (\<lambda>s. s\<lparr>lg_written := lg_written s @ [line]\<rparr>)"

definition call_back :: "nat \<Rightarrow> bytes \<Rightarrow> log_level \<Rightarrow> ('a log_state_scheme, unit) prog" where
  "call_back c msg l = modify (\<lambda>s. s\<lparr>lg_calls := lg_calls s @ [(c, msg, l)]\<rparr>)"

definition do_log :: "nat \<Rightarrow> log_level \<Rightarrow> bytes \<Rightarrow> ('a log_state_scheme, unit) prog" where
  "do_log t level msg =
     bnd (gets (\<lambda>s. (lg_level s, lg_callback s))) (\<lambda>(g_level, g_on_log).
     if level > g_level then ret ()
     else case g_on_log of
        Some c \<Rightarrow> call_back c msg level
      | None \<Rightarrow>
          let full = time_string t @ str_bytes '' ['' @ str_bytes (level_name level) @ str_bytes ''] '' @ c_str msg @ [10];
              line = take (RNS_LOG_BUFFER_SIZE - 1) full; n = length full;
              n = (if n \<ge> RNS_LOG_BUFFER_SIZE then RNS_LOG_BUFFER_SIZE - 1 else n) in
          log_write (take n line))"

definition do_head_log :: "nat \<Rightarrow> log_level \<Rightarrow> bytes \<Rightarrow> ('a log_state_scheme, unit) prog" where
  "do_head_log t level msg =
     bnd (gets (\<lambda>s. (lg_level s, lg_callback s))) (\<lambda>(g_level, g_on_log).
     if level > g_level then ret ()
     else case g_on_log of
        Some c \<Rightarrow> bnd (call_back c [] level) (\<lambda>_. call_back c msg level)
      | None \<Rightarrow> bnd (log_write [10]) (\<lambda>_. do_log t level msg))"

text \<open>The formatting front ends cut the message to the same buffer first.\<close>

definition logf :: "nat \<Rightarrow> log_level \<Rightarrow> bytes \<Rightarrow> ('a log_state_scheme, unit) prog" where
  "logf t level text = do_log t level (take (RNS_LOG_BUFFER_SIZE - 1) text)"

definition headf :: "nat \<Rightarrow> log_level \<Rightarrow> bytes \<Rightarrow> ('a log_state_scheme, unit) prog" where
  "headf t level text = do_head_log t level (take (RNS_LOG_BUFFER_SIZE - 1) text)"

section \<open>Properties\<close>

lemma time_length: "length (time_text t) \<le> 23"
proof (cases "t < 86400000")
  case True
  then have "t div 3600000 < 24" by (simp add: less_mult_imp_div_less)
  then show ?thesis using True by (simp add: time_text_def length_dec02 length_dec03)
next
  case False
  have "t div 86400000 mod 2 ^ 32 < (2::nat) ^ 32" by (rule mod_less_divisor) simp
  also have "\<dots> \<le> 10 ^ Suc 9" by simp
  finally have "length (dec (t div 86400000 mod 2 ^ 32)) \<le> Suc 9" by (rule length_dec)
  moreover have le: "length (dec02 n) \<le> max 2 (length (dec n))" for n
    by (cases "n < 10") (simp_all add: dec02_def dec_run)
  ultimately have "length (dec02 (t div 86400000 mod 2 ^ 32)) \<le> 10"
    by (intro order_trans[OF le] max.boundedI) simp_all
  then show ?thesis using False by (simp add: time_text_def length_dec02 length_dec03)
qed

text \<open>The line a message gives at a time, before it is cut to the buffer.\<close>

definition log_text :: "nat \<Rightarrow> log_level \<Rightarrow> bytes \<Rightarrow> bytes" where
  "log_text t level msg =
     time_text t @ str_bytes '' ['' @ str_bytes (level_name level) @ str_bytes ''] '' @ c_str msg @ [10]"

lemma do_log_run:
  "do_log t level msg s =
     (Ret (), if level > lg_level s then s
       else case lg_callback s of
         Some c \<Rightarrow> s\<lparr>lg_calls := lg_calls s @ [(c, msg, level)]\<rparr>
       | None \<Rightarrow> s\<lparr>lg_written := lg_written s @ [take 511 (log_text t level msg)]\<rparr>)"
  using time_length[of t]
  by (auto simp: do_log_def bnd_gets call_back_def log_write_def log_text_def time_string_def RNS_LOG_BUFFER_SIZE_def Let_def
      min_def split: option.split)

text \<open>A head adds an empty line in front, or an empty message for a callback.\<close>

theorem log_lines:
  "do_log t level msg s =
     (Ret (), if level > lg_level s then s
       else case lg_callback s of
         Some c \<Rightarrow> s\<lparr>lg_calls := lg_calls s @ [(c, msg, level)]\<rparr>
       | None \<Rightarrow> s\<lparr>lg_written := lg_written s @ [take 511 (log_text t level msg)]\<rparr>) \<and>
   do_head_log t level msg s =
     (Ret (), if level > lg_level s then s
       else case lg_callback s of
         Some c \<Rightarrow> s\<lparr>lg_calls := lg_calls s @ [(c, [], level), (c, msg, level)]\<rparr>
       | None \<Rightarrow> s\<lparr>lg_written := lg_written s @ [[10], take 511 (log_text t level msg)]\<rparr>)"
  by (auto simp: do_log_run do_head_log_def bnd_gets bnd_modify call_back_def log_write_def split: option.split)

end
