(* ===== verification/Memory.thy ===== *)
theory Memory
  imports Prelude
begin

text \<open>
  The memory pool (src/memory.cpp, include/rtreticulum/memory.h): the pool's lazy set-up, allocation from TLSF
  or, when that could not be set up, from \<open>malloc\<close>, the statistics, the global operators and the container
  allocator. TLSF and \<open>malloc\<close> are external: what they return is an argument. Sizes are natural numbers below
  the word size of the target, counters have their widths.
\<close>

section \<open>The pool\<close>

text \<open>A block knows which allocator made it; \<open>pl_freed\<close> lists the calls that free, with the allocator they go to.\<close>

datatype source = Tlsf | Libc

type_synonym block = "source \<times> nat"

record pool =
  pl_init :: bool
  pl_size :: nat
  pl_tlsf :: bool
  pl_alloc_fault :: u32
  pl_free_fault :: u32
  pl_freed :: "(source \<times> block) list"

text \<open>What the calls of \<open>pool_init\<close> give: memory for the pool, and a TLSF instance in it; \<open>align\<close> is a power
  of two.\<close>

definition pool_init :: "bool \<Rightarrow> bool \<Rightarrow> nat \<Rightarrow> (pool, unit) prog" where
  "pool_init raw created align =
     bnd (gets pl_init) (\<lambda>ready.
     if ready then ret ()
     else
       bnd (modify (\<lambda>s. s\<lparr>pl_init := True\<rparr>)) (\<lambda>_.
       bnd (modify (\<lambda>s. if pl_size s = 0 then s\<lparr>pl_size := 1024 * 1024\<rparr> else s)) (\<lambda>_.
       bnd (modify (\<lambda>s. s\<lparr>pl_size := pl_size s - pl_size s mod align\<rparr>)) (\<lambda>_.
       if \<not> raw then ret ()
       else modify (\<lambda>s. s\<lparr>pl_tlsf := created\<rparr>)))))"

text \<open>\<open>got\<close>: the address the chosen allocator returns, none for a null pointer.\<close>

definition pool_malloc :: "bool \<Rightarrow> bool \<Rightarrow> nat \<Rightarrow> nat option \<Rightarrow> nat \<Rightarrow> (pool, block option) prog" where
  "pool_malloc raw created align got room =
     (if room = 0 then ret None
      else
        bnd (pool_init raw created align) (\<lambda>_.
        bnd (gets pl_tlsf) (\<lambda>tlsf.
        if tlsf then ret (map_option (Pair Tlsf) got)
        else
          bnd (modify (\<lambda>s. s\<lparr>pl_alloc_fault := pl_alloc_fault s + 1\<rparr>)) (\<lambda>_.
          ret (map_option (Pair Libc) got)))))"

definition pool_free :: "block option \<Rightarrow> (pool, unit) prog" where
  "pool_free p =
     (case p of
        None \<Rightarrow> ret ()
      | Some b \<Rightarrow>
          bnd (gets pl_tlsf) (\<lambda>tlsf.
          if tlsf then modify (\<lambda>s. s\<lparr>pl_freed := pl_freed s @ [(Tlsf, b)]\<rparr>)
          else modify (\<lambda>s. s\<lparr>pl_free_fault := pl_free_fault s + 1, pl_freed := pl_freed s @ [(Libc, b)]\<rparr>)))"

section \<open>Statistics\<close>

record allocator_info =
  ai_allocs :: u32
  ai_frees :: u32
  ai_total :: u64
  ai_min :: nat
  ai_max :: nat

definition no_info :: allocator_info where
  "no_info = \<lparr>ai_allocs = 0, ai_frees = 0, ai_total = 0, ai_min = 0, ai_max = 0\<rparr>"

definition count_alloc :: "nat \<Rightarrow> allocator_info \<Rightarrow> allocator_info" where
  "count_alloc n i =
     (let i = i\<lparr>ai_allocs := ai_allocs i + 1, ai_total := ai_total i + of_nat n\<rparr>;
          i = (if n < ai_min i \<or> ai_min i = 0 then i\<lparr>ai_min := n\<rparr> else i) in
      if n > ai_max i then i\<lparr>ai_max := n\<rparr> else i)"

record mem = pool +
  mm_default :: allocator_info
  mm_container :: allocator_info

text \<open>A program on the pool, in the whole state.\<close>

definition on_pool :: "(pool, 'a) prog \<Rightarrow> (mem, 'a) prog" where
  "on_pool m s =
     (case m (pool.truncate s) of (r, p) \<Rightarrow> (r, pool.extend p \<lparr>mm_default = mm_default s, mm_container = mm_container s\<rparr>))"

section \<open>Operators and containers\<close>

text \<open>What an allocating call gives: it throws \<open>bad_alloc\<close>, or returns a null pointer or a block.\<close>

datatype allocated = Bad_alloc | Null | Block block

definition allocator_malloc :: "bool \<Rightarrow> bool \<Rightarrow> nat \<Rightarrow> nat option \<Rightarrow> nat \<Rightarrow> (mem, block option) prog" where
  "allocator_malloc raw created align got n =
     (if n = 0 then ret None
      else
        bnd (modify (\<lambda>s. s\<lparr>mm_default := count_alloc n (mm_default s)\<rparr>)) (\<lambda>_.
        on_pool (pool_malloc raw created align got n)))"

definition allocator_free :: "block option \<Rightarrow> (mem, unit) prog" where
  "allocator_free p =
     (if p = None then ret ()
      else
        bnd (modify (\<lambda>s. s\<lparr>mm_default := (mm_default s)\<lparr>ai_frees := ai_frees (mm_default s) + 1\<rparr>\<rparr>)) (\<lambda>_.
        on_pool (pool_free p)))"

definition operator_new :: "bool \<Rightarrow> bool \<Rightarrow> nat \<Rightarrow> nat option \<Rightarrow> nat \<Rightarrow> (mem, allocated) prog" where
  "operator_new raw created align got n =
     bnd (allocator_malloc raw created align got n) (\<lambda>p.
     case p of None \<Rightarrow> ret Bad_alloc | Some b \<Rightarrow> ret (Block b))"

definition operator_new_nothrow :: "bool \<Rightarrow> bool \<Rightarrow> nat \<Rightarrow> nat option \<Rightarrow> nat \<Rightarrow> (mem, allocated) prog" where
  "operator_new_nothrow raw created align got n =
     bnd (allocator_malloc raw created align got n) (\<lambda>p.
     case p of None \<Rightarrow> ret Null | Some b \<Rightarrow> ret (Block b))"

definition operator_delete :: "block option \<Rightarrow> (mem, unit) prog" where
  "operator_delete p = allocator_free p"

text \<open>\<open>ContainerAllocator\<close> for elements of \<open>esz\<close> bytes, where \<open>size_t\<close> has \<open>W\<close> bits; \<open>pooled\<close> is the
  configuration. Without it the block comes from the global operator.\<close>

definition container_allocate ::
  "nat \<Rightarrow> bool \<Rightarrow> nat \<Rightarrow> bool \<Rightarrow> bool \<Rightarrow> nat \<Rightarrow> nat option \<Rightarrow> nat \<Rightarrow> (mem, allocated) prog" where
  "container_allocate W pooled esz raw created align got n =
     (if n = 0 then ret Null
      else
        let size = n * esz mod 2 ^ W in
        bnd (modify (\<lambda>s. s\<lparr>mm_container := count_alloc size (mm_container s)\<rparr>)) (\<lambda>_.
        if pooled
        then bnd (on_pool (pool_malloc raw created align got size)) (\<lambda>p.
          case p of None \<Rightarrow> ret Bad_alloc | Some b \<Rightarrow> ret (Block b))
        else operator_new raw created align got size))"

definition container_deallocate :: "nat \<Rightarrow> bool \<Rightarrow> nat \<Rightarrow> block option \<Rightarrow> nat \<Rightarrow> (mem, unit) prog" where
  "container_deallocate W pooled esz p n =
     (if p = None then ret ()
      else
        let size = n * esz mod 2 ^ W in
        bnd (modify (\<lambda>s. s\<lparr>mm_container := (mm_container s)
          \<lparr>ai_frees := ai_frees (mm_container s) + 1, ai_total := ai_total (mm_container s) - of_nat size\<rparr>\<rparr>)) (\<lambda>_.
        if pooled then on_pool (pool_free p) else operator_delete p))"

section \<open>Properties\<close>

text \<open>Calls on the pool, with the blocks that are in use: the caller frees a block it holds.\<close>

datatype pool_op = Alloc bool bool nat "nat option" nat | Free nat

definition pool_step :: "pool_op \<Rightarrow> pool \<times> block list \<Rightarrow> pool \<times> block list" where
  "pool_step op = (\<lambda>(s, live).
     case op of
       Alloc raw created align got room \<Rightarrow>
         (case pool_malloc raw created align got room s of
            (Ret (Some b), s') \<Rightarrow> (s', live @ [b])
          | (r, s') \<Rightarrow> (s', live))
     | Free k \<Rightarrow>
         if k < length live then (snd (pool_free (Some (live ! k)) s), take k live @ drop (Suc k) live) else (s, live))"

definition pool_start :: "nat \<Rightarrow> pool" where
  "pool_start n = \<lparr>pl_init = False, pl_size = n, pl_tlsf = False, pl_alloc_fault = 0, pl_free_fault = 0, pl_freed = []\<rparr>"

definition pool_inv :: "pool \<times> block list \<Rightarrow> bool" where
  "pool_inv = (\<lambda>(s, live). (pl_init s \<or> \<not> pl_tlsf s \<and> live = []) \<and>
     (\<forall>b\<in>set live. fst b = (if pl_tlsf s then Tlsf else Libc)) \<and> (\<forall>(a, b)\<in>set (pl_freed s). fst b = a))"

definition set_up :: "bool \<Rightarrow> bool \<Rightarrow> nat \<Rightarrow> pool \<Rightarrow> pool" where
  "set_up raw created align s =
     (if pl_init s then s
      else
        let k = (if pl_size s = 0 then 1048576 else pl_size s) in
        s\<lparr>pl_init := True, pl_size := k - k mod align, pl_tlsf := if raw then created else pl_tlsf s\<rparr>)"

lemma pool_init_run: "pool_init raw created align s = (Ret (), set_up raw created align s)"
  by (simp add: pool_init_def set_up_def Let_def)

lemma malloc_run:
  "pool_malloc raw created align got room s =
     (if room = 0 then (Ret None, s)
      else let t = set_up raw created align s in
        if pl_tlsf t then (Ret (map_option (Pair Tlsf) got), t)
        else (Ret (map_option (Pair Libc) got), t\<lparr>pl_alloc_fault := pl_alloc_fault t + 1\<rparr>))"
  by (simp add: pool_malloc_def bnd_Ret[where m = "pool_init raw created align", OF pool_init_run] Let_def)

lemma pool_step_inv: "pool_inv p \<Longrightarrow> pool_inv (pool_step op p)"
proof (cases p)
  case (Pair s live)
  assume inv: "pool_inv p"
  show ?thesis
  proof (cases op)
    case (Alloc raw created align got room)
    then show ?thesis using inv unfolding Pair
      by (cases got) (auto simp: pool_step_def pool_inv_def malloc_run set_up_def Let_def)
  next
    case (Free k)
    have "k < length live \<Longrightarrow> live ! k \<in> set live" by simp
    then show ?thesis using inv unfolding Pair Free
      by (auto simp: pool_step_def pool_inv_def pool_free_def dest!: in_set_takeD in_set_dropD)
  qed
qed

text \<open>
  C34: Blocks go back to where they came from: whatever is allocated and freed, and whether or not TLSF could be set
  up at the first allocation, every block is freed by the allocator that made it, and a pool that is still not
  set up has no blocks.
\<close>

theorem pool_owner:
  assumes "(s, live) = fold pool_step ops (pool_start n, [])"
  shows "(\<forall>(a, b)\<in>set (pl_freed s). fst b = a) \<and> (\<forall>b\<in>set live. fst b = (if pl_tlsf s then Tlsf else Libc)) \<and>
    (\<not> pl_init s \<longrightarrow> live = [])"
proof -
  have "pool_inv p \<Longrightarrow> pool_inv (fold pool_step ops p)" for p
    by (induction ops arbitrary: p) (simp_all add: pool_step_inv)
  moreover have "pool_inv (pool_start n, [])" by (simp add: pool_inv_def pool_start_def)
  ultimately have "pool_inv (s, live)" using assms by simp
  then show ?thesis by (auto simp: pool_inv_def)
qed

theorem pool_owner_witness:
  "fst (snd (hd (pl_freed (fst (fold pool_step [Alloc True True 8 (Some 64) 10, Alloc True True 8 None 5, Free 0] (pool_start 100, [])))))) = Tlsf"
proof -
  let ?p = "fold pool_step [Alloc True True 8 (Some 64) 10, Alloc True True 8 None 5, Free 0] (pool_start 100, [])"
  have p: "?p = (pool_start 100\<lparr>pl_init := True, pl_size := 96, pl_tlsf := True, pl_freed := [(Tlsf, Tlsf, 64)]\<rparr>, [])"
    by (simp add: pool_step_def malloc_run set_up_def pool_free_def pool_start_def Let_def)
  show ?thesis using pool_owner[of "fst ?p" "snd ?p" "[Alloc True True 8 (Some 64) 10, Alloc True True 8 None 5, Free 0]" 100]
    unfolding p by simp
qed

text \<open>The statistics of any allocations with sizes above zero: count and total up to the width of their counters, and the
  exact least and greatest size.\<close>

lemma statistics_from:
  "\<forall>n\<in>set ns. 0 < n \<Longrightarrow> j = fold count_alloc ns i \<Longrightarrow>
   ai_allocs j = ai_allocs i + of_nat (length ns) \<and> ai_total j = ai_total i + of_nat (sum_list ns) \<and>
   ai_max j = fold max ns (ai_max i) \<and> (ai_min i \<noteq> 0 \<longrightarrow> ai_min j = fold min ns (ai_min i)) \<and>
   (ai_min i = 0 \<longrightarrow> ns \<noteq> [] \<longrightarrow> ai_min j = fold min (tl ns) (hd ns))"
proof (induction ns arbitrary: i)
  case (Cons n ns)
  let ?i = "count_alloc n i"
  have 1: "ai_allocs ?i = ai_allocs i + 1" "ai_total ?i = ai_total i + of_nat n" "ai_max ?i = max n (ai_max i)"
    "ai_min ?i = (if ai_min i = 0 then n else min n (ai_min i))"
    by (simp_all add: count_alloc_def Let_def)
  have "ai_min ?i \<noteq> 0" using Cons.prems(1) 1(4) by (simp add: min_def)
  then show ?case using Cons.IH[of ?i] Cons.prems 1 by (simp add: algebra_simps)
qed simp

lemma statistics:
  assumes "ns \<noteq> []" "\<forall>n\<in>set ns. 0 < n" "i = fold count_alloc ns no_info"
  shows "ai_allocs i = of_nat (length ns) \<and> ai_total i = of_nat (sum_list ns) \<and> ai_min i = Min (set ns) \<and> ai_max i = Max (set ns)"
proof -
  have "fold min (tl ns) (hd ns) = Min (set ns)" using assms(1) by (metis Min.set_eq_fold list.collapse)
  moreover have "fold max ns 0 = Max (set ns)"
  proof -
    have "fold max (0 # ns) 0 = Max (set (0 # ns))" by (metis Max.set_eq_fold fold_simps(2) max.idem)
    then show ?thesis using assms(1) by (simp add: Max.insert)
  qed
  ultimately show ?thesis using statistics_from[OF assms(2,3)] assms(1) by (simp add: no_info_def)
qed

text \<open>An allocation of no bytes, which the standard has return a pointer, throws.\<close>

lemma new_zero: "operator_new raw created align got 0 s = (Ret Bad_alloc, s)"
  by (simp add: operator_new_def allocator_malloc_def)

end
