(* ===== verification/Spec2Isabelle.thy ===== *)
theory Spec2Isabelle
  imports CowBytes Crc Routing Request Tcp Oled Boot Flood MainLoop BleRing Locking Hal RadioPort Constants Log Memory
begin

text \<open>
  \<^bold>\<open>A model of RTReticulum\<close>

  RTReticulum is a C++ implementation of the Reticulum network stack for small devices (src/ and include/ of
  the repository) with a firmware for one board (firmware/heltec_v3). Paths in this development are relative
  to the repository; src/ and include/ are the library's, firmware/ stands for firmware/heltec_v3/main.

  \<^bold>\<open>The program and its theories\<close>

  A node holds identities (two key pairs) and destinations (an identity, a name, a hash). It announces its
  destinations; the transport of every node that hears an announce checks it, enters a path and passes it
  on. Data, link requests and proofs are packets addressed to a destination or a link; links carry
  encrypted data, requests and resources (payloads cut into chunks). Interfaces bring frames to the
  transport and take frames from it. The theories follow these parts, each after those it calls:

  \<^item> Prelude: result type (value, exception, fault), programs that pass a state and keep it across
    an exception, heaps of objects, big-endian bytes, and the simulation interface.
  \<^item> ByteBuf, CowBytes: bytes.h and bytes.cpp; values, and the copy-on-write sharing underneath.
  \<^item> Crc, MsgPack: crc.cpp and msgpack.cpp.
  \<^item> Types, Constants, Platform: the constants of type.h that are used, and the others; hal.h, os.cpp and the cryptographic
    primitives as a record of functions with named laws.
  \<^item> Crypto: the wrappers of src/cryptography (token, fernet, HKDF, HMAC, padding, key classes).
  \<^item> Identity, Destination, Packet: the files of those names, with filesystem.cpp and posix.cpp in Identity
    and \<open>Destination::announce\<close>, which makes a packet, in Packet.
  \<^item> Link, LinkSession, Request, Resource: link.cpp and resource.cpp. Link and Resource hold the operations;
    LinkSession the two-node properties and the step relation of a link's life; Request the
    request and response exchange.
  \<^item> Transport, Announce, Routing: transport.cpp, interface.cpp and loopback.cpp. Transport holds the state
    (interfaces, destinations, paths, links, seen announces) and the dispatch; the other two what it
    guarantees for announces and for tables, data and forwarding.
  \<^item> Locking: the lock of transport.cpp under the accesses of any number of tasks.
  \<^item> Runtime, Log, Decimal, Memory: reticulum.cpp, log.cpp, the number formats of snprintf, memory.cpp.
  \<^item> Hal: the three ports of hal.h (port/posix, port/esp_idf, port/freertos).
  \<^item> Framing, Tcp, Lora, RNode, Ble: the firmware's interfaces and its two RNode bridges; Framing is the
    interface both byte-stream parsers (HDLC, KISS) provide. BleRing takes the BLE bridge's receive ring apart
    into the accesses of its two tasks; RadioPort is what RadioLib is given of the ESP-IDF drivers.
  \<^item> Oled, Page, Settings, Board: the display, the NomadNet page and node, what is kept in flash
    (identity, Wi-Fi credentials, update address), and the main program's callbacks and loop.
  \<^item> Peers: the callbacks as the application of the transport, and two boards that meet; Flood: the flood of an
    announce, also by a board; MainLoop: the loop of Board with the transport as its receiver, and how a turn ends.
  \<^item> Boot: \<open>app_main\<close> of the three builds, from power-on to the loop or the bridge, and two boards that start.

  \<^bold>\<open>How code is modelled\<close>

  An operation is a program \<open>'s \<Rightarrow> 'a res \<times> 's\<close>: a value, a thrown exception with its message, or a fault
  (a read or write outside a buffer, a null pointer, a division by zero) and the state that is left, so that
  what an operation has done before an exception stays done. The state records extend one another along the
  code's layers: entropy and clock, known destinations and files, destination heap, link heap,
  resource heap, transport tables, node, board. Shared objects (\<open>shared_ptr\<close>) are entries of a heap, handles
  are indices; objects with one owner are values. Integers keep their widths (words) wherever the code's
  width can be seen; counters of bytes sent are natural numbers. Callbacks are numbers that the state
  stores, and a record of programs (\<open>app\<close>) says what they do; what a component calls outside itself
  (broadcast, registration, delivery) is an argument in its own theory and is instantiated by the transport's
  operations where components are put together (Announce, Routing, Page, Board, Peers, Flood, MainLoop, Boot). What a callback must keep is a
  named condition (\<open>reports\<close> for announces, \<open>safe_app\<close> for the tables), shown of the firmware's callbacks where
  they have it.

  Code that is not in the repository is a parameter. The primitives of mbedtls and monocypher are the
  record \<open>ext\<close>, with laws that state lengths, that decryption undoes encryption, that both sides of a key
  exchange agree and that signatures verify; nothing is assumed about unforgeability or collisions, and no
  property needs it. The HAL's entropy may depend on the number of the call. RadioLib, NimBLE, sockets, I2C,
  NVS, TLSF and the Wi-Fi driver appear as the results of their calls. A toy instance of the laws, with which
  all witnesses are evaluated, shows that they can hold.

  \<^bold>\<open>Bounds\<close>

  A loopback interface delivers a frame inside the call that sends it, so receiving is recursive in the code;
  the model's receive function has a bound on the nesting, and running out of it is a fault of its
  own. A flooded announce needs two nested calls when the announce callback is orderly, as the firmware's is, since a copy
  that comes back is known and dropped; delivery and device interfaces need none; data on a path that leads back to the node is shown to exhaust every
  bound. Skipping a MessagePack value is recursive in the nesting of arrays: the model's depth is the number of
  bytes left plus one, and every level consumes a byte. Everything else is structural recursion over lists, and the
  loops that wait for the outside world (bridge, main loop, task) are step relations or one turn at a time.
  \<open>W\<close>, the width of \<open>size_t\<close>, is an argument where it matters.

  \<^bold>\<open>What is shown\<close>

  \<^item> Encodings: hexadecimal, MessagePack values of any nesting, packets, framing and the token survive
    their round trips; unpacking accepts exactly the frames with their whole header; parsers never read
    outside their buffer and always end; the checksum is the table-driven one and finds short bursts.
  \<^item> Sharing: copy-on-write gives the values of plain buffers, by a simulation, and no operation is seen
    through another handle.
  \<^item> Cryptography: a token is opened only with a correct MAC; encryption to a public key is
    undone by its identity; identities survive files and flash.
  \<^item> Announces: which are accepted (signature and hash derivation) and what they change; one is passed on
    once over every other device interface, below 128 hops, after what the announce callback sends; a node that
    receives the frame of an announce can send data that its owner receives.
  \<^item> Links: both sides of a handshake hold the same session key; data and responses arrive; every link of
    a node stays well formed through any sequence of operations, and a link that no longer waits keeps its state; which proofs
    decide a pending link; resources arrive complete, in any order behind the head, once.
  \<^item> Transport: every path leads to a known destination whose hash is derived from the recorded key,
    whatever frames arrive.
  \<^item> Firmware: streams of frames arrive on the TCP link however they are cut into reads, and byte by byte on the serial
    one; the bridges' radio settings and turns; display calls stay in their buffer and show their text; the page is its
    texts up to the buffer; a turn of the main loop completes, restarts the board, or ends by what receiving a frame
    throws, which a forged frame does; turns that complete announce at their pace; a board that hears another
    opens a link to it through both transports and sends its greeting, which arrives. A start leads to a state
    of the runs these are about, or halts without a radio, whatever has to be erased from flash first, and two boards that start get from power-on to that greeting; the BLE bridge is a bounded queue before its parser, also
    when its two tasks interleave.
  \<^item> Tasks and memory: at most one task runs, and a stop request that is not lost ends it; once the transport's
    mutex is there, at most one task is inside its operations, which may call each other; blocks are
    freed by the allocator that made them.
  \<^item> Ports: clocks that do not go back, random bytes that are never short, mutexes that leave nothing behind; one device on
    the radio's bus, busy waits of at least their time.

  Interfaces are locales, each interpreted on the model: simulation (copy-on-write bytes, the receive ring),
  session cipher (token), framing (HDLC, KISS), registry (destinations, links), uptime (two clocks) and handles
  (the ports' mutexes).

  \<^bold>\<open>Where the code deviates\<close>

  Some properties state behaviour that is not what the code means to do: a link's proof or data forged
  by anyone closes it or raises an exception into the receive loop, where nothing catches it, so that one frame ends the
  main loop; data can circle for ever; resource
  and data frames can exceed the MTU; the bridge's radio is never polled; the page's remaining size can wrap;
  the counter of received link data stays at zero since the node's handler replaces the main program's; a start can swallow a stop request;
  a network's name can lose its last byte; tasks that enter the transport together for the first time can each make a
  mutex; the FreeRTOS clock starts again from zero.

  \<^bold>\<open>Not modelled\<close>

  The board's interfaces are devices whose \<open>if_out\<close> holds the frames handed to them, and \<open>queued\<close> means handed over:
  that LoRa drops a frame when its queue is full and TCP when it is not connected is in Lora and Tcp, which are not
  composed with Board; in the same way the frames a turn's polls hand on are an argument of the turn. Counters of bytes,
  the size a resource receiver adds up and the display's pixel columns are unbounded numbers. The mutex attributes of the
  POSIX port are taken to be made. In the life of a link the application's callbacks leave the link objects alone.

  Left out are power management, pin set-up and the driver configurations of the firmware's start; log lines written from within
  operations, watchdog and sleeping, which have no effect on values; floating-point helpers of os.cpp; the interleaving
  of whole operations (the transport's lock makes each of its calls atomic, so that the steps of the model are the
  steps of the code; the main loop's access to the outgoing link's handle is not locked and is left out); the
  floating-point constants of type.h; vendored libraries, tests and the example.
\<close>

end
